(* ===== verification/Sentinel_Prelude.thy ===== *)
theory Sentinel_Prelude
  imports
    Main
    "HOL-Library.AList"
    "HOL-Library.Char_ord"
    "HOL-Library.List_Lexorder"
    "HOL-Library.Word"
begin

text \<open>
  Shared vocabulary of the development: the types that several components of
  \<^verbatim>\<open>backend-rs/src\<close> use (clocks, byte strings, hash maps and ordered maps),
  the interface of a keyed map as a locale with its two implementations, and the
  generic lemmas on lists, association lists and strings the component theories
  rest on.

  \<^item> A Rust \<open>String\<close> is a UTF-8 byte sequence; it is a \<open>string\<close>, one \<open>char\<close> per byte.
    Rust compares strings byte by byte, which is the order of
    \<^verbatim>\<open>HOL-Library.List_Lexorder\<close> over \<^verbatim>\<open>HOL-Library.Char_ord\<close>.
  \<^item> An \<open>Instant\<close> is a number of nanoseconds on a monotonic clock and a \<open>Duration\<close> a
    number of nanoseconds; every operation that reads the clock takes the instant as
    an argument. \<open>Instant::duration_since\<close> saturates at zero.
  \<^item> A \<open>HashMap\<close> is an association list with distinct keys (its order stands for the
    arbitrary iteration order), a \<open>BTreeMap\<close> an association list whose keys are
    strictly increasing.
\<close>

named_theorems wf_intros \<open>operations keep the well-formedness of their state\<close>
named_theorems map_laws \<open>lookup after an update, a delete or a retain\<close>
named_theorems weight_laws \<open>weighted sums over keyed maps\<close>

section \<open>Clocks\<close>

type_synonym instant = int
type_synonym duration = int

definition from_secs :: "nat \<Rightarrow> duration" where
  "from_secs n = int n * 1000000000"

definition duration_since :: "instant \<Rightarrow> instant \<Rightarrow> duration" where
  "duration_since now earlier = max 0 (now - earlier)"

lemma from_secs_pos [simp]: "0 \<le> from_secs n"
  by (simp add: from_secs_def)

lemma duration_since_nonneg [simp]: "0 \<le> duration_since now t"
  by (simp add: duration_since_def)

lemma duration_since_less: "0 < d \<Longrightarrow> duration_since now t < d \<longleftrightarrow> now - d < t"
  by (auto simp: duration_since_def)

section \<open>Bytes and strings\<close>

type_synonym byte = "8 word"
type_synonym bytes = "byte list"

definition blen :: "bytes \<Rightarrow> int" where
  "blen b = int (length b)"

lemma blen_nonneg [simp]: "0 \<le> blen b"
  by (simp add: blen_def)

definition is_ascii_digit :: "char \<Rightarrow> bool" where
  "is_ascii_digit c \<longleftrightarrow> CHR ''0'' \<le> c \<and> c \<le> CHR ''9''"

definition digit_value :: "char \<Rightarrow> nat" where
  "digit_value c = of_char c - 48"

text \<open>\<open>str::strip_prefix\<close> and \<open>str::strip_suffix\<close>.\<close>

definition strip_prefix :: "string \<Rightarrow> string \<Rightarrow> string option" where
  "strip_prefix p s = (if take (length p) s = p then Some (drop (length p) s) else None)"

definition starts_with :: "string \<Rightarrow> string \<Rightarrow> bool" where
  "starts_with p s \<longleftrightarrow> take (length p) s = p"

definition strip_suffix :: "string \<Rightarrow> string \<Rightarrow> string option" where
  "strip_suffix p s = map_option rev (strip_prefix (rev p) (rev s))"

lemma strip_prefix_append [simp]: "strip_prefix p (p @ s) = Some s"
  by (simp add: strip_prefix_def)

lemma strip_prefix_Some: "strip_prefix p s = Some r \<longleftrightarrow> s = p @ r"
  by (auto simp: strip_prefix_def) (metis append_take_drop_id)

lemma strip_prefix_None: "strip_prefix p s = None \<longleftrightarrow> (\<forall>r. s \<noteq> p @ r)"
  by (metis not_Some_eq strip_prefix_Some)

lemma strip_suffix_append [simp]: "strip_suffix p (s @ p) = Some s"
  by (simp add: strip_suffix_def)

lemma strip_suffix_Some: "strip_suffix p s = Some r \<longleftrightarrow> s = r @ p"
  by (auto simp: strip_suffix_def strip_prefix_Some)
    (metis rev_append rev_rev_ident)

lemma starts_with_append [simp]: "starts_with p (p @ s)"
  by (simp add: starts_with_def)

lemma starts_with_iff: "starts_with p s \<longleftrightarrow> (\<exists>r. s = p @ r)"
  by (metis append_take_drop_id starts_with_append starts_with_def)

section \<open>Whitespace, digits and decimal numbers\<close>

text \<open>
  The code points with the Unicode \<open>White_Space\<close> property, as \<open>char::is_whitespace\<close>
  has them, in UTF-8. No encoding of one is the prefix or the suffix of another character,
  so \<open>str::trim\<close> is stripping these byte strings from either end.
\<close>

definition whitespace :: "string list" where
  "whitespace =
     [[CHR 0x09], [CHR 0x0A], [CHR 0x0B], [CHR 0x0C], [CHR 0x0D], [CHR 0x20],
      [CHR 0xC2, CHR 0x85], [CHR 0xC2, CHR 0xA0], [CHR 0xE1, CHR 0x9A, CHR 0x80],
      [CHR 0xE2, CHR 0x80, CHR 0x80], [CHR 0xE2, CHR 0x80, CHR 0x81], [CHR 0xE2, CHR 0x80, CHR 0x82],
      [CHR 0xE2, CHR 0x80, CHR 0x83], [CHR 0xE2, CHR 0x80, CHR 0x84], [CHR 0xE2, CHR 0x80, CHR 0x85],
      [CHR 0xE2, CHR 0x80, CHR 0x86], [CHR 0xE2, CHR 0x80, CHR 0x87], [CHR 0xE2, CHR 0x80, CHR 0x88],
      [CHR 0xE2, CHR 0x80, CHR 0x89], [CHR 0xE2, CHR 0x80, CHR 0x8A], [CHR 0xE2, CHR 0x80, CHR 0xA8],
      [CHR 0xE2, CHR 0x80, CHR 0xA9], [CHR 0xE2, CHR 0x80, CHR 0xAF], [CHR 0xE2, CHR 0x81, CHR 0x9F],
      [CHR 0xE3, CHR 0x80, CHR 0x80]]"

fun strip_one :: "string list \<Rightarrow> string \<Rightarrow> string option" where
  "strip_one [] s = None"
| "strip_one (w # ws) s = (case strip_prefix w s of Some r \<Rightarrow> Some r | None \<Rightarrow> strip_one ws s)"

lemma strip_one_shorter:
  "strip_one ws s = Some r \<Longrightarrow> [] \<notin> set ws \<Longrightarrow> length r < length s"
  by (induction ws) (auto simp: strip_prefix_Some split: option.splits)

function trim_with :: "string list \<Rightarrow> string \<Rightarrow> string" where
  "trim_with ws s =
     (case strip_one ws s of Some r \<Rightarrow> if [] \<in> set ws then r else trim_with ws r | None \<Rightarrow> s)"
  by pat_completeness auto
termination
  by (relation "measure (\<lambda>(ws, s). length s)") (auto intro: strip_one_shorter)

declare trim_with.simps [simp del]

definition trim_start :: "string \<Rightarrow> string" where
  "trim_start s = trim_with whitespace s"

definition trim_end :: "string \<Rightarrow> string" where
  "trim_end s = rev (trim_with (map rev whitespace) (rev s))"

definition trim :: "string \<Rightarrow> string" where
  "trim s = trim_end (trim_start s)"

lemma strip_one_None: "\<forall>w \<in> set ws. strip_prefix w s = None \<Longrightarrow> strip_one ws s = None"
  by (induction ws) auto

lemma trim_with_stop: "strip_one ws s = None \<Longrightarrow> trim_with ws s = s"
  by (subst trim_with.simps) simp

text \<open>A string of printable ASCII characters has no whitespace to trim.\<close>

definition plain_char :: "char \<Rightarrow> bool" where
  "plain_char c \<longleftrightarrow> 33 \<le> (of_char c :: nat) \<and> (of_char c :: nat) \<le> 126"

lemma whitespace_not_plain: "w \<in> set whitespace \<Longrightarrow> \<exists>c u. w = c # u \<and> \<not> plain_char c \<and> \<not> plain_char (last w)"
  by (simp add: whitespace_def plain_char_def) (elim disjE; simp)

text \<open>Spaces around a word go, and only they do.\<close>

lemma trim_start_stop:
  assumes "s \<noteq> []" "plain_char (hd s)"
  shows "trim_start s = s"
proof -
  have "strip_prefix w s = None" if "w \<in> set whitespace" for w
    using whitespace_not_plain [OF that] assms by (cases s) (auto simp: strip_prefix_None)
  then show ?thesis by (simp add: trim_start_def trim_with_stop strip_one_None)
qed

lemma trim_end_stop:
  assumes "s \<noteq> []" "plain_char (last s)"
  shows "trim_end s = s"
proof -
  have "strip_prefix (rev w) (rev s) = None" if ws: "w \<in> set whitespace" for w
  proof -
    obtain c u where w: "w = c # u" "\<not> plain_char (last w)" using whitespace_not_plain [OF ws] by auto
    then have "rev w \<noteq> []" "hd (rev w) = last w" by (simp_all add: hd_rev)
    moreover have "hd (rev s) = last s" using assms by (simp add: hd_rev)
    ultimately show ?thesis
      using assms w(2) by (auto simp: strip_prefix_None)
  qed
  then have "strip_one (map rev whitespace) (rev s) = None" by (intro strip_one_None) auto
  then show ?thesis by (simp add: trim_end_def trim_with_stop)
qed

lemma strip_space:
  "strip_one whitespace (CHR '' '' # s) = Some s"
  "strip_one (map rev whitespace) (CHR '' '' # s) = Some s"
  by (simp_all add: whitespace_def strip_prefix_def)

lemma whitespace_no_Nil: "[] \<notin> set whitespace" "[] \<notin> rev ` set whitespace"
  by (simp_all add: whitespace_def)

lemma trim_start_spaces: "trim_start (replicate i (CHR '' '') @ s) = trim_start s"
proof (induction i)
  case 0
  then show ?case by simp
next
  case (Suc i)
  then show ?case unfolding trim_start_def
    by (subst trim_with.simps) (simp add: strip_space whitespace_no_Nil)
qed

lemma trim_end_spaces: "trim_end (s @ replicate i (CHR '' '')) = trim_end s"
proof (induction i)
  case 0
  then show ?case by simp
next
  case (Suc i)
  have "rev (s @ replicate (Suc i) (CHR '' '')) = CHR '' '' # rev (s @ replicate i (CHR '' ''))"
    by (simp add: replicate_append_same)
  with Suc show ?case unfolding trim_end_def
    by (subst trim_with.simps) (simp add: strip_space whitespace_no_Nil)
qed

lemma trim_spaces:
  assumes "s \<noteq> []" "plain_char (hd s)" "plain_char (last s)"
  shows "trim (replicate i (CHR '' '') @ s @ replicate j (CHR '' '')) = s"
proof -
  have "trim_start (s @ replicate j (CHR '' '')) = s @ replicate j (CHR '' '')"
    using assms by (intro trim_start_stop) auto
  with assms show ?thesis by (simp add: trim_def trim_start_spaces trim_end_spaces trim_end_stop)
qed

lemma trim_Nil [simp]: "trim [] = []"
  by (simp add: trim_def trim_start_def trim_end_def trim_with_stop strip_one_None whitespace_def strip_prefix_def)

lemma trim_plain:
  assumes "\<forall>c \<in> set s. plain_char c"
  shows "trim s = s"
proof (cases "s = []")
  case False
  then show ?thesis using trim_spaces [of s 0 0] assms by simp
qed simp

text \<open>
  \<open>str::to_lowercase\<close> on ASCII letters. Other letters are left alone: no non-ASCII character
  lowers to an ASCII string the program compares with.
\<close>

definition to_lowercase :: "string \<Rightarrow> string" where
  "to_lowercase s = map (\<lambda>c. if CHR ''A'' \<le> c \<and> c \<le> CHR ''Z'' then char_of (of_char c + 32 :: nat) else c) s"

fun digits_value :: "string \<Rightarrow> nat" where
  "digits_value s = foldl (\<lambda>a c. 10 * a + digit_value c) 0 s"

lemma foldl_digits:
  "foldl (\<lambda>a c. 10 * a + digit_value c) a s = a * 10 ^ length s + digits_value s"
proof (induction s arbitrary: a)
  case Nil
  then show ?case by simp
next
  case (Cons c s)
  show ?case
    using Cons.IH [of "10 * a + digit_value c"] Cons.IH [of "digit_value c"]
    by (simp add: algebra_simps)
qed

lemma digits_value_Cons:
  "digits_value (c # s) = digit_value c * 10 ^ length s + digits_value s"
  using foldl_digits [of "digit_value c" s] by simp

declare digits_value.simps [simp del]

lemma digits_value_Nil [simp]: "digits_value [] = 0"
  by (simp add: digits_value.simps)

lemma is_ascii_digit_code: "is_ascii_digit c \<longleftrightarrow> 48 \<le> (of_char c :: nat) \<and> (of_char c :: nat) \<le> 57"
  by (simp add: is_ascii_digit_def less_eq_char_def)

lemma char_zero_code: "c = CHR ''0'' \<longleftrightarrow> (of_char c :: nat) = 48"
  using of_char_eq_iff [of c "CHR ''0''", where ?'a = nat] by simp

lemma digit_value_bound: "is_ascii_digit c \<Longrightarrow> digit_value c \<le> 9"
  by (auto simp: is_ascii_digit_code digit_value_def)

lemma digit_value_mono:
  "is_ascii_digit c \<Longrightarrow> is_ascii_digit d \<Longrightarrow> c < d \<Longrightarrow> digit_value c < digit_value d"
  by (auto simp: is_ascii_digit_code digit_value_def less_char_def)

lemma digits_value_bound: "\<forall>c \<in> set s. is_ascii_digit c \<Longrightarrow> digits_value s < 10 ^ length s"
proof (induction s)
  case Nil
  then show ?case by simp
next
  case (Cons c s)
  then have "digit_value c \<le> 9" and "digits_value s < 10 ^ length s"
    by (auto intro: digit_value_bound)
  then have "digit_value c * 10 ^ length s + digits_value s < 9 * 10 ^ length s + 10 ^ length s"
    by (intro add_le_less_mono mult_right_mono) auto
  then show ?case by (simp add: digits_value_Cons)
qed

lemma digits_value_lex:
  assumes "length s = length t" "s < t" "\<forall>c \<in> set s. is_ascii_digit c" "\<forall>c \<in> set t. is_ascii_digit c"
  shows "digits_value s < digits_value t"
  using assms
proof (induction s t rule: list_induct2)
  case Nil
  then show ?case by simp
next
  case (Cons c s d t)
  show ?case
  proof (cases "c < d")
    case True
    then have "Suc (digit_value c) \<le> digit_value d"
      using Cons.prems digit_value_mono [of c d] by simp
    then have "Suc (digit_value c) * 10 ^ length s \<le> digit_value d * 10 ^ length t"
      using Cons.hyps by (simp only: mult_right_mono)
    moreover have "digits_value s < 10 ^ length s"
      using Cons.prems by (intro digits_value_bound) simp
    ultimately show ?thesis
      by (simp add: digits_value_Cons)
  next
    case False
    with Cons show ?thesis by (simp add: digits_value_Cons Cons_less_Cons)
  qed
qed

lemma digits_value_longer:
  assumes "length s < length t" "\<forall>c \<in> set s. is_ascii_digit c" "\<forall>c \<in> set t. is_ascii_digit c"
    and "t = c # t'" "c \<noteq> CHR ''0''"
  shows "digits_value s < digits_value t"
proof -
  have "digits_value s < 10 ^ length s" using assms(2) by (rule digits_value_bound)
  also have "\<dots> \<le> 10 ^ length t'" using assms(1,4) by (intro power_increasing) auto
  also have "1 \<le> digit_value c"
    using assms(3,4,5) by (auto simp: is_ascii_digit_code digit_value_def char_zero_code)
  then have "10 ^ length t' \<le> digits_value t"
    using assms(4) by (simp add: digits_value_Cons trans_le_add1)
  finally show ?thesis .
qed

text \<open>Decimal output, as \<open>format!\<close> writes an integer.\<close>

definition digit_char :: "nat \<Rightarrow> char" where
  "digit_char d = char_of (48 + d)"

fun show_nat :: "nat \<Rightarrow> string" where
  "show_nat n = (if n < 10 then [digit_char n] else show_nat (n div 10) @ [digit_char (n mod 10)])"

declare show_nat.simps [simp del]

definition show_int :: "int \<Rightarrow> string" where
  "show_int i = (if i < 0 then CHR ''-'' # show_nat (nat (- i)) else show_nat (nat i))"

lemma of_char_digit_char: "d < 10 \<Longrightarrow> (of_char (digit_char d) :: nat) = 48 + d"
  by (simp add: digit_char_def)

lemma digit_char_props [simp]:
  "d < 10 \<Longrightarrow> is_ascii_digit (digit_char d)"
  "d < 10 \<Longrightarrow> digit_value (digit_char d) = d"
  "d < 10 \<Longrightarrow> digit_char d = CHR ''0'' \<longleftrightarrow> d = 0"
  by (simp_all add: is_ascii_digit_code digit_value_def char_zero_code of_char_digit_char)

lemma digits_value_snoc: "digits_value (s @ [c]) = 10 * digits_value s + digit_value c"
  by (simp add: digits_value.simps)

lemma show_nat_digits: "\<forall>c \<in> set (show_nat n). is_ascii_digit c"
proof (induction n rule: show_nat.induct)
  case (1 n)
  then show ?case by (subst show_nat.simps) auto
qed

lemma show_nat_value: "digits_value (show_nat n) = n"
proof (induction n rule: show_nat.induct)
  case (1 n)
  show ?case
  proof (cases "n < 10")
    case True
    then show ?thesis by (subst show_nat.simps) (simp add: digits_value.simps)
  next
    case False
    with 1 have "digits_value (show_nat (n div 10)) = n div 10" by simp
    with False show ?thesis by (subst show_nat.simps) (simp add: digits_value_snoc)
  qed
qed

lemma show_nat_ne: "show_nat n \<noteq> []"
  by (subst show_nat.simps) simp

lemma show_nat_lead: "0 < n \<Longrightarrow> hd (show_nat n) \<noteq> CHR ''0''"
proof (induction n rule: show_nat.induct)
  case (1 n)
  show ?case
  proof (cases "n < 10")
    case True
    with 1 show ?thesis by (subst show_nat.simps) simp
  next
    case False
    with 1 have "hd (show_nat (n div 10)) \<noteq> CHR ''0''" by simp
    with False show ?thesis by (subst show_nat.simps) (simp add: show_nat_ne)
  qed
qed

lemma show_nat_0: "show_nat 0 = ''0''"
  by (subst show_nat.simps) simp

section \<open>Sorted lists\<close>

lemma sorted_last_max: "sorted xs \<Longrightarrow> y \<in> set xs \<Longrightarrow> y \<le> last xs"
  by (induction xs) auto

lemma sorted_split_greatest:
  fixes x :: "'a::linorder"
  assumes "sorted xs" "distinct xs" "x \<in> set xs" "\<And>y. y \<in> set xs \<Longrightarrow> y \<noteq> x \<Longrightarrow> y < x"
  obtains ys where "xs = ys @ [x]" "x \<notin> set ys"
proof -
  have ne: "xs \<noteq> []" using assms(3) by auto
  have "x \<le> last xs" using assms(1,3) by (rule sorted_last_max)
  then have "last xs = x" using assms(4) [of "last xs"] ne by (metis last_in_set not_le)
  then have "xs = butlast xs @ [x]" using ne by (metis append_butlast_last_id)
  moreover from this assms(2) have "x \<notin> set (butlast xs)"
    by (metis distinct_append disjoint_iff list.set_intros(1))
  ultimately show thesis by (rule that)
qed

section \<open>Keyed maps\<close>

text \<open>
  A weighted sum over an association list; \<open>sum of body.len()\<close> over a map is
  the instance the segment cache uses.
\<close>

definition weight :: "('k \<Rightarrow> 'v \<Rightarrow> int) \<Rightarrow> ('k \<times> 'v) list \<Rightarrow> int" where
  "weight w m = (\<Sum>(k, v) \<leftarrow> m. w k v)"

lemma weight_Nil [simp]: "weight w [] = 0"
  by (simp add: weight_def)

lemma weight_Cons [simp]: "weight w ((k, v) # m) = w k v + weight w m"
  by (simp add: weight_def)

lemma weight_append: "weight w (xs @ ys) = weight w xs + weight w ys"
  by (simp add: weight_def)

lemma weight_nonneg: "(\<And>k v. 0 \<le> w k v) \<Longrightarrow> 0 \<le> weight w m"
  by (induction m) auto

lemma weight_dom:
  assumes "distinct (map fst m)"
  shows "weight w m = (\<Sum>k \<in> dom (map_of m). w k (the (map_of m k)))"
  using assms
proof (induction m)
  case Nil
  then show ?case by simp
next
  case (Cons p m)
  obtain k v where p: "p = (k, v)" by (cases p)
  with Cons.prems have nin: "k \<notin> dom (map_of m)" and d: "distinct (map fst m)"
    by (auto simp: dom_map_of_conv_image_fst)
  have "(\<Sum>j \<in> dom (map_of m). w j (the (map_of (p # m) j))) =
        (\<Sum>j \<in> dom (map_of m). w j (the (map_of m j)))"
    using nin p by (intro sum.cong) auto
  moreover have "dom (map_of (p # m)) = insert k (dom (map_of m))"
    using p by auto
  ultimately show ?case
    using p Cons.IH [OF d]
    by (simp add: sum.insert [OF finite_dom_map_of nin] fun_upd_def)
qed

lemma weight_filter_le:
  "(\<And>k v. 0 \<le> w k v) \<Longrightarrow> weight w (filter P m) \<le> weight w m"
  by (induction m) (auto simp: weight_def add_increasing)

lemma weight_delete [weight_laws]:
  assumes "distinct (map fst m)"
  shows "weight w (AList.delete k m) =
    weight w m - (case map_of m k of None \<Rightarrow> 0 | Some v \<Rightarrow> w k v)"
  using assms
proof (induction m)
  case Nil
  then show ?case by (simp add: AList.delete_eq)
next
  case (Cons p m)
  obtain j v where p: "p = (j, v)" by (cases p)
  have "j \<notin> dom (map_of m)" if "j = k"
    using Cons.prems p by (auto simp: dom_map_of_conv_image_fst)
  then have "AList.delete j m = m" if "j = k"
    using that by (simp add: AList.delete_idem dom_map_of_conv_image_fst)
  with p Cons show ?case
    by (auto simp: AList.delete_eq split: option.splits)
qed

lemma map_of_delete [map_laws]: "map_of (AList.delete k m) = (map_of m)(k := None)"
  by (rule AList.delete_conv')

lemma map_of_filter_keys [map_laws]:
  "distinct (map fst m) \<Longrightarrow>
   map_of (filter (\<lambda>(k, v). P k v) m) k =
     (case map_of m k of Some v \<Rightarrow> if P k v then Some v else None | None \<Rightarrow> None)"
proof (induction m)
  case Nil
  then show ?case by simp
next
  case (Cons p m)
  obtain j v where p: "p = (j, v)" by (cases p)
  have "map_of m j = None"
    using Cons.prems p by (auto simp: map_of_eq_None_iff)
  with p Cons show ?case by (auto split: option.splits)
qed

lemma distinct_fst_filter [wf_intros]:
  "distinct (map fst m) \<Longrightarrow> distinct (map fst (filter P m))"
  by (induction m) auto

lemma distinct_fst_delete [wf_intros]:
  "distinct (map fst m) \<Longrightarrow> distinct (map fst (AList.delete k m))"
  by (rule AList.distinct_delete)

lemma length_delete_le: "length (AList.delete k m) \<le> length m"
  by (rule AList.length_delete_le)

text \<open>
  The contract of a keyed map: a \<open>put\<close> that keeps the representation's invariant
  and whose lookup is the updated lookup. Both map representations of the
  development implement it, and the sum and size laws are proved once, here.
\<close>

locale keyed_map =
  fixes put :: "'k \<Rightarrow> 'v \<Rightarrow> ('k \<times> 'v) list \<Rightarrow> ('k \<times> 'v) list"
    and ok :: "('k \<times> 'v) list \<Rightarrow> bool"
  assumes ok_Nil: "ok []"
    and ok_distinct: "ok m \<Longrightarrow> distinct (map fst m)"
    and ok_put: "ok m \<Longrightarrow> ok (put k v m)"
    and ok_filter: "ok m \<Longrightarrow> ok (filter P m)"
    and map_of_put: "ok m \<Longrightarrow> map_of (put k v m) = (map_of m)(k \<mapsto> v)"
begin

lemma ok_delete: "ok m \<Longrightarrow> ok (AList.delete k m)"
  by (simp add: AList.delete_eq ok_filter)

lemma set_put: "ok m \<Longrightarrow> set (put k v m) = insert (k, v) {p \<in> set m. fst p \<noteq> k}"
proof -
  assume m: "ok m"
  have dm: "distinct (map fst m)" and dp: "distinct (map fst (put k v m))"
    using m by (simp_all add: ok_distinct ok_put)
  have "p \<in> set (put k v m) \<longleftrightarrow> p \<in> insert (k, v) {p \<in> set m. fst p \<noteq> k}" for p
  proof (cases p)
    case (Pair j u)
    have "p \<in> set (put k v m) \<longleftrightarrow> map_of (put k v m) j = Some u"
      using dp Pair by simp
    also have "\<dots> \<longleftrightarrow> ((map_of m)(k \<mapsto> v)) j = Some u"
      using m by (simp add: map_of_put)
    also have "\<dots> \<longleftrightarrow> p \<in> insert (k, v) {p \<in> set m. fst p \<noteq> k}"
      using dm Pair by (cases "j = k") auto
    finally show ?thesis .
  qed
  then show ?thesis by blast
qed

lemma weight_put:
  assumes "ok m"
  shows "weight w (put k v m) =
    weight w m - (case map_of m k of None \<Rightarrow> 0 | Some u \<Rightarrow> w k u) + w k v"
proof -
  have dm: "distinct (map fst m)" and dp: "distinct (map fst (put k v m))"
    using assms by (simp_all add: ok_distinct ok_put)
  let ?f = "\<lambda>j. w j (the (map_of m j))"
  have fin: "finite (dom (map_of m))" by (rule finite_dom_map_of)
  have "weight w (put k v m) = (\<Sum>j \<in> insert k (dom (map_of m)). w j (the (((map_of m)(k \<mapsto> v)) j)))"
    using dp assms by (simp add: weight_dom map_of_put)
  also have "\<dots> = w k v + (\<Sum>j \<in> dom (map_of m) - {k}. w j (the (((map_of m)(k \<mapsto> v)) j)))"
    using fin by (simp add: sum.insert_remove)
  also have "(\<Sum>j \<in> dom (map_of m) - {k}. w j (the (((map_of m)(k \<mapsto> v)) j))) = sum ?f (dom (map_of m) - {k})"
    by (intro sum.cong) auto
  also have "\<dots> = weight w m - (case map_of m k of None \<Rightarrow> 0 | Some u \<Rightarrow> w k u)"
    using dm fin by (cases "map_of m k") (auto simp: weight_dom sum_diff1 dom_def)
  finally show ?thesis by simp
qed

lemma length_put:
  assumes "ok m"
  shows "length (put k v m) = length m + (if map_of m k = None then 1 else 0)"
proof -
  have "int (length l) = weight (\<lambda>_ _. 1) l" for l :: "('k \<times> 'v) list"
    by (induction l) auto
  then have "int (length (put k v m)) = int (length m) + (if map_of m k = None then 1 else 0)"
    using weight_put [OF assms, of "\<lambda>_ _. 1" k v] by (simp split: option.splits)
  then show ?thesis by (simp split: if_splits)
qed

end

text \<open>\<open>HashMap::insert\<close> on an association list with distinct keys.\<close>

abbreviation hash_ok :: "('k \<times> 'v) list \<Rightarrow> bool" where
  "hash_ok m \<equiv> distinct (map fst m)"

interpretation hash: keyed_map AList.update hash_ok
proof unfold_locales
  fix m :: "('k \<times> 'v) list" and P
  show "distinct (map fst m) \<Longrightarrow> distinct (map fst (filter P m))"
    by (rule distinct_fst_filter)
qed (simp_all add: AList.distinct_update AList.update_conv')

text \<open>\<open>BTreeMap::insert\<close>: the entry goes to its place in the key order.\<close>

fun btree_insert :: "'k::linorder \<Rightarrow> 'v \<Rightarrow> ('k \<times> 'v) list \<Rightarrow> ('k \<times> 'v) list" where
  "btree_insert k v [] = [(k, v)]"
| "btree_insert k v ((j, u) # m) =
     (if k < j then (k, v) # (j, u) # m
      else if k = j then (k, v) # m
      else (j, u) # btree_insert k v m)"

abbreviation btree_ok :: "('k::linorder \<times> 'v) list \<Rightarrow> bool" where
  "btree_ok m \<equiv> sorted_wrt (<) (map fst m)"

lemma btree_ok_distinct: "btree_ok m \<Longrightarrow> distinct (map fst m)"
  by (simp add: strict_sorted_iff)

lemma fst_btree_insert: "fst ` set (btree_insert k v m) = insert k (fst ` set m)"
  by (induction k v m rule: btree_insert.induct) auto

lemma btree_ok_insert: "btree_ok m \<Longrightarrow> btree_ok (btree_insert k v m)"
proof (induction k v m rule: btree_insert.induct)
  case (1 k v)
  then show ?case by simp
next
  case (2 k v j u m)
  have "fst ` set (btree_insert k v m) = insert k (fst ` set m)"
    by (rule fst_btree_insert)
  with 2 show ?case
    by auto
qed

lemma map_of_btree_insert: "btree_ok m \<Longrightarrow> map_of (btree_insert k v m) = (map_of m)(k \<mapsto> v)"
  by (induction k v m rule: btree_insert.induct) (auto simp: fun_upd_twist)

lemma sorted_wrt_fst_filter: "sorted_wrt R (map fst m) \<Longrightarrow> sorted_wrt R (map fst (filter P m))"
  by (induction m) auto

interpretation btree: keyed_map btree_insert btree_ok
  by unfold_locales
    (simp_all add: btree_ok_distinct btree_ok_insert sorted_wrt_fst_filter map_of_btree_insert)

end
