(* ===== verification/Hls_Segments.thy ===== *)
theory Hls_Segments
  imports Sentinel_Prelude "HOL-Library.Product_Lexorder"
begin

text \<open>
  The segment cache of \<^verbatim>\<open>backend-rs/src/hls.rs\<close>: the order on segment names
  (\<open>SegmentName\<close>), the store (\<open>SegmentStore\<close>) and the operations on it
  (\<open>push_segment\<close> with its two eviction passes, \<open>segment\<close>, \<open>snapshot_recent\<close>,
  \<open>cleanup_camera\<close> and the stale sweep, restricted to the store; the other caches
  these two also touch are in \<^verbatim>\<open>Hls_Cache\<close>). The invariant is that the running byte
  total is the sum of the bodies held.
\<close>

section \<open>Segment names and their order\<close>

datatype segment_name = SegmentName string

fun sequence :: "segment_name \<Rightarrow> string" where
  "sequence (SegmentName s) =
     (let digits = (case strip_prefix ''segment_'' s of Some d \<Rightarrow> d | None \<Rightarrow> s)
      in dropWhile (\<lambda>c. c = CHR ''0'') (takeWhile is_ascii_digit digits))"

datatype ordering = Less | Equal | Greater

definition compare :: "'a::linorder \<Rightarrow> 'a \<Rightarrow> ordering" where
  "compare a b = (if a < b then Less else if a = b then Equal else Greater)"

definition then_with :: "ordering \<Rightarrow> ordering \<Rightarrow> ordering" where
  "then_with a b = (if a = Equal then b else a)"

fun segment_cmp :: "segment_name \<Rightarrow> segment_name \<Rightarrow> ordering" where
  "segment_cmp (SegmentName s) (SegmentName t) =
     (let a = sequence (SegmentName s); b = sequence (SegmentName t)
      in then_with (then_with (compare (length a) (length b)) (compare a b)) (compare s t))"

text \<open>The comparison is the lexicographic order of a key, hence a total order.\<close>

fun segment_key :: "segment_name \<Rightarrow> nat \<times> string \<times> string" where
  "segment_key (SegmentName s) =
     (length (sequence (SegmentName s)), sequence (SegmentName s), s)"

lemma segment_cmp_key: "segment_cmp m n = compare (segment_key m) (segment_key n)"
  by (cases m; cases n) (auto simp: Let_def then_with_def compare_def)

lemma segment_key_inject: "segment_key m = segment_key n \<longleftrightarrow> m = n"
  by (cases m; cases n) auto

instantiation segment_name :: linorder
begin

definition less_eq_segment_name :: "segment_name \<Rightarrow> segment_name \<Rightarrow> bool" where
  "m \<le> n \<longleftrightarrow> segment_cmp m n \<noteq> Greater"

definition less_segment_name :: "segment_name \<Rightarrow> segment_name \<Rightarrow> bool" where
  "m < n \<longleftrightarrow> segment_cmp m n = Less"

instance
proof
  fix x y z :: segment_name
  have le: "m \<le> n \<longleftrightarrow> segment_key m \<le> segment_key n" for m n
    by (simp add: less_eq_segment_name_def segment_cmp_key compare_def not_less)
      (metis order.order_iff_strict not_le_imp_less)
  have ls: "m < n \<longleftrightarrow> segment_key m < segment_key n" for m n
    by (simp add: less_segment_name_def segment_cmp_key compare_def)
  show "x < y \<longleftrightarrow> x \<le> y \<and> \<not> y \<le> x" by (auto simp: le ls)
  show "x \<le> x" by (simp add: le)
  show "x \<le> y \<Longrightarrow> y \<le> z \<Longrightarrow> x \<le> z" by (auto simp: le intro: order_trans)
  show "x \<le> y \<Longrightarrow> y \<le> x \<Longrightarrow> x = y" by (simp add: le segment_key_inject [symmetric])
  show "x \<le> y \<or> y \<le> x" by (simp add: le linear)
qed

end

lemma segment_less_key: "m < n \<longleftrightarrow> segment_key m < segment_key n"
  by (simp add: less_segment_name_def segment_cmp_key compare_def)

section \<open>The store\<close>

type_synonym bucket = "(segment_name \<times> (bytes \<times> instant)) list"

record segment_store =
  cameras :: "(string \<times> bucket) list"
  byte_total :: int

definition empty_store :: segment_store where
  "empty_store = \<lparr>cameras = [], byte_total = 0\<rparr>"

definition bucket_bytes :: "bucket \<Rightarrow> int" where
  "bucket_bytes b = weight (\<lambda>_ e. blen (fst e)) b"

definition recompute_bytes :: "segment_store \<Rightarrow> int" where
  "recompute_bytes st = weight (\<lambda>_ b. bucket_bytes b) (cameras st)"

definition bucket_of :: "string \<Rightarrow> segment_store \<Rightarrow> bucket" where
  "bucket_of cam st = (case map_of (cameras st) cam of Some b \<Rightarrow> b | None \<Rightarrow> [])"

section \<open>Eviction\<close>

text \<open>\<open>evict_per_camera\<close>: its loop over the doomed names, then the function.\<close>

fun remove_doomed :: "segment_name list \<Rightarrow> bucket \<Rightarrow> int \<Rightarrow> bucket \<times> int" where
  "remove_doomed [] b tot = (b, tot)"
| "remove_doomed (f # fs) b tot =
     (case map_of b f of
        Some (body, _) \<Rightarrow> remove_doomed fs (AList.delete f b) (tot - blen body)
      | None \<Rightarrow> remove_doomed fs b tot)"

definition evict_per_camera :: "string \<Rightarrow> nat \<Rightarrow> segment_store \<Rightarrow> segment_store" where
  "evict_per_camera cam max_per_camera st =
     (case map_of (cameras st) cam of
        None \<Rightarrow> st
      | Some b \<Rightarrow>
          if length b \<le> max_per_camera then st
          else
            (let drop_count = length b - max_per_camera;
                 doomed = take drop_count (map fst b);
                 (b', tot) = remove_doomed doomed b (byte_total st)
             in st\<lparr>cameras := AList.update cam b' (cameras st), byte_total := tot\<rparr>))"

text \<open>
  \<open>(max_total_bytes as f64 * 0.95) as i64\<close>. The conversion rounds to 53 significant
  bits, half to even; the literal is the double \<open>8556839292003942 / 2\<^sup>5\<^sup>3\<close>; the product
  is rounded again and truncated towards zero.
\<close>

fun bit_len :: "nat \<Rightarrow> nat" where
  "bit_len n = (if n = 0 then 0 else Suc (bit_len (n div 2)))"

declare bit_len.simps [simp del]

definition round_half_even :: "nat \<Rightarrow> nat \<Rightarrow> nat" where
  "round_half_even n s =
     (let q = n div 2 ^ s; r = n mod 2 ^ s
      in if 2 * r > 2 ^ s \<or> (2 * r = 2 ^ s \<and> odd q) then q + 1 else q)"

definition to_f64 :: "nat \<Rightarrow> nat" where
  "to_f64 n = (let s = bit_len n - 53 in round_half_even n s * 2 ^ s)"

definition low_water :: "int \<Rightarrow> int" where
  "low_water max_total_bytes =
     sgn max_total_bytes *
       int (to_f64 (to_f64 (nat \<bar>max_total_bytes\<bar>) * 8556839292003942) div 2 ^ 53)"

type_synonym candidate = "instant \<times> string \<times> segment_name \<times> int"

definition candidates :: "segment_store \<Rightarrow> candidate list" where
  "candidates st =
     concat (map (\<lambda>(cam, b). map (\<lambda>(f, (body, ts)). (ts, cam, f, blen body)) b) (cameras st))"

fun evict_loop :: "int \<Rightarrow> candidate list \<Rightarrow> segment_store \<Rightarrow> nat \<Rightarrow> segment_store \<times> nat" where
  "evict_loop low [] st evicted = (st, evicted)"
| "evict_loop low ((_, cam, f, sz) # cs) st evicted =
     (if byte_total st \<le> low then (st, evicted)
      else (case map_of (cameras st) cam of
        None \<Rightarrow> evict_loop low cs st evicted
      | Some b \<Rightarrow>
          (let hit = map_of b f \<noteq> None;
               b' = AList.delete f b;
               cams = (if b' = [] then AList.delete cam (cameras st)
                       else AList.update cam b' (cameras st))
           in evict_loop low cs
                (st\<lparr>cameras := cams,
                    byte_total := (if hit then byte_total st - sz else byte_total st)\<rparr>)
                (if hit then evicted + 1 else evicted))))"

definition evict_global_oldest :: "int \<Rightarrow> segment_store \<Rightarrow> segment_store \<times> nat" where
  "evict_global_oldest max_total_bytes st =
     (if byte_total st \<le> max_total_bytes then (st, 0)
      else evict_loop (low_water max_total_bytes) (sort (candidates st)) st 0)"

section \<open>Operations\<close>

definition segment_count :: "string \<Rightarrow> segment_store \<Rightarrow> nat" where
  "segment_count cam st = (case map_of (cameras st) cam of Some b \<Rightarrow> length b | None \<Rightarrow> 0)"

definition insert_segment ::
    "string \<Rightarrow> string \<Rightarrow> bytes \<Rightarrow> instant \<Rightarrow> segment_store \<Rightarrow> segment_store" where
  "insert_segment cam filename body now st =
     (let b = bucket_of cam st;
          previous = map_of b (SegmentName filename);
          b' = btree_insert (SegmentName filename) (body, now) b;
          delta = blen body - (case previous of Some (old, _) \<Rightarrow> blen old | None \<Rightarrow> 0)
      in st\<lparr>cameras := AList.update cam b' (cameras st), byte_total := byte_total st + delta\<rparr>)"

definition push_segment ::
    "string \<Rightarrow> string \<Rightarrow> bytes \<Rightarrow> instant \<Rightarrow> nat \<Rightarrow> int \<Rightarrow> segment_store \<Rightarrow> segment_store \<times> nat" where
  "push_segment cam filename body now max_per_camera max_total_bytes st =
     (let st1 = insert_segment cam filename body now st;
          st2 = evict_per_camera cam max_per_camera st1;
          st3 = fst (evict_global_oldest max_total_bytes st2)
      in (st3, segment_count cam st3))"

definition segment :: "string \<Rightarrow> string \<Rightarrow> segment_store \<Rightarrow> bytes option" where
  "segment cam filename st =
     (case map_of (cameras st) cam of
        None \<Rightarrow> None
      | Some b \<Rightarrow> map_option fst (map_of b (SegmentName filename)))"

datatype snapshot = NoCamera | Segments "bytes list"

definition snapshot_recent :: "string \<Rightarrow> nat \<Rightarrow> segment_store \<Rightarrow> snapshot" where
  "snapshot_recent cam count st =
     (case map_of (cameras st) cam of
        None \<Rightarrow> NoCamera
      | Some b \<Rightarrow>
          if b = [] then NoCamera
          else if count = 0 then Segments []
          else Segments (map (\<lambda>(_, (body, _)). body) (drop (length b - count) b)))"

definition cleanup_store :: "string \<Rightarrow> segment_store \<Rightarrow> segment_store" where
  "cleanup_store cam st =
     (case map_of (cameras st) cam of
        None \<Rightarrow> st
      | Some b \<Rightarrow>
          st\<lparr>cameras := AList.delete cam (cameras st), byte_total := byte_total st - bucket_bytes b\<rparr>)"

definition STALE_CAMERA_AGE :: duration where
  "STALE_CAMERA_AGE = from_secs 60"

definition bucket_stale :: "instant \<Rightarrow> bucket \<Rightarrow> bool" where
  "bucket_stale cutoff b \<longleftrightarrow> b = [] \<or> Max (set (map (\<lambda>(_, (_, ts)). ts) b)) < cutoff"

definition stale_cameras :: "instant \<Rightarrow> segment_store \<Rightarrow> string list" where
  "stale_cameras now st =
     map fst (filter (\<lambda>(_, b). bucket_stale (now - STALE_CAMERA_AGE) b) (cameras st))"

definition evict_stale_store :: "instant \<Rightarrow> segment_store \<Rightarrow> segment_store \<times> string list" where
  "evict_stale_store now st =
     (let stale = stale_cameras now st;
          cams = fold AList.delete stale (cameras st);
          st' = st\<lparr>cameras := cams\<rparr>
      in (st'\<lparr>byte_total := recompute_bytes st'\<rparr>, stale))"

section \<open>The order is the order of sequence numbers\<close>

definition sequence_number :: "segment_name \<Rightarrow> nat" where
  "sequence_number n = digits_value (sequence n)"

lemma sequence_digits: "\<forall>c \<in> set (sequence n). is_ascii_digit c"
  by (cases n) (auto simp: Let_def dest!: set_dropWhileD set_takeWhileD)

lemma sequence_no_leading_zero: "sequence n = c # s \<Longrightarrow> c \<noteq> CHR ''0''"
  by (cases n) (auto simp: Let_def dropWhile_eq_Cons_conv)

lemma sequence_less:
  assumes "length (sequence m) < length (sequence n) \<or>
    length (sequence m) = length (sequence n) \<and> sequence m < sequence n"
  shows "sequence_number m < sequence_number n"
  using assms
proof
  assume l: "length (sequence m) < length (sequence n)"
  then obtain c t where "sequence n = c # t" by (cases "sequence n") auto
  with sequence_no_leading_zero [OF this] show ?thesis
    unfolding sequence_number_def
    by (intro digits_value_longer [OF l sequence_digits sequence_digits])
next
  assume "length (sequence m) = length (sequence n) \<and> sequence m < sequence n"
  then show ?thesis
    unfolding sequence_number_def by (intro digits_value_lex) (auto simp: sequence_digits)
qed

lemma less_if_sequence_number_less:
  assumes "sequence_number m < sequence_number n"
  shows "m < n"
proof -
  have "\<not> n \<le> m"
  proof
    assume "n \<le> m"
    then have "n = m \<or> segment_key n < segment_key m"
      by (metis order_le_less segment_less_key)
    then have "sequence_number n \<le> sequence_number m"
    proof
      assume "segment_key n < segment_key m"
      then have "sequence n = sequence m \<or> (length (sequence n) < length (sequence m) \<or>
          length (sequence n) = length (sequence m) \<and> sequence n < sequence m)"
        by (cases n; cases m) auto
      then show ?thesis using sequence_less [of n m] by (auto simp: sequence_number_def)
    qed simp
    with assms show False by simp
  qed
  then show ?thesis by simp
qed


section \<open>The invariant\<close>

definition store_wf :: "segment_store \<Rightarrow> bool" where
  "store_wf st \<longleftrightarrow>
     hash_ok (cameras st) \<and>
     (\<forall>(cam, b) \<in> set (cameras st). btree_ok b) \<and>
     byte_total st = recompute_bytes st"

text \<open>What a reader sees: the entry of a camera under a name.\<close>

definition entry :: "segment_store \<Rightarrow> string \<Rightarrow> segment_name \<Rightarrow> (bytes \<times> instant) option" where
  "entry st cam f = map_of (bucket_of cam st) f"

definition entry_size :: "(bytes \<times> instant) option \<Rightarrow> int" where
  "entry_size e = (case e of Some (body, _) \<Rightarrow> blen body | None \<Rightarrow> 0)"

lemma bucket_bytes_Nil [simp]: "bucket_bytes [] = 0"
  by (simp add: bucket_bytes_def)

lemma bucket_bytes_nonneg [simp]: "0 \<le> bucket_bytes b"
  by (simp add: bucket_bytes_def weight_nonneg)

lemma store_wf_empty [wf_intros]: "store_wf empty_store"
  by (simp add: store_wf_def empty_store_def recompute_bytes_def)

lemma store_wf_nonneg: "store_wf st \<Longrightarrow> 0 \<le> byte_total st"
  by (simp add: store_wf_def recompute_bytes_def weight_nonneg)

lemma bucket_of_ok: "store_wf st \<Longrightarrow> btree_ok (bucket_of cam st)"
  by (auto simp: store_wf_def bucket_of_def split: option.splits dest: map_of_SomeD)

lemma bucket_of_update [simp]:
  "bucket_of c (st\<lparr>cameras := AList.update cam b (cameras st), byte_total := t\<rparr>) =
     (if c = cam then b else bucket_of c st)"
  by (simp add: bucket_of_def AList.update_conv')

lemma bucket_of_delete [simp]:
  "bucket_of c (st\<lparr>cameras := AList.delete cam (cameras st), byte_total := t\<rparr>) =
     (if c = cam then [] else bucket_of c st)"
  by (simp add: bucket_of_def AList.delete_conv')

lemma recompute_put:
  "hash_ok (cameras st) \<Longrightarrow>
   recompute_bytes (st\<lparr>cameras := AList.update cam b (cameras st), byte_total := t\<rparr>) =
     recompute_bytes st - bucket_bytes (bucket_of cam st) + bucket_bytes b"
  by (simp add: recompute_bytes_def hash.weight_put bucket_of_def split: option.splits)

lemma recompute_delete:
  "hash_ok (cameras st) \<Longrightarrow>
   recompute_bytes (st\<lparr>cameras := AList.delete cam (cameras st), byte_total := t\<rparr>) =
     recompute_bytes st - bucket_bytes (bucket_of cam st)"
  by (simp add: recompute_bytes_def weight_delete bucket_of_def split: option.splits)

text \<open>Replacing a camera's bucket keeps the invariant when the total moves with it.\<close>

lemma store_wf_put [wf_intros]:
  assumes "store_wf st" "btree_ok b"
    and "t = byte_total st - bucket_bytes (bucket_of cam st) + bucket_bytes b"
  shows "store_wf (st\<lparr>cameras := AList.update cam b (cameras st), byte_total := t\<rparr>)"
proof -
  have "hash_ok (cameras st)" using assms(1) by (simp add: store_wf_def)
  moreover from this assms(1,2)
  have "\<forall>(c, b') \<in> set (AList.update cam b (cameras st)). btree_ok b'"
    by (auto simp: hash.set_put store_wf_def)
  ultimately show ?thesis
    using assms(1,3) recompute_put [where st = st and cam = cam and b = b and t = t] by (simp add: store_wf_def hash.ok_put)
qed

lemma store_wf_delete [wf_intros]:
  assumes "store_wf st" "t = byte_total st - bucket_bytes (bucket_of cam st)"
  shows "store_wf (st\<lparr>cameras := AList.delete cam (cameras st), byte_total := t\<rparr>)"
proof -
  have "set (AList.delete cam (cameras st)) \<subseteq> set (cameras st)"
    by (auto simp: AList.delete_eq)
  with assms recompute_delete [where st = st and cam = cam and t = t] show ?thesis
    by (auto simp: store_wf_def distinct_fst_delete)
qed

section \<open>Inserting\<close>

lemma bucket_bytes_insert:
  "btree_ok b \<Longrightarrow>
   bucket_bytes (btree_insert f e b) = bucket_bytes b - entry_size (map_of b f) + blen (fst e)"
  by (auto simp: bucket_bytes_def btree.weight_put entry_size_def split: option.splits)

lemma insert_segment_wf [wf_intros]:
  assumes "store_wf st"
  shows "store_wf (insert_segment cam filename body now st)"
proof -
  have "btree_ok (bucket_of cam st)" using assms by (rule bucket_of_ok)
  then show ?thesis
    unfolding insert_segment_def Let_def
    by (intro store_wf_put [OF assms])
      (auto simp: btree_ok_insert bucket_bytes_insert entry_size_def split: option.splits)
qed

lemma insert_segment_bucket:
  "bucket_of c (insert_segment cam filename body now st) =
     (if c = cam then btree_insert (SegmentName filename) (body, now) (bucket_of cam st)
      else bucket_of c st)"
  by (simp add: insert_segment_def Let_def)

section \<open>The per-camera pass\<close>

lemma remove_doomed_spec:
  assumes "distinct (map fst b)"
  shows "remove_doomed fs b t =
     (let b' = filter (\<lambda>p. fst p \<notin> set fs) b in (b', t - bucket_bytes b + bucket_bytes b'))"
  using assms
proof (induction fs arbitrary: b t)
  case Nil
  then show ?case by simp
next
  case (Cons f fs)
  have del: "AList.delete f b = filter (\<lambda>p. fst p \<noteq> f) b"
    by (auto simp: AList.delete_eq intro!: filter_cong)
  show ?case
  proof (cases "map_of b f")
    case None
    then have "filter (\<lambda>p. fst p \<notin> set (f # fs)) b = filter (\<lambda>p. fst p \<notin> set fs) b"
      by (intro filter_cong) (auto simp: map_of_eq_None_iff)
    with None Cons show ?thesis by (simp add: Let_def)
  next
    case (Some e)
    then obtain body ts where e: "map_of b f = Some (body, ts)" by (cases e) auto
    have "bucket_bytes (AList.delete f b) = bucket_bytes b - blen body"
      using Cons.prems e by (simp add: bucket_bytes_def weight_delete)
    moreover have "filter (\<lambda>p. fst p \<notin> set fs) (AList.delete f b) =
        filter (\<lambda>p. fst p \<notin> set (f # fs)) b"
      by (auto simp: del intro!: filter_cong)
    ultimately show ?thesis
      using e Cons.IH [OF distinct_fst_delete [OF Cons.prems], of f "t - blen body"]
      by (simp add: Let_def)
  qed
qed

lemma filter_notin_take:
  assumes "distinct (map fst b)"
  shows "filter (\<lambda>p. fst p \<notin> set (take n (map fst b))) b = drop n b"
proof -
  let ?P = "\<lambda>p. fst p \<notin> set (take n (map fst b))"
  have "filter ?P (take n b @ drop n b) = drop n b"
  proof -
    have "filter (\<lambda>p. fst p \<notin> set (take n (map fst b))) (take n b) = []"
      by (auto simp: filter_empty_conv take_map)
    moreover have "fst p \<notin> set (take n (map fst b))" if "p \<in> set (drop n b)" for p
    proof -
      have "distinct (take n (map fst b) @ drop n (map fst b))" using assms by simp
      then show ?thesis using that by (auto simp: drop_map)
    qed
    ultimately show ?thesis unfolding filter_append by (simp add: filter_True)
  qed
  then show ?thesis by simp
qed

lemma evict_per_camera_eq:
  assumes "store_wf st" "map_of (cameras st) cam = Some b"
  shows "evict_per_camera cam n st =
    (let b' = drop (length b - n) b
     in if length b \<le> n then st
        else st\<lparr>cameras := AList.update cam b' (cameras st),
                byte_total := byte_total st - bucket_bytes b + bucket_bytes b'\<rparr>)"
proof -
  have "distinct (map fst b)"
    using assms by (auto simp: store_wf_def intro: btree_ok_distinct dest: map_of_SomeD)
  with assms(2) show ?thesis
    by (simp add: evict_per_camera_def remove_doomed_spec filter_notin_take Let_def)
qed

lemma evict_per_camera_bucket:
  assumes "store_wf st"
  shows "bucket_of c (evict_per_camera cam n st) =
    (if c = cam then drop (length (bucket_of cam st) - n) (bucket_of cam st) else bucket_of c st)"
proof (cases "map_of (cameras st) cam")
  case None
  then show ?thesis by (simp add: evict_per_camera_def bucket_of_def)
next
  case (Some b)
  then have "bucket_of cam st = b" by (simp add: bucket_of_def)
  with evict_per_camera_eq [OF assms Some] show ?thesis by (simp add: Let_def)
qed

lemma sorted_wrt_drop_fst: "btree_ok b \<Longrightarrow> btree_ok (drop n b)"
  by (metis drop_map sorted_wrt_drop)

lemma evict_per_camera_wf [wf_intros]:
  assumes "store_wf st"
  shows "store_wf (evict_per_camera cam n st)"
proof (cases "map_of (cameras st) cam")
  case None
  with assms show ?thesis by (simp add: evict_per_camera_def)
next
  case (Some b)
  then have b: "bucket_of cam st = b" by (simp add: bucket_of_def)
  with bucket_of_ok [OF assms, of cam] have "btree_ok b" by simp
  then have "store_wf (st\<lparr>cameras := AList.update cam (drop (length b - n) b) (cameras st),
      byte_total := byte_total st - bucket_bytes b + bucket_bytes (drop (length b - n) b)\<rparr>)"
    using b by (intro store_wf_put [OF assms] sorted_wrt_drop_fst) auto
  with assms evict_per_camera_eq [OF assms Some] show ?thesis by (simp add: Let_def)
qed

section \<open>The low-water mark\<close>

lemma bit_len_lower: "0 < n \<Longrightarrow> 2 ^ bit_len n \<le> 2 * n"
proof (induction n rule: bit_len.induct)
  case (1 n)
  show ?case
  proof (cases "n div 2 = 0")
    case True
    then have "n = 1" using "1.prems" by auto
    then show ?thesis by (simp add: bit_len.simps)
  next
    case False
    then have "2 ^ bit_len (n div 2) \<le> 2 * (n div 2)"
      using "1.IH" "1.prems" by auto
    moreover have "bit_len n = Suc (bit_len (n div 2))"
      using "1.prems" by (subst bit_len.simps) simp
    ultimately show ?thesis by simp
  qed
qed

lemma round_half_even_le: "2 * (round_half_even n s * 2 ^ s) \<le> 2 * n + 2 ^ s"
proof -
  have n: "n = n div 2 ^ s * 2 ^ s + n mod 2 ^ s"
    by (rule div_mult_mod_eq [symmetric])
  show ?thesis
  proof (cases "2 * (n mod 2 ^ s) > 2 ^ s \<or> 2 * (n mod 2 ^ s) = 2 ^ s \<and> odd (n div 2 ^ s)")
    case True
    then have "round_half_even n s = n div 2 ^ s + 1" by (auto simp: round_half_even_def Let_def)
    then have "2 * (round_half_even n s * 2 ^ s) = 2 * (n div 2 ^ s * 2 ^ s) + 2 * 2 ^ s"
      by (simp add: algebra_simps)
    with True n show ?thesis by linarith
  next
    case False
    then have "round_half_even n s = n div 2 ^ s" by (auto simp: round_half_even_def Let_def)
    with n show ?thesis by (metis add_leD1 le_add1 mult_le_mono2 order_trans trans_le_add1)
  qed
qed

lemma to_f64_le: "to_f64 n * 2 ^ 53 \<le> n * (2 ^ 53 + 1)"
proof -
  let ?s = "bit_len n - 53"
  show ?thesis
  proof (cases "?s = 0")
    case True
    then have "to_f64 n = n" by (simp add: to_f64_def round_half_even_def Let_def)
    then show ?thesis by simp
  next
    case False
    then have "0 < n" by (cases "n = 0") (simp_all add: bit_len.simps [of 0])
    then have "2 ^ bit_len n \<le> 2 * n" by (rule bit_len_lower)
    moreover have "(2::nat) ^ bit_len n = 2 ^ ?s * 2 ^ 53"
      using False by (subst power_add [symmetric]) simp
    moreover have "2 * (to_f64 n) \<le> 2 * n + 2 ^ ?s"
      using round_half_even_le [of n ?s] by (simp add: to_f64_def Let_def)
    ultimately show ?thesis by simp
  qed
qed

lemma low_water_le:
  assumes "0 \<le> m"
  shows "low_water m \<le> m"
proof (cases "m = 0")
  case True
  then show ?thesis by (simp add: low_water_def)
next
  case False
  define n where "n = nat m"
  define x where "x = to_f64 n"
  define R where "R = to_f64 (x * 8556839292003942)"
  have "x * 2 ^ 53 \<le> n * (2 ^ 53 + 1)" unfolding x_def by (rule to_f64_le)
  moreover have "R * 2 ^ 53 \<le> x * 8556839292003942 * (2 ^ 53 + 1)"
    unfolding R_def by (rule to_f64_le)
  ultimately have "R \<le> n * 2 ^ 53" by simp
  then have "R div 2 ^ 53 \<le> n"
    by (metis div_le_mono nonzero_mult_div_cancel_right power_not_zero zero_neq_numeral)
  moreover have "low_water m = int (R div 2 ^ 53)"
    using assms False by (simp add: low_water_def R_def x_def n_def)
  ultimately show ?thesis using assms by (simp add: n_def nat_le_iff del: of_nat_div) 
qed

section \<open>The global pass\<close>

lemma entry_update [simp]:
  "entry (st\<lparr>cameras := AList.update cam b (cameras st), byte_total := t\<rparr>) c f =
     (if c = cam then map_of b f else entry st c f)"
  by (simp add: entry_def)

lemma entry_delete [simp]:
  "entry (st\<lparr>cameras := AList.delete cam (cameras st), byte_total := t\<rparr>) c f =
     (if c = cam then None else entry st c f)"
  by (simp add: entry_def)

text \<open>One round of the loop on a camera that still has a bucket.\<close>

definition drop_segment :: "string \<Rightarrow> segment_name \<Rightarrow> bucket \<Rightarrow> segment_store \<Rightarrow> segment_store" where
  "drop_segment cam f b st =
     st\<lparr>cameras := (if AList.delete f b = [] then AList.delete cam (cameras st)
                   else AList.update cam (AList.delete f b) (cameras st)),
        byte_total := byte_total st - entry_size (map_of b f)\<rparr>"

lemma drop_segment_entry:
  assumes "map_of (cameras st) cam = Some b"
  shows "entry (drop_segment cam f b st) c g = (if c = cam \<and> g = f then None else entry st c g)"
proof -
  have b: "bucket_of cam st = b" using assms by (simp add: bucket_of_def)
  have d: "map_of (AList.delete f b) g = (if g = f then None else map_of b g)"
    by (simp add: AList.delete_conv')
  show ?thesis
  proof (cases "AList.delete f b = []")
    case True
    with d have "g \<noteq> f \<Longrightarrow> map_of b g = None" by simp
    with True show ?thesis using b by (auto simp: drop_segment_def entry_def)
  next
    case False
    then show ?thesis using b d by (auto simp: drop_segment_def entry_def)
  qed
qed

lemma drop_segment_wf [wf_intros]:
  assumes "store_wf st" "map_of (cameras st) cam = Some b"
  shows "store_wf (drop_segment cam f b st)"
proof -
  have b: "bucket_of cam st = b" using assms(2) by (simp add: bucket_of_def)
  with bucket_of_ok [OF assms(1), of cam] have ok: "btree_ok b" by simp
  have bytes: "bucket_bytes (AList.delete f b) = bucket_bytes b - entry_size (map_of b f)"
    using btree_ok_distinct [OF ok]
    by (simp add: bucket_bytes_def weight_delete entry_size_def split: option.splits prod.splits)
  show ?thesis
  proof (cases "AList.delete f b = []")
    case True
    with bytes have "bucket_bytes b = entry_size (map_of b f)" by simp
    then show ?thesis
      using True b by (auto simp: drop_segment_def intro!: store_wf_delete [OF assms(1)])
  next
    case False
    then show ?thesis
      using b bytes ok
      by (auto simp: drop_segment_def btree.ok_delete intro!: store_wf_put [OF assms(1)])
  qed
qed

text \<open>A candidate is sound when its size is the size of the entry it names, if still there.\<close>

definition sizes_ok :: "candidate list \<Rightarrow> segment_store \<Rightarrow> bool" where
  "sizes_ok cs st \<longleftrightarrow>
     (\<forall>(ts, cam, f, sz) \<in> set cs. entry st cam f \<noteq> None \<longrightarrow> sz = entry_size (entry st cam f))"

definition victims :: "candidate list \<Rightarrow> (string \<times> segment_name) set" where
  "victims cs = (\<lambda>(ts, cam, f, sz). (cam, f)) ` set cs"

lemma victims_Cons [simp]: "victims ((ts, cam, f, sz) # cs) = insert (cam, f) (victims cs)"
  by (auto simp: victims_def)

lemma victims_Nil [simp]: "victims [] = {}"
  by (simp add: victims_def)

text \<open>The store after the entries of some candidates are gone.\<close>

definition without :: "segment_store \<Rightarrow> (string \<times> segment_name) set \<Rightarrow> segment_store \<Rightarrow> bool" where
  "without st V st' \<longleftrightarrow>
     store_wf st' \<and> (\<forall>c g. entry st' c g = (if (c, g) \<in> V then None else entry st c g))"

lemma evict_loop_Cons_hit:
  assumes "map_of (cameras st) cam = Some b" "sizes_ok ((ts, cam, f, sz) # cs) st" "low < byte_total st"
  shows "\<exists>n'. evict_loop low ((ts, cam, f, sz) # cs) st n = evict_loop low cs (drop_segment cam f b st) n'"
proof -
  have "entry st cam f = map_of b f" using assms(1) by (simp add: entry_def bucket_of_def)
  with assms(2) have "map_of b f \<noteq> None \<Longrightarrow> sz = entry_size (map_of b f)"
    by (auto simp: sizes_ok_def)
  with assms(1,3) show ?thesis
    by (cases "map_of b f") (auto simp: drop_segment_def Let_def entry_size_def)
qed

text \<open>
  The loop drops a prefix of the candidates: it stops early only under the mark, and
  the last round ran on a store still above it.
\<close>

lemma evict_loop_prefix:
  assumes "store_wf st" "sizes_ok cs st" "evict_loop low cs st n = (st', m)"
  shows "\<exists>k \<le> length cs. without st (victims (take k cs)) st' \<and>
     (k < length cs \<longrightarrow> byte_total st' \<le> low) \<and>
     (0 < k \<longrightarrow> (\<exists>st0. without st (victims (take (k - 1) cs)) st0 \<and> low < byte_total st0))"
  using assms
proof (induction cs arbitrary: st n)
  case Nil
  then show ?case by (auto simp: without_def)
next
  case (Cons c cs)
  obtain ts cam f sz where c: "c = (ts, cam, f, sz)" by (cases c)
  show ?case
  proof (cases "byte_total st \<le> low")
    case True
    with Cons.prems c show ?thesis by (intro exI [of _ 0]) (auto simp: without_def)
  next
    case False
    have self: "without st {} st" using Cons.prems(1) by (simp add: without_def)
    obtain s n' where s: "without st {(cam, f)} s" and run: "evict_loop low cs s n' = (st', m)"
    proof (cases "map_of (cameras st) cam")
      case None
      then have "entry st cam f = None" by (simp add: entry_def bucket_of_def)
      with Cons.prems c False None that [of st n] show thesis
        by (auto simp: without_def)
    next
      case (Some b)
      with Cons.prems c False evict_loop_Cons_hit [OF Some]
      obtain n' where "evict_loop low cs (drop_segment cam f b st) n' = (st', m)"
        by (metis not_le)
      with Some Cons.prems(1) that [of "drop_segment cam f b st" n'] show thesis
        by (auto simp: without_def drop_segment_wf drop_segment_entry)
    qed
    have "sizes_ok cs s"
      using Cons.prems(2) s c by (fastforce simp: sizes_ok_def without_def split: if_splits)
    with s run Cons.IH [of s n'] obtain k where k: "k \<le> length cs"
      "without s (victims (take k cs)) st'" "k < length cs \<longrightarrow> byte_total st' \<le> low"
      "0 < k \<longrightarrow> (\<exists>st0. without s (victims (take (k - 1) cs)) st0 \<and> low < byte_total st0)"
      by (auto simp: without_def)
    have comp: "without st (insert (cam, f) V) r" if "without s V r" for V r
      using that s by (auto simp: without_def)
    have last: "\<exists>st0. without st (victims (take k (c # cs))) st0 \<and> low < byte_total st0"
    proof (cases k)
      case 0
      with self False show ?thesis by (intro exI [of _ st]) (auto simp: victims_def)
    next
      case (Suc j)
      with k(4) comp show ?thesis by (auto simp: c)
    qed
    show ?thesis
      using k comp [OF k(2)] last by (intro exI [of _ "Suc k"]) (auto simp: c)
  qed
qed

lemma bucket_of_member: "hash_ok (cameras st) \<Longrightarrow> (c, b) \<in> set (cameras st) \<Longrightarrow> bucket_of c st = b"
  by (simp add: bucket_of_def)

lemma in_candidates:
  assumes "store_wf st"
  shows "(ts, cam, f, sz) \<in> set (candidates st) \<longleftrightarrow>
    (\<exists>body. entry st cam f = Some (body, ts) \<and> sz = blen body)" (is "?L \<longleftrightarrow> ?R")
proof -
  have h: "hash_ok (cameras st)" using assms by (simp add: store_wf_def)
  have d: "distinct (map fst b)" if "(c, b) \<in> set (cameras st)" for c b
    using assms that by (auto simp: store_wf_def intro: btree_ok_distinct)
  have "?L \<longleftrightarrow> (\<exists>b body. (cam, b) \<in> set (cameras st) \<and> (f, body, ts) \<in> set b \<and> sz = blen body)"
    by (force simp: candidates_def)
  also have "\<dots> \<longleftrightarrow> (\<exists>b body. map_of (cameras st) cam = Some b \<and> map_of b f = Some (body, ts) \<and> sz = blen body)"
    using h d by (metis map_of_SomeD map_of_is_SomeI)
  also have "\<dots> \<longleftrightarrow> ?R"
    by (auto simp: entry_def bucket_of_def split: option.splits)
  finally show ?thesis .
qed

lemma distinct_candidates:
  assumes "store_wf st"
  shows "distinct (candidates st)"
proof -
  have "hash_ok cs \<Longrightarrow> \<forall>(c, b) \<in> set cs. btree_ok b \<Longrightarrow>
      distinct (concat (map (\<lambda>(cam, b). map (\<lambda>(f, (body, ts)). (ts, cam, f, blen body)) b) cs))"
    for cs :: "(string \<times> bucket) list"
  proof (induction cs)
    case Nil
    then show ?case by simp
  next
    case (Cons p cs)
    obtain c b where p: "p = (c, b)" by (cases p)
    have b: "distinct (map fst b)" using Cons.prems p by (auto intro: btree_ok_distinct)
    then have "distinct (map (\<lambda>(f, (body, ts)). (ts, c, f, blen body)) b)"
      by (induction b) (force)+
    moreover have "c \<notin> fst ` set cs" using Cons.prems p by auto
    ultimately show ?case using Cons p by force
  qed
  with assms show ?thesis by (simp add: candidates_def store_wf_def)
qed

lemma sizes_ok_candidates: "store_wf st \<Longrightarrow> set cs \<subseteq> set (candidates st) \<Longrightarrow> sizes_ok cs st"
  by (auto simp: sizes_ok_def entry_size_def dest!: subsetD simp: in_candidates)

lemma victims_candidates:
  assumes "store_wf st"
  shows "victims (sort (candidates st)) = {(c, f). entry st c f \<noteq> None}"
proof -
  have "(c, f) \<in> victims (sort (candidates st)) \<longleftrightarrow> (\<exists>ts sz. (ts, c, f, sz) \<in> set (candidates st))" for c f
    by (force simp: victims_def)
  then show ?thesis using assms by (auto simp: in_candidates)
qed

lemma empty_total:
  assumes "store_wf st" "\<And>c f. entry st c f = None"
  shows "byte_total st = 0"
proof -
  have "b = []" if "(c, b) \<in> set (cameras st)" for c b
  proof -
    have "bucket_of c st = b" using assms(1) that by (simp add: store_wf_def bucket_of_member)
    with assms(2) [of c] have "\<And>f. map_of b f = None" by (simp add: entry_def)
    then show ?thesis by (cases b) (auto split: if_splits, metis option.distinct(1))
  qed
  then have "recompute_bytes st = weight (\<lambda>_ _. 0) (cameras st)"
    unfolding recompute_bytes_def weight_def
    by (intro arg_cong [where f = sum_list] map_cong refl) (fastforce simp: bucket_bytes_def)
  also have "\<dots> = 0" by (simp add: weight_def case_prod_unfold)
  finally show ?thesis using assms(1) by (simp add: store_wf_def)
qed

lemma single_total:
  assumes "store_wf st" "entry st c f = Some (body, ts)"
    and "\<And>c' f'. (c', f') \<noteq> (c, f) \<Longrightarrow> entry st c' f' = None"
  shows "byte_total st = blen body"
proof -
  from assms(2) obtain b where b: "map_of (cameras st) c = Some b" and bf: "map_of b f = Some (body, ts)"
    by (auto simp: entry_def bucket_of_def split: option.splits)
  have "byte_total (drop_segment c f b st) = 0"
    using assms b by (intro empty_total drop_segment_wf) (auto simp: drop_segment_entry)
  with bf show ?thesis by (simp add: drop_segment_def entry_size_def)
qed

lemma evict_global_cases:
  assumes "store_wf st" "evict_global_oldest m st = (st', n)"
  obtains "st' = st" "byte_total st \<le> m"
  | k where "m < byte_total st" "k \<le> length (sort (candidates st))"
      "without st (victims (take k (sort (candidates st)))) st'"
      "k < length (sort (candidates st)) \<longrightarrow> byte_total st' \<le> low_water m"
      "0 < k \<longrightarrow> (\<exists>st0. without st (victims (take (k - 1) (sort (candidates st)))) st0 \<and>
          low_water m < byte_total st0)"
proof (cases "byte_total st \<le> m")
  case True
  with assms(2) that(1) show thesis by (simp add: evict_global_oldest_def)
next
  case False
  with assms(2) have "evict_loop (low_water m) (sort (candidates st)) st 0 = (st', n)"
    by (simp add: evict_global_oldest_def)
  moreover have "sizes_ok (sort (candidates st)) st"
    using assms(1) by (intro sizes_ok_candidates) auto
  ultimately show thesis
    using evict_loop_prefix [OF assms(1)] False that(2) by fastforce
qed

lemma evict_global_wf [wf_intros]:
  assumes "store_wf st"
  shows "store_wf (fst (evict_global_oldest m st))"
proof -
  obtain st' n where e: "evict_global_oldest m st = (st', n)" by (cases "evict_global_oldest m st")
  from evict_global_cases [OF assms e] have "store_wf st'"
    using assms by (auto simp: without_def)
  with e show ?thesis by simp
qed

lemma evict_global_entry_sub:
  assumes "store_wf st"
  shows "entry (fst (evict_global_oldest m st)) c f \<in> {None, entry st c f}"
proof -
  obtain st' n where e: "evict_global_oldest m st = (st', n)" by (cases "evict_global_oldest m st")
  from evict_global_cases [OF assms e] have "entry st' c f \<in> {None, entry st c f}"
    by cases (auto simp: without_def)
  with e show ?thesis by simp
qed

lemma evict_global_total:
  assumes "store_wf st" "0 \<le> m"
  shows "byte_total (fst (evict_global_oldest m st)) \<le> m"
proof -
  obtain st' n where e: "evict_global_oldest m st = (st', n)" by (cases "evict_global_oldest m st")
  from evict_global_cases [OF assms(1) e] have "byte_total st' \<le> m"
  proof cases
    case 1
    then show ?thesis by simp
  next
    case (2 k)
    show ?thesis
    proof (cases "k < length (sort (candidates st))")
      case True
      with 2 low_water_le [OF assms(2)] show ?thesis by simp
    next
      case False
      then have "without st {(c, f). entry st c f \<noteq> None} st'"
        using 2 victims_candidates [OF assms(1)] by simp
      then have "store_wf st'" "\<And>c f. entry st' c f = None" 
        by (simp_all add: without_def del: not_None_eq)
      then have "byte_total st' = 0" by (rule empty_total)
      with assms(2) show ?thesis by simp
    qed
  qed
  with e show ?thesis by simp
qed

text \<open>The newest entry outlives the global pass when it fits under the mark on its own.\<close>

lemma evict_global_keeps_newest:
  assumes wf: "store_wf st" and e: "entry st c f = Some (body, now)"
    and old: "\<And>c' f' b' ts. (c', f') \<noteq> (c, f) \<Longrightarrow> entry st c' f' = Some (b', ts) \<Longrightarrow> ts < now"
    and fits: "blen body \<le> low_water m"
  shows "entry (fst (evict_global_oldest m st)) c f = Some (body, now)"
proof -
  define cs where "cs = sort (candidates st)"
  define x where "x = (now, c, f, blen body)"
  have x: "x \<in> set cs" using e in_candidates [OF wf] by (simp add: cs_def x_def)
  have less: "y < x" if "y \<in> set cs" "y \<noteq> x" for y
  proof -
    obtain ts c' f' sz where y: "y = (ts, c', f', sz)" by (cases y)
    with that(1) obtain b' where b': "entry st c' f' = Some (b', ts)" "sz = blen b'"
      using in_candidates [OF wf] by (auto simp: cs_def)
    with that(2) y e have "(c', f') \<noteq> (c, f)" by (auto simp: x_def)
    with old b' y show ?thesis by (auto simp: x_def)
  qed
  have "sorted cs" "distinct cs" using distinct_candidates [OF wf] by (simp_all add: cs_def)
  then obtain ys where cs: "cs = ys @ [x]" and nin: "x \<notin> set ys"
    using x less by (rule sorted_split_greatest)
  have notvic: "(c, f) \<notin> victims (take k cs)" if "k < length cs" for k
  proof
    assume "(c, f) \<in> victims (take k cs)"
    then obtain ts sz where y: "(ts, c, f, sz) \<in> set (take k cs)" by (auto simp: victims_def)
    then have "(ts, c, f, sz) \<in> set ys" using that cs by (auto dest: in_set_takeD)
    then have "(ts, c, f, sz) \<noteq> x" "(ts, c, f, sz) \<in> set cs" using nin cs by auto
    with e show False using in_candidates [OF wf] by (auto simp: cs_def x_def)
  qed
  obtain st' n where r: "evict_global_oldest m st = (st', n)" by (cases "evict_global_oldest m st")
  from evict_global_cases [OF wf r] have "entry st' c f = Some (body, now)"
  proof cases
    case 1
    with e show ?thesis by simp
  next
    case (2 k)
    have "k < length cs"
    proof (rule ccontr)
      assume "\<not> k < length cs"
      with 2 have k: "k = length cs" by (simp add: cs_def)
      with 2 obtain st0 where st0: "without st (victims ys) st0"
        and big: "low_water m < byte_total st0"
        using cs by (auto simp: cs_def [symmetric])
      have "(c, f) \<notin> victims ys" using notvic [of "length ys"] cs by simp
      moreover have "victims cs = insert (c, f) (victims ys)"
        by (auto simp: cs victims_def x_def)
      ultimately have "byte_total st0 = blen body"
        using st0 e victims_candidates [OF wf]
        by (intro single_total [of st0 c f body now]) (auto simp: without_def cs_def)
      with fits big show False by simp
    qed
    with 2 e notvic show ?thesis by (auto simp: without_def cs_def)
  qed
  with r show ?thesis by simp
qed

section \<open>Pushing a segment\<close>

lemma push_segment_stages:
  "push_segment cam filename body now n m st =
     (let st3 = fst (evict_global_oldest m (evict_per_camera cam n (insert_segment cam filename body now st)))
      in (st3, segment_count cam st3))"
  by (simp add: push_segment_def Let_def)

lemma push_segment_keeps_wf [wf_intros]:
  "store_wf st \<Longrightarrow> store_wf (fst (push_segment cam filename body now n m st))"
  by (simp add: push_segment_stages Let_def wf_intros)

lemma segment_count_bucket: "segment_count cam st = length (bucket_of cam st)"
  by (simp add: segment_count_def bucket_of_def split: option.splits)

lemma segment_entry: "segment cam filename st = map_option fst (entry st cam (SegmentName filename))"
  by (simp add: segment_def entry_def bucket_of_def split: option.splits)

lemma bucket_length_entries:
  assumes "store_wf st"
  shows "length (bucket_of cam st) = card {f. entry st cam f \<noteq> None}"
proof -
  have "distinct (map fst (bucket_of cam st))"
    using bucket_of_ok [OF assms] by (rule btree_ok_distinct)
  then have "length (bucket_of cam st) = card (set (map fst (bucket_of cam st)))"
    by (metis distinct_card length_map)
  also have "set (map fst (bucket_of cam st)) = {f. entry st cam f \<noteq> None}"
    by (simp add: entry_def map_of_eq_None_iff del: not_None_eq)
  finally show ?thesis .
qed

lemma push_segment_count:
  assumes "store_wf st"
  shows "segment_count cam (fst (push_segment cam filename body now n m st)) \<le> n"
proof -
  let ?st2 = "evict_per_camera cam n (insert_segment cam filename body now st)"
  let ?st3 = "fst (evict_global_oldest m ?st2)"
  have wf2: "store_wf ?st2" and wf3: "store_wf ?st3" using assms by (simp_all add: wf_intros)
  have "{f. entry ?st3 cam f \<noteq> None} \<subseteq> {f. entry ?st2 cam f \<noteq> None}"
  proof (rule Collect_mono, rule impI)
    fix f
    assume "entry ?st3 cam f \<noteq> None"
    with evict_global_entry_sub [OF wf2, of m cam f] show "entry ?st2 cam f \<noteq> None"
      by (auto simp del: not_None_eq)
  qed
  moreover have "finite {f. entry ?st2 cam f \<noteq> None}"
    by (simp add: entry_def finite_dom_map_of dom_def [symmetric] del: not_None_eq)
  ultimately have "length (bucket_of cam ?st3) \<le> length (bucket_of cam ?st2)"
    using wf2 wf3 by (simp add: bucket_length_entries card_mono del: not_None_eq)
  also have "\<dots> \<le> n"
    using evict_per_camera_bucket [OF insert_segment_wf [OF assms]] by simp
  finally show ?thesis by (simp add: push_segment_stages Let_def segment_count_bucket)
qed

lemma btree_insert_greatest:
  "\<forall>p \<in> set b. fst p < k \<Longrightarrow> btree_insert k v b = b @ [(k, v)]"
  by (induction b) auto

lemma push_entry_old:
  assumes "store_wf st"
    and "entry (evict_per_camera cam n (insert_segment cam filename body now st)) c f = Some e"
    and "(c, f) \<noteq> (cam, SegmentName filename)"
  shows "entry st c f = Some e"
proof (cases "c = cam")
  case False
  with assms show ?thesis
    using evict_per_camera_bucket [OF insert_segment_wf [OF assms(1)]]
    by (simp add: entry_def insert_segment_bucket)
next
  case True
  let ?b = "btree_insert (SegmentName filename) (body, now) (bucket_of cam st)"
  have ok: "btree_ok (bucket_of cam st)" using assms(1) by (rule bucket_of_ok)
  from assms(2) True have "map_of (drop (length ?b - n) ?b) f = Some e"
    using evict_per_camera_bucket [OF insert_segment_wf [OF assms(1)]]
    by (simp add: entry_def insert_segment_bucket)
  then have "(f, e) \<in> set ?b" by (auto dest: map_of_SomeD in_set_dropD)
  with assms(3) True ok have "(f, e) \<in> set (bucket_of cam st)"
    by (auto simp: btree.set_put)
  with ok True show ?thesis
    by (simp add: entry_def btree_ok_distinct)
qed

lemma push_live_edge:
  assumes wf: "store_wf st" and n: "1 \<le> n"
    and newer: "\<And>f. entry st cam f \<noteq> None \<Longrightarrow> f < SegmentName filename"
    and clock: "\<And>c f b ts. entry st c f = Some (b, ts) \<Longrightarrow> ts < now"
    and fits: "blen body \<le> low_water m"
  shows "segment cam filename (fst (push_segment cam filename body now n m st)) = Some body"
proof -
  let ?name = "SegmentName filename"
  let ?st2 = "evict_per_camera cam n (insert_segment cam filename body now st)"
  have wf1: "store_wf (insert_segment cam filename body now st)" using wf by (rule insert_segment_wf)
  have "map_of (bucket_of cam st) (fst p) \<noteq> None" if "p \<in> set (bucket_of cam st)" for p
    using that by (metis image_eqI map_of_eq_None_iff)
  then have "\<forall>p \<in> set (bucket_of cam st). fst p < ?name"
    using newer by (auto simp: entry_def)
  then have "btree_insert ?name (body, now) (bucket_of cam st) = bucket_of cam st @ [(?name, body, now)]"
    by (rule btree_insert_greatest)
  with n have "(?name, body, now) \<in> set (bucket_of cam ?st2)"
    using evict_per_camera_bucket [OF wf1] by (simp add: insert_segment_bucket)
  moreover have "distinct (map fst (bucket_of cam ?st2))"
    using wf1 by (intro btree_ok_distinct bucket_of_ok) (simp add: wf_intros)
  ultimately have e: "entry ?st2 cam ?name = Some (body, now)"
    by (simp add: entry_def)
  have "ts < now" if "(c, f) \<noteq> (cam, ?name)" "entry ?st2 c f = Some (b, ts)" for c f b ts
    using push_entry_old [OF wf that(2,1)] by (rule clock)
  with wf1 have "entry (fst (evict_global_oldest m ?st2)) cam ?name = Some (body, now)"
    by (intro evict_global_keeps_newest [OF _ e _ fits]) (auto simp: wf_intros)
  then show ?thesis by (simp add: push_segment_stages Let_def segment_entry)
qed

section \<open>Reading and sweeping\<close>

lemma fold_delete: "fold AList.delete ks m = filter (\<lambda>p. fst p \<notin> set ks) m"
proof (induction ks arbitrary: m)
  case Nil
  then show ?case by simp
next
  case (Cons k ks)
  have "AList.delete k m = filter (\<lambda>p. fst p \<noteq> k) m"
    by (auto simp: AList.delete_eq intro!: filter_cong)
  with Cons.IH [of "AList.delete k m"] show ?case
    by (auto intro!: filter_cong)
qed

lemma evict_stale_store_cameras:
  assumes "hash_ok (cameras st)"
  shows "cameras (fst (evict_stale_store now st)) =
    filter (\<lambda>(c, b). \<not> bucket_stale (now - STALE_CAMERA_AGE) b) (cameras st)"
proof -
  have "fst p \<notin> set (stale_cameras now st) \<longleftrightarrow>
      (case p of (c, b) \<Rightarrow> \<not> bucket_stale (now - STALE_CAMERA_AGE) b)" if "p \<in> set (cameras st)" for p
    using that assms by (auto simp: stale_cameras_def image_iff dest: map_of_is_SomeI)
      (metis map_of_is_SomeI option.inject)
  then show ?thesis
    by (simp add: evict_stale_store_def Let_def fold_delete cong: filter_cong)
qed

lemma bucket_stale_iff:
  "bucket_stale cutoff b \<longleftrightarrow> (\<forall>(f, body, ts) \<in> set b. ts < cutoff)"
  by (cases "b = []") (force simp: bucket_stale_def)+

lemma push_entry_new:
  assumes "store_wf st"
    and "entry (evict_per_camera cam n (insert_segment cam filename body now st)) cam (SegmentName filename) = Some e"
  shows "e = (body, now)"
proof -
  let ?b = "btree_insert (SegmentName filename) (body, now) (bucket_of cam st)"
  have ok: "btree_ok (bucket_of cam st)" using assms(1) by (rule bucket_of_ok)
  have "map_of (drop (length ?b - n) ?b) (SegmentName filename) = Some e"
    using assms evict_per_camera_bucket [OF insert_segment_wf [OF assms(1)]]
    by (simp add: entry_def insert_segment_bucket)
  then have "(SegmentName filename, e) \<in> set ?b" by (auto dest: map_of_SomeD in_set_dropD)
  with ok show ?thesis by (auto simp: btree.set_put)
qed

section \<open>Properties\<close>

text \<open>
  C13. Pushing a segment is correct in every store whose invariant holds and for every
  non-negative byte ceiling: the invariant holds afterwards (the running byte total is
  exactly the sum of the cached bodies), the total is within the ceiling, the reported
  count is the camera's segment count and within the per-camera cap, and no entry is
  invented or altered: what is readable afterwards is the pushed body under its name, or
  an entry that was there before.
\<close>

theorem push_segment_correct:
  assumes "store_wf st" "0 \<le> max_total_bytes"
    and "push_segment cam filename body now max_per_camera max_total_bytes st = (st', count)"
  shows "store_wf st' \<and> byte_total st' \<le> max_total_bytes \<and>
    count = segment_count cam st' \<and> count \<le> max_per_camera \<and>
    (\<forall>c f e. entry st' c f = Some e \<longrightarrow>
       (if (c, f) = (cam, SegmentName filename) then e = (body, now) else entry st c f = Some e))"
proof (intro conjI allI impI)
  let ?st2 = "evict_per_camera cam max_per_camera (insert_segment cam filename body now st)"
  have st': "st' = fst (evict_global_oldest max_total_bytes ?st2)" and count: "count = segment_count cam st'"
    using assms(3) by (auto simp: push_segment_stages Let_def)
  have wf2: "store_wf ?st2" using assms(1) by (simp add: wf_intros)
  show "store_wf st'" using wf2 by (simp add: st' wf_intros)
  show "byte_total st' \<le> max_total_bytes" using wf2 assms(2) by (simp add: st' evict_global_total)
  show "count = segment_count cam st'" by (rule count)
  show "count \<le> max_per_camera"
    using push_segment_count [OF assms(1), of cam filename body now max_per_camera max_total_bytes] assms(3)
    by (simp add: count)
  fix c f e
  assume "entry st' c f = Some e"
  then have e: "entry ?st2 c f = Some e"
    using evict_global_entry_sub [OF wf2, of max_total_bytes c f] by (simp add: st')
  show "if (c, f) = (cam, SegmentName filename) then e = (body, now) else entry st c f = Some e"
  proof (cases "(c, f) = (cam, SegmentName filename)")
    case True
    with e have "entry ?st2 cam (SegmentName filename) = Some e" by simp
    from push_entry_new [OF assms(1) this] True show ?thesis by simp
  next
    case False
    with push_entry_old [OF assms(1) e] show ?thesis by auto
  qed
qed

definition demo_store :: segment_store where
  "demo_store = \<lparr>cameras = [(''cam'', [(SegmentName ''segment_99999.ts'', ([1, 2, 3], 5))])], byte_total = 3\<rparr>"

lemma demo_store_wf: "store_wf demo_store"
  by (simp add: store_wf_def demo_store_def recompute_bytes_def bucket_bytes_def blen_def)

lemma demo_store_entry:
  "entry demo_store c f =
     (if c = ''cam'' \<and> f = SegmentName ''segment_99999.ts'' then Some ([1, 2, 3], 5) else None)"
  by (simp add: entry_def bucket_of_def demo_store_def)

theorem push_segment_correct_witness:
  "store_wf demo_store \<and>
   snd (push_segment ''cam'' ''segment_100000.ts'' [4] 9 1 1000 demo_store) \<le> 1 \<and>
   byte_total (fst (push_segment ''cam'' ''segment_100000.ts'' [4] 9 1 1000 demo_store)) \<le> 1000"
  using push_segment_correct [OF demo_store_wf, of 1000 "''cam''" "''segment_100000.ts''" "[4]" 9 1
      "fst (push_segment ''cam'' ''segment_100000.ts'' [4] 9 1 1000 demo_store)"
      "snd (push_segment ''cam'' ''segment_100000.ts'' [4] 9 1 1000 demo_store)"]
    demo_store_wf
  by simp

text \<open>
  The live edge survives a push: when the per-camera cap is at least one, the pushed
  name has a greater sequence number than every segment the camera holds, the clock has
  moved past every cached timestamp and the body fits under the eviction mark on its own,
  the pushed segment is readable afterwards, whatever the two eviction passes dropped.
  Names are compared by sequence number, so this holds across the step from five to six
  digits.
\<close>

theorem push_segment_live_edge:
  assumes "store_wf st" "1 \<le> max_per_camera"
    and "\<forall>f. entry st cam f \<noteq> None \<longrightarrow> sequence_number f < sequence_number (SegmentName filename)"
    and "\<forall>c f b ts. entry st c f = Some (b, ts) \<longrightarrow> ts < now"
    and "blen body \<le> low_water max_total_bytes"
  shows "segment cam filename (fst (push_segment cam filename body now max_per_camera max_total_bytes st)) = Some body"
  using assms by (intro push_live_edge) (auto intro: less_if_sequence_number_less)

theorem push_segment_live_edge_witness:
  "segment ''cam'' ''segment_100000.ts'' (fst (push_segment ''cam'' ''segment_100000.ts'' [4] 9 1 1000 demo_store)) = Some [4]"
proof (rule push_segment_live_edge [OF demo_store_wf])
  show "\<forall>f. entry demo_store ''cam'' f \<noteq> None \<longrightarrow> sequence_number f < sequence_number (SegmentName ''segment_100000.ts'')"
    by (simp add: demo_store_entry sequence_number_def Let_def strip_prefix_def is_ascii_digit_code
        digits_value.simps digit_value_def)
  show "blen [4] \<le> low_water 1000"
    by (simp add: blen_def low_water_def to_f64_def round_half_even_def bit_len.simps Let_def)
qed (simp_all add: demo_store_entry split: if_splits)

text \<open>
  The order the cache keeps its segments in is the order of their sequence numbers,
  whatever the width of the numbers and however they are padded: a name with a smaller
  number comes first.
\<close>

theorem segment_order_by_number:
  "sequence_number m < sequence_number n \<Longrightarrow> segment_cmp m n = Less"
  using less_if_sequence_number_less [of m n] by (simp add: less_segment_name_def)

theorem segment_order_by_number_witness:
  "segment_cmp (SegmentName ''segment_99999.ts'') (SegmentName ''segment_100000.ts'') = Less"
  by (rule segment_order_by_number)
    (simp add: sequence_number_def Let_def strip_prefix_def is_ascii_digit_code
      digits_value.simps digit_value_def)

text \<open>
  The stale sweep restores the invariant from any byte total, drops exactly the
  cameras whose segments are all older than the cutoff (an empty bucket included), and
  leaves every other camera's segments as they were.
\<close>

theorem evict_stale_heals:
  assumes "hash_ok (cameras st)" "\<forall>(c, b) \<in> set (cameras st). btree_ok b"
    and "evict_stale_store now st = (st', stale)"
  shows "store_wf st' \<and>
    (\<forall>c. c \<in> set stale \<longleftrightarrow>
       (\<exists>b. map_of (cameras st) c = Some b \<and> (\<forall>(f, body, ts) \<in> set b. ts < now - STALE_CAMERA_AGE))) \<and>
    (\<forall>c. map_of (cameras st') c = (if c \<in> set stale then None else map_of (cameras st) c))"
proof -
  have cams: "cameras st' = filter (\<lambda>(c, b). \<not> bucket_stale (now - STALE_CAMERA_AGE) b) (cameras st)"
    using evict_stale_store_cameras [OF assms(1), of now] assms(3) by simp
  have "byte_total st' = recompute_bytes st'"
    using assms(3) by (auto simp: evict_stale_store_def Let_def recompute_bytes_def)
  then have wf: "store_wf st'"
    using assms(1,2) cams by (auto simp: store_wf_def intro: distinct_fst_filter)
  have "c \<in> set (stale_cameras now st) \<longleftrightarrow>
      (\<exists>b. map_of (cameras st) c = Some b \<and> bucket_stale (now - STALE_CAMERA_AGE) b)" for c
    using assms(1) by (force simp: stale_cameras_def)
  moreover have "stale = stale_cameras now st"
    using assms(3) by (simp add: evict_stale_store_def Let_def)
  ultimately have st: "\<forall>c. c \<in> set stale \<longleftrightarrow>
      (\<exists>b. map_of (cameras st) c = Some b \<and> bucket_stale (now - STALE_CAMERA_AGE) b)" by simp
  moreover have "\<forall>c. map_of (cameras st') c = (if c \<in> set stale then None else map_of (cameras st) c)"
    using st by (simp add: cams map_of_filter_keys [OF assms(1)] split: option.splits)
  ultimately show ?thesis using wf by (simp add: bucket_stale_iff)
qed

theorem evict_stale_heals_witness:
  "store_wf (fst (evict_stale_store 70000000000 (demo_store\<lparr>byte_total := 77\<rparr>)))"
  using evict_stale_heals [of "demo_store\<lparr>byte_total := 77\<rparr>" 70000000000
      "fst (evict_stale_store 70000000000 (demo_store\<lparr>byte_total := 77\<rparr>))"
      "snd (evict_stale_store 70000000000 (demo_store\<lparr>byte_total := 77\<rparr>))"]
  by (simp add: demo_store_def)

text \<open>
  A snapshot of a camera with segments is its newest \<open>count\<close> bodies (all of them if
  it holds fewer), oldest first: the bucket splits into names left out and names taken,
  every one left out before every one taken.
\<close>

theorem snapshot_recent_newest:
  assumes "store_wf st" "map_of (cameras st) cam = Some b" "b \<noteq> []"
  shows "\<exists>older newer. b = older @ newer \<and> length newer = min count (length b) \<and>
    snapshot_recent cam count st = Segments (map (\<lambda>e. fst (snd e)) newer) \<and>
    (\<forall>x \<in> set older. \<forall>y \<in> set newer. fst x < fst y) \<and> btree_ok newer"
proof (intro exI conjI)
  let ?k = "length b - count"
  have ok: "btree_ok b" using assms(1,2) by (auto simp: store_wf_def dest: map_of_SomeD)
  show "b = take ?k b @ drop ?k b" by simp
  show "length (drop ?k b) = min count (length b)" by simp
  show "snapshot_recent cam count st = Segments (map (\<lambda>e. fst (snd e)) (drop ?k b))"
    using assms(2,3) by (auto simp: snapshot_recent_def case_prod_unfold)
  have "sorted_wrt (<) (map fst (take ?k b) @ map fst (drop ?k b))"
    using ok by (simp add: map_append [symmetric] del: map_append)
  then show "\<forall>x \<in> set (take ?k b). \<forall>y \<in> set (drop ?k b). fst x < fst y" and "btree_ok (drop ?k b)"
    by (auto simp: sorted_wrt_append)
qed

theorem snapshot_recent_newest_witness:
  "\<exists>older newer. [(SegmentName ''segment_99999.ts'', ([1, 2, 3], 5 :: instant))] = older @ newer \<and> length newer = 1 \<and>
    snapshot_recent ''cam'' 4 demo_store = Segments (map (\<lambda>e. fst (snd e)) newer)"
  using snapshot_recent_newest [OF demo_store_wf, of "''cam''"
      "[(SegmentName ''segment_99999.ts'', ([1, 2, 3], 5))]" 4]
  by (simp add: demo_store_def) blast

end
