(* ===== verification/Hls_Auth.thy ===== *)
theory Hls_Auth
  imports Sentinel_Prelude
begin

text \<open>
  The auth cache of \<^verbatim>\<open>backend-rs/src/hls.rs\<close>: the generation counter, the three maps
  of positive answers and the operations that read and fill them. The process-wide
  counter \<open>AUTH_GENERATION\<close> is the argument \<open>current\<close> of every operation (it only grows,
  by one per \<open>invalidate_auth_cache\<close>, and is a natural number here: \<open>2\<^sup>6\<^sup>4\<close> invalidations
  do not happen), the time to live read from the environment is the argument \<open>ttl\<close>.

  The correctness argument of the cache is about interleavings: writers commit and then
  invalidate, readers take the generation, then query, then cache. The step relation
  \<open>auth_step\<close> lets any number of both run in any order, and the locale \<open>auth_slot\<close> is the
  contract between the cache's operations and that argument, interpreted once per map.
\<close>

section \<open>The cache\<close>

record push_node =
  pn_pk :: int
  pn_org_id :: string
  pn_node_id :: string

record push_camera =
  pc_name :: string
  pc_disabled_by_plan :: bool

record auth_cache =
  generation :: nat
  nodes :: "(string \<times> (push_node \<times> instant)) list"
  push_cameras :: "((int \<times> string) \<times> (push_camera \<times> instant)) list"
  viewable :: "((string \<times> string) \<times> (string \<times> instant)) list"

definition AUTH_CACHE_MAX_ENTRIES :: nat where
  "AUTH_CACHE_MAX_ENTRIES = 10000"

definition invalidate_auth_cache :: "nat \<Rightarrow> nat" where
  "invalidate_auth_cache current = current + 1"

definition sync :: "nat \<Rightarrow> auth_cache \<Rightarrow> auth_cache" where
  "sync current c =
     (if generation c \<noteq> current
      then c\<lparr>nodes := [], push_cameras := [], viewable := [], generation := current\<rparr>
      else c)"

definition fresh :: "duration \<Rightarrow> instant \<Rightarrow> instant \<Rightarrow> bool" where
  "fresh ttl now at \<longleftrightarrow> duration_since now at < ttl"

definition put :: "duration \<Rightarrow> nat \<Rightarrow> nat \<Rightarrow> 'k \<Rightarrow> 'v \<Rightarrow> ('k \<times> 'v) list \<Rightarrow> ('k \<times> 'v) list" where
  "put ttl current seen key value m =
     (if seen \<noteq> current \<or> ttl = 0 then m
      else AList.update key value (if length m \<ge> AUTH_CACHE_MAX_ENTRIES then [] else m))"

text \<open>\<open>.get(key).filter(fresh).map(clone)\<close>, the same three calls in each reader.\<close>

definition get_fresh :: "duration \<Rightarrow> instant \<Rightarrow> 'k \<Rightarrow> ('k \<times> ('v \<times> instant)) list \<Rightarrow> 'v option" where
  "get_fresh ttl now key m =
     (case map_of m key of
        Some (v, at) \<Rightarrow> if fresh ttl now at then Some v else None
      | None \<Rightarrow> None)"

section \<open>The operations\<close>

definition cached_push_node ::
    "duration \<Rightarrow> nat \<Rightarrow> instant \<Rightarrow> string \<Rightarrow> auth_cache \<Rightarrow> auth_cache \<times> push_node option" where
  "cached_push_node ttl current now key_hash c =
     (let c' = sync current c in (c', get_fresh ttl now key_hash (nodes c')))"

definition cache_push_node ::
    "duration \<Rightarrow> nat \<Rightarrow> instant \<Rightarrow> nat \<Rightarrow> string \<Rightarrow> push_node \<Rightarrow> auth_cache \<Rightarrow> auth_cache" where
  "cache_push_node ttl current now seen key_hash node c =
     (let c' = sync current c
      in c'\<lparr>nodes := put ttl (generation c') seen key_hash (node, now) (nodes c')\<rparr>)"

definition cached_push_camera ::
    "duration \<Rightarrow> nat \<Rightarrow> instant \<Rightarrow> int \<times> string \<Rightarrow> auth_cache \<Rightarrow> auth_cache \<times> push_camera option" where
  "cached_push_camera ttl current now key c =
     (let c' = sync current c in (c', get_fresh ttl now key (push_cameras c')))"

definition cache_push_camera ::
    "duration \<Rightarrow> nat \<Rightarrow> instant \<Rightarrow> nat \<Rightarrow> int \<times> string \<Rightarrow> push_camera \<Rightarrow> auth_cache \<Rightarrow> auth_cache" where
  "cache_push_camera ttl current now seen key camera c =
     (let c' = sync current c
      in c'\<lparr>push_cameras := put ttl (generation c') seen key (camera, now) (push_cameras c')\<rparr>)"

definition cached_viewable ::
    "duration \<Rightarrow> nat \<Rightarrow> instant \<Rightarrow> string \<times> string \<Rightarrow> auth_cache \<Rightarrow> auth_cache \<times> string option" where
  "cached_viewable ttl current now key c =
     (let c' = sync current c in (c', get_fresh ttl now key (viewable c')))"

definition cache_viewable ::
    "duration \<Rightarrow> nat \<Rightarrow> instant \<Rightarrow> nat \<Rightarrow> string \<times> string \<Rightarrow> string \<Rightarrow> auth_cache \<Rightarrow> auth_cache" where
  "cache_viewable ttl current now seen key node_id c =
     (let c' = sync current c
      in c'\<lparr>viewable := put ttl (generation c') seen key (node_id, now) (viewable c')\<rparr>)"

definition empty_auth :: auth_cache where
  "empty_auth = \<lparr>generation = 0, nodes = [], push_cameras = [], viewable = []\<rparr>"

section \<open>Concurrent readers and writers\<close>

text \<open>
  The world around one of the three maps. \<open>db\<close> is what the database answers for a key,
  \<open>gen\<close> the process-wide counter, \<open>dirty\<close> the keys of writes that have committed and
  not invalidated yet, \<open>inflight\<close> the readers by an identifier: one that has read the
  generation, or one that has its answer as well.
\<close>

datatype ('k, 'v) reader = Tagged nat | Answered nat 'k 'v

record ('k, 'v, 'c) auth_world =
  db :: "'k \<Rightarrow> 'v option"
  gen :: nat
  cache :: 'c
  dirty :: "'k list"
  inflight :: "nat \<Rightarrow> ('k, 'v) reader option"

text \<open>
  One rule per atomic action. A write replaces the database's answer for one key and
  leaves the key dirty until its invalidation. A reader whose query finds nothing caches
  nothing. \<open>lookup\<close> and \<open>store\<close> are the cache's two operations, at an arbitrary instant.
\<close>

inductive auth_step ::
    "(nat \<Rightarrow> instant \<Rightarrow> 'k \<Rightarrow> 'c \<Rightarrow> 'c \<times> 'v option) \<Rightarrow>
     (nat \<Rightarrow> instant \<Rightarrow> nat \<Rightarrow> 'k \<Rightarrow> 'v \<Rightarrow> 'c \<Rightarrow> 'c) \<Rightarrow>
     ('k, 'v, 'c) auth_world \<Rightarrow> ('k, 'v, 'c) auth_world \<Rightarrow> bool"
  for lookup store where
  commit: "auth_step lookup store w (w\<lparr>db := (db w)(k := a), dirty := k # dirty w\<rparr>)"
| invalidate: "dirty w = xs @ k # ys \<Longrightarrow>
     auth_step lookup store w (w\<lparr>dirty := xs @ ys, gen := invalidate_auth_cache (gen w)\<rparr>)"
| tag: "auth_step lookup store w (w\<lparr>inflight := (inflight w)(r \<mapsto> Tagged (gen w))\<rparr>)"
| query: "inflight w r = Some (Tagged g) \<Longrightarrow> db w k = Some v \<Longrightarrow>
     auth_step lookup store w (w\<lparr>inflight := (inflight w)(r \<mapsto> Answered g k v)\<rparr>)"
| query_none: "inflight w r = Some (Tagged g) \<Longrightarrow> db w k = None \<Longrightarrow>
     auth_step lookup store w (w\<lparr>inflight := (inflight w)(r := None)\<rparr>)"
| fill: "inflight w r = Some (Answered g k v) \<Longrightarrow>
     auth_step lookup store w
       (w\<lparr>cache := store (gen w) now g k v (cache w), inflight := (inflight w)(r := None)\<rparr>)"
| hit: "auth_step lookup store w (w\<lparr>cache := fst (lookup (gen w) now k (cache w))\<rparr>)"

inductive auth_reach ::
    "(nat \<Rightarrow> instant \<Rightarrow> 'k \<Rightarrow> 'c \<Rightarrow> 'c \<times> 'v option) \<Rightarrow>
     (nat \<Rightarrow> instant \<Rightarrow> nat \<Rightarrow> 'k \<Rightarrow> 'v \<Rightarrow> 'c \<Rightarrow> 'c) \<Rightarrow> 'c \<Rightarrow>
     ('k, 'v, 'c) auth_world \<Rightarrow> bool"
  for lookup store c0 where
  boot: "auth_reach lookup store c0
     \<lparr>db = d, gen = 0, cache = c0, dirty = [], inflight = Map.empty\<rparr>"
| step: "auth_reach lookup store c0 w \<Longrightarrow> auth_step lookup store w w' \<Longrightarrow>
     auth_reach lookup store c0 w'"

section \<open>The contract of one map of the cache\<close>

text \<open>
  \<open>view g c k\<close> is the answer the cache holds for \<open>k\<close> at generation \<open>g\<close>, fresh or not;
  \<open>gen_of c\<close> the generation it was last synchronised with.
\<close>

locale auth_slot =
  fixes lookup :: "nat \<Rightarrow> instant \<Rightarrow> 'k \<Rightarrow> 'c \<Rightarrow> 'c \<times> 'v option"
    and store :: "nat \<Rightarrow> instant \<Rightarrow> nat \<Rightarrow> 'k \<Rightarrow> 'v \<Rightarrow> 'c \<Rightarrow> 'c"
    and view :: "nat \<Rightarrow> 'c \<Rightarrow> 'k \<Rightarrow> 'v option"
    and gen_of :: "'c \<Rightarrow> nat"
    and start :: 'c
  assumes start_gen: "gen_of start = 0"
    and start_view: "view g start k = None"
    and old_view: "gen_of c < g \<Longrightarrow> view g c k = None"
    and lookup_gen: "gen_of c \<le> g \<Longrightarrow> gen_of (fst (lookup g now k c)) \<le> g"
    and store_gen: "gen_of c \<le> g \<Longrightarrow> gen_of (store g now seen k v c) \<le> g"
    and lookup_view: "view g (fst (lookup g now k c)) j = Some u \<Longrightarrow> view g c j = Some u"
    and lookup_sound: "snd (lookup g now k c) = Some v \<Longrightarrow> view g c k = Some v"
    and store_view: "view g (store g now seen k v c) j = Some u \<Longrightarrow>
      view g c j = Some u \<or> (seen = g \<and> j = k \<and> u = v)"
begin

definition coherent :: "('k, 'v, 'c) auth_world \<Rightarrow> bool" where
  "coherent w \<longleftrightarrow>
     gen_of (cache w) \<le> gen w \<and>
     (\<forall>r g. inflight w r = Some (Tagged g) \<longrightarrow> g \<le> gen w) \<and>
     (\<forall>r g k v. inflight w r = Some (Answered g k v) \<longrightarrow>
        g \<le> gen w \<and> (g = gen w \<longrightarrow> db w k = Some v \<or> k \<in> set (dirty w))) \<and>
     (\<forall>k v. view (gen w) (cache w) k = Some v \<longrightarrow> db w k = Some v \<or> k \<in> set (dirty w))"

lemma coherent_boot: "coherent \<lparr>db = d, gen = 0, cache = start, dirty = [], inflight = Map.empty\<rparr>"
  by (simp add: coherent_def start_gen start_view)

lemma coherent_step: "auth_step lookup store w w' \<Longrightarrow> coherent w \<Longrightarrow> coherent w'"
proof (induction rule: auth_step.induct)
  case (commit w k a)
  then show ?case by (auto simp: coherent_def)
next
  case (invalidate w xs k ys)
  then have "gen_of (cache w) < Suc (gen w)" by (simp add: coherent_def)
  then have "view (Suc (gen w)) (cache w) j = None" for j by (rule old_view)
  with invalidate show ?case
    by (fastforce simp: coherent_def invalidate_auth_cache_def)
next
  case (tag w r)
  then show ?case by (auto simp: coherent_def)
next
  case (query w r g k v)
  then show ?case by (auto simp: coherent_def)
next
  case (query_none w r g k)
  then show ?case by (auto simp: coherent_def)
next
  case (fill w r g k v now)
  then show ?case
    by (fastforce simp: coherent_def store_gen dest!: store_view)
next
  case (hit w now k)
  then show ?case by (auto simp: coherent_def lookup_gen dest!: lookup_view)
qed

lemma coherent_reach: "auth_reach lookup store start w \<Longrightarrow> coherent w"
  by (induction rule: auth_reach.induct) (auto intro: coherent_boot coherent_step)

lemma served_is_current:
  assumes "auth_reach lookup store start w" "k \<notin> set (dirty w)"
    and "snd (lookup (gen w) now k (cache w)) = Some v"
  shows "db w k = Some v"
  using coherent_reach [OF assms(1)] lookup_sound [OF assms(3)] assms(2)
  by (auto simp: coherent_def)

end

section \<open>The three maps implement it\<close>

definition held :: "(auth_cache \<Rightarrow> ('k \<times> ('v \<times> instant)) list) \<Rightarrow> nat \<Rightarrow> auth_cache \<Rightarrow> 'k \<Rightarrow> 'v option" where
  "held slot g c k = (if generation c = g then map_option fst (map_of (slot c) k) else None)"

lemma get_fresh_Some:
  "get_fresh ttl now k m = Some v \<longleftrightarrow> (\<exists>at. map_of m k = Some (v, at) \<and> fresh ttl now at)"
  by (auto simp: get_fresh_def split: option.splits)

lemma put_lookup:
  "map_of (put ttl current seen k e m) j = Some u \<Longrightarrow>
   map_of m j = Some u \<or> (seen = current \<and> j = k \<and> u = e)"
  by (auto simp: put_def AList.update_conv' split: if_splits)

lemma sync_generation [simp]: "generation (sync g c) = g"
  by (simp add: sync_def)

lemma sync_same [simp]: "generation c = g \<Longrightarrow> sync g c = c"
  by (simp add: sync_def)

lemma sync_other:
  "generation c \<noteq> g \<Longrightarrow> nodes (sync g c) = [] \<and> push_cameras (sync g c) = [] \<and> viewable (sync g c) = []"
  by (simp add: sync_def)

lemmas slot_defs = held_def Let_def cached_push_node_def cache_push_node_def
  cached_push_camera_def cache_push_camera_def cached_viewable_def cache_viewable_def

lemma sync_slots:
  "nodes (sync g c) = (if generation c = g then nodes c else [])"
  "push_cameras (sync g c) = (if generation c = g then push_cameras c else [])"
  "viewable (sync g c) = (if generation c = g then viewable c else [])"
  by (simp_all add: sync_def)

interpretation node_slot: auth_slot "cached_push_node ttl" "cache_push_node ttl" "held nodes" generation empty_auth
  for ttl
  by unfold_locales
    (auto simp: slot_defs sync_slots empty_auth_def get_fresh_Some dest!: put_lookup split: if_splits)

interpretation camera_slot: auth_slot "cached_push_camera ttl" "cache_push_camera ttl" "held push_cameras"
  generation empty_auth for ttl
  by unfold_locales
    (auto simp: slot_defs sync_slots empty_auth_def get_fresh_Some dest!: put_lookup split: if_splits)

interpretation viewable_slot: auth_slot "cached_viewable ttl" "cache_viewable ttl" "held viewable"
  generation empty_auth for ttl
  by unfold_locales
    (auto simp: slot_defs sync_slots empty_auth_def get_fresh_Some dest!: put_lookup split: if_splits)

lemma length_put_le:
  assumes "length m \<le> AUTH_CACHE_MAX_ENTRIES" "hash_ok m"
  shows "length (put ttl current seen k e m) \<le> AUTH_CACHE_MAX_ENTRIES"
  using assms hash.length_put [of m k e] hash.length_put [of "[]" k e]
  by (auto simp: put_def AUTH_CACHE_MAX_ENTRIES_def)

section \<open>Properties\<close>

text \<open>
  C12. No stale push credential is ever served. However readers and writers of the node
  map interleave, from an empty cache and any database: if no committed write to a key
  still has its invalidation outstanding, then an answer the cache serves for that key
  is the answer the database gives now. A lookup that raced a key rotation cannot
  re-cache the old key.
\<close>

theorem cached_node_is_current:
  assumes "auth_reach (cached_push_node ttl) (cache_push_node ttl) empty_auth w"
    and "key_hash \<notin> set (dirty w)"
    and "snd (cached_push_node ttl (gen w) now key_hash (cache w)) = Some node"
  shows "db w key_hash = Some node"
  using assms by (rule node_slot.served_is_current)

definition demo_node :: push_node where
  "demo_node = \<lparr>pn_pk = 1, pn_org_id = ''org'', pn_node_id = ''n1''\<rparr>"

text \<open>A run in which one reader tags, queries and caches an answer.\<close>

lemma auth_demo_run:
  "auth_reach L S c \<lparr>db = [k \<mapsto> v], gen = 0, cache = S 0 5 0 k v c, dirty = [], inflight = Map.empty\<rparr>"
proof -
  have "auth_reach L S c \<lparr>db = [k \<mapsto> v], gen = 0, cache = c, dirty = [], inflight = Map.empty\<rparr>"
    by (rule auth_reach.boot)
  from auth_reach.step [OF this auth_step.tag [of _ _ _ 7]]
  have "auth_reach L S c \<lparr>db = [k \<mapsto> v], gen = 0, cache = c, dirty = [], inflight = [7 \<mapsto> Tagged 0]\<rparr>"
    by simp
  from auth_reach.step [OF this auth_step.query [of _ 7 0 k v]]
  have "auth_reach L S c \<lparr>db = [k \<mapsto> v], gen = 0, cache = c, dirty = [], inflight = [7 \<mapsto> Answered 0 k v]\<rparr>"
    by simp
  from auth_reach.step [OF this auth_step.fill [of _ 7 0 k v _ _ 5]]
  show ?thesis by simp
qed

lemmas auth_eval = slot_defs sync_def empty_auth_def put_def get_fresh_def fresh_def
  duration_since_def AUTH_CACHE_MAX_ENTRIES_def

theorem cached_node_is_current_witness:
  "\<exists>w. auth_reach (cached_push_node 10) (cache_push_node 10) empty_auth w \<and>
     snd (cached_push_node 10 (gen w) 6 ''k'' (cache w)) = Some demo_node \<and> db w ''k'' = Some demo_node"
proof -
  let ?w = "\<lparr>db = [''k'' \<mapsto> demo_node], gen = 0, cache = cache_push_node 10 0 5 0 ''k'' demo_node empty_auth,
    dirty = [], inflight = Map.empty\<rparr>"
  have r: "auth_reach (cached_push_node 10) (cache_push_node 10) empty_auth ?w"
    by (rule auth_demo_run)
  have h: "snd (cached_push_node 10 (gen ?w) 6 ''k'' (cache ?w)) = Some demo_node"
    by (simp add: auth_eval)
  have "db ?w ''k'' = Some demo_node"
    by (rule cached_node_is_current [OF r _ h]) simp
  with r h show ?thesis by blast
qed

text \<open>
  The same for the camera a push names: an answer about a camera (its name, and
  whether the plan has disabled it) that the cache serves is the database's, unless a
  write to it has committed and not yet invalidated.
\<close>

theorem cached_camera_is_current:
  assumes "auth_reach (cached_push_camera ttl) (cache_push_camera ttl) empty_auth w"
    and "key \<notin> set (dirty w)"
    and "snd (cached_push_camera ttl (gen w) now key (cache w)) = Some camera"
  shows "db w key = Some camera"
  using assms by (rule camera_slot.served_is_current)

theorem cached_camera_is_current_witness:
  "\<exists>w camera. auth_reach (cached_push_camera 10) (cache_push_camera 10) empty_auth w \<and>
     snd (cached_push_camera 10 (gen w) 6 (1, ''c'') (cache w)) = Some camera \<and> db w (1, ''c'') = Some camera"
proof -
  let ?c = "\<lparr>pc_name = ''Door'', pc_disabled_by_plan = True\<rparr>"
  let ?w = "\<lparr>db = [(1, ''c'') \<mapsto> ?c], gen = 0, cache = cache_push_camera 10 0 5 0 (1, ''c'') ?c empty_auth,
    dirty = [], inflight = Map.empty\<rparr>"
  have r: "auth_reach (cached_push_camera 10) (cache_push_camera 10) empty_auth ?w"
    by (rule auth_demo_run)
  have h: "snd (cached_push_camera 10 (gen ?w) 6 (1, ''c'') (cache ?w)) = Some ?c"
    by (simp add: auth_eval)
  have "db ?w (1, ''c'') = Some ?c"
    using cached_camera_is_current [OF r _ h] by simp
  with r h show ?thesis by blast
qed

end
