(* ===== verification/Hls_Cache.thy ===== *)
theory Hls_Cache
  imports Hls_Segments Hls_Auth
begin

text \<open>
  The rest of \<open>HlsCache\<close> in \<^verbatim>\<open>backend-rs/src/hls.rs\<close>: playlists, push counters, the
  one-shot log flags, the stream-access log, viewer usage, and the operations that run
  across all of them (\<open>cleanup_camera\<close>, \<open>evict_stale_cameras\<close>, \<open>evict_caches\<close>). The
  month an operation reads from the wall clock is its argument \<open>ym\<close>; the rows of
  \<open>org_monthly_usage\<close> are the association list \<open>usage_table\<close>.
\<close>

section \<open>State\<close>

type_synonym usage_key = "string \<times> string"
type_synonym usage_table = "(usage_key \<times> int) list"

record viewer_usage =
  pending :: "(usage_key \<times> int) list"
  cached :: "(usage_key \<times> int) list"

record hls_cache =
  auth :: auth_cache
  segments :: segment_store
  playlists :: "(string \<times> (string \<times> instant)) list"
  playlist_updates :: "(string \<times> nat) list"
  first_playlist_logged :: "string set"
  first_stream_get_logged :: "string set"
  access_logged :: "((string \<times> string) \<times> instant) list"
  viewer :: viewer_usage

definition new_cache :: hls_cache where
  "new_cache = \<lparr>auth = empty_auth, segments = empty_store, playlists = [], playlist_updates = [],
     first_playlist_logged = {}, first_stream_get_logged = {}, access_logged = [],
     viewer = \<lparr>pending = [], cached = []\<rparr>\<rparr>"

definition CACHE_MAX_CAMERAS :: nat where "CACHE_MAX_CAMERAS = 500"
definition ACCESS_LOG_INTERVAL :: duration where "ACCESS_LOG_INTERVAL = from_secs 300"
definition ACCESS_LOG_MAX_ENTRIES :: nat where "ACCESS_LOG_MAX_ENTRIES = 10000"

section \<open>Operations\<close>

definition cache_occupancy :: "hls_cache \<Rightarrow> nat \<times> nat" where
  "cache_occupancy h = (length (playlists h), length (cameras (segments h)))"

definition pending_viewer_seconds :: "hls_cache \<Rightarrow> int" where
  "pending_viewer_seconds h = sum_list (map snd (pending (viewer h)))"

text \<open>The four removals \<open>cleanup_camera\<close> and the stale sweep share.\<close>

definition forget_camera :: "string \<Rightarrow> hls_cache \<Rightarrow> hls_cache" where
  "forget_camera cam h =
     h\<lparr>playlists := AList.delete cam (playlists h),
       playlist_updates := AList.delete cam (playlist_updates h),
       first_playlist_logged := first_playlist_logged h - {cam},
       first_stream_get_logged := first_stream_get_logged h - {cam}\<rparr>"

definition cleanup_camera :: "string \<Rightarrow> hls_cache \<Rightarrow> hls_cache" where
  "cleanup_camera cam h = forget_camera cam (h\<lparr>segments := cleanup_store cam (segments h)\<rparr>)"

definition evict_stale_cameras :: "instant \<Rightarrow> hls_cache \<Rightarrow> hls_cache" where
  "evict_stale_cameras now h =
     (let (st, stale) = evict_stale_store now (segments h)
      in fold forget_camera stale (h\<lparr>segments := st\<rparr>))"

definition evict_playlists :: "hls_cache \<Rightarrow> hls_cache" where
  "evict_playlists h =
     (if length (playlists h) > CACHE_MAX_CAMERAS
      then
        (let by_age = sort_key snd (map (\<lambda>(k, (_, ts)). (k, ts)) (playlists h));
             drop_count = length by_age - CACHE_MAX_CAMERAS;
             gone = map fst (take drop_count by_age)
         in h\<lparr>playlists := fold AList.delete gone (playlists h),
              playlist_updates := fold AList.delete gone (playlist_updates h)\<rparr>)
      else h)"

definition evict_access_log :: "instant \<Rightarrow> hls_cache \<Rightarrow> hls_cache" where
  "evict_access_log now h =
     (if length (access_logged h) > ACCESS_LOG_MAX_ENTRIES
      then
        (let cutoff = now - ACCESS_LOG_INTERVAL * 2
         in h\<lparr>access_logged := filter (\<lambda>(_, ts). ts \<ge> cutoff) (access_logged h)\<rparr>)
      else h)"

definition evict_caches :: "instant \<Rightarrow> hls_cache \<Rightarrow> hls_cache" where
  "evict_caches now h = evict_stale_cameras now (evict_access_log now (evict_playlists h))"

definition set_playlist :: "string \<Rightarrow> string \<Rightarrow> instant \<Rightarrow> hls_cache \<Rightarrow> hls_cache" where
  "set_playlist cam text now h = h\<lparr>playlists := AList.update cam (text, now) (playlists h)\<rparr>"

definition playlist :: "string \<Rightarrow> instant \<Rightarrow> hls_cache \<Rightarrow> (string \<times> duration) option" where
  "playlist cam now h =
     (case map_of (playlists h) cam of
        None \<Rightarrow> None
      | Some (text, ts) \<Rightarrow> Some (text, duration_since now ts))"

definition bump_playlist_count :: "string \<Rightarrow> nat \<Rightarrow> hls_cache \<Rightarrow> hls_cache \<times> bool" where
  "bump_playlist_count cam interval h =
     (let count = (case map_of (playlist_updates h) cam of Some n \<Rightarrow> n | None \<Rightarrow> 0) + 1
      in (h\<lparr>playlist_updates := AList.update cam count (playlist_updates h)\<rparr>,
          interval \<noteq> 0 \<and> count mod interval = 0))"

definition first_playlist_push :: "string \<Rightarrow> hls_cache \<Rightarrow> hls_cache \<times> bool" where
  "first_playlist_push cam h =
     (h\<lparr>first_playlist_logged := insert cam (first_playlist_logged h)\<rparr>,
      cam \<notin> first_playlist_logged h)"

definition first_stream_get :: "string \<Rightarrow> hls_cache \<Rightarrow> hls_cache \<times> bool" where
  "first_stream_get cam h =
     (h\<lparr>first_stream_get_logged := insert cam (first_stream_get_logged h)\<rparr>,
      cam \<notin> first_stream_get_logged h)"

definition access_log_due :: "string \<Rightarrow> string \<Rightarrow> instant \<Rightarrow> hls_cache \<Rightarrow> hls_cache \<times> bool" where
  "access_log_due user cam now h =
     (let key = (user, cam);
          stamp = (h\<lparr>access_logged := AList.update key now (access_logged h)\<rparr>, True)
      in case map_of (access_logged h) key of
           Some at \<Rightarrow> if duration_since now at < ACCESS_LOG_INTERVAL then (h, False) else stamp
         | None \<Rightarrow> stamp)"

section \<open>Viewer usage\<close>

definition forget_org_viewer_usage :: "string \<Rightarrow> hls_cache \<Rightarrow> hls_cache" where
  "forget_org_viewer_usage org h =
     h\<lparr>viewer := \<lparr>pending = filter (\<lambda>((o', _), _). o' \<noteq> org) (pending (viewer h)),
                  cached = filter (\<lambda>((o', _), _). o' \<noteq> org) (cached (viewer h))\<rparr>\<rparr>"

definition get_or :: "int \<Rightarrow> 'k \<Rightarrow> ('k \<times> int) list \<Rightarrow> int" where
  "get_or d k m = (case map_of m k of Some n \<Rightarrow> n | None \<Rightarrow> d)"

definition record_viewer_second :: "string \<Rightarrow> string \<Rightarrow> hls_cache \<Rightarrow> hls_cache" where
  "record_viewer_second org ym h =
     (let key = (org, ym); p = pending (viewer h)
      in h\<lparr>viewer := (viewer h)\<lparr>pending := AList.update key (get_or 0 key p + 1) p\<rparr>\<rparr>)"

definition cached_viewer_seconds :: "string \<Rightarrow> string \<Rightarrow> hls_cache \<Rightarrow> int option" where
  "cached_viewer_seconds org ym h =
     map_option (\<lambda>n. n + get_or 0 (org, ym) (pending (viewer h)))
       (map_of (cached (viewer h)) (org, ym))"

definition store_cached_viewer_seconds :: "string \<Rightarrow> string \<Rightarrow> int \<Rightarrow> hls_cache \<Rightarrow> hls_cache \<times> int" where
  "store_cached_viewer_seconds org ym seconds h =
     (h\<lparr>viewer := (viewer h)\<lparr>cached := AList.update (org, ym) seconds (cached (viewer h))\<rparr>\<rparr>,
      seconds + get_or 0 (org, ym) (pending (viewer h)))"

text \<open>
  \<open>read\<close> is the outcome of the query of \<open>warm_viewer_seconds\<close>: \<open>None\<close> when it failed,
  otherwise the row's value if there is a row.
\<close>

definition warm_viewer_seconds ::
    "string \<Rightarrow> string \<Rightarrow> int option option \<Rightarrow> hls_cache \<Rightarrow> hls_cache \<times> int" where
  "warm_viewer_seconds org ym read h =
     (case cached_viewer_seconds org ym h of
        Some n \<Rightarrow> (h, n)
      | None \<Rightarrow>
          (let seconds = (case read of Some (Some v) \<Rightarrow> v | Some None \<Rightarrow> 0 | None \<Rightarrow> 0)
           in store_cached_viewer_seconds org ym seconds h))"

definition i32_max :: int where "i32_max = 2147483647"

text \<open>
  The upsert of one pending row. \<open>fail\<close> says whether this write fails; the increment is
  bound as an \<open>i32\<close>, saturating.
\<close>

definition upsert_usage :: "usage_key \<Rightarrow> int \<Rightarrow> usage_table \<Rightarrow> usage_table" where
  "upsert_usage key delta t = AList.update key (get_or 0 key t + min delta i32_max) t"

fun flush_rows ::
    "(usage_key \<times> int) list \<Rightarrow> (usage_key \<Rightarrow> bool) \<Rightarrow> usage_table \<Rightarrow> viewer_usage \<Rightarrow>
     (usage_table \<times> viewer_usage) \<times> bool" where
  "flush_rows [] fail t v = ((t, v), True)"
| "flush_rows ((key, delta) # rows) fail t v =
     (if delta \<le> 0 then flush_rows rows fail t v
      else if fail key then ((t, v), False)
      else
        (let t' = upsert_usage key delta t
         in flush_rows rows fail t' (v\<lparr>cached := AList.update key (get_or 0 key t') (cached v)\<rparr>)))"

definition flush_viewer_usage ::
    "(usage_key \<Rightarrow> bool) \<Rightarrow> usage_table \<Rightarrow> hls_cache \<Rightarrow> usage_table \<times> hls_cache \<times> nat" where
  "flush_viewer_usage fail t h =
     (let rows = pending (viewer h)
      in if rows = [] then (t, h, 0)
         else
           (case flush_rows rows fail t ((viewer h)\<lparr>pending := []\<rparr>) of
              ((t', v), done) \<Rightarrow> (t', h\<lparr>viewer := v\<rparr>, if done then length rows else 0)))"

section \<open>Viewer usage is counted once\<close>

text \<open>
  The invariant between the process and the table: distinct keys, no negative pending
  count, and every cached total is the table's own.
\<close>

definition usage_ok :: "usage_table \<Rightarrow> viewer_usage \<Rightarrow> bool" where
  "usage_ok t v \<longleftrightarrow>
     hash_ok (pending v) \<and> (\<forall>(k, n) \<in> set (pending v). 0 \<le> n) \<and>
     (\<forall>k n. map_of (cached v) k = Some n \<longrightarrow> n = get_or 0 k t)"

text \<open>What an org's viewers have used in a month: written plus pending.\<close>

definition usage_total :: "usage_key \<Rightarrow> usage_table \<Rightarrow> viewer_usage \<Rightarrow> int" where
  "usage_total k t v = get_or 0 k t + get_or 0 k (pending v)"

lemma get_or_update [simp]: "get_or d j (AList.update k n m) = (if j = k then n else get_or d j m)"
  by (simp add: get_or_def AList.update_conv')

lemma get_or_Nil [simp]: "get_or d k [] = d"
  by (simp add: get_or_def)

lemma get_or_nonneg: "\<forall>(k, n) \<in> set m. 0 \<le> n \<Longrightarrow> 0 \<le> get_or 0 k m"
  by (auto simp: get_or_def split: option.splits dest: map_of_SomeD)

lemma usage_ok_record:
  assumes "usage_ok t (viewer h)"
  shows "usage_ok t (viewer (record_viewer_second org ym h))"
proof -
  have "set (AList.update (org, ym) n (pending (viewer h))) \<subseteq> insert ((org, ym), n) (set (pending (viewer h)))" for n
    using assms hash.set_put [of "pending (viewer h)" "(org, ym)" n] by (auto simp: usage_ok_def)
  moreover have "0 \<le> get_or 0 (org, ym) (pending (viewer h))"
    using assms by (auto simp: usage_ok_def intro: get_or_nonneg)
  ultimately show ?thesis
    using assms by (fastforce simp: usage_ok_def record_viewer_second_def Let_def hash.ok_put)
qed

lemma usage_total_record:
  "usage_total k t (viewer (record_viewer_second org ym h)) =
     usage_total k t (viewer h) + (if k = (org, ym) then 1 else 0)"
  by (simp add: usage_total_def record_viewer_second_def Let_def)

lemma flush_rows_spec:
  assumes "hash_ok rows" "\<forall>(k, n) \<in> set rows. 0 \<le> n" "usage_ok t v"
    and "flush_rows rows fail t v = ((t', v'), ok)"
  shows "usage_ok t' v' \<and> pending v' = pending v \<and>
    (\<forall>k. get_or 0 k t \<le> get_or 0 k t' \<and> get_or 0 k t' \<le> get_or 0 k t + get_or 0 k rows) \<and>
    ((\<forall>k. \<not> fail k) \<longrightarrow> ok \<and>
       (\<forall>k. get_or 0 k t' = get_or 0 k t + min (get_or 0 k rows) i32_max))"
  using assms
proof (induction rows fail t v rule: flush_rows.induct)
  case (1 fail t v)
  then show ?case by (auto simp: i32_max_def)
next
  case (2 key delta rows fail t v)
  have d: "hash_ok rows" "\<forall>(k, n) \<in> set rows. 0 \<le> n" "0 \<le> delta" using "2.prems" by auto
  have nk: "get_or 0 key rows = 0"
    using "2.prems"(1) by (force simp: get_or_def split: option.splits dest: map_of_SomeD)
  have g: "get_or 0 k ((key, delta) # rows) = (if k = key then delta else get_or 0 k rows)" for k
    by (auto simp: get_or_def)
  show ?case
  proof (cases "delta \<le> 0")
    case True
    with d have z: "delta = 0" by simp
    have "get_or 0 k ((key, delta) # rows) = get_or 0 k rows" for k
      using nk z g [of k] by auto
    with True "2.IH"(1) [OF True d(1,2) "2.prems"(3)] "2.prems"(4) show ?thesis by simp
  next
    case False
    show ?thesis
    proof (cases "fail key")
      case True
      with False "2.prems" d show ?thesis
        by (auto simp: g intro: get_or_nonneg simp del: split_paired_All split_paired_Ex)
    next
      case ok: False
      let ?t = "upsert_usage key delta t"
      let ?v = "v\<lparr>cached := AList.update key (get_or 0 key ?t) (cached v)\<rparr>"
      have "usage_ok ?t ?v"
        using "2.prems"(3) by (auto simp: usage_ok_def upsert_usage_def AList.update_conv')
      with False ok "2.IH"(2) [OF False ok refl d(1,2)] "2.prems"(4)
      have IH: "usage_ok t' v'" "pending v' = pending v"
        "\<forall>k. get_or 0 k ?t \<le> get_or 0 k t' \<and> get_or 0 k t' \<le> get_or 0 k ?t + get_or 0 k rows"
        "(\<forall>k. \<not> fail k) \<longrightarrow> ok \<and> (\<forall>k. get_or 0 k t' = get_or 0 k ?t + min (get_or 0 k rows) i32_max)"
        by (simp_all add: Let_def)
      have t: "get_or 0 k ?t = (if k = key then get_or 0 k t + min delta i32_max else get_or 0 k t)" for k
        by (simp add: upsert_usage_def)
      have m: "0 \<le> min delta i32_max" "min delta i32_max \<le> delta" using d(3) by (auto simp: i32_max_def)
      have "get_or 0 k t \<le> get_or 0 k t' \<and> get_or 0 k t' \<le> get_or 0 k t + get_or 0 k ((key, delta) # rows)" for k
        using spec [OF IH(3), of k] m nk t [of k] g [of k] by (cases "k = key") (simp_all, linarith)
      moreover have "get_or 0 k t' = get_or 0 k t + min (get_or 0 k ((key, delta) # rows)) i32_max"
        if "\<forall>k. \<not> fail k" for k
        using IH(4) that nk t [of k] g [of k]
        by (cases "k = key") (simp_all add: i32_max_def del: split_paired_All)
      ultimately show ?thesis using IH(1,2,4) by blast
    qed
  qed
qed

text \<open>
  Runs of the operations on one process and its table, with every write succeeding and
  \<open>warm_viewer_seconds\<close> reading the table as it is.
\<close>

datatype usage_op = Record string string | Warm string string | Flush

fun usage_step :: "usage_op \<Rightarrow> usage_table \<times> hls_cache \<Rightarrow> usage_table \<times> hls_cache" where
  "usage_step (Record org ym) (t, h) = (t, record_viewer_second org ym h)"
| "usage_step (Warm org ym) (t, h) = (t, fst (warm_viewer_seconds org ym (Some (map_of t (org, ym))) h))"
| "usage_step Flush (t, h) = (case flush_viewer_usage (\<lambda>_. False) t h of (t', h', _) \<Rightarrow> (t', h'))"

definition usage_bounded :: "nat \<Rightarrow> viewer_usage \<Rightarrow> bool" where
  "usage_bounded b v \<longleftrightarrow> (\<forall>k. get_or 0 k (pending v) \<le> int b)"

lemma usage_step_ok:
  assumes "usage_ok t (viewer h)" "usage_bounded b (viewer h)" "int b \<le> i32_max"
    and "usage_step op (t, h) = (t', h')"
  shows "usage_ok t' (viewer h') \<and> usage_bounded (Suc b) (viewer h') \<and>
    (\<forall>k. usage_total k t' (viewer h') =
       usage_total k t (viewer h) + (if op = Record (fst k) (snd k) then 1 else 0))"
proof (cases op)
  case (Record org ym)
  have "get_or 0 k (pending (viewer (record_viewer_second org ym h))) \<le>
      get_or 0 k (pending (viewer h)) + 1" for k
    by (simp add: record_viewer_second_def Let_def)
  moreover have "get_or 0 k (pending (viewer h)) + 1 \<le> int (Suc b)" for k
    using assms(2) by (simp add: usage_bounded_def del: split_paired_All)
  ultimately have "get_or 0 k (pending (viewer (record_viewer_second org ym h))) \<le> int (Suc b)" for k
    by (meson order_trans)
  with assms Record usage_ok_record [OF assms(1)] show ?thesis
    by (auto simp: usage_bounded_def usage_total_record)
next
  case (Warm org ym)
  have "usage_ok t (viewer h') \<and> pending (viewer h') = pending (viewer h)"
  proof (cases "cached_viewer_seconds org ym h")
    case None
    with assms(4) Warm have "viewer h' = (viewer h)\<lparr>cached :=
        AList.update (org, ym) (get_or 0 (org, ym) t) (cached (viewer h))\<rparr>"
      by (auto simp: warm_viewer_seconds_def store_cached_viewer_seconds_def get_or_def Let_def
          split: option.splits)
    with assms(1) show ?thesis by (simp add: usage_ok_def AList.update_conv')
  next
    case (Some n)
    with assms(1,4) Warm show ?thesis by (auto simp: warm_viewer_seconds_def)
  qed
  moreover have "t' = t" using assms(4) Warm by simp
  moreover have "usage_bounded (Suc b) (viewer h)"
    using assms(2) by (meson le_SucI of_nat_mono order_refl order_trans usage_bounded_def)
  ultimately show ?thesis using Warm by (simp add: usage_total_def usage_bounded_def)
next
  case Flush
  show ?thesis
  proof (cases "pending (viewer h) = []")
    case True
    with Flush assms show ?thesis
      by (auto simp: flush_viewer_usage_def usage_bounded_def)
  next
    case False
    obtain v fin where r: "flush_rows (pending (viewer h)) (\<lambda>_. False) t ((viewer h)\<lparr>pending := []\<rparr>) = ((t', v), fin)"
      and h': "h' = h\<lparr>viewer := v\<rparr>"
      using Flush False assms(4)
      by (auto simp: flush_viewer_usage_def Let_def split: prod.splits)
    have "usage_ok t ((viewer h)\<lparr>pending := []\<rparr>)" using assms(1) by (simp add: usage_ok_def)
    moreover have "hash_ok (pending (viewer h))" "\<forall>(k, n) \<in> set (pending (viewer h)). 0 \<le> n"
      using assms(1) by (simp_all add: usage_ok_def)
    ultimately have "usage_ok t' v" "pending v = []"
      "\<forall>k. get_or 0 k t' = get_or 0 k t + min (get_or 0 k (pending (viewer h))) i32_max"
      using flush_rows_spec [OF _ _ _ r] by simp_all
    moreover have "get_or 0 k (pending (viewer h)) \<le> i32_max" for k
      using assms(2,3) by (meson order_trans usage_bounded_def)
    ultimately show ?thesis
      using h' Flush by (simp add: usage_total_def usage_bounded_def min_absorb1)
  qed
qed

lemma usage_run_ok:
  assumes "usage_ok t (viewer h)" "usage_bounded b (viewer h)" "int (b + length ops) \<le> i32_max"
    and "fold usage_step ops (t, h) = (t', h')"
  shows "usage_ok t' (viewer h') \<and>
    (\<forall>k. usage_total k t' (viewer h') =
       usage_total k t (viewer h) + int (count_list ops (Record (fst k) (snd k))))"
  using assms
proof (induction ops arbitrary: t h b)
  case Nil
  then show ?case by simp
next
  case (Cons op ops)
  obtain t1 h1 where s: "usage_step op (t, h) = (t1, h1)" by (cases "usage_step op (t, h)")
  have "int b \<le> i32_max" using Cons.prems(3) by simp
  from usage_step_ok [OF Cons.prems(1,2) this s]
  have 1: "usage_ok t1 (viewer h1)" "usage_bounded (Suc b) (viewer h1)"
    "\<forall>k. usage_total k t1 (viewer h1) =
       usage_total k t (viewer h) + (if op = Record (fst k) (snd k) then 1 else 0)" by auto
  have "int (Suc b + length ops) \<le> i32_max" using Cons.prems(3) by simp
  moreover have "fold usage_step ops (t1, h1) = (t', h')" using Cons.prems(4) s by simp
  ultimately show ?case using Cons.IH [OF 1(1,2)] 1(3) by auto
qed

section \<open>The access log\<close>

text \<open>
  A trace of stream requests and sweeps; the result lists, newest first, the rows that
  were written.
\<close>

datatype access_event = Access string string instant | Sweep instant

fun event_time :: "access_event \<Rightarrow> instant" where
  "event_time (Access _ _ t) = t"
| "event_time (Sweep t) = t"

fun access_run :: "access_event list \<Rightarrow> hls_cache \<Rightarrow> hls_cache \<times> ((string \<times> string) \<times> instant) list" where
  "access_run [] h = (h, [])"
| "access_run (e # es) h =
     (let (h1, rows) = access_run es h
      in case e of
           Access user cam now \<Rightarrow>
             (let (h2, due) = access_log_due user cam now h1
              in (h2, if due then ((user, cam), now) # rows else rows))
         | Sweep now \<Rightarrow> (evict_access_log now h1, rows))"

text \<open>The events are given newest first, so that the run is structural.\<close>

definition rows_ok :: "instant \<Rightarrow> hls_cache \<Rightarrow> ((string \<times> string) \<times> instant) list \<Rightarrow> bool" where
  "rows_ok now h rows \<longleftrightarrow>
     hash_ok (access_logged h) \<and>
     (\<forall>(k, t) \<in> set rows. t \<le> now \<and>
        (now - t < ACCESS_LOG_INTERVAL \<longrightarrow> (\<exists>t'. map_of (access_logged h) k = Some t' \<and> t \<le> t'))) \<and>
     (\<forall>k t. map_of (access_logged h) k = Some t \<longrightarrow> t \<le> now)"

definition spaced :: "((string \<times> string) \<times> instant) list \<Rightarrow> bool" where
  "spaced rows \<longleftrightarrow> sorted_wrt (\<lambda>(k, t) (k', t'). k = k' \<longrightarrow> t' + ACCESS_LOG_INTERVAL \<le> t) rows"

lemma rows_ok_later: "rows_ok now h rows \<Longrightarrow> now \<le> later \<Longrightarrow> rows_ok later h rows"
  unfolding rows_ok_def by fastforce

lemma rows_ok_access:
  assumes "rows_ok now h rows" "spaced rows" "access_log_due user cam now h = (h', due)"
  shows "let rows' = (if due then ((user, cam), now) # rows else rows)
     in rows_ok now h' rows' \<and> spaced rows'"
proof (cases due)
  case False
  then have "h' = h" using assms(3)
    by (auto simp: access_log_due_def Let_def split: option.splits if_splits)
  with False assms show ?thesis by simp
next
  case True
  let ?k = "(user, cam)"
  have h': "h' = h\<lparr>access_logged := AList.update ?k now (access_logged h)\<rparr>"
    using True assms(3) by (auto simp: access_log_due_def Let_def split: option.splits if_splits)
  have far: "t + ACCESS_LOG_INTERVAL \<le> now" if "(?k, t) \<in> set rows" for t
  proof (rule ccontr)
    assume "\<not> ?thesis"
    with assms(1) that obtain t' where "map_of (access_logged h) ?k = Some t'" "t \<le> t'" "t' \<le> now"
      by (fastforce simp: rows_ok_def)
    with True assms(3) \<open>\<not> ?thesis\<close> show False
      by (auto simp: access_log_due_def Let_def duration_since_def split: if_splits)
  qed
  have "rows_ok now h' ((?k, now) # rows)"
    using assms(1) unfolding rows_ok_def h'
    by (fastforce simp: hash.ok_put AList.update_conv' split: if_splits)
  moreover have "spaced ((?k, now) # rows)"
    using assms(2) far by (auto simp: spaced_def)
  ultimately show ?thesis using True by simp
qed

lemma rows_ok_sweep:
  assumes "rows_ok now h rows"
  shows "rows_ok now (evict_access_log now h) rows"
proof (cases "length (access_logged h) > ACCESS_LOG_MAX_ENTRIES")
  case False
  with assms show ?thesis by (simp add: evict_access_log_def)
next
  case True
  have d: "hash_ok (access_logged h)" using assms by (simp add: rows_ok_def)
  have m: "map_of (access_logged (evict_access_log now h)) k =
      (case map_of (access_logged h) k of
         Some ts \<Rightarrow> if now - ACCESS_LOG_INTERVAL * 2 \<le> ts then Some ts else None | None \<Rightarrow> None)" for k
    using True map_of_filter_keys [OF d, of "\<lambda>_ ts. now - ACCESS_LOG_INTERVAL * 2 \<le> ts" k]
    by (simp add: evict_access_log_def Let_def)
  have "0 \<le> ACCESS_LOG_INTERVAL" by (simp add: ACCESS_LOG_INTERVAL_def)
  with assms d True show ?thesis
    unfolding rows_ok_def m
    by (fastforce simp: evict_access_log_def Let_def distinct_fst_filter split: option.splits if_splits)
qed

lemma access_run_spaced:
  assumes "sorted_wrt (\<lambda>later earlier. event_time earlier \<le> event_time later) es"
    and "\<forall>e \<in> set es. start \<le> event_time e"
    and "access_logged h = []" "access_run es h = (h', rows)"
  shows "rows_ok (if es = [] then start else event_time (hd es)) h' rows \<and> spaced rows"
  using assms
proof (induction es arbitrary: h' rows)
  case Nil
  then show ?case by (auto simp: rows_ok_def spaced_def)
next
  case (Cons e es)
  obtain h1 rows1 where r1: "access_run es h = (h1, rows1)" by (cases "access_run es h")
  with Cons have IH: "rows_ok (if es = [] then start else event_time (hd es)) h1 rows1" "spaced rows1"
    by auto
  have "(if es = [] then start else event_time (hd es)) \<le> event_time e"
    using Cons.prems(1,2) by (cases es) auto
  with IH(1) have now: "rows_ok (event_time e) h1 rows1" by (rule rows_ok_later)
  show ?case
  proof (cases e)
    case (Access user cam t)
    obtain h2 due where "access_log_due user cam t h1 = (h2, due)"
      by (cases "access_log_due user cam t h1")
    with Access now IH(2) rows_ok_access [of t h1 rows1 user cam h2 due] Cons.prems(4) r1 show ?thesis
      by (auto simp: Let_def)
  next
    case (Sweep t)
    with now IH(2) rows_ok_sweep [of t h1 rows1] Cons.prems(4) r1 show ?thesis by auto
  qed
qed

section \<open>Forgetting a camera\<close>

lemma cleanup_store_wf [wf_intros]: "store_wf st \<Longrightarrow> store_wf (cleanup_store cam st)"
  by (auto simp: cleanup_store_def bucket_of_def intro!: store_wf_delete split: option.splits)

lemma cleanup_store_lookup: "map_of (cameras (cleanup_store cam st)) c = (if c = cam then None else map_of (cameras st) c)"
  by (auto simp: cleanup_store_def AList.delete_conv' split: option.splits)

section \<open>Properties\<close>



text \<open>
  A stream-access row is written at most once per user, camera and five minutes: in
  every run of requests and log sweeps with a clock that does not go back (events newest
  first), two rows for the same user and camera are at least the interval apart.
\<close>

theorem access_rows_spaced:
  assumes "sorted_wrt (\<lambda>later earlier. event_time earlier \<le> event_time later) es"
    and "access_logged h = []" "access_run es h = (h', rows)"
  shows "sorted_wrt (\<lambda>(k, t) (k', t'). k = k' \<longrightarrow> t' + ACCESS_LOG_INTERVAL \<le> t) rows"
proof -
  obtain start where "\<forall>e \<in> set es. start \<le> event_time e"
    by (metis finite_imageI finite_set Min_le imageI)
  from access_run_spaced [OF assms(1) this assms(2,3)] show ?thesis by (simp add: spaced_def)
qed

theorem access_rows_spaced_witness:
  "sorted_wrt (\<lambda>(k, t) (k', t'). k = k' \<longrightarrow> t' + ACCESS_LOG_INTERVAL \<le> t)
     (snd (access_run [Access ''u'' ''c'' 400000000000, Sweep 5, Access ''u'' ''c'' 3, Access ''u'' ''c'' 1] new_cache))"
  using access_rows_spaced [of "[Access ''u'' ''c'' 400000000000, Sweep 5, Access ''u'' ''c'' 3, Access ''u'' ''c'' 1]"
      new_cache
      "fst (access_run [Access ''u'' ''c'' 400000000000, Sweep 5, Access ''u'' ''c'' 3, Access ''u'' ''c'' 1] new_cache)"
      "snd (access_run [Access ''u'' ''c'' 400000000000, Sweep 5, Access ''u'' ''c'' 3, Access ''u'' ''c'' 1] new_cache)"]
  by (simp add: new_cache_def del: access_run.simps)

text \<open>
  Cleaning up a camera leaves nothing of it in any cache, keeps the byte total
  exact, and touches no other camera.
\<close>

theorem cleanup_camera_complete:
  assumes "store_wf (segments h)"
  shows "store_wf (segments (cleanup_camera cam h)) \<and>
    segment cam f (segments (cleanup_camera cam h)) = None \<and>
    playlist cam now (cleanup_camera cam h) = None \<and>
    map_of (playlist_updates (cleanup_camera cam h)) cam = None \<and>
    snd (first_playlist_push cam (cleanup_camera cam h)) \<and>
    snd (first_stream_get cam (cleanup_camera cam h)) \<and>
    (\<forall>c. c \<noteq> cam \<longrightarrow>
       segment c f (segments (cleanup_camera cam h)) = segment c f (segments h) \<and>
       playlist c now (cleanup_camera cam h) = playlist c now h \<and>
       map_of (playlist_updates (cleanup_camera cam h)) c = map_of (playlist_updates h) c \<and>
       snd (first_playlist_push c (cleanup_camera cam h)) = snd (first_playlist_push c h) \<and>
       snd (first_stream_get c (cleanup_camera cam h)) = snd (first_stream_get c h))"
  using assms
  by (simp add: cleanup_camera_def forget_camera_def cleanup_store_wf segment_def cleanup_store_lookup
      playlist_def AList.delete_conv' first_playlist_push_def first_stream_get_def)

theorem cleanup_camera_complete_witness:
  "segment ''cam'' ''segment_99999.ts'' (segments (cleanup_camera ''cam'' (new_cache\<lparr>segments := demo_store\<rparr>))) = None \<and>
   segment ''cam'' ''segment_99999.ts'' demo_store \<noteq> None"
  using cleanup_camera_complete [of "new_cache\<lparr>segments := demo_store\<rparr>" "''cam''" "''segment_99999.ts''"]
    demo_store_wf
  by (simp add: segment_entry demo_store_entry)

end
