(* ===== verification/Json.thy ===== *)
theory Json
  imports Sentinel_Prelude Complex_Main
begin

text \<open>
  The JSON values the handlers take apart, as \<^verbatim>\<open>serde_json::Value\<close> presents them: a
  number is an integer in the range of \<open>i64\<close> or \<open>u64\<close>, or a finite double, which is a
  rational here. Objects keep their keys in insertion order (the crate is built with
  \<open>preserve_order\<close>) and have distinct keys.
\<close>

datatype json =
    Null
  | Bool bool
  | IntNum int
  | FloatNum rat
  | String string
  | Array "json list"
  | Object "(string \<times> json) list"

fun json_get :: "string \<Rightarrow> json \<Rightarrow> json option" where
  "json_get k (Object m) = map_of m k"
| "json_get k _ = None"

fun as_str :: "json \<Rightarrow> string option" where
  "as_str (String s) = Some s"
| "as_str _ = None"

fun as_array :: "json \<Rightarrow> json list option" where
  "as_array (Array xs) = Some xs"
| "as_array _ = None"

fun_cases as_str_SomeE: "as_str j = Some s"

lemma as_str_Some [simp]: "as_str j = Some s \<longleftrightarrow> j = String s"
  by (cases j) auto

lemma json_get_Some: "json_get k j = Some v \<longleftrightarrow> (\<exists>m. j = Object m \<and> map_of m k = Some v)"
  by (cases j) auto

end
