(* ===== verification/PyInt.thy ===== *)
theory PyInt
  imports Json
begin

text \<open>
  \<^verbatim>\<open>backend-rs/src/pyint.rs\<close>: Pydantic's string-to-int coercion (\<open>str_as_int\<close>, over
  jiter's integer parser) and the builtin \<open>int()\<close> (\<open>python_int\<close>,
  \<open>python_int_of_json\<close>). \<open>PyInt\<close> is \<open>py_int\<close>: an \<open>i64\<close>, or the sign of something outside
  it. \<open>denotes\<close> is the relation between a \<open>py_int\<close> and the integer it stands for; the
  comparison methods are correct for every integer a value denotes.
\<close>

section \<open>Values\<close>

datatype py_int = Small int | Big (negative: bool)

definition i64_min :: int where "i64_min = - (2 ^ 63)"
definition i64_max :: int where "i64_max = 2 ^ 63 - 1"

definition in_i64 :: "int \<Rightarrow> bool" where
  "in_i64 n \<longleftrightarrow> i64_min \<le> n \<and> n \<le> i64_max"

fun py_ge :: "py_int \<Rightarrow> int \<Rightarrow> bool" where
  "py_ge (Small v) bound \<longleftrightarrow> v \<ge> bound"
| "py_ge (Big neg) bound \<longleftrightarrow> \<not> neg"

fun py_le :: "py_int \<Rightarrow> int \<Rightarrow> bool" where
  "py_le (Small v) bound \<longleftrightarrow> v \<le> bound"
| "py_le (Big neg) bound \<longleftrightarrow> neg"

fun small :: "py_int \<Rightarrow> int option" where
  "small (Small v) = Some v"
| "small (Big _) = None"

fun max_zero :: "py_int \<Rightarrow> int option" where
  "max_zero (Small v) = Some (max v 0)"
| "max_zero (Big neg) = (if neg then Some 0 else None)"

definition truthy :: "py_int \<Rightarrow> bool" where
  "truthy p \<longleftrightarrow> p \<noteq> Small 0"

section \<open>Pydantic's coercion\<close>

datatype str_int_error = Parsing | ParsingSize
datatype jiter_error = OutOfRange | Other

definition MAX_INT_CHARS :: nat where "MAX_INT_CHARS = 4300"

text \<open>\<open>str::parse::<i64>\<close> on an optional minus sign and digits.\<close>

definition signed_value :: "string \<Rightarrow> int" where
  "signed_value s =
     (case strip_prefix ''-'' s of
        Some ds \<Rightarrow> - int (digits_value ds)
      | None \<Rightarrow> int (digits_value s))"

definition parse_i64 :: "string \<Rightarrow> int option" where
  "parse_i64 s = (if in_i64 (signed_value s) then Some (signed_value s) else None)"

definition is_digit_1_9 :: "char \<Rightarrow> bool" where
  "is_digit_1_9 c \<longleftrightarrow> CHR ''1'' \<le> c \<and> c \<le> CHR ''9''"

definition jiter_int :: "string \<Rightarrow> jiter_error + py_int" where
  "jiter_int s =
     (case s of
        [] \<Rightarrow> Inl Other
      | c # _ \<Rightarrow>
          (let neg = (c = CHR ''-''); body = (if neg then tl s else s)
           in case body of
                [] \<Rightarrow> Inl Other
              | d # rest \<Rightarrow>
                  if d = CHR ''0'' then (if rest = [] then Inr (Small 0) else Inl Other)
                  else if \<not> is_digit_1_9 d then Inl Other
                  else
                    (let digit_count = length (takeWhile is_ascii_digit body);
                         digits_end = (if neg then 1 else 0) + digit_count
                     in if digit_count \<ge> 19 \<and> digits_end > MAX_INT_CHARS then Inl OutOfRange
                        else if digits_end \<noteq> length s then Inl Other
                        else (case parse_i64 s of
                                Some v \<Rightarrow> Inr (Small v)
                              | None \<Rightarrow> Inr (Big neg)))))"

fun strip_zeros_loop :: "char \<Rightarrow> string \<Rightarrow> string option" where
  "strip_zeros_loop prev [] = Some [prev]"
| "strip_zeros_loop prev (c # cs) =
     (if c = CHR ''0'' \<or> c = CHR ''_'' then strip_zeros_loop c cs
      else if is_digit_1_9 c \<or> c = CHR ''-'' then Some (c # cs)
      else if c = CHR ''.'' then Some (prev # c # cs)
      else None)"

definition strip_leading_zeros :: "string \<Rightarrow> string option" where
  "strip_leading_zeros s =
     (case s of
        [] \<Rightarrow> None
      | c # cs \<Rightarrow>
          if c = CHR ''0'' then strip_zeros_loop c cs
          else if is_digit_1_9 c \<or> c = CHR ''-'' then Some s
          else None)"

fun has_double_underscore :: "string \<Rightarrow> bool" where
  "has_double_underscore (c # d # cs) \<longleftrightarrow>
     (c = CHR ''_'' \<and> d = CHR ''_'') \<or> has_double_underscore (d # cs)"
| "has_double_underscore _ \<longleftrightarrow> False"

definition strip_underscores :: "string \<Rightarrow> string option" where
  "strip_underscores s =
     (if s \<noteq> [] \<and> hd s = CHR ''_'' \<or> s \<noteq> [] \<and> last s = CHR ''_'' \<or>
         CHR ''_'' \<notin> set s \<or> has_double_underscore s
      then None else Some (filter (\<lambda>c. c \<noteq> CHR ''_'') s))"

text \<open>A \<open>.000\<close> tail: the part before the first dot, when only zeros follow it.\<close>

definition drop_zero_fraction :: "string \<Rightarrow> string" where
  "drop_zero_fraction s =
     (let before = takeWhile (\<lambda>c. c \<noteq> CHR ''.'') s;
          decimal = drop (length before + 1) s
      in if CHR ''.'' \<in> set s \<and> decimal \<noteq> [] \<and> (\<forall>c \<in> set decimal. c = CHR ''0'') then before else s)"

definition clean_int_str :: "string \<Rightarrow> string option" where
  "clean_int_str original =
     (let s0 = trim original
      in case (case strip_prefix ''+'' s0 of
                 Some rest \<Rightarrow> if starts_with ''-'' rest then None else Some rest
               | None \<Rightarrow> Some s0) of
           None \<Rightarrow> None
         | Some s1 \<Rightarrow>
             (case (case strip_prefix ''-'' s1 of
                      Some rest \<Rightarrow>
                        if starts_with ''-'' rest \<or> starts_with ''+'' rest then None else Some (True, rest)
                    | None \<Rightarrow> Some (False, s1)) of
                None \<Rightarrow> None
              | Some (neg, s2) \<Rightarrow>
                  (case strip_leading_zeros s2 of
                     None \<Rightarrow> None
                   | Some s3 \<Rightarrow>
                       (let s4 = drop_zero_fraction s3; sign = (if neg then ''-'' else '''')
                        in case strip_underscores s4 of
                             Some stripped \<Rightarrow> Some (sign @ stripped)
                           | None \<Rightarrow> if length original = length s4 then None else Some (sign @ s4)))))"

definition str_as_int :: "string \<Rightarrow> str_int_error + py_int" where
  "str_as_int s =
     (case jiter_int s of
        Inr v \<Rightarrow> Inr v
      | Inl OutOfRange \<Rightarrow> Inl ParsingSize
      | Inl Other \<Rightarrow>
          (case clean_int_str s of
             None \<Rightarrow> Inl Parsing
           | Some cleaned \<Rightarrow>
               (case jiter_int cleaned of Inr v \<Rightarrow> Inr v | Inl _ \<Rightarrow> Inl Parsing)))"

section \<open>The builtin \<open>int()\<close>\<close>

text \<open>The digit loop: the digits without underscores, or \<open>None\<close>.\<close>

fun int_digits :: "bool \<Rightarrow> string \<Rightarrow> string option" where
  "int_digits prev [] = (if prev then Some [] else None)"
| "int_digits prev (c # cs) =
     (if c = CHR ''_'' then (if prev then int_digits False cs else None)
      else if is_ascii_digit c then map_option (\<lambda>r. c # r) (int_digits True cs)
      else None)"

definition python_int :: "string \<Rightarrow> py_int option" where
  "python_int s0 =
     (let s = trim s0;
          (neg, digits) =
            (case strip_prefix ''-'' s of
               Some rest \<Rightarrow> (True, rest)
             | None \<Rightarrow> (False, case strip_prefix ''+'' s of Some rest \<Rightarrow> rest | None \<Rightarrow> s))
      in if digits = [] then None
         else
           (case int_digits False digits of
              None \<Rightarrow> None
            | Some clean \<Rightarrow>
                Some (let value = int (digits_value clean)
                      in if in_i64 value then Small (if neg then - value else value) else Big neg)))"

text \<open>\<open>i64::MAX as f64\<close> is \<open>2\<^sup>6\<^sup>3\<close>; the cast back saturates.\<close>

fun python_int_of_json :: "json \<Rightarrow> py_int option" where
  "python_int_of_json (Bool b) = Some (Small (if b then 1 else 0))"
| "python_int_of_json (IntNum n) = (if in_i64 n then Some (Small n) else Some (Big False))"
| "python_int_of_json (FloatNum f) =
     (let truncated = (if f < 0 then \<lceil>f\<rceil> else \<lfloor>f\<rfloor>)
      in if - (2 ^ 63) \<le> truncated \<and> truncated \<le> 2 ^ 63 then Some (Small (min truncated i64_max))
         else Some (Big (truncated < 0)))"
| "python_int_of_json (String s) = python_int s"
| "python_int_of_json _ = None"

section \<open>What a value stands for\<close>

fun denotes :: "py_int \<Rightarrow> int \<Rightarrow> bool" where
  "denotes (Small v) n \<longleftrightarrow> n = v \<and> in_i64 v"
| "denotes (Big neg) n \<longleftrightarrow> \<not> in_i64 n \<and> (neg \<longleftrightarrow> n < 0)"

lemma in_i64_cases: "\<not> in_i64 n \<Longrightarrow> n < i64_min \<or> i64_max < n"
  by (auto simp: in_i64_def)

lemma i64_bounds: "i64_min < 0" "0 < i64_max"
  by (simp_all add: i64_min_def i64_max_def)

lemma is_digit_1_9_iff: "is_digit_1_9 c \<longleftrightarrow> is_ascii_digit c \<and> c \<noteq> CHR ''0''"
  by (auto simp: is_digit_1_9_def is_ascii_digit_def less_eq_char_def char_zero_code)

lemma takeWhile_all_iff: "length (takeWhile P s) = length s \<longleftrightarrow> (\<forall>c \<in> set s. P c)"
  by (induction s) auto

lemma signed_value_neg [simp]: "signed_value (CHR ''-'' # ds) = - int (digits_value ds)"
  by (simp add: signed_value_def strip_prefix_def)

lemma signed_value_pos: "c \<noteq> CHR ''-'' \<Longrightarrow> signed_value (c # ds) = int (digits_value (c # ds))"
  by (simp add: signed_value_def strip_prefix_def)

lemma not_minus_digit: "is_ascii_digit c \<Longrightarrow> c \<noteq> CHR ''-''"
  by (auto simp: is_ascii_digit_code)

lemma digits_value_pos:
  assumes "is_digit_1_9 c"
  shows "0 < digits_value (c # ds)"
proof -
  have "0 < digit_value c"
    using assms by (auto simp: is_digit_1_9_iff is_ascii_digit_code digit_value_def char_zero_code)
  then show ?thesis by (simp add: digits_value_Cons)
qed

text \<open>A well-formed JSON integer: an optional minus sign, then \<open>0\<close> or digits with no leading zero.\<close>

definition json_integer :: "string \<Rightarrow> bool" where
  "json_integer s \<longleftrightarrow>
     (\<exists>ds. (s = ds \<or> s = CHR ''-'' # ds) \<and>
        (ds = ''0'' \<or> ds \<noteq> [] \<and> is_digit_1_9 (hd ds) \<and> (\<forall>c \<in> set ds. is_ascii_digit c)))"

lemma json_integerI:
  "ds \<noteq> [] \<Longrightarrow> is_digit_1_9 (hd ds) \<Longrightarrow> \<forall>c \<in> set ds. is_ascii_digit c \<Longrightarrow>
   json_integer (if neg then CHR ''-'' # ds else ds)"
  unfolding json_integer_def by (cases neg) (simp, blast)+

lemma jiter_int_digits:
  assumes "ds \<noteq> []" "is_digit_1_9 (hd ds)" "\<forall>c \<in> set ds. is_ascii_digit c"
    and "s = (if neg then CHR ''-'' # ds else ds)"
  shows "jiter_int s =
    (if length s > MAX_INT_CHARS then Inl OutOfRange
     else case parse_i64 s of Some v \<Rightarrow> Inr (Small v) | None \<Rightarrow> Inr (Big neg))"
proof -
  obtain c cs where ds: "ds = c # cs" using assms(1) by (cases ds) auto
  have c: "c \<noteq> CHR ''0''" "c \<noteq> CHR ''-''" "is_digit_1_9 c"
    using assms(2) ds not_minus_digit by (auto simp: is_digit_1_9_iff)
  have tw: "takeWhile is_ascii_digit cs = cs" "is_ascii_digit c"
    using assms(3) ds by (simp_all add: takeWhile_eq_all_conv)
  show ?thesis
  proof (cases neg)
    case True
    then have "s = CHR ''-'' # c # cs" "neg = True" using assms(4) ds by simp_all
    then show ?thesis
      by (simp add: jiter_int_def Let_def MAX_INT_CHARS_def c tw split: option.split)
  next
    case False
    then have "s = c # cs" "neg = False" using assms(4) ds by simp_all
    then show ?thesis
      by (simp add: jiter_int_def Let_def MAX_INT_CHARS_def c tw split: option.split)
  qed
qed

lemma jiter_int_shape:
  assumes "jiter_int s = Inr p"
  shows "json_integer s \<and> length s \<le> MAX_INT_CHARS"
proof -
  obtain c t where s: "s = c # t" using assms by (auto simp: jiter_int_def split: list.splits)
  define neg where "neg = (c = CHR ''-'')"
  define ds where "ds = (if neg then t else s)"
  have split: "s = (if neg then CHR ''-'' # ds else ds)" by (simp add: ds_def neg_def s)
  obtain d rest where d: "ds = d # rest"
    using assms s by (cases ds) (auto simp: jiter_int_def Let_def ds_def neg_def split: if_splits)
  consider "ds = ''0''" | "is_digit_1_9 d" "(if neg then 1 else 0) + length (takeWhile is_ascii_digit ds) = length s"
      "\<not> (19 \<le> length (takeWhile is_ascii_digit ds) \<and> MAX_INT_CHARS < length s)"
    using assms s d by (auto simp: jiter_int_def Let_def ds_def neg_def split: if_splits)
  then show ?thesis
  proof cases
    case 1
    then show ?thesis using split by (auto simp: json_integer_def MAX_INT_CHARS_def)
  next
    case 2
    then have "length (takeWhile is_ascii_digit ds) = length ds" using split by (auto split: if_splits)
    then have ad: "\<forall>c \<in> set ds. is_ascii_digit c" and tl: "length (takeWhile is_ascii_digit ds) = length ds"
      by (simp_all add: takeWhile_all_iff)
    have "length s \<le> Suc (length ds)" using split by simp
    then have "length s \<le> MAX_INT_CHARS" using 2(3) tl by (auto simp: MAX_INT_CHARS_def)
    moreover have "json_integer s"
      using json_integerI [of ds neg] d 2(1) ad split by simp
    ultimately show ?thesis by simp
  qed
qed

lemma jiter_int_sound:
  assumes "jiter_int s = Inr p"
  shows "denotes p (signed_value s)"
proof -
  have "json_integer s" using jiter_int_shape [OF assms] by auto
  then obtain neg ds where s: "s = (if neg then CHR ''-'' # ds else ds)"
    and ds: "ds = ''0'' \<or> ds \<noteq> [] \<and> is_digit_1_9 (hd ds) \<and> (\<forall>c \<in> set ds. is_ascii_digit c)"
    unfolding json_integer_def by (metis (full_types))
  from ds show ?thesis
  proof
    assume z: "ds = ''0''"
    have "jiter_int s = Inr (Small 0)" using s z by (auto simp: jiter_int_def Let_def)
    moreover have "signed_value s = 0"
      using s z by (auto simp: signed_value_def strip_prefix_def digits_value.simps digit_value_def)
    ultimately show ?thesis using assms by (simp add: in_i64_def i64_min_def i64_max_def)
  next
    assume d: "ds \<noteq> [] \<and> is_digit_1_9 (hd ds) \<and> (\<forall>c \<in> set ds. is_ascii_digit c)"
    then obtain c cs where c: "ds = c # cs" "is_digit_1_9 c" by (cases ds) auto
    then have "neg \<longleftrightarrow> signed_value s < 0"
      using s digits_value_pos [OF c(2), of cs] not_minus_digit [of c]
      by (auto simp: signed_value_pos is_digit_1_9_iff)
    moreover have "jiter_int s = (case parse_i64 s of Some v \<Rightarrow> Inr (Small v) | None \<Rightarrow> Inr (Big neg))"
      using assms jiter_int_digits [OF _ _ _ s] d by (auto split: if_splits)
    ultimately show ?thesis using assms by (auto simp: parse_i64_def split: if_splits)
  qed
qed

lemma show_int_json_integer: "json_integer (show_int n)"
proof (cases "n = 0")
  case True
  then show ?thesis by (auto simp: json_integer_def show_int_def show_nat_0)
next
  case False
  define ds where "ds = show_nat (nat \<bar>n\<bar>)"
  have "ds \<noteq> []" "is_digit_1_9 (hd ds)" "\<forall>c \<in> set ds. is_ascii_digit c"
    using False show_nat_ne show_nat_digits [of "nat \<bar>n\<bar>"] show_nat_lead [of "nat \<bar>n\<bar>"]
    by (auto simp: is_digit_1_9_iff ds_def)
  moreover have "show_int n = ds \<or> show_int n = CHR ''-'' # ds"
    using False by (auto simp: show_int_def ds_def)
  ultimately show ?thesis unfolding json_integer_def by blast
qed

lemma signed_value_show_int: "signed_value (show_int n) = n"
proof (cases "n < 0")
  case True
  then show ?thesis by (simp add: show_int_def show_nat_value)
next
  case False
  obtain c cs where "show_nat (nat n) = c # cs" using show_nat_ne by (cases "show_nat (nat n)") auto
  with False show_nat_digits [of "nat n"] show_nat_value [of "nat n"] show ?thesis
    by (simp add: show_int_def signed_value_pos not_minus_digit)
qed

lemma jiter_int_total:
  assumes "json_integer s"
  shows "jiter_int s = Inl OutOfRange \<and> MAX_INT_CHARS < length s \<or>
    (\<exists>p. jiter_int s = Inr p) \<and> length s \<le> MAX_INT_CHARS"
proof -
  from assms obtain neg ds where s: "s = (if neg then CHR ''-'' # ds else ds)"
    and ds: "ds = ''0'' \<or> ds \<noteq> [] \<and> is_digit_1_9 (hd ds) \<and> (\<forall>c \<in> set ds. is_ascii_digit c)"
    unfolding json_integer_def by (metis (full_types))
  from ds show ?thesis
  proof
    assume "ds = ''0''"
    with s show ?thesis by (auto simp: jiter_int_def Let_def MAX_INT_CHARS_def)
  next
    assume "ds \<noteq> [] \<and> is_digit_1_9 (hd ds) \<and> (\<forall>c \<in> set ds. is_ascii_digit c)"
    with jiter_int_digits [OF _ _ _ s] show ?thesis by (auto split: option.splits)
  qed
qed

section \<open>The digit loop\<close>

text \<open>Where the underscores may stand: after a digit and before one.\<close>

definition underscores_between :: "string \<Rightarrow> bool" where
  "underscores_between s \<longleftrightarrow>
     s \<noteq> [] \<and> (\<forall>c \<in> set s. is_ascii_digit c \<or> c = CHR ''_'') \<and>
     hd s \<noteq> CHR ''_'' \<and> last s \<noteq> CHR ''_'' \<and> \<not> has_double_underscore s"

lemma int_digits_spec:
  "int_digits prev s =
     (if (\<forall>c \<in> set s. is_ascii_digit c \<or> c = CHR ''_'') \<and>
         (prev \<or> s \<noteq> [] \<and> hd s \<noteq> CHR ''_'') \<and> (s \<noteq> [] \<longrightarrow> last s \<noteq> CHR ''_'') \<and>
         \<not> has_double_underscore s
      then Some (filter (\<lambda>c. c \<noteq> CHR ''_'') s) else None)"
proof (induction prev s rule: int_digits.induct)
  case (1 prev)
  then show ?case by simp
next
  case (2 prev c cs)
  have u: "\<not> is_ascii_digit (CHR ''_'')" by (simp add: is_ascii_digit_code)
  show ?case
  proof (cases cs)
    case Nil
    with 2 u show ?thesis by auto
  next
    case (Cons d ds)
    with 2 u show ?thesis by auto
  qed
qed

lemma int_digits_between:
  "s \<noteq> [] \<Longrightarrow> int_digits False s =
     (if underscores_between s then Some (filter (\<lambda>c. c \<noteq> CHR ''_'') s) else None)"
  by (simp add: int_digits_spec underscores_between_def)

section \<open>Properties\<close>

lemma plain_digit: "is_ascii_digit c \<Longrightarrow> plain_char c"
  by (simp add: is_ascii_digit_code plain_char_def)

lemma digit_not_punct: "is_ascii_digit c \<Longrightarrow> c \<noteq> CHR ''_'' \<and> c \<noteq> CHR ''.'' \<and> c \<noteq> CHR ''+'' \<and> c \<noteq> CHR ''-''"
  by (auto simp: is_ascii_digit_code)

text \<open>What the digits of a number look like once its sign and padding zeros are in front of it.\<close>

lemma strip_zeros_loop_show:
  "strip_zeros_loop (CHR ''0'') (replicate k (CHR ''0'') @ show_nat n) = Some (show_nat n)"
proof (induction k)
  case 0
  show ?case
  proof (cases "n = 0")
    case True
    then show ?thesis by (simp add: show_nat_0)
  next
    case False
    obtain c cs where c: "show_nat n = c # cs" using show_nat_ne by (cases "show_nat n") auto
    then have "is_ascii_digit c" "c \<noteq> CHR ''0''"
      using show_nat_digits [of n] show_nat_lead [of n] False by auto
    with c show ?thesis using digit_not_punct [of c] by (simp add: is_digit_1_9_iff)
  qed
next
  case (Suc k)
  then show ?case by simp
qed

lemma strip_leading_zeros_show:
  "strip_leading_zeros (replicate k (CHR ''0'') @ show_nat n) = Some (show_nat n)"
proof (cases k)
  case 0
  obtain c cs where c: "show_nat n = c # cs" using show_nat_ne by (cases "show_nat n") auto
  then have d: "is_ascii_digit c" using show_nat_digits [of n] by auto
  show ?thesis
  proof (cases "n = 0")
    case True
    then show ?thesis using 0 by (simp add: show_nat_0 strip_leading_zeros_def)
  next
    case False
    then show ?thesis using 0 c d show_nat_lead [of n]
      by (simp add: strip_leading_zeros_def is_digit_1_9_iff)
  qed
next
  case (Suc m)
  then show ?thesis using strip_zeros_loop_show [of m n] by (simp add: strip_leading_zeros_def)
qed

lemma drop_zero_fraction_digits:
  assumes "\<forall>c \<in> set s. is_ascii_digit c"
  shows "drop_zero_fraction s = s"
proof -
  have "CHR ''.'' \<notin> set s" using assms digit_not_punct by blast
  then show ?thesis by (simp add: drop_zero_fraction_def Let_def)
qed

lemma strip_underscores_digits:
  assumes "\<forall>c \<in> set s. is_ascii_digit c"
  shows "strip_underscores s = None"
proof -
  have "CHR ''_'' \<notin> set s" using assms digit_not_punct by blast
  then show ?thesis by (simp add: strip_underscores_def)
qed

definition sign_of :: "string \<Rightarrow> int" where
  "sign_of sign = (if sign = ''-'' then -1 else 1)"

lemma clean_int_str_padded:
  assumes "sign \<in> {'''', ''+'', ''-''}"
    and "s = replicate i (CHR '' '') @ (sign @ replicate k (CHR ''0'') @ show_nat n) @ replicate j (CHR '' '')"
  shows "clean_int_str s =
    (if s = show_nat n then None else Some ((if sign = ''-'' then ''-'' else '''') @ show_nat n))"
proof -
  define core where "core = sign @ replicate k (CHR ''0'') @ show_nat n"
  define body where "body = replicate k (CHR ''0'') @ show_nat n"
  have dig: "\<forall>c \<in> set (show_nat n). is_ascii_digit c" by (rule show_nat_digits)
  have z: "is_ascii_digit (CHR ''0'')" by (simp add: is_ascii_digit_code)
  have bd: "\<forall>c \<in> set body. is_ascii_digit c" using dig z by (auto simp: body_def)
  have bn: "body \<noteq> []" by (simp add: body_def show_nat_ne)
  then obtain b bs where b: "body = b # bs" "is_ascii_digit b" using bd by (cases body) auto
  have core: "core = sign @ body" by (simp add: core_def body_def)
  have "core \<noteq> []" "plain_char (hd core)" "plain_char (last core)"
    using assms(1) bd bn b plain_digit by (auto simp: core plain_char_def)
  then have tr: "trim s = core"
    using assms(2) trim_spaces [of core i j] by (simp add: core_def)
  have nb: "b \<noteq> CHR ''+''" "b \<noteq> CHR ''-''" using digit_not_punct [OF b(2)] by auto
  have eq: "length s = length (show_nat n) \<longleftrightarrow> s = show_nat n"
  proof
    assume "length s = length (show_nat n)"
    then show "s = show_nat n" using assms by auto
  qed simp
  have sl: "strip_leading_zeros (b # bs) = Some (show_nat n)"
    using strip_leading_zeros_show [of k n] b(1) by (simp add: body_def)
  note simps = clean_int_str_def tr core b(1) Let_def strip_prefix_def starts_with_def nb sl eq
    drop_zero_fraction_digits [OF dig] strip_underscores_digits [OF dig]
  from assms(1) consider "sign = ''''" | "sign = ''+''" | "sign = ''-''" by auto
  then show ?thesis
  proof cases
    case 1
    then show ?thesis by (simp add: simps)
  next
    case 2
    then show ?thesis by (simp add: simps)
  next
    case 3
    then show ?thesis by (simp add: simps)
  qed
qed

lemma digits_value_zeros: "digits_value (replicate k (CHR ''0'') @ s) = digits_value s"
  by (induction k) (simp_all add: digits_value_Cons digit_value_def)

lemma json_integer_show_nat: "json_integer ((if neg then ''-'' else '''') @ show_nat n)"
proof (cases "n = 0")
  case True
  then show ?thesis by (auto simp: json_integer_def show_nat_0)
next
  case False
  then show ?thesis
    using show_nat_ne show_nat_digits [of n] show_nat_lead [of n] json_integerI [of "show_nat n" neg]
    by (auto simp: is_digit_1_9_iff)
qed

lemma signed_value_padded:
  "signed_value ((if neg then ''-'' else '''') @ replicate k (CHR ''0'') @ show_nat n) =
     (if neg then - int n else int n)"
proof (cases neg)
  case True
  then show ?thesis by (simp add: digits_value_zeros show_nat_value)
next
  case False
  define s where "s = replicate k (CHR ''0'') @ show_nat n"
  have "\<forall>c \<in> set s. is_ascii_digit c" "s \<noteq> []"
    using show_nat_digits [of n] by (auto simp: s_def show_nat_ne is_ascii_digit_code)
  then obtain c cs where "s = c # cs" "is_ascii_digit c" by (cases s) auto
  with False show ?thesis
    using signed_value_pos [of c cs] not_minus_digit [of c] digits_value_zeros [of k "show_nat n"]
    by (simp add: s_def show_nat_value)
qed

lemma jiter_int_show:
  assumes "length (show_nat n) < MAX_INT_CHARS"
  shows "\<exists>p. jiter_int ((if neg then ''-'' else '''') @ show_nat n) = Inr p \<and>
    denotes p (if neg then - int n else int n)"
proof -
  let ?s = "(if neg then ''-'' else '''') @ show_nat n"
  have "length ?s \<le> MAX_INT_CHARS" using assms by simp
  then obtain p where p: "jiter_int ?s = Inr p"
    using jiter_int_total [OF json_integer_show_nat [of neg n]] by (meson not_le)
  then show ?thesis using jiter_int_sound [OF p] signed_value_padded [of neg 0 n] by simp
qed

lemma jiter_int_OutOfRange:
  assumes "jiter_int s = Inl OutOfRange"
  obtains neg body where "s = (if neg then ''-'' else '''') @ body" "is_digit_1_9 (hd body)" "body \<noteq> []"
    "MAX_INT_CHARS \<le> length (takeWhile is_ascii_digit body)"
proof -
  obtain c t where s: "s = c # t" using assms by (auto simp: jiter_int_def split: list.splits)
  define neg where "neg = (c = CHR ''-'')"
  define body where "body = (if neg then t else s)"
  have "body \<noteq> []" "is_digit_1_9 (hd body)"
    "MAX_INT_CHARS < (if neg then 1 else 0) + length (takeWhile is_ascii_digit body)"
    using assms s by (auto simp: jiter_int_def Let_def neg_def body_def split: if_splits list.splits option.splits)
  moreover have "s = (if neg then ''-'' else '''') @ body" by (simp add: s body_def neg_def)
  ultimately show thesis using that [of neg body] by (auto split: if_splits)
qed

definition padded :: "nat \<Rightarrow> string \<Rightarrow> nat \<Rightarrow> nat \<Rightarrow> nat \<Rightarrow> string" where
  "padded i sign k n j =
     replicate i (CHR '' '') @ (sign @ replicate k (CHR ''0'') @ show_nat n) @ replicate j (CHR '' '')"

lemma jiter_int_chars:
  assumes "jiter_int s = Inr p" "c \<in> set s"
  shows "is_ascii_digit c \<or> c = CHR ''-''"
proof -
  have "json_integer s" using jiter_int_shape [OF assms(1)] by simp
  moreover have "is_ascii_digit (CHR ''0'')" by (simp add: is_ascii_digit_code)
  ultimately show ?thesis using assms(2) by (auto simp: json_integer_def)
qed

lemma jiter_int_padded_value:
  assumes "sign \<in> {'''', ''+'', ''-''}" "jiter_int (padded i sign k n j) = Inr p"
  shows "denotes p (sign_of sign * int n)"
proof -
  have ch: "c \<in> set (padded i sign k n j) \<Longrightarrow> is_ascii_digit c \<or> c = CHR ''-''" for c
    using jiter_int_chars [OF assms(2)] by blast
  have "\<not> (is_ascii_digit (CHR '' '') \<or> CHR '' '' = CHR ''-'')" "\<not> (is_ascii_digit (CHR ''+'') \<or> CHR ''+'' = CHR ''-'')"
    by (simp_all add: is_ascii_digit_code)
  then have "CHR '' '' \<notin> set (padded i sign k n j)" "CHR ''+'' \<notin> set (padded i sign k n j)"
    using ch by blast+
  then have "i = 0" "j = 0" "sign \<noteq> ''+''" by (auto simp: padded_def set_replicate_conv_if split: if_splits)
  then have "padded i sign k n j = (if sign = ''-'' then ''-'' else '''') @ replicate k (CHR ''0'') @ show_nat n"
    using assms(1) by (auto simp: padded_def)
  then have "signed_value (padded i sign k n j) = sign_of sign * int n"
    using signed_value_padded [of "sign = ''-''" k n] by (simp add: sign_of_def)
  then show ?thesis using jiter_int_sound [OF assms(2)] by simp
qed

lemma jiter_int_padded_range:
  assumes "sign \<in> {'''', ''+'', ''-''}" "length (show_nat n) < MAX_INT_CHARS"
  shows "jiter_int (padded i sign k n j) \<noteq> Inl OutOfRange"
proof
  assume "jiter_int (padded i sign k n j) = Inl OutOfRange"
  then obtain neg body where s: "padded i sign k n j = (if neg then ''-'' else '''') @ body"
    and h: "is_digit_1_9 (hd body)" "body \<noteq> []" and l: "MAX_INT_CHARS \<le> length (takeWhile is_ascii_digit body)"
    by (rule jiter_int_OutOfRange)
  obtain b bs where b: "body = b # bs" "is_ascii_digit b" "b \<noteq> CHR ''0''"
    using h by (cases body) (auto simp: is_digit_1_9_iff)
  have nb: "b \<noteq> CHR '' ''" "b \<noteq> CHR ''+''" "b \<noteq> CHR ''-''" "\<not> is_ascii_digit (CHR '' '')"
    using b(2) by (auto simp: is_ascii_digit_code)
  have i: "i = 0" using s b nb by (cases i) (auto simp: padded_def split: if_splits)
  obtain d ds where d: "show_nat n = d # ds" "is_ascii_digit d" "d \<noteq> CHR ''-''" "d \<noteq> CHR ''+''"
    using show_nat_ne [of n] show_nat_digits [of n] digit_not_punct by (cases "show_nat n") auto
  have "body = show_nat n @ replicate j (CHR '' '')"
    using s b nb i assms(1) d by (cases k) (auto simp: padded_def split: if_splits)
  moreover have "takeWhile is_ascii_digit (show_nat n @ replicate j (CHR '' '')) = show_nat n"
    using show_nat_digits [of n] nb(4) by (cases j) (simp_all add: takeWhile_append2)
  ultimately show False using l assms(2) by simp
qed

lemma str_as_int_padded:
  assumes "sign \<in> {'''', ''+'', ''-''}" "length (show_nat n) < MAX_INT_CHARS"
  shows "\<exists>p. str_as_int (padded i sign k n j) = Inr p \<and> denotes p (sign_of sign * int n)"
proof (cases "jiter_int (padded i sign k n j)")
  case (Inr p)
  then show ?thesis using jiter_int_padded_value [OF assms(1) Inr] by (simp add: str_as_int_def)
next
  case (Inl e)
  then have first: "jiter_int (padded i sign k n j) = Inl Other"
    using jiter_int_padded_range [OF assms, of i k j] by (cases e) auto
  have ne: "padded i sign k n j \<noteq> show_nat n"
    using first jiter_int_show [OF assms(2), of False] by auto
  obtain p where p: "jiter_int ((if sign = ''-'' then ''-'' else '''') @ show_nat n) = Inr p"
    "denotes p (if sign = ''-'' then - int n else int n)"
    using jiter_int_show [OF assms(2), of "sign = ''-''"] by blast
  have "clean_int_str (padded i sign k n j) = Some ((if sign = ''-'' then ''-'' else '''') @ show_nat n)"
    using clean_int_str_padded [OF assms(1), of "padded i sign k n j" i k n j] ne by (simp add: padded_def)
  with first p show ?thesis by (auto simp: str_as_int_def sign_of_def split: if_splits)
qed

lemma jiter_int_oversize:
  "MAX_INT_CHARS < length (show_int n) \<Longrightarrow> str_as_int (show_int n) = Inl ParsingSize"
  using jiter_int_total [OF show_int_json_integer [of n]] by (auto simp: str_as_int_def)

text \<open>
  A \<open>PyInt\<close> answers every comparison as the integer it stands for would: \<open>ge\<close> and \<open>le\<close>
  against any \<open>i64\<close> bound, truthiness, and the clamp at zero, although \<open>Big\<close> keeps only a
  sign.
\<close>

theorem py_int_comparisons:
  assumes "denotes p n" "in_i64 b"
  shows "(py_ge p b \<longleftrightarrow> b \<le> n) \<and> (py_le p b \<longleftrightarrow> n \<le> b) \<and> (truthy p \<longleftrightarrow> n \<noteq> 0) \<and>
    small p = (if in_i64 n then Some n else None) \<and>
    max_zero p = (if max 0 n \<le> i64_max then Some (max 0 n) else None)"
proof (cases p)
  case (Small v)
  then show ?thesis using assms i64_bounds by (auto simp: truthy_def in_i64_def max.commute)
next
  case (Big neg)
  then show ?thesis
    using assms i64_bounds by (cases neg) (auto simp: truthy_def in_i64_def)
qed

theorem py_int_comparisons_witness: "py_ge (Big False) 100 \<and> \<not> py_le (Big False) 100"
proof -
  have d: "denotes (Big False) (2 ^ 63)" and b: "in_i64 100"
    by (simp_all add: in_i64_def i64_min_def i64_max_def)
  show ?thesis using py_int_comparisons [OF d b] by simp
qed

text \<open>
  Pydantic's coercion reads back every decimal integer of up to 4,299 digits, with any
  number of spaces around it, either sign, and any number of leading zeros, as that integer
  (an \<open>i64\<close> when it fits, its sign when it does not); the canonical text of a longer integer
  is refused as oversized.
\<close>

theorem str_as_int_decimal:
  "(sign \<in> {'''', ''+'', ''-''} \<and> length (show_nat n) < MAX_INT_CHARS \<longrightarrow>
     (\<exists>p. str_as_int (padded i sign k n j) = Inr p \<and> denotes p (sign_of sign * int n))) \<and>
   (MAX_INT_CHARS < length (show_int m) \<longrightarrow> str_as_int (show_int m) = Inl ParsingSize)"
  using str_as_int_padded [of sign n i k j] jiter_int_oversize [of m] by blast

theorem str_as_int_decimal_witness:
  "\<exists>p. str_as_int (padded 2 ''-'' 3 42 1) = Inr p \<and> denotes p (-42)"
proof -
  have "length (show_nat 42) < MAX_INT_CHARS"
    by (simp add: show_nat.simps MAX_INT_CHARS_def)
  then show ?thesis using str_as_int_decimal [of "''-''" 42 2 3 1] by (simp add: sign_of_def)
qed

lemma python_int_signed:
  assumes "sign \<in> {'''', ''+'', ''-''}" "s \<noteq> []" "\<forall>c \<in> set s. is_ascii_digit c \<or> c = CHR ''_''"
  shows "python_int (sign @ s) =
    (if underscores_between s
     then Some (let value = int (digits_value (filter (\<lambda>c. c \<noteq> CHR ''_'') s))
       in if in_i64 value then Small (if sign = ''-'' then - value else value) else Big (sign = ''-''))
     else None)"
proof -
  have "plain_char c" if "c \<in> set (sign @ s)" for c
    using that assms(1,3) plain_digit by (auto simp: plain_char_def)
  then have tr: "trim (sign @ s) = sign @ s" by (simp add: trim_plain)
  obtain c cs where s: "s = c # cs" using assms(2) by (cases s) auto
  have c: "c \<noteq> CHR ''-''" "c \<noteq> CHR ''+''" using assms(3) s digit_not_punct by auto
  have split: "(case strip_prefix ''-'' (sign @ s) of Some rest \<Rightarrow> (True, rest)
      | None \<Rightarrow> (False, case strip_prefix ''+'' (sign @ s) of Some rest \<Rightarrow> rest | None \<Rightarrow> sign @ s))
      = (sign = ''-'', s)"
    using assms(1) s c by (auto simp: strip_prefix_def)
  show ?thesis
    unfolding python_int_def Let_def tr split by (simp add: assms(2) int_digits_between)
qed

text \<open>
  C40. The builtin \<open>int()\<close> on a signed run of digits and underscores: it accepts exactly the
  runs whose underscores stand between digits, and the result stands for the signed value of
  the digits, whatever their number. The one exception is \<open>i64::MIN\<close>, whose magnitude is
  parsed before the sign is applied: it comes back as \<open>Big\<close> although it is an \<open>i64\<close>.
\<close>

theorem python_int_literal:
  assumes "sign \<in> {'''', ''+'', ''-''}" "s \<noteq> []" "\<forall>c \<in> set s. is_ascii_digit c \<or> c = CHR ''_''"
  shows "case python_int (sign @ s) of
      None \<Rightarrow> \<not> underscores_between s
    | Some p \<Rightarrow> underscores_between s \<and>
        (let v = sign_of sign * int (digits_value (filter (\<lambda>c. c \<noteq> CHR ''_'') s))
         in if v = i64_min then p = Big True else denotes p v)"
  using python_int_signed [OF assms]
  by (auto simp: Let_def sign_of_def in_i64_def i64_min_def i64_max_def)

theorem python_int_literal_witness: "python_int ''-1_000'' = Some (Small (- 1000))"
proof -
  have u: "underscores_between ''1_000''" by (simp add: underscores_between_def is_ascii_digit_code)
  have "\<forall>c \<in> set ''1_000''. is_ascii_digit c \<or> c = CHR ''_''" by (simp add: is_ascii_digit_code)
  from python_int_literal [OF _ _ this, of "''-''"] u
  have "case python_int ''-1_000'' of None \<Rightarrow> False | Some p \<Rightarrow> denotes p (- 1000)"
    by (simp add: sign_of_def digits_value.simps digit_value_def i64_min_def split: option.splits)
  then obtain p where "python_int ''-1_000'' = Some p" "denotes p (- 1000)" by (auto split: option.splits)
  then show ?thesis by (cases p) (auto simp: in_i64_def i64_min_def i64_max_def)
qed

text \<open>Where the two functions and the comments on them part.\<close>

lemma python_int_i64_min:
  "python_int ''-9223372036854775808'' = Some (Big True)"
  "str_as_int ''-9223372036854775808'' = Inr (Small i64_min)"
proof -
  have "underscores_between ''9223372036854775808''"
    by (simp add: underscores_between_def is_ascii_digit_code)
  then show "python_int ''-9223372036854775808'' = Some (Big True)"
    using python_int_signed [of "''-''" "''9223372036854775808''"]
    by (simp add: is_ascii_digit_code digits_value.simps digit_value_def in_i64_def i64_max_def)
  have "jiter_int ''-9223372036854775808'' = Inr (Small i64_min)"
    by (simp add: jiter_int_def is_digit_1_9_iff is_ascii_digit_code MAX_INT_CHARS_def parse_i64_def
        digits_value.simps digit_value_def in_i64_def i64_min_def i64_max_def)
  then show "str_as_int ''-9223372036854775808'' = Inr (Small i64_min)"
    by (simp add: str_as_int_def)
qed

lemma str_as_int_underscore: "str_as_int ''1_0'' = Inr (Small 10)"
proof -
  have "trim ''1_0'' = ''1_0''" by (rule trim_plain) (simp add: plain_char_def)
  then have "clean_int_str ''1_0'' = Some ''10''"
    by (simp add: clean_int_str_def strip_prefix_def strip_leading_zeros_def is_digit_1_9_iff
        is_ascii_digit_code drop_zero_fraction_def strip_underscores_def)
  then show ?thesis
    by (simp add: str_as_int_def jiter_int_def is_digit_1_9_iff is_ascii_digit_code MAX_INT_CHARS_def
        parse_i64_def signed_value_def strip_prefix_def digits_value.simps digit_value_def in_i64_def
        i64_min_def i64_max_def)
qed

lemma python_int_of_json_two63: "python_int_of_json (FloatNum (2 ^ 63)) = Some (Small i64_max)"
  by (simp add: i64_max_def)

end
