(* ===== verification/Windows.thy ===== *)
theory Windows
  imports Sentinel_Prelude
begin

text \<open>
  The two contracts the program's rate limiters share. \<open>sliding_window\<close> is a queue of
  instants from which aged ones are popped at the front. \<open>swept_table\<close> is a table of
  per-key states that an opportunistic sweep may drop entries from: when the sweep only
  touches states that behave like an absent one, the answers each key gets are those of a
  reference machine that sees that key's requests alone.
\<close>

section \<open>Sliding windows\<close>

text \<open>\<open>queue_sim aged now w h\<close>: the queue \<open>w\<close> holds what has not aged of the history \<open>h\<close>.\<close>

definition queue_sim :: "('t \<Rightarrow> 't \<Rightarrow> bool) \<Rightarrow> 't::linorder \<Rightarrow> 't list \<Rightarrow> 't list \<Rightarrow> bool" where
  "queue_sim aged now w h \<longleftrightarrow>
     sorted w \<and> (\<forall>t \<in> set w. t \<le> now) \<and> filter (\<lambda>t. \<not> aged now t) w = filter (\<lambda>t. \<not> aged now t) h"

lemma queue_sim_Nil: "queue_sim aged now [] []"
  by (simp add: queue_sim_def)

lemma queue_sim_push: "queue_sim aged now w h \<Longrightarrow> queue_sim aged now (w @ [now]) (h @ [now])"
  by (simp add: queue_sim_def sorted_append)

locale sliding_window =
  fixes aged :: "'t::linorder \<Rightarrow> 't \<Rightarrow> bool"
  assumes aged_older: "aged now t \<Longrightarrow> u \<le> t \<Longrightarrow> aged now u"
    and aged_later: "aged now t \<Longrightarrow> now \<le> later \<Longrightarrow> aged later t"
begin

text \<open>Popping the front of a queue in order is filtering it.\<close>

lemma slide_filter: "sorted w \<Longrightarrow> dropWhile (aged now) w = filter (\<lambda>t. \<not> aged now t) w"
proof (induction w)
  case Nil
  then show ?case by simp
next
  case (Cons t w)
  show ?case
  proof (cases "aged now t")
    case True
    with Cons show ?thesis by simp
  next
    case False
    with Cons.prems have "\<not> aged now u" if "u \<in> set w" for u
      using that aged_older by auto
    with False show ?thesis by simp
  qed
qed

lemma sorted_slide: "sorted w \<Longrightarrow> sorted (dropWhile (aged now) w)"
  by (rule sorted_dropWhile)

lemma filter_later:
  "now \<le> later \<Longrightarrow> filter (\<lambda>t. \<not> aged later t) (filter (\<lambda>t. \<not> aged now t) w) = filter (\<lambda>t. \<not> aged later t) w"
  using aged_later by (auto simp: conj_commute intro!: filter_cong)

text \<open>Two queues that agree on what has not aged agree from then on.\<close>

lemma agree_later:
  assumes "filter (\<lambda>t. \<not> aged now t) v = filter (\<lambda>t. \<not> aged now t) w" "now \<le> later"
  shows "filter (\<lambda>t. \<not> aged later t) v = filter (\<lambda>t. \<not> aged later t) w"
  using assms filter_later by metis

text \<open>A queue whose newest instant has aged is as good as empty.\<close>

lemma back_aged:
  assumes "sorted w" "w \<noteq> [] \<Longrightarrow> aged now (last w)"
  shows "filter (\<lambda>t. \<not> aged now t) w = []"
proof (cases "w = []")
  case False
  with assms have "aged now t" if "t \<in> set w" for t
    using that sorted_last_max aged_older by blast
  then show ?thesis by simp
qed simp

lemma queue_sim_slide:
  assumes "queue_sim aged now w h"
  shows "queue_sim aged now (dropWhile (aged now) w) h \<and> dropWhile (aged now) w = filter (\<lambda>t. \<not> aged now t) h"
proof -
  have srt: "sorted w" and le: "\<forall>t \<in> set w. t \<le> now"
    and eq: "filter (\<lambda>t. \<not> aged now t) w = filter (\<lambda>t. \<not> aged now t) h"
    using assms by (simp_all add: queue_sim_def)
  have w: "dropWhile (aged now) w = filter (\<lambda>t. \<not> aged now t) w" using srt by (rule slide_filter)
  have "sorted (dropWhile (aged now) w)" using srt by (rule sorted_slide)
  moreover have "\<forall>t \<in> set (dropWhile (aged now) w). t \<le> now" using le by (simp add: w)
  moreover have "filter (\<lambda>t. \<not> aged now t) (dropWhile (aged now) w) = filter (\<lambda>t. \<not> aged now t) h"
    by (simp add: w eq)
  ultimately show ?thesis using w eq unfolding queue_sim_def by simp
qed

lemma queue_sim_later:
  assumes "queue_sim aged now w h" "now \<le> later"
  shows "queue_sim aged later w h"
  using assms agree_later [OF _ assms(2), of w h] by (auto simp: queue_sim_def intro: order_trans)

text \<open>An entry may be dropped once its newest instant has aged.\<close>

lemma queue_sim_drop:
  assumes "queue_sim aged now w h" "w \<noteq> [] \<Longrightarrow> aged now (last w)"
  shows "queue_sim aged now [] h"
  using assms back_aged [of w now] by (simp add: queue_sim_def)

text \<open>
  A history keeps within \<open>cap\<close> when no instant has more than \<open>cap\<close> of it in its window; admitting
  only while fewer than \<open>cap\<close> are in the window keeps it so.
\<close>

lemma within_cap_snoc:
  assumes "\<And>T. length (filter (\<lambda>t. t \<le> T \<and> \<not> aged T t) h) \<le> cap"
    and "length (filter (\<lambda>t. \<not> aged now t) h) < cap"
  shows "length (filter (\<lambda>t. t \<le> T \<and> \<not> aged T t) (h @ [now])) \<le> cap"
proof (cases "now \<le> T \<and> \<not> aged T now")
  case True
  then have "filter (\<lambda>t. t \<le> T \<and> \<not> aged T t) h = filter (\<lambda>t. t \<le> T \<and> \<not> aged T t) (filter (\<lambda>t. \<not> aged now t) h)"
    using aged_later by (auto intro: filter_cong)
  then have "length (filter (\<lambda>t. t \<le> T \<and> \<not> aged T t) h) \<le> length (filter (\<lambda>t. \<not> aged now t) h)"
    by (metis length_filter_le)
  with assms(2) True show ?thesis by simp
next
  case False
  with assms(1) [of T] show ?thesis by auto
qed

end

section \<open>Tables with an opportunistic sweep\<close>

text \<open>
  \<open>check\<close> serves one request at an instant; \<open>step\<close> is the reference machine of the
  request's key, whose state is an option (absent before the first request). \<open>sim k now a b\<close>
  relates what the table holds for \<open>k\<close> to the reference state at \<open>now\<close>.
\<close>

fun run :: "('t \<Rightarrow> 'q \<Rightarrow> 'a \<Rightarrow> 'r \<times> 'a) \<Rightarrow> ('t \<times> 'q) list \<Rightarrow> 'a \<Rightarrow> 'r list \<times> 'a" where
  "run f [] st = ([], st)"
| "run f ((now, q) # es) st =
     (fst (f now q st) # fst (run f es (snd (f now q st))), snd (run f es (snd (f now q st))))"

lemma length_run [simp]: "length (fst (run f es st)) = length es"
  by (induction es arbitrary: st) auto

lemma run_append:
  "run f (es @ es') st = (fst (run f es st) @ fst (run f es' (snd (run f es st))), snd (run f es' (snd (run f es st))))"
  by (induction es arbitrary: st) auto

text \<open>The answers the requests with a property got, in order.\<close>

definition answers :: "('q \<Rightarrow> bool) \<Rightarrow> ('t \<times> 'q) list \<Rightarrow> 'r list \<Rightarrow> 'r list" where
  "answers P es rs = map snd (filter (\<lambda>((now, q), r). P q) (zip es rs))"

lemma answers_Nil [simp]: "answers P [] rs = []"
  by (simp add: answers_def)

lemma answers_Cons [simp]:
  "answers P ((now, q) # es) (r # rs) = (if P q then r # answers P es rs else answers P es rs)"
  by (simp add: answers_def)

lemma filter_zip_answers:
  "length rs = length es \<Longrightarrow>
   filter (\<lambda>((now, q), r). P q) (zip es rs) = zip (filter (\<lambda>e. P (snd e)) es) (answers P es rs)"
proof (induction es arbitrary: rs)
  case Nil
  then show ?case by simp
next
  case (Cons e es)
  obtain now q where e: "e = (now, q)" by (cases e)
  obtain r rs' where "rs = r # rs'" using Cons.prems by (cases rs) auto
  with e Cons show ?case by simp
qed

text \<open>Machines whose state is the instants of the requests they admitted.\<close>

lemma history_run:
  assumes "\<And>now q h. (now, q) \<in> set es \<Longrightarrow> snd (step now q h) = (if adm (fst (step now q h)) then h @ [now] else h)"
  shows "snd (run step es h) = h @ map (fst \<circ> fst) (filter (\<lambda>(e, r). adm r) (zip es (fst (run step es h))))"
  using assms
proof (induction es arbitrary: h)
  case Nil
  then show ?case by simp
next
  case (Cons e es)
  obtain now q where e: "e = (now, q)" by (cases e)
  have "snd (step now q h) = (if adm (fst (step now q h)) then h @ [now] else h)" by (rule Cons.prems) (simp add: e)
  then show ?case using Cons.IH [of "snd (step now q h)"] Cons.prems e by simp
qed

text \<open>The admitted requests of a kind that fall in a set of instants are that part of the history.\<close>

lemma history_count:
  assumes "length rs = length es"
    and "answers P es rs = fst (run step (filter (\<lambda>e. P (snd e)) es) [])"
    and "\<And>now q h. (now, q) \<in> set es \<Longrightarrow> P q \<Longrightarrow>
      snd (step now q h) = (if adm (fst (step now q h)) then h @ [now] else h)"
  shows "length (filter (\<lambda>((now, q), r). P q \<and> adm r \<and> W now) (zip es rs)) =
    length (filter W (snd (run step (filter (\<lambda>e. P (snd e)) es) [])))"
proof -
  let ?mine = "filter (\<lambda>e. P (snd e)) es"
  have all: "filter (\<lambda>((now, q), r). P q \<and> adm r \<and> W now) (zip es rs) =
      filter (\<lambda>((now, q), r). W now) (filter (\<lambda>(e, r). adm r) (filter (\<lambda>((now, q), r). P q) (zip es rs)))"
    by (auto intro!: filter_cong)
  have mine: "filter (\<lambda>((now, q), r). P q) (zip es rs) = zip ?mine (fst (run step ?mine []))"
    using filter_zip_answers [OF assms(1), of P] assms(2) by simp
  have "snd (run step ?mine []) = map (fst \<circ> fst) (filter (\<lambda>(e, r). adm r) (zip ?mine (fst (run step ?mine []))))"
    by (rule history_run [where h = "[]", simplified]) (use assms(3) in auto)
  moreover have "length (filter (\<lambda>((now, q), r). W now) (filter (\<lambda>(e, r). adm r) xs)) =
      length (filter W (map (fst \<circ> fst) (filter (\<lambda>(e, r). adm r) xs)))" for xs
    by (simp add: filter_map o_def case_prod_beta)
  ultimately show ?thesis unfolding all mine by simp
qed

locale swept_table =
  fixes check :: "'t::linorder \<Rightarrow> 'q \<Rightarrow> 'a \<Rightarrow> 'r \<times> 'a"
    and step :: "'t \<Rightarrow> 'q \<Rightarrow> 's \<Rightarrow> 'r \<times> 's"
    and key :: "'q \<Rightarrow> 'k"
    and valid :: "'q \<Rightarrow> bool"
    and sim :: "'k \<Rightarrow> 't \<Rightarrow> 'a \<Rightarrow> 's \<Rightarrow> bool"
    and wf :: "'a \<Rightarrow> bool"
  assumes check_wf: "wf tb \<Longrightarrow> wf (snd (check now q tb))"
    and check_answer: "wf tb \<Longrightarrow> valid q \<Longrightarrow> sim (key q) now tb s \<Longrightarrow>
        fst (check now q tb) = fst (step now q s)"
    and check_own: "wf tb \<Longrightarrow> valid q \<Longrightarrow> sim (key q) now tb s \<Longrightarrow>
        sim (key q) now (snd (check now q tb)) (snd (step now q s))"
    and check_other: "wf tb \<Longrightarrow> valid q \<Longrightarrow> k \<noteq> key q \<Longrightarrow> sim k now tb s \<Longrightarrow>
        sim k now (snd (check now q tb)) s"
    and sim_later: "sim k now tb s \<Longrightarrow> now \<le> later \<Longrightarrow> sim k later tb s"
begin

lemma run_sim:
  assumes "wf tb" "sim k now tb s" "sorted (map fst es)" "\<forall>e \<in> set es. now \<le> fst e \<and> valid (snd e)"
  shows "answers (\<lambda>q. key q = k) es (fst (run check es tb)) =
    fst (run step (filter (\<lambda>e. key (snd e) = k) es) s)"
  using assms
proof (induction es arbitrary: tb s now)
  case Nil
  then show ?case by simp
next
  case (Cons e es)
  obtain t q where e: "e = (t, q)" by (cases e)
  obtain r tb1 where c: "check t q tb = (r, tb1)" by (cases "check t q tb")
  have sim: "sim k t tb s" and v: "valid q" using Cons.prems e sim_later by auto
  have wf: "wf tb1" using check_wf [OF Cons.prems(1), of t q] c by simp
  have tail: "sorted (map fst es)" "\<forall>e \<in> set es. t \<le> fst e \<and> valid (snd e)"
    using Cons.prems e by auto
  show ?case
  proof (cases "key q = k")
    case True
    obtain r' s1 where st: "step t q s = (r', s1)" by (cases "step t q s")
    have "r = r'" "sim k t tb1 s1"
      using check_answer [OF Cons.prems(1) v] check_own [OF Cons.prems(1) v] sim True c st by fastforce+
    then show ?thesis
      using Cons.IH [OF wf _ tail, of s1] e c st True by simp
  next
    case False
    then have "sim k t tb1 s" using check_other [OF Cons.prems(1) v, of k t s] sim c by simp
    then show ?thesis using Cons.IH [OF wf _ tail, of s] e c False by simp
  qed
qed

end

end
