(* ===== verification/Crypto.thy ===== *)
theory Crypto
  imports Sentinel_Prelude
begin

unbundle bit_operations_syntax

text \<open>
  \<^verbatim>\<open>backend-rs/src/crypto.rs\<close>: the keyed hash over a digest function (SHA-256 comes from
  the \<open>sha2\<close> crate and is an argument), hexadecimal output, and the base64 encoder with its
  strict and lenient decoders. The 32-bit accumulator of the decoders is kept at its width:
  old bits fall off its top while it is shifted, and the round-trip lemmas show that they
  never reach an output byte.
\<close>

section \<open>Hexadecimal and the keyed hash\<close>

definition hex_digit :: "nat \<Rightarrow> char" where
  "hex_digit d = ''0123456789abcdef'' ! d"

definition hex_byte :: "byte \<Rightarrow> string" where
  "hex_byte b = [hex_digit (unat b div 16), hex_digit (unat b mod 16)]"

definition hex :: "bytes \<Rightarrow> string" where
  "hex bs = foldl (\<lambda>out b. out @ hex_byte b) [] bs"

definition resize :: "nat \<Rightarrow> bytes \<Rightarrow> bytes" where
  "resize n bs = take n bs @ replicate (n - length bs) 0"

definition hmac_sha256 :: "(bytes \<Rightarrow> bytes) \<Rightarrow> bytes \<Rightarrow> bytes \<Rightarrow> bytes" where
  "hmac_sha256 sha key0 message =
     (let key1 = (if length key0 > 64 then sha key0 else key0);
          key = resize 64 key1;
          ipad = map (\<lambda>b. b XOR 0x36) key;
          opad = map (\<lambda>b. b XOR 0x5c) key;
          inner = sha (ipad @ message)
      in sha (opad @ inner))"

section \<open>Base64\<close>

definition STANDARD :: string where
  "STANDARD = ''ABCDEFGHIJKLMNOPQRSTUVWXYZabcdefghijklmnopqrstuvwxyz0123456789+/''"

definition URL_SAFE :: string where
  "URL_SAFE = ''ABCDEFGHIJKLMNOPQRSTUVWXYZabcdefghijklmnopqrstuvwxyz0123456789-_''"

text \<open>The 24-bit group of a chunk of one to three bytes, missing ones zero.\<close>

definition group :: "byte \<Rightarrow> byte \<Rightarrow> byte \<Rightarrow> 32 word" where
  "group b0 b1 b2 = (push_bit 16 (ucast b0) OR push_bit 8 (ucast b1)) OR ucast b2"

definition group_sextet :: "32 word \<Rightarrow> nat \<Rightarrow> 32 word" where
  "group_sextet n i = drop_bit (18 - 6 * i) n AND 0x3f"

definition encode_chunk :: "string \<Rightarrow> bool \<Rightarrow> bytes \<Rightarrow> string" where
  "encode_chunk alphabet pad chunk =
     (let n = group (chunk ! 0) (if 1 < length chunk then chunk ! 1 else 0)
                    (if 2 < length chunk then chunk ! 2 else 0)
      in concat (map (\<lambda>i. if i \<le> length chunk then [alphabet ! unat (group_sextet n i)]
                          else if pad then ''='' else '''') [0..<4]))"

function encode :: "bytes \<Rightarrow> string \<Rightarrow> bool \<Rightarrow> string" where
  "encode bs alphabet pad =
     (if bs = [] then [] else encode_chunk alphabet pad (take 3 bs) @ encode (drop 3 bs) alphabet pad)"
  by pat_completeness auto
termination by (relation "measure (\<lambda>(bs, _, _). length bs)") auto

declare encode.simps [simp del]

definition base64_standard :: "bytes \<Rightarrow> string" where
  "base64_standard bs = encode bs STANDARD True"

definition base64_url_nopad :: "bytes \<Rightarrow> string" where
  "base64_url_nopad bs = encode bs URL_SAFE False"

definition position :: "string \<Rightarrow> char \<Rightarrow> nat option" where
  "position table c =
     (let n = length (takeWhile (\<lambda>d. d \<noteq> c) table) in if n < length table then Some n else None)"

text \<open>The decoding loop of \<open>base64_standard_decode\<close> and \<open>base64url_decode\<close>.\<close>

fun decode_loop :: "string \<Rightarrow> 32 word \<Rightarrow> nat \<Rightarrow> string \<Rightarrow> bytes option" where
  "decode_loop table buf bits [] = Some []"
| "decode_loop table buf bits (ch # rest) =
     (if ch = CHR ''='' then Some []
      else case position table ch of
          None \<Rightarrow> None
        | Some val \<Rightarrow>
            (let buf' = push_bit 6 buf OR of_nat val; bits' = bits + 6
             in if bits' \<ge> 8
                then map_option (\<lambda>out. ucast (drop_bit (bits' - 8) buf') # out)
                       (decode_loop table buf' (bits' - 8) rest)
                else decode_loop table buf' bits' rest))"

definition base64_standard_decode :: "string \<Rightarrow> bytes option" where
  "base64_standard_decode input = decode_loop STANDARD 0 0 input"

definition base64url_decode :: "string \<Rightarrow> bytes option" where
  "base64url_decode input = decode_loop URL_SAFE 0 0 input"

text \<open>CPython's lenient decoder.\<close>

definition is_base64_alphabet :: "char \<Rightarrow> bool" where
  "is_base64_alphabet b \<longleftrightarrow>
     (CHR ''A'' \<le> b \<and> b \<le> CHR ''Z'') \<or> (CHR ''a'' \<le> b \<and> b \<le> CHR ''z'') \<or> is_ascii_digit b \<or>
     b = CHR ''+'' \<or> b = CHR ''/''"

definition sextet :: "char \<Rightarrow> byte" where
  "sextet b =
     (if CHR ''A'' \<le> b \<and> b \<le> CHR ''Z'' then of_nat (of_char b - 65)
      else if CHR ''a'' \<le> b \<and> b \<le> CHR ''z'' then of_nat (of_char b - 97) + 26
      else if is_ascii_digit b then of_nat (of_char b - 48) + 52
      else if b = CHR ''+'' then 62 else 63)"

fun unpack :: "32 word \<Rightarrow> nat \<Rightarrow> byte list \<Rightarrow> bytes" where
  "unpack acc bits [] = []"
| "unpack acc bits (v # rest) =
     (let acc' = push_bit 6 acc OR ucast v; bits' = bits + 6
      in if bits' \<ge> 8 then ucast (drop_bit (bits' - 8) acc') # unpack acc' (bits' - 8) rest
         else unpack acc' bits' rest)"

definition python_b64decode :: "string \<Rightarrow> string + bytes" where
  "python_b64decode input =
     (let kept = filter (\<lambda>b. is_base64_alphabet b \<or> b = CHR ''='') input;
          data = filter (\<lambda>b. b \<noteq> CHR ''='') kept;
          trailing_padding = length (takeWhile (\<lambda>b. b = CHR ''='') (rev kept));
          leftover = length data mod 4
      in if leftover = 1 then
           Inl (''Invalid base64-encoded string: number of data characters ('' @ show_nat (length data) @
                '') cannot be 1 more than a multiple of 4'')
         else if (leftover = 2 \<or> leftover = 3) \<and> trailing_padding < 4 - leftover then
           Inl ''Incorrect padding''
         else Inr (unpack 0 0 (map sextet data)))"

section \<open>The accumulator\<close>

lemma byte_eqI: "(\<And>i. i < 8 \<Longrightarrow> bit a i \<longleftrightarrow> bit b i) \<Longrightarrow> a = (b :: byte)"
  by (rule bit_word_eqI) simp

lemma bit_63: "bit (63 :: 32 word) i \<longleftrightarrow> i < 6"
proof -
  have "(63 :: 32 word) = mask 6" by (simp add: mask_eq_exp_minus_1)
  then show ?thesis by (simp only: bit_mask_iff) auto
qed

lemma bit_group_sextet: "bit (group_sextet n i) j \<longleftrightarrow> j < 6 \<and> bit n (18 - 6 * i + j)"
  unfolding group_sextet_def bit_and_iff bit_63 bit_drop_bit_eq comp_apply by (auto simp: add.commute)

lemma bit_group:
  "bit (group a b c) j \<longleftrightarrow>
     (16 \<le> j \<and> j < 24 \<and> bit a (j - 16)) \<or> (8 \<le> j \<and> j < 16 \<and> bit b (j - 8)) \<or> (j < 8 \<and> bit c j)"
  by (auto simp: group_def bit_or_iff bit_push_bit_iff bit_ucast_iff dest: bit_imp_le_length)

lemma Suc_Suc_diff: "2 \<le> i \<Longrightarrow> Suc (Suc (i - 2)) = i"
  by simp

text \<open>A whole group leaves the accumulator at a byte boundary with its three bytes out.\<close>

lemma group_bytes:
  fixes a b c :: byte and acc :: "32 word"
  defines "n \<equiv> group a b c"
  defines "x0 \<equiv> push_bit 6 acc OR group_sextet n 0"
  defines "x1 \<equiv> push_bit 6 x0 OR group_sextet n 1"
  defines "x2 \<equiv> push_bit 6 x1 OR group_sextet n 2"
  defines "x3 \<equiv> push_bit 6 x2 OR group_sextet n 3"
  shows "(ucast (drop_bit 4 x1) :: byte) = a"
    and "(ucast (drop_bit 2 x2) :: byte) = b"
    and "(ucast x3 :: byte) = c"
proof -
  note defs = x0_def x1_def x2_def x3_def n_def
  note bits = bit_ucast_iff bit_drop_bit_eq bit_or_iff bit_push_bit_iff bit_group_sextet bit_group
  show "(ucast (drop_bit 4 x1) :: byte) = a"
    by (rule byte_eqI) (auto simp: defs bits Suc_Suc_diff)
  show "(ucast (drop_bit 2 x2) :: byte) = b"
    by (rule byte_eqI) (auto simp: defs bits Suc_Suc_diff)
  show "(ucast x3 :: byte) = c"
    by (rule byte_eqI) (auto simp: defs bits Suc_Suc_diff)
qed

text \<open>The six-bit values of a byte string, in the order the encoder writes them.\<close>

definition sx :: "32 word \<Rightarrow> nat \<Rightarrow> byte" where
  "sx n i = ucast (group_sextet n i)"

fun sextets :: "bytes \<Rightarrow> byte list" where
  "sextets [] = []"
| "sextets [a] = [sx (group a 0 0) 0, sx (group a 0 0) 1]"
| "sextets [a, b] = [sx (group a b 0) 0, sx (group a b 0) 1, sx (group a b 0) 2]"
| "sextets (a # b # c # r) =
     sx (group a b c) 0 # sx (group a b c) 1 # sx (group a b c) 2 # sx (group a b c) 3 # sextets r"

lemma ucast_sx: "(ucast (sx n i) :: 32 word) = group_sextet n i"
  by (rule bit_word_eqI) (auto simp: sx_def bit_ucast_iff bit_group_sextet)

lemma sx_bound: "unat (sx n i) < 64"
proof -
  have "take_bit 6 (sx n i) = sx n i"
    by (rule bit_word_eqI) (auto simp: sx_def bit_take_bit_iff bit_ucast_iff bit_group_sextet)
  then have "take_bit 6 (unat (sx n i)) = unat (sx n i)" by (metis unsigned_take_bit_eq)
  then have "unat (sx n i) mod 2 ^ 6 = unat (sx n i)" by (simp only: take_bit_eq_mod)
  moreover have "unat (sx n i) mod 2 ^ 6 < (64::nat)" by (simp only: power_numeral_reduce) simp
  ultimately show ?thesis by simp
qed

lemma unat_group_sextet: "unat (group_sextet n i) = unat (sx n i)"
proof -
  have "unat (ucast (sx n i) :: 32 word) = unat (sx n i)" 
    using sx_bound [of n i] by (simp add: unsigned_ucast_eq take_bit_nat_eq_self)
  then show ?thesis by (simp only: ucast_sx)
qed

lemma sextets_bound: "v \<in> set (sextets bs) \<Longrightarrow> unat v < 64"
  by (induction bs rule: sextets.induct) (auto simp: sx_bound)

text \<open>Unpacking the six-bit values gives the bytes back, whatever the accumulator held.\<close>

lemma unpack_sextets: "unpack acc 0 (sextets bs) = bs"
proof (induction bs arbitrary: acc rule: sextets.induct)
  case 1
  then show ?case by simp
next
  case (2 a)
  show ?case using group_bytes(1) [where a = a and b = 0 and c = 0] by (simp add: ucast_sx Let_def)
next
  case (3 a b)
  show ?case using group_bytes(1,2) [where a = a and b = b and c = 0] by (simp add: ucast_sx Let_def)
next
  case (4 a b c r)
  show ?case using group_bytes [where a = a and b = b and c = c] 4 by (simp add: ucast_sx Let_def)
qed

definition padding :: "bytes \<Rightarrow> string" where
  "padding bs = replicate ((3 - length bs mod 3) mod 3) (CHR ''='')"

lemma upto4: "[0..<4] = [0, 1, 2, 3 :: nat]"
  by (simp add: upt_rec)

lemma encode_chunk_sextets:
  "encode_chunk table pad [a] = map (\<lambda>v. table ! unat v) (sextets [a]) @ (if pad then padding [a] else [])"
  "encode_chunk table pad [a, b] = map (\<lambda>v. table ! unat v) (sextets [a, b]) @ (if pad then padding [a, b] else [])"
  "encode_chunk table pad [a, b, c] = map (\<lambda>v. table ! unat v) (sextets [a, b, c])"
  unfolding encode_chunk_def upto4 Let_def padding_def
  by (simp_all add: unat_group_sextet numeral_2_eq_2)

lemma encode_sextets:
  "encode bs table pad = map (\<lambda>v. table ! unat v) (sextets bs) @ (if pad then padding bs else [])"
proof (induction bs rule: sextets.induct)
  case 1
  then show ?case by (simp add: encode.simps padding_def)
next
  case (2 a)
  show ?case by (subst encode.simps) (simp add: encode_chunk_sextets encode.simps)
next
  case (3 a b)
  show ?case by (subst encode.simps) (simp add: encode_chunk_sextets encode.simps)
next
  case (4 a b c r)
  have "padding (a # b # c # r) = padding r" by (simp add: padding_def)
  then show ?case using 4 by (subst encode.simps) (simp add: encode_chunk_sextets)
qed

section \<open>Alphabets\<close>

text \<open>What a decoder needs of its table: 64 different characters, none of them the padding.\<close>

locale alphabet64 =
  fixes table :: string
  assumes length_table: "length table = 64"
    and distinct_table: "distinct table"
    and no_padding: "CHR ''='' \<notin> set table"
begin

lemma position_nth:
  assumes "v < 64"
  shows "position table (table ! v) = Some v"
proof -
  have v: "v < length table" using assms by (simp add: length_table)
  have "table ! j \<noteq> table ! v" if "j < v" for j
    using that v distinct_table by (simp add: nth_eq_iff_index_eq)
  then have "takeWhile (\<lambda>d. d \<noteq> table ! v) table = take v table"
    using v by (intro takeWhile_eq_take_P_nth) auto
  then show ?thesis using v by (simp add: position_def)
qed

lemma decode_values:
  assumes "\<forall>v \<in> set vs. unat v < 64" "t = [] \<or> hd t = CHR ''=''"
  shows "decode_loop table buf bits (map (\<lambda>v. table ! unat v) vs @ t) = Some (unpack buf bits vs)"
  using assms(1)
proof (induction vs arbitrary: buf bits)
  case Nil
  then show ?case using assms(2) by (cases t) auto
next
  case (Cons v vs)
  then have v: "unat v < 64" by simp
  then have "table ! unat v \<in> set table" by (simp add: length_table)
  then have "table ! unat v \<noteq> CHR ''=''" using no_padding by auto
  moreover have "(of_nat (unat v) :: 32 word) = ucast v" by simp
  ultimately show ?case
    using Cons.IH Cons.prems position_nth [OF v] by (simp add: Let_def)
qed

lemma decode_encode: "decode_loop table 0 0 (encode bs table pad) = Some bs"
proof -
  have "(if pad then padding bs else []) = [] \<or> hd (if pad then padding bs else []) = CHR ''=''"
    unfolding padding_def by (metis hd_replicate replicate_0)
  then show ?thesis
    using decode_values [of "sextets bs"] sextets_bound by (simp add: encode_sextets unpack_sextets)
qed

end

interpretation standard: alphabet64 STANDARD
  by unfold_locales (simp_all add: STANDARD_def)

interpretation url_safe: alphabet64 URL_SAFE
  by unfold_locales (simp_all add: URL_SAFE_def)

text \<open>The lenient decoder's table is the standard alphabet, computed.\<close>

lemma standard_sextets:
  "\<forall>v \<in> set [0..<64]. is_base64_alphabet (STANDARD ! v) \<and> unat (sextet (STANDARD ! v)) = v"
  by (simp add: upt_rec STANDARD_def is_base64_alphabet_def sextet_def is_ascii_digit_code less_eq_char_def)

lemma sextet_standard:
  assumes "unat v < 64"
  shows "sextet (STANDARD ! unat v) = v" "is_base64_alphabet (STANDARD ! unat v)" "STANDARD ! unat v \<noteq> CHR ''=''"
proof -
  have v: "unat v \<in> set [0..<64]" using assms by simp
  then have "unat (sextet (STANDARD ! unat v)) = unat v" using standard_sextets by blast
  then show "sextet (STANDARD ! unat v) = v" by (simp add: unsigned_word_eqI)
  show "is_base64_alphabet (STANDARD ! unat v)" using v standard_sextets by blast
  have "STANDARD ! unat v \<in> set STANDARD" using assms by (simp add: standard.length_table)
  then show "STANDARD ! unat v \<noteq> CHR ''=''" using standard.no_padding by auto
qed

section \<open>Properties\<close>

lemma length_sextets_padding:
  "length (sextets bs) mod 4 \<noteq> 1 \<and>
   (length (sextets bs) mod 4 \<noteq> 0 \<longrightarrow> length (padding bs) = 4 - length (sextets bs) mod 4)"
proof (induction bs rule: sextets.induct)
  case (4 a b c r)
  have "padding (a # b # c # r) = padding r" by (simp add: padding_def)
  with 4 show ?case by simp
qed (simp_all add: padding_def)

lemma takeWhile_all_append: "\<forall>x \<in> set xs. P x \<Longrightarrow> takeWhile P (xs @ ys) = xs @ takeWhile P ys"
  by (induction xs) auto

lemma python_b64decode_kept:
  assumes "filter (\<lambda>b. is_base64_alphabet b \<or> b = CHR ''='') input = base64_standard bs"
  shows "python_b64decode input = Inr bs"
proof -
  let ?w = "map (\<lambda>v. STANDARD ! unat v) (sextets bs)"
  have enc: "base64_standard bs = ?w @ padding bs" by (simp add: base64_standard_def encode_sextets)
  have w: "b \<noteq> CHR ''=''" if "b \<in> set ?w" for b
    using that sextets_bound sextet_standard(3) by auto
  have pad: "\<forall>b \<in> set (padding bs). b = CHR ''=''" by (simp add: padding_def)
  have data: "filter (\<lambda>b. b \<noteq> CHR ''='') (?w @ padding bs) = ?w"
    using w pad by (simp add: filter_id_conv filter_empty_conv)
  have "length (padding bs) \<le> length (takeWhile (\<lambda>b. b = CHR ''='') (rev (?w @ padding bs)))"
    using pad by (simp add: takeWhile_all_append)
  moreover have "map sextet ?w = sextets bs"
    using sextets_bound sextet_standard(1) by (simp add: map_idI)
  ultimately show ?thesis
    using length_sextets_padding [of bs] assms data unpack_sextets [of 0 bs]
    by (auto simp: python_b64decode_def Let_def enc)
qed

lemma standard_chars: "b \<in> set (base64_standard bs) \<Longrightarrow> is_base64_alphabet b \<or> b = CHR ''=''"
  using sextets_bound sextet_standard(2) by (auto simp: base64_standard_def encode_sextets padding_def)

text \<open>
  Base64 round trips for every byte string: the strict decoder inverts the padded
  encoder, the token decoder of the rate limiter inverts the unpadded URL alphabet, and
  CPython's lenient decoder gives the bytes back from any text that is the encoding once the
  characters outside the alphabet are dropped (line breaks, spaces, anything else).
\<close>

theorem base64_roundtrip:
  "base64_standard_decode (base64_standard bs) = Some bs \<and>
   base64url_decode (base64_url_nopad bs) = Some bs \<and>
   (\<forall>input. filter (\<lambda>b. is_base64_alphabet b \<or> b = CHR ''='') input = base64_standard bs \<longrightarrow>
      python_b64decode input = Inr bs)"
  using standard.decode_encode url_safe.decode_encode python_b64decode_kept
  by (simp add: base64_standard_decode_def base64_standard_def base64url_decode_def base64_url_nopad_def)

theorem base64_roundtrip_witness: "python_b64decode (CHR 0x0A # base64_standard [0xfb, 0xff]) = Inr [0xfb, 0xff]"
proof -
  have "filter (\<lambda>b. is_base64_alphabet b \<or> b = CHR ''='') (base64_standard [0xfb, 0xff]) = base64_standard [0xfb, 0xff]"
    using standard_chars by (auto simp: filter_id_conv)
  then have "filter (\<lambda>b. is_base64_alphabet b \<or> b = CHR ''='') (CHR 0x0A # base64_standard [0xfb, 0xff]) =
      base64_standard [0xfb, 0xff]"
    by (simp add: is_base64_alphabet_def less_eq_char_def is_ascii_digit_code)
  then show ?thesis using base64_roundtrip [of "[0xfb, 0xff]"] by blast
qed

section \<open>Digests in names\<close>

lemma hex_Nil [simp]: "hex [] = []"
  by (simp add: hex_def)

lemma foldl_hex: "foldl (\<lambda>out b. out @ hex_byte b) out bs = out @ concat (map hex_byte bs)"
  by (induction bs arbitrary: out) auto

lemma hex_concat: "hex bs = concat (map hex_byte bs)"
  by (simp add: hex_def foldl_hex)

lemma length_hex: "length (hex bs) = 2 * length bs"
  by (induction bs) (simp_all add: hex_concat hex_byte_def)

end
