(* ===== verification/RateLimit.thy ===== *)
theory RateLimit
  imports Windows Crypto Json
begin

text \<open>
  \<^verbatim>\<open>backend-rs/src/ratelimit.rs\<close>: the fixed-window counters, which bucket a request counts
  against, and the refusal. Headers are a function from a header's name to its value when it
  is present and text; SHA-256 and the JSON parser are arguments. The memory store's count
  is the 32-bit word of the code. The store is an instance of \<open>swept_table\<close>: its sweep
  cannot be observed, and no tenant's requests change the answers another gets.
\<close>

section \<open>The stores\<close>

definition RETRY_AFTER_SECONDS :: nat where "RETRY_AFTER_SECONDS = 60"

definition MEMORY_SWEEP_EVERY :: duration where "MEMORY_SWEEP_EVERY = from_secs 10"

record memory_counters =
  buckets :: "(string \<times> (32 word \<times> instant)) list"
  last_sweep :: "instant option"

definition empty_counters :: memory_counters where
  "empty_counters = \<lparr>buckets = [], last_sweep = None\<rparr>"

datatype 'conn store = Redis 'conn | Memory memory_counters

text \<open>\<open>open_client\<close> and \<open>connect\<close> are the Redis client's; a connect that timed out is a failure.\<close>

definition from_env :: "(string \<Rightarrow> 'client option) \<Rightarrow> ('client \<Rightarrow> 'conn option) \<Rightarrow> string \<Rightarrow> 'conn store" where
  "from_env open_client connect redis_url =
     (if redis_url = [] then Memory empty_counters
      else case open_client redis_url of
             Some client \<Rightarrow> (case connect client of Some conn \<Rightarrow> Redis conn | None \<Rightarrow> Memory empty_counters)
           | None \<Rightarrow> Memory empty_counters)"

type_synonym request = "string \<times> 32 word \<times> duration"

text \<open>One request against a bucket of the memory store.\<close>

definition bump :: "instant \<Rightarrow> duration \<Rightarrow> (32 word \<times> instant) option \<Rightarrow> 32 word \<times> instant" where
  "bump now window found =
     (let entry = (case found of Some e \<Rightarrow> e | None \<Rightarrow> (0, now));
          (n, started) = (if duration_since now (snd entry) \<ge> window then (0, now) else entry)
      in (n + 1, started))"

definition check_memory :: "instant \<Rightarrow> request \<Rightarrow> memory_counters \<Rightarrow> bool \<times> memory_counters" where
  "check_memory now = (\<lambda>(bucket, limit, window) counters.
     (let entry = bump now window (map_of (buckets counters) bucket);
          counters1 = counters\<lparr>buckets := AList.update bucket entry (buckets counters)\<rparr>;
          allowed = (fst entry \<le> limit);
          due = (case last_sweep counters1 of
                   None \<Rightarrow> True
                 | Some swept \<Rightarrow> duration_since now swept \<ge> MEMORY_SWEEP_EVERY)
      in (allowed,
          if length (buckets counters1) > 10000 \<and> due
          then \<lparr>buckets = filter (\<lambda>(_, entry). duration_since now (snd entry) < from_secs 3600)
                            (buckets counters1),
                last_sweep = Some now\<rparr>
          else counters1)))"

text \<open>
  The Redis store: \<open>incr\<close> is the answer to \<open>INCR\<close>, \<open>None\<close> when the storage failed. The second
  component is whether \<open>EXPIRE\<close> was sent.
\<close>

definition check_redis :: "32 word option \<Rightarrow> 32 word \<Rightarrow> bool \<times> bool" where
  "check_redis incr limit =
     (case incr of
        Some count \<Rightarrow> (count \<le> limit, count = 1)
      | None \<Rightarrow> (True, False))"

text \<open>
  \<open>storage_error_is_due\<close>: \<open>now\<close> is the seconds since the first call plus one, \<open>cell\<close> the atomic
  as loaded, \<open>cell'\<close> the atomic when the exchange runs.
\<close>

definition storage_error_is_due :: "64 word \<Rightarrow> 64 word \<Rightarrow> 64 word \<Rightarrow> bool \<times> 64 word" where
  "storage_error_is_due now cell cell' =
     (if cell \<noteq> 0 \<and> now - cell < 60 then (False, cell')
      else if cell' = cell then (True, now) else (False, cell'))"

section \<open>Buckets\<close>

type_synonym headers = "string \<Rightarrow> string option"

definition split_first :: "char \<Rightarrow> string \<Rightarrow> string" where
  "split_first c s = takeWhile (\<lambda>d. d \<noteq> c) s"

definition client_ip :: "headers \<Rightarrow> string option \<Rightarrow> bool \<Rightarrow> string option" where
  "client_ip headers peer trust_proxy =
     (let fly = (case headers ''fly-client-ip'' of Some ip \<Rightarrow> trim ip | None \<Rightarrow> []);
          xff = (case headers ''x-forwarded-for'' of Some x \<Rightarrow> trim (split_first (CHR '','') x) | None \<Rightarrow> [])
      in if trust_proxy \<and> fly \<noteq> [] then Some fly
         else if trust_proxy \<and> xff \<noteq> [] then Some xff
         else peer)"

fun split_on :: "char \<Rightarrow> string \<Rightarrow> string list" where
  "split_on c [] = [[]]"
| "split_on c (d # ds) =
     (if d = c then [] # split_on c ds
      else case split_on c ds of [] \<Rightarrow> [[d]] | p # ps \<Rightarrow> (d # p) # ps)"

definition org_from_unverified_jwt :: "(bytes \<Rightarrow> json option) \<Rightarrow> string \<Rightarrow> string option" where
  "org_from_unverified_jwt from_slice token =
     (let parts = split_on (CHR ''.'') token
      in if length parts \<noteq> 3 then None
         else case base64url_decode (parts ! 1) of
             None \<Rightarrow> None
           | Some payload \<Rightarrow>
               (case from_slice payload of
                  None \<Rightarrow> None
                | Some claims \<Rightarrow>
                    (let direct = Option.bind (json_get ''org_id'' claims) as_str;
                         nested = Option.bind (Option.bind (json_get ''o'' claims) (json_get ''id'')) as_str
                     in case (case direct of Some s \<Rightarrow> Some s | None \<Rightarrow> nested) of
                          None \<Rightarrow> None
                        | Some org_id \<Rightarrow> if org_id = [] then None else Some org_id)))"

definition to_bytes :: "string \<Rightarrow> bytes" where
  "to_bytes s = map (\<lambda>c. of_nat (of_char c)) s"

definition tenant_key_with ::
  "(bytes \<Rightarrow> bytes) \<Rightarrow> (bytes \<Rightarrow> json option) \<Rightarrow> headers \<Rightarrow> string option \<Rightarrow> bool \<Rightarrow> bool \<Rightarrow> string" where
  "tenant_key_with sha from_slice headers peer ip_only trust_proxy =
     (let by_ip = (case client_ip headers peer trust_proxy of Some ip \<Rightarrow> ip | None \<Rightarrow> ''unknown'')
      in if ip_only then by_ip
         else case headers ''x-node-api-key'' of
             Some node_key \<Rightarrow> ''node:'' @ take 16 (hex (sha (to_bytes node_key)))
           | None \<Rightarrow>
               (case Option.bind (Option.bind (headers ''authorization'') (strip_prefix ''Bearer ''))
                       (org_from_unverified_jwt from_slice) of
                  Some org_id \<Rightarrow> ''org:'' @ org_id
                | None \<Rightarrow> by_ip))"

definition pseudonymous_tenant :: "(bytes \<Rightarrow> bytes) \<Rightarrow> string \<Rightarrow> string \<Rightarrow> string" where
  "pseudonymous_tenant sha tenant secret =
     (if starts_with ''node:'' tenant \<or> starts_with ''org:'' tenant \<or> tenant = ''unknown'' then tenant
      else
        (let subkey = hmac_sha256 sha (to_bytes secret) (to_bytes ''sentinel-ratelimit-ip-v1'');
             tag = hmac_sha256 sha subkey (to_bytes tenant)
         in ''ip:'' @ take 16 (hex tag)))"

text \<open>
  The extractor: the bucket a request to \<open>route\<close> counts against (the matched template, or the
  raw path when there is none).
\<close>

definition bucket_name :: "string \<Rightarrow> string \<Rightarrow> nat \<Rightarrow> nat \<Rightarrow> string" where
  "bucket_name tenant route limit window_secs =
     ''rl:'' @ tenant @ '':'' @ route @ '':'' @ show_nat limit @ '':'' @ show_nat window_secs"

definition request_bucket ::
  "(bytes \<Rightarrow> bytes) \<Rightarrow> (bytes \<Rightarrow> json option) \<Rightarrow> bool \<Rightarrow> string \<Rightarrow> string \<Rightarrow>
   headers \<Rightarrow> string option \<Rightarrow> string option \<Rightarrow> string \<Rightarrow> bool \<Rightarrow> nat \<Rightarrow> nat \<Rightarrow> string" where
  "request_bucket sha from_slice proxy_trusted clerk_secret_key app_secret_key headers peer matched path
     ip_only limit window_secs =
     (let tenant = tenant_key_with sha from_slice headers peer ip_only proxy_trusted;
          secret = (if clerk_secret_key = [] then app_secret_key else clerk_secret_key);
          tenant' = pseudonymous_tenant sha tenant secret;
          route = (case matched of Some r \<Rightarrow> r | None \<Rightarrow> path)
      in bucket_name tenant' route limit window_secs)"

definition too_many_requests :: "32 word \<Rightarrow> nat \<Rightarrow> json" where
  "too_many_requests limit window_secs =
     (let window = (if window_secs \<ge> 3600 then ''hour'' else ''minute'')
      in Object
        [(''error'', String ''rate_limit_exceeded''),
         (''message'', String (''Too many requests. Back off and retry after the Retry-After window. '' @
            ''Per-route limits: https://sentinel-command.com/documentation/'')),
         (''limit'', String (show_nat (unat limit) @ '' per 1 '' @ window)),
         (''retry_after_seconds'', IntNum (int RETRY_AFTER_SECONDS))])"

text \<open>\<open>RateLimit::check\<close> on the memory store: pass, or the 429 body.\<close>

definition rate_limit_check ::
  "instant \<Rightarrow> string \<Rightarrow> 32 word \<Rightarrow> nat \<Rightarrow> memory_counters \<Rightarrow> (json + unit) \<times> memory_counters" where
  "rate_limit_check now bucket limit window_secs counters =
     (let (allowed, counters1) = check_memory now (bucket, limit, from_secs window_secs) counters
      in (if allowed then Inr () else Inl (too_many_requests limit window_secs), counters1))"

section \<open>The store against one bucket's own counter\<close>

text \<open>The reference: a fixed-window counter that sees one bucket's requests and is never swept.\<close>

definition fixed_window :: "instant \<Rightarrow> request \<Rightarrow> (32 word \<times> instant) option \<Rightarrow> bool \<times> (32 word \<times> instant) option" where
  "fixed_window now = (\<lambda>(bucket, limit, window) s.
     (let e = bump now window s in (fst e \<le> limit, Some e)))"

definition counter_sim :: "string \<Rightarrow> instant \<Rightarrow> memory_counters \<Rightarrow> (32 word \<times> instant) option \<Rightarrow> bool" where
  "counter_sim b now tb s \<longleftrightarrow>
     (let found = map_of (buckets tb) b
      in found = s \<or> found = None \<and> (case s of Some (_, started) \<Rightarrow> now - started \<ge> from_secs 3600 | None \<Rightarrow> True))"

definition hour_at_most :: "request \<Rightarrow> bool" where
  "hour_at_most = (\<lambda>(bucket, limit, window). window \<le> from_secs 3600)"

lemma fixed_window_eq: "fixed_window now (b, l, w) s = (fst (bump now w s) \<le> l, Some (bump now w s))"
  by (simp add: fixed_window_def Let_def)

lemma bump_started: "0 < w \<Longrightarrow> duration_since now (snd (bump now w s)) < w"
  by (auto simp: bump_def Let_def duration_since_def split: option.splits prod.splits if_splits)

lemma bump_started_hour:
  "w \<le> from_secs 3600 \<Longrightarrow> duration_since now (snd (bump now w s)) < from_secs 3600"
  by (auto simp: bump_def Let_def duration_since_def from_secs_def split: option.splits prod.splits if_splits)

lemma bump_sim: "counter_sim b now tb s \<Longrightarrow> w \<le> from_secs 3600 \<Longrightarrow> bump now w (map_of (buckets tb) b) = bump now w s"
  by (auto simp: counter_sim_def bump_def Let_def duration_since_def split: option.splits)

lemma counter_sim_refl: "map_of (buckets tb) b = s \<Longrightarrow> counter_sim b now tb s"
  by (simp add: counter_sim_def)

lemma check_memory_find:
  fixes now w :: int and b k :: string and l :: "32 word"
  assumes "hash_ok (buckets tb)"
  defines "tb' \<equiv> snd (check_memory now (b, l, w) tb)"
  defines "new \<equiv> (map_of (buckets tb))(b \<mapsto> bump now w (map_of (buckets tb) b))"
  shows "map_of (buckets tb') k = new k \<or>
    map_of (buckets tb') k = None \<and> (\<exists>e. new k = Some e \<and> duration_since now (snd e) \<ge> from_secs 3600)"
proof -
  let ?bs = "AList.update b (bump now w (map_of (buckets tb) b)) (buckets tb)"
  have ok: "hash_ok ?bs" using assms(1) by (rule hash.ok_put)
  have new: "map_of ?bs = new" unfolding new_def using assms(1) by (rule hash.map_of_put)
  have "buckets tb' = ?bs \<or>
    buckets tb' = filter (\<lambda>(_, entry). duration_since now (snd entry) < from_secs 3600) ?bs"
    by (simp add: tb'_def check_memory_def Let_def)
  then show ?thesis
  proof
    assume "buckets tb' = ?bs"
    then show ?thesis by (simp add: new)
  next
    assume "buckets tb' = filter (\<lambda>(_, entry). duration_since now (snd entry) < from_secs 3600) ?bs"
    then have "map_of (buckets tb') k =
        (case new k of Some e \<Rightarrow> if duration_since now (snd e) < from_secs 3600 then Some e else None | None \<Rightarrow> None)"
      using map_of_filter_keys [OF ok, of "\<lambda>_ e. duration_since now (snd e) < from_secs 3600" k] new
      by simp
    then show ?thesis by (auto split: option.splits if_splits)
  qed
qed

interpretation memory_store: swept_table check_memory fixed_window fst hour_at_most counter_sim
  "\<lambda>tb. hash_ok (buckets tb)"
proof unfold_locales
  fix tb :: memory_counters and now :: instant and q :: request
  obtain b l w where q: "q = (b, l, w)" by (cases q)
  assume ok: "hash_ok (buckets tb)"
  show "hash_ok (buckets (snd (check_memory now q tb)))"
    using hash.ok_put [OF ok] by (simp add: q check_memory_def Let_def distinct_fst_filter)
  fix s
  {
    assume v: "hour_at_most q" and sim: "counter_sim (fst q) now tb s"
    then have b: "bump now w (map_of (buckets tb) b) = bump now w s"
      by (intro bump_sim) (simp_all add: q hour_at_most_def)
    then show "fst (check_memory now q tb) = fst (fixed_window now q s)"
      by (simp add: q check_memory_def fixed_window_def Let_def)
    have "duration_since now (snd (bump now w s)) < from_secs 3600"
      using v by (intro bump_started_hour) (simp add: q hour_at_most_def)
    then have "map_of (buckets (snd (check_memory now q tb))) b = Some (bump now w s)"
      using check_memory_find [OF ok, of now b l w b] b by (auto simp: q)
    then show "counter_sim (fst q) now (snd (check_memory now q tb)) (snd (fixed_window now q s))"
      by (simp add: q fixed_window_def Let_def counter_sim_refl)
  }
  fix k
  assume "k \<noteq> fst q" "counter_sim k now tb s"
  then show "counter_sim k now (snd (check_memory now q tb)) s"
    using check_memory_find [OF ok, of now b l w k]
    by (auto simp: q counter_sim_def Let_def duration_since_def from_secs_def split: option.splits)
next
  fix k now tb s later
  assume "counter_sim k now tb s" "now \<le> later"
  then show "counter_sim k later tb s" by (auto simp: counter_sim_def Let_def split: option.splits)
qed

section \<open>The quota of a window\<close>

abbreviation hits :: "bool list \<Rightarrow> nat" where
  "hits rs \<equiv> length (filter id rs)"

definition requests :: "string \<Rightarrow> 32 word \<Rightarrow> duration \<Rightarrow> instant list \<Rightarrow> (instant \<times> request) list" where
  "requests b l w ts = map (\<lambda>t. (t, (b, l, w))) ts"

lemma requests_simps [simp]:
  "requests b l w [] = []"
  "requests b l w (t # ts) = (t, (b, l, w)) # requests b l w ts"
  "requests b l w (ts @ us) = requests b l w ts @ requests b l w us"
  by (simp_all add: requests_def)

lemma unat_Suc: "unat (c :: 32 word) + 1 < 2 ^ 32 \<Longrightarrow> unat (c + 1) = unat c + 1"
  by (subst unat_word_ariths) simp

lemma bump_same: "0 < w \<Longrightarrow> t < st + w \<Longrightarrow> bump t w (Some (c, st)) = (c + 1, st)"
  by (auto simp: bump_def Let_def duration_since_def)

lemma bump_reset: "0 < w \<Longrightarrow> st + w \<le> t \<Longrightarrow> bump t w (Some (c, st)) = (1, t)"
  by (simp add: bump_def Let_def duration_since_def)

lemma bump_fresh: "0 < w \<Longrightarrow> bump t w None = (1, t)"
  by (simp add: bump_def Let_def duration_since_def)

text \<open>Inside one window the first \<open>limit\<close> requests pass and the rest do not.\<close>

lemma window_answers:
  assumes "0 < w" "\<forall>t \<in> set ts. t < st + w" "unat c + length ts < 2 ^ 32"
  shows "run fixed_window (requests b l w ts) (Some (c, st)) =
    (replicate (min (length ts) (unat l - unat c)) True @ replicate (length ts - (unat l - unat c)) False,
     Some (c + of_nat (length ts), st))"
  using assms(2,3)
proof (induction ts arbitrary: c)
  case Nil
  then show ?case by simp
next
  case (Cons t ts)
  then have c: "unat (c + 1) = unat c + 1" by (intro unat_Suc) simp
  have IH: "run fixed_window (requests b l w ts) (Some (c + 1, st)) =
    (replicate (min (length ts) (unat l - unat (c + 1))) True @
       replicate (length ts - (unat l - unat (c + 1))) False,
     Some (c + 1 + of_nat (length ts), st))"
    using Cons.prems c by (intro Cons.IH) auto
  have "c + 1 \<le> l \<longleftrightarrow> unat c < unat l" using c by (auto simp: word_le_nat_alt)
  moreover have "unat l - unat c = (if unat c < unat l then Suc (unat l - Suc (unat c)) else 0)" by (simp add: Suc_diff_Suc)
  ultimately show ?case
    using assms(1) Cons.prems c IH
    by (simp add: fixed_window_eq bump_same algebra_simps)
qed

lemma hits_window:
  assumes "0 < w" "\<forall>t \<in> set ts. t < st + w" "unat c + length ts < 2 ^ 32"
  shows "hits (fst (run fixed_window (requests b l w ts) (Some (c, st)))) \<le> unat l - unat c"
  using window_answers [OF assms, of b l] by simp

text \<open>A reset inside an interval no longer than the window is the last one in it.\<close>

lemma hits_after_reset:
  assumes "0 < w" "fst (bump t w s) = 1" "snd (bump t w s) = t" "\<forall>u \<in> set ts. u < t + w" "1 + length ts < 2 ^ 32"
  shows "hits (fst (run fixed_window (requests b l w (t # ts)) s)) \<le> unat l"
proof -
  have b: "bump t w s = (1, t)" using assms(2,3) by (metis prod.collapse)
  have "hits (fst (run fixed_window (requests b l w ts) (Some (1, t)))) \<le> unat l - 1"
    using hits_window [OF assms(1,4), of 1 b l] assms(5) by simp
  moreover have "1 \<le> l \<longleftrightarrow> 1 \<le> unat l" by (simp add: word_le_nat_alt)
  ultimately show ?thesis by (auto simp: fixed_window_eq b)
qed

lemma hits_interval:
  assumes w: "0 < w" and srt: "sorted ts" and inr: "\<forall>t \<in> set ts. T \<le> t \<and> t < T + w"
    and len: "(case s of Some (c, _) \<Rightarrow> unat c | None \<Rightarrow> 0) + length ts < 2 ^ 32"
  shows "hits (fst (run fixed_window (requests b l w ts) s)) \<le> 2 * unat l"
proof (cases s)
  case None
  show ?thesis
  proof (cases ts)
    case (Cons t us)
    have "hits (fst (run fixed_window (requests b l w (t # us)) s)) \<le> unat l"
      by (rule hits_after_reset) (use None Cons inr len w in \<open>auto simp: bump_fresh\<close>)
    with Cons show ?thesis by simp
  qed simp
next
  case (Some p)
  obtain c st where p: "p = (c, st)" by (cases p)
  define us where "us = takeWhile (\<lambda>t. t < st + w) ts"
  define vs where "vs = dropWhile (\<lambda>t. t < st + w) ts"
  have ts: "ts = us @ vs" by (simp add: us_def vs_def)
  have us: "\<forall>t \<in> set us. t < st + w" by (auto simp: us_def dest: set_takeWhileD)
  have lu: "unat c + length us < 2 ^ 32" using len Some p ts by simp
  note ua = window_answers [OF w us lu, of b l]
  have first: "hits (fst (run fixed_window (requests b l w us) s)) \<le> unat l"
    using hits_window [OF w us lu, of b l] Some p by simp
  show ?thesis
  proof (cases vs)
    case Nil
    then show ?thesis using first ts by simp
  next
    case (Cons v rest)
    have v: "st + w \<le> v" using Cons hd_dropWhile [of "\<lambda>t. t < st + w" ts] by (simp add: vs_def)
    let ?s1 = "Some (c + of_nat (length us), st)"
    have "hits (fst (run fixed_window (requests b l w (v # rest)) ?s1)) \<le> unat l"
    proof (rule hits_after_reset [OF w])
      show "\<forall>u \<in> set rest. u < v + w" 
      proof
        fix u
        assume "u \<in> set rest"
        then have "u < T + w" "T \<le> v" using inr ts Cons by simp_all
        then show "u < v + w" by linarith
      qed
      show "1 + length rest < 2 ^ 32" using len ts Cons by simp
    qed (simp_all add: bump_reset [OF w v])
    then show ?thesis using first ua Some p ts Cons by (simp add: run_append)
  qed
qed

lemma count_bound:
  assumes "snd (run fixed_window (requests b l w ts) s) = Some (c, st)" "0 < w"
    and "(case s of Some (c, _) \<Rightarrow> unat c | None \<Rightarrow> 0) + length ts < 2 ^ 32"
  shows "unat c \<le> (case s of Some (c, _) \<Rightarrow> unat c | None \<Rightarrow> 0) + length ts"
  using assms
proof (induction ts arbitrary: s)
  case Nil
  then show ?case by simp
next
  case (Cons t ts)
  let ?n = "case s of Some (c, _) \<Rightarrow> unat c | None \<Rightarrow> 0"
  have 1: "unat (fst (bump t w s)) \<le> ?n + 1"
  proof (cases s)
    case None
    then show ?thesis using Cons.prems(2) by (simp add: bump_fresh)
  next
    case (Some p)
    obtain d r where p: "p = (d, r)" by (cases p)
    have "unat (d + 1) = unat d + 1" using Cons.prems(3) Some p by (intro unat_Suc) simp
    then show ?thesis using Some p Cons.prems(2)
      by (cases "t < r + w") (simp_all add: bump_same bump_reset)
  qed
  obtain d r where d: "bump t w s = (d, r)" by (cases "bump t w s")
  have "snd (run fixed_window (requests b l w ts) (Some (d, r))) = Some (c, st)"
    using Cons.prems(1) d by (simp add: fixed_window_eq)
  then have "unat c \<le> unat d + length ts"
    using Cons.IH [of "Some (d, r)"] Cons.prems(2,3) 1 d by simp
  then show ?case using 1 d by simp
qed

text \<open>Requests inside an interval of a sorted list are a segment of it.\<close>

lemma sorted_interval:
  fixes T w :: int
  assumes "sorted ts"
  obtains us vs xs where "ts = us @ vs @ xs" "\<forall>t \<in> set us. t < T" "\<forall>t \<in> set vs. T \<le> t \<and> t < T + w"
    "\<forall>t \<in> set xs. \<not> (T \<le> t \<and> t < T + w)"
proof -
  define us where "us = takeWhile (\<lambda>t. t < T) ts"
  define rest where "rest = dropWhile (\<lambda>t. t < T) ts"
  have ts: "ts = us @ rest" and sr: "sorted rest"
    using assms by (simp_all add: us_def rest_def sorted_dropWhile)
  have lo: "\<forall>t \<in> set rest. T \<le> t"
  proof (cases rest)
    case (Cons r rs)
    have "T \<le> r" using Cons hd_dropWhile [of "\<lambda>t. t < T" ts] by (simp add: rest_def)
    then show ?thesis using sr Cons by auto
  qed simp
  have "\<forall>t \<in> set (dropWhile (\<lambda>t. t < T + w) rest). \<not> t < T + w"
  proof (cases "dropWhile (\<lambda>t. t < T + w) rest")
    case (Cons r rs)
    have "\<not> r < T + w" using Cons hd_dropWhile [of "\<lambda>t. t < T + w" rest] by simp
    moreover have "sorted (r # rs)" using Cons sorted_dropWhile [OF sr] by metis
    ultimately show ?thesis using Cons by auto
  next
    case Nil
    show ?thesis unfolding Nil by simp
  qed
  then have hi: "\<forall>t \<in> set (dropWhile (\<lambda>t. t < T + w) rest). \<not> (T \<le> t \<and> t < T + w)" by blast
  have mid: "\<forall>t \<in> set (takeWhile (\<lambda>t. t < T + w) rest). T \<le> t \<and> t < T + w"
    using lo set_takeWhileD by fast
  have "\<forall>t \<in> set us. t < T" unfolding us_def using set_takeWhileD by fast
  from that [OF _ this mid hi] show thesis using ts by simp
qed

lemma reference_quota:
  assumes "0 < w" "sorted ts" "length ts < 2 ^ 32"
  shows "length (filter (\<lambda>(t, r). T \<le> t \<and> t < T + w \<and> r) (zip ts (fst (run fixed_window (requests b l w ts) None))))
    \<le> 2 * unat l"
proof -
  obtain us vs xs where ts: "ts = us @ vs @ xs" and us: "\<forall>t \<in> set us. t < T"
    and vs: "\<forall>t \<in> set vs. T \<le> t \<and> t < T + w" and xs: "\<forall>t \<in> set xs. \<not> (T \<le> t \<and> t < T + w)"
    using sorted_interval [OF assms(2)] .
  let ?P = "\<lambda>(t, r). T \<le> t \<and> t < T + w \<and> r"
  define s1 where "s1 = snd (run fixed_window (requests b l w us) None)"
  define mid where "mid = fst (run fixed_window (requests b l w vs) s1)"
  obtain ra rc where run: "fst (run fixed_window (requests b l w ts) None) = ra @ mid @ rc"
    and la: "length ra = length us" and lm: "length mid = length vs"
    by (simp add: ts run_append mid_def s1_def requests_def)
  have out: "filter ?P (zip ys rs) = []" if "\<forall>t \<in> set ys. \<not> (T \<le> t \<and> t < T + w)" for ys rs
    using that by (auto simp: filter_empty_conv dest: set_zip_leftD)
  have inside: "length (filter ?P (zip vs mid)) \<le> hits mid"
    using lm
  proof (induction vs mid rule: list_induct2')
  qed auto
  have "(case s1 of Some (c, _) \<Rightarrow> unat c | None \<Rightarrow> 0) \<le> length us"
    using count_bound [of b l w us None] assms ts by (auto simp: s1_def split: option.splits)
  then have "hits mid \<le> 2 * unat l"
    unfolding mid_def using assms ts vs by (intro hits_interval [of w vs T]) (auto simp: sorted_append)
  moreover have "filter ?P (zip us ra) = []" using us by (intro out) auto
  moreover have "filter ?P (zip xs rc) = []" using xs by (rule out)
  ultimately show ?thesis using inside run ts la lm by simp
qed

section \<open>Properties\<close>

lemma sim_empty: "counter_sim b now empty_counters None"
  by (simp add: counter_sim_def empty_counters_def)

lemma empty_ok: "hash_ok (buckets empty_counters)"
  by (simp add: empty_counters_def)

lemma memory_answers:
  assumes "sorted (map fst es)" "\<forall>e \<in> set es. hour_at_most (snd e)"
  shows "answers (\<lambda>q. fst q = b) es (fst (run check_memory es empty_counters)) =
    fst (run fixed_window (filter (\<lambda>e. fst (snd e) = b) es) None)"
proof (cases es)
  case (Cons e es')
  show ?thesis
    by (rule memory_store.run_sim [where now = "fst e"])
      (use assms Cons in \<open>auto simp: sim_empty empty_ok\<close>)
qed simp

text \<open>
  C21. Tenants do not interfere, and the sweep cannot be observed: in any sequence of requests
  at non-decreasing instants with windows of at most an hour, the answers a bucket gets are
  those of a counter that sees that bucket's requests alone and is never swept.
\<close>

theorem memory_store_isolated:
  assumes "sorted (map fst es)" "\<forall>e \<in> set es. hour_at_most (snd e)"
  shows "answers (\<lambda>q. fst q = b) es (fst (run check_memory es empty_counters)) =
    fst (run fixed_window (filter (\<lambda>e. fst (snd e) = b) es) None)"
  using assms by (rule memory_answers)

theorem memory_store_isolated_witness:
  "answers (\<lambda>q. fst q = ''b'')
     [(0 :: int, ''a'', 1 :: 32 word, from_secs 60), (5, ''b'', 1 :: 32 word, from_secs 60), (7, ''b'', 1, from_secs 60)]
     (fst (run check_memory [(0 :: int, ''a'', 1 :: 32 word, from_secs 60), (5, ''b'', 1 :: 32 word, from_secs 60), (7, ''b'', 1, from_secs 60)]
        empty_counters)) = [True, False]"
proof -
  let ?es = "[(0 :: int, ''a'', 1 :: 32 word, from_secs 60), (5, ''b'', 1 :: 32 word, from_secs 60), (7, ''b'', 1, from_secs 60)]"
  have "sorted (map fst ?es)" "\<forall>e \<in> set ?es. hour_at_most (snd e)"
    by (simp_all add: hour_at_most_def from_secs_def)
  from memory_store_isolated [OF this, of "''b''"] show ?thesis
    by (simp add: fixed_window_eq bump_def duration_since_def from_secs_def word_le_nat_alt)
qed

lemma filter_requests:
  assumes "\<forall>(now, q) \<in> set es. fst q = b \<longrightarrow> q = (b, l, w)"
  shows "filter (\<lambda>e. fst (snd e) = b) es = requests b l w (map fst (filter (\<lambda>e. fst (snd e) = b) es))"
  using assms by (induction es) (auto simp: requests_def)

lemma head_of_window:
  "(0 < k) # replicate (min n (k - 1)) True @ replicate (n - (k - 1)) False =
   replicate (min (Suc n) k) True @ replicate (Suc n - k) False" for k n :: nat
  by (cases k) simp_all



lemma last_number_inj:
  assumes "p @ CHR '':'' # show_nat m = q @ CHR '':'' # show_nat n"
  shows "p = q \<and> m = n"
proof -
  have d: "CHR '':'' \<notin> set (show_nat k)" for k
    using show_nat_digits [of k] by (auto simp: is_ascii_digit_code)
  have "takeWhile (\<lambda>c. c \<noteq> CHR '':'') (rev (r @ CHR '':'' # show_nat k)) = rev (show_nat k)" for r k
  proof -
    have "rev (r @ CHR '':'' # show_nat k) = rev (show_nat k) @ CHR '':'' # rev r" by simp
    then show ?thesis using d [of k] by (simp add: takeWhile_append)
  qed
  then have "show_nat m = show_nat n" using assms by (metis rev_rev_ident)
  then show ?thesis using assms show_nat_value by (metis append_same_eq)
qed

lemma bucket_name_inj:
  assumes "bucket_name t r l w = bucket_name t' r' l' w'"
  shows "l = l' \<and> w = w'"
  using last_number_inj [of "''rl:'' @ t @ '':'' @ r @ '':'' @ show_nat l" w
      "''rl:'' @ t' @ '':'' @ r' @ '':'' @ show_nat l'" w']
    last_number_inj [of "''rl:'' @ t @ '':'' @ r" l "''rl:'' @ t' @ '':'' @ r'" l'] assms
  by (simp add: bucket_name_def)

text \<open>
  A route limited by address alone (the local login) cannot be given a fresh bucket by
  its caller: the bucket is the same for any two requests that agree on the forwarded-address
  headers, and on none at all when no proxy is trusted, whatever node key or token they carry.
  Two routes' buckets never share a counter across different limits or windows.
\<close>

theorem ip_only_bucket_fixed:
  assumes "trusted \<longrightarrow> headers ''fly-client-ip'' = headers' ''fly-client-ip'' \<and>
      headers ''x-forwarded-for'' = headers' ''x-forwarded-for''"
  shows "request_bucket sha from_slice trusted ck ak headers peer matched path True l w =
      request_bucket sha from_slice trusted ck ak headers' peer matched path True l w \<and>
    (request_bucket sha from_slice trusted ck ak headers peer matched path ip l w =
       request_bucket sha from_slice trusted ck ak headers' peer' matched' path' ip' l' w' \<longrightarrow> l = l' \<and> w = w')"
proof -
  have "client_ip headers peer trusted = client_ip headers' peer trusted"
    using assms by (cases trusted) (simp_all add: client_ip_def)
  moreover have "request_bucket sha from_slice trusted ck ak headers peer matched path ip l w =
       request_bucket sha from_slice trusted ck ak headers' peer' matched' path' ip' l' w' \<Longrightarrow> l = l' \<and> w = w'"
    unfolding request_bucket_def Let_def by (rule bucket_name_inj)
  ultimately show ?thesis by (simp add: request_bucket_def tenant_key_with_def)
qed

theorem ip_only_bucket_fixed_witness:
  "request_bucket (\<lambda>_. []) (\<lambda>_. None) False [] ''s'' ((\<lambda>_. None)(''x-node-api-key'' := Some ''guess-1'')) (Some ''10.0.0.1'')
     None ''/api/login'' True 5 60 =
   request_bucket (\<lambda>_. []) (\<lambda>_. None) False [] ''s'' ((\<lambda>_. None)(''x-node-api-key'' := Some ''guess-2'')) (Some ''10.0.0.1'')
     None ''/api/login'' True 5 60"
  using ip_only_bucket_fixed [where trusted = False and headers = "(\<lambda>_. None)(''x-node-api-key'' := Some ''guess-1'')"
      and headers' = "(\<lambda>_. None)(''x-node-api-key'' := Some ''guess-2'')"] by blast

text \<open>Where the comments on the store part from it.\<close>

lemma memory_window_not_wall_clock:
  "fst (run fixed_window [(59 * 1000000000, ''b'', 1, from_secs 60), (61 * 1000000000, ''b'', 1, from_secs 60)] None) =
     [True, False]"
  by (simp add: fixed_window_eq bump_def Let_def duration_since_def from_secs_def word_le_nat_alt)

lemma expire_only_on_first: "snd (check_redis (Some count) limit) \<longleftrightarrow> count = 1"
  by (simp add: check_redis_def)

lemma storage_error_race: "storage_error_is_due 5 6 6 = (True, 5)"
  by (simp add: storage_error_is_due_def)

end
