(* ===== verification/Ws.thy ===== *)
theory Ws
  imports Windows Json
begin

text \<open>
  \<^verbatim>\<open>backend-rs/src/ws.rs\<close>: the CameraNode command channel. \<open>NodeRateLimiter\<close> is a table of
  sliding windows with an opportunistic sweep, an instance of \<open>swept_table\<close> over
  \<open>sliding_window\<close>. \<open>ConnectionManager\<close> is a record whose operations run under one lock;
  \<open>send_command\<close> takes the lock twice, so it is a beginning and an end, and \<open>ws_step\<close>
  interleaves any number of commands with connects, disconnects and answers. A mailbox
  stands for the receiving half of a command's one-shot channel.
\<close>

section \<open>The throttles\<close>

definition MAX_MSGS_PER_MINUTE :: nat where "MAX_MSGS_PER_MINUTE = 180"
definition MAX_CONNECTS_PER_MINUTE :: nat where "MAX_CONNECTS_PER_MINUTE = 10"
definition WINDOW :: duration where "WINDOW = from_secs 60"

record limiter_inner =
  node_windows :: "(string \<times> instant list) list"
  window_sweep :: "instant option"

definition limiter_default :: limiter_inner where
  "limiter_default = \<lparr>node_windows = [], window_sweep = None\<rparr>"

definition ws_aged :: "instant \<Rightarrow> instant \<Rightarrow> bool" where
  "ws_aged now t \<longleftrightarrow> duration_since now t \<ge> WINDOW"

definition sweep :: "limiter_inner \<Rightarrow> instant \<Rightarrow> limiter_inner" where
  "sweep inner now =
     (if (case window_sweep inner of Some t \<Rightarrow> duration_since now t < WINDOW | None \<Rightarrow> False) then inner
      else \<lparr>node_windows =
              filter (\<lambda>(_, window). window \<noteq> [] \<and> duration_since now (last window) < WINDOW) (node_windows inner),
            window_sweep = Some now\<rparr>)"

definition allow :: "nat \<Rightarrow> instant \<Rightarrow> string \<Rightarrow> limiter_inner \<Rightarrow> bool \<times> limiter_inner" where
  "allow cap now node_id inner0 =
     (let inner = sweep inner0 now;
          found = (case map_of (node_windows inner) node_id of Some w \<Rightarrow> w | None \<Rightarrow> []);
          window = dropWhile (ws_aged now) found
      in if length window \<ge> cap
         then (False, inner\<lparr>node_windows := AList.update node_id window (node_windows inner)\<rparr>)
         else (True, inner\<lparr>node_windows := AList.update node_id (window @ [now]) (node_windows inner)\<rparr>))"

definition forget :: "string \<Rightarrow> limiter_inner \<Rightarrow> limiter_inner" where
  "forget node_id inner = inner\<lparr>node_windows := AList.delete node_id (node_windows inner)\<rparr>"

section \<open>The connection registry\<close>

datatype command_error =
    NotConnected string
  | SendFailed string
  | Timeout string string
  | Disconnected string string

fun command_error_text :: "command_error \<Rightarrow> string" where
  "command_error_text (NotConnected node) = ''Node '' @ node @ '' is not connected''"
| "command_error_text (SendFailed node) = ''Node '' @ node @ '' send failed''"
| "command_error_text (Timeout node command) = ''Command '' @ command @ '' to node '' @ node @ '' timed out''"
| "command_error_text (Disconnected node command) = ''Node '' @ node @ '' disconnected while awaiting '' @ command"

record manager =
  connections :: "(string \<times> nat) list"
  conn_order :: "string list"
  pending :: "(string \<times> string) list"
  next_id :: nat

definition manager_default :: manager where
  "manager_default = \<lparr>connections = [], conn_order = [], pending = [], next_id = 0\<rparr>"

definition connected_nodes :: "manager \<Rightarrow> string list" where
  "connected_nodes inner = conn_order inner"

definition is_connected :: "manager \<Rightarrow> string \<Rightarrow> bool" where
  "is_connected inner node_id \<longleftrightarrow> map_of (connections inner) node_id \<noteq> None"

definition cancel_pending :: "string \<Rightarrow> manager \<Rightarrow> manager" where
  "cancel_pending node_id inner = inner\<lparr>pending := filter (\<lambda>(_, node). node \<noteq> node_id) (pending inner)\<rparr>"

text \<open>The identifier of the registration comes first.\<close>

definition connect :: "string \<Rightarrow> manager \<Rightarrow> nat \<times> manager" where
  "connect node_id inner =
     (let cid = next_id inner + 1;
          old = map_of (connections inner) node_id;
          inner1 = inner\<lparr>next_id := cid, connections := AList.update node_id cid (connections inner)\<rparr>
      in (cid, if old \<noteq> None then cancel_pending node_id inner1
              else inner1\<lparr>conn_order := conn_order inner1 @ [node_id]\<rparr>))"

definition disconnect :: "string \<Rightarrow> nat \<Rightarrow> manager \<Rightarrow> manager" where
  "disconnect node_id cid inner =
     (if map_of (connections inner) node_id = Some cid
      then cancel_pending node_id
             (inner\<lparr>connections := AList.delete node_id (connections inner),
                   conn_order := filter (\<lambda>n. n \<noteq> node_id) (conn_order inner)\<rparr>)
      else inner)"

definition forget_pending :: "string \<Rightarrow> manager \<Rightarrow> manager" where
  "forget_pending correlation_id inner = inner\<lparr>pending := AList.delete correlation_id (pending inner)\<rparr>"

text \<open>\<open>send_command\<close> up to its first await: the connection the frame goes to, or the refusal.\<close>

definition send_begin :: "string \<Rightarrow> string \<Rightarrow> manager \<Rightarrow> (command_error + nat) \<times> manager" where
  "send_begin correlation_id node_id inner =
     (case map_of (connections inner) node_id of
        None \<Rightarrow> (Inl (NotConnected node_id), inner)
      | Some cid \<Rightarrow> (Inr cid, inner\<lparr>pending := AList.update correlation_id node_id (pending inner)\<rparr>))"

datatype send_outcome = Sent | ChannelClosed | SendTimedOut
datatype wait_outcome = Received json | SenderDropped | WaitTimedOut

text \<open>The rest of it, with the guard that forgets the pending entry on the way out.\<close>

definition send_end ::
  "string \<Rightarrow> string \<Rightarrow> string \<Rightarrow> nat \<Rightarrow> send_outcome \<Rightarrow> wait_outcome \<Rightarrow> manager \<Rightarrow> (command_error + json) \<times> manager" where
  "send_end correlation_id node_id command connection_id sent waited inner =
     (case sent of
        ChannelClosed \<Rightarrow>
          (Inl (SendFailed node_id), forget_pending correlation_id (disconnect node_id connection_id inner))
      | SendTimedOut \<Rightarrow> (Inl (Timeout node_id command), forget_pending correlation_id inner)
      | Sent \<Rightarrow>
          (case waited of
             Received v \<Rightarrow> (Inr v, forget_pending correlation_id inner)
           | SenderDropped \<Rightarrow> (Inl (Disconnected node_id command), forget_pending correlation_id inner)
           | WaitTimedOut \<Rightarrow> (Inl (Timeout node_id command), forget_pending correlation_id inner)))"

text \<open>Whether the answer was delivered, and the registry after it.\<close>

definition resolve_command :: "string \<Rightarrow> string \<Rightarrow> manager \<Rightarrow> bool \<times> manager" where
  "resolve_command correlation_id node_id inner =
     (if map_of (pending inner) correlation_id = Some node_id
      then (True, forget_pending correlation_id inner) else (False, inner))"

text \<open>\<open>send_frame\<close>: the connection a frame is handed to; whether its queue took it is the channel's.\<close>

definition send_frame :: "string \<Rightarrow> (nat \<Rightarrow> bool) \<Rightarrow> manager \<Rightarrow> bool" where
  "send_frame node_id accepts inner =
     (case map_of (connections inner) node_id of Some cid \<Rightarrow> accepts cid | None \<Rightarrow> False)"

section \<open>The throttle as a sliding window\<close>

lemma ws_aged_iff: "ws_aged now t \<longleftrightarrow> t \<le> now - WINDOW"
  by (auto simp: ws_aged_def duration_since_def WINDOW_def from_secs_def)

interpretation ws_window: sliding_window ws_aged
  by unfold_locales (auto simp: ws_aged_iff)

datatype limiter_op = Allow (op_node: string) | Forget (op_node: string)

definition limiter_op :: "nat \<Rightarrow> instant \<Rightarrow> limiter_op \<Rightarrow> limiter_inner \<Rightarrow> bool option \<times> limiter_inner" where
  "limiter_op cap now q inner =
     (case q of
        Allow n \<Rightarrow> (Some (fst (allow cap now n inner)), snd (allow cap now n inner))
      | Forget n \<Rightarrow> (None, forget n inner))"

text \<open>The reference: every instant at which the node was let through since it was last forgotten.\<close>

definition history_step :: "nat \<Rightarrow> instant \<Rightarrow> limiter_op \<Rightarrow> instant list \<Rightarrow> bool option \<times> instant list" where
  "history_step cap now q h =
     (case q of
        Allow n \<Rightarrow>
          (let fits = length (filter (\<lambda>t. now - WINDOW < t) h) < cap
           in (Some fits, if fits then h @ [now] else h))
      | Forget n \<Rightarrow> (None, []))"

definition window_of :: "string \<Rightarrow> limiter_inner \<Rightarrow> instant list" where
  "window_of k inner = (case map_of (node_windows inner) k of Some w \<Rightarrow> w | None \<Rightarrow> [])"

definition window_sim :: "string \<Rightarrow> instant \<Rightarrow> limiter_inner \<Rightarrow> instant list \<Rightarrow> bool" where
  "window_sim k now inner h \<longleftrightarrow> queue_sim ws_aged now (window_of k inner) h"

lemma window_of_sweep:
  assumes "hash_ok (node_windows inner)"
  shows "window_of k (sweep inner now) = window_of k inner \<or>
    window_of k (sweep inner now) = [] \<and> (window_of k inner \<noteq> [] \<longrightarrow> ws_aged now (last (window_of k inner)))"
  using map_of_filter_keys [OF assms, of "\<lambda>_ w. w \<noteq> [] \<and> duration_since now (last w) < WINDOW" k]
  by (auto simp: sweep_def window_of_def ws_aged_def split: option.splits if_splits)

lemma sim_sweep:
  assumes "hash_ok (node_windows inner)" "window_sim k now inner h"
  shows "window_sim k now (sweep inner now) h"
  using window_of_sweep [OF assms(1), of k now] assms(2) ws_window.queue_sim_drop
  by (auto simp: window_sim_def)

lemma hash_ok_sweep: "hash_ok (node_windows inner) \<Longrightarrow> hash_ok (node_windows (sweep inner now))"
  by (simp add: sweep_def distinct_fst_filter)

lemma window_of_update:
  "window_of k (inner\<lparr>node_windows := AList.update n w (node_windows inner)\<rparr>) = (if k = n then w else window_of k inner)"
  by (simp add: window_of_def AList.update_conv')

lemma window_of_forget: "window_of k (forget n inner) = (if k = n then [] else window_of k inner)"
  by (simp add: window_of_def forget_def map_of_delete)

lemma allow_eq:
  "allow cap now n inner =
     (let w = dropWhile (ws_aged now) (window_of n (sweep inner now)); s = sweep inner now
      in (length w < cap,
          s\<lparr>node_windows := AList.update n (if length w < cap then w @ [now] else w) (node_windows s)\<rparr>))"
  by (simp add: allow_def window_of_def Let_def)

lemma window_sim_same:
  "window_of k inner' = window_of k inner \<Longrightarrow> window_sim k now inner h \<Longrightarrow> window_sim k now inner' h"
  by (simp add: window_sim_def)

interpretation node_limiter: swept_table "limiter_op cap" "history_step cap" op_node "\<lambda>_. True" window_sim
  "\<lambda>inner. hash_ok (node_windows inner)" for cap
proof unfold_locales
  fix inner :: limiter_inner and now :: instant and q :: limiter_op
  assume ok: "hash_ok (node_windows inner)"
  show "hash_ok (node_windows (snd (limiter_op cap now q inner)))"
    using hash.ok_put [OF hash_ok_sweep [OF ok]] hash.ok_delete [OF ok]
    by (cases q) (simp_all add: limiter_op_def allow_eq Let_def forget_def)
  fix h
  {
    assume sim: "window_sim (op_node q) now inner h"
    have sw: "window_sim (op_node q) now (sweep inner now) h" using ok sim by (rule sim_sweep)
    let ?w = "dropWhile (ws_aged now) (window_of (op_node q) (sweep inner now))"
    have slid: "queue_sim ws_aged now ?w h" and "?w = filter (\<lambda>t. \<not> ws_aged now t) h"
      using ws_window.queue_sim_slide [OF sw [unfolded window_sim_def]] by blast+
    then have w: "?w = filter (\<lambda>t. now - WINDOW < t) h" by (simp add: ws_aged_iff not_le)
    show "fst (limiter_op cap now q inner) = fst (history_step cap now q h)"
      using w by (cases q) (simp_all add: limiter_op_def history_step_def allow_eq Let_def)
    show "window_sim (op_node q) now (snd (limiter_op cap now q inner)) (snd (history_step cap now q h))"
      using slid w queue_sim_push [OF slid]
      by (cases q) (simp_all add: limiter_op_def history_step_def allow_eq Let_def window_sim_def window_of_update
          window_of_forget queue_sim_Nil)
  }
  fix k
  assume k: "k \<noteq> op_node q" and sim: "window_sim k now inner h"
  have sw: "window_sim k now (sweep inner now) h" using ok sim by (rule sim_sweep)
  show "window_sim k now (snd (limiter_op cap now q inner)) h"
  proof (cases q)
    case (Allow n)
    then show ?thesis using k window_sim_same [OF _ sw]
      by (simp add: limiter_op_def allow_eq Let_def window_of_update)
  next
    case (Forget n)
    then show ?thesis using k window_sim_same [OF _ sim] by (simp add: limiter_op_def window_of_forget)
  qed
next
  fix k now inner h later
  assume "window_sim k now inner h" "now \<le> later"
  then show "window_sim k later inner h" unfolding window_sim_def by (rule ws_window.queue_sim_later)
qed

lemma limiter_answers:
  assumes "sorted (map fst es)"
  shows "answers (\<lambda>q. op_node q = n) es (fst (run (limiter_op cap) es limiter_default)) =
    fst (run (history_step cap) (filter (\<lambda>e. op_node (snd e) = n) es) [])"
proof (cases es)
  case (Cons e es')
  have "window_sim n now limiter_default []" for now
    by (simp add: window_sim_def window_of_def limiter_default_def queue_sim_Nil)
  then show ?thesis
    by (intro node_limiter.run_sim [where now = "fst e"]) (use assms Cons in \<open>auto simp: limiter_default_def\<close>)
qed simp

text \<open>Without a forget the history keeps within the cap.\<close>

lemma history_bounded:
  assumes "\<forall>e \<in> set es. snd e = Allow n" "\<And>T. length (filter (\<lambda>t. t \<le> T \<and> \<not> ws_aged T t) h) \<le> cap"
  shows "length (filter (\<lambda>t. t \<le> T \<and> \<not> ws_aged T t) (snd (run (history_step cap) es h))) \<le> cap"
  using assms
proof (induction es arbitrary: h)
  case Nil
  then show ?case by simp
next
  case (Cons e es)
  have fresh: "filter (\<lambda>t. now - WINDOW < t) h = filter (\<lambda>t. \<not> ws_aged now t) h" for now h
    by (auto simp: ws_aged_iff intro: filter_cong)
  obtain now where e: "e = (now, Allow n)" using Cons.prems(1) by (cases e) auto
  have "length (filter (\<lambda>t. t \<le> T \<and> \<not> ws_aged T t) (snd (history_step cap now (Allow n) h))) \<le> cap" for T
    using Cons.prems(2) ws_window.within_cap_snoc [OF Cons.prems(2)] by (simp add: history_step_def Let_def fresh)
  then show ?case using Cons.IH Cons.prems(1) e by simp
qed

text \<open>
  C33. The node throttles are exact sliding windows: whatever other nodes do and whenever the
  sweep runs, a node's messages or connects get the answers of a machine that keeps that
  node's whole history and lets one through exactly when fewer than \<open>cap\<close> were let through
  in the last sixty seconds; and as long as the node is not forgotten, no sixty-second window
  has more than \<open>cap\<close> of them.
\<close>

theorem node_limiter_exact:
  fixes es :: "(instant \<times> limiter_op) list" and n :: string and cap :: nat
  defines "rs \<equiv> fst (run (limiter_op cap) es limiter_default)"
  assumes "sorted (map fst es)"
  shows "answers (\<lambda>q. op_node q = n) es rs = fst (run (history_step cap) (filter (\<lambda>e. op_node (snd e) = n) es) []) \<and>
    (Forget n \<notin> snd ` set es \<longrightarrow>
      length (filter (\<lambda>((now, q), r). op_node q = n \<and> r = Some True \<and> T - WINDOW < now \<and> now \<le> T) (zip es rs)) \<le> cap)"
proof -
  let ?mine = "filter (\<lambda>e. op_node (snd e) = n) es"
  let ?h = "snd (run (history_step cap) ?mine [])"
  have ans: "answers (\<lambda>q. op_node q = n) es rs = fst (run (history_step cap) ?mine [])"
    unfolding rs_def using assms(2) by (rule limiter_answers)
  have "length (filter (\<lambda>((now, q), r). op_node q = n \<and> r = Some True \<and> T - WINDOW < now \<and> now \<le> T) (zip es rs)) \<le> cap"
    if "Forget n \<notin> snd ` set es"
  proof -
    have all: "\<forall>e \<in> set ?mine. snd e = Allow n"
    proof
      fix e
      assume "e \<in> set ?mine"
      then show "snd e = Allow n" using that by (cases "snd e") force+
    qed
    have "length (filter (\<lambda>((now, q), r). op_node q = n \<and> r = Some True \<and> T - WINDOW < now \<and> now \<le> T) (zip es rs)) =
        length (filter (\<lambda>t. T - WINDOW < t \<and> t \<le> T) ?h)"
    proof (rule history_count)
      fix now q h
      assume "(now, q) \<in> set es" "op_node q = n"
      then have "q = Allow n" using all by fastforce
      then show "snd (history_step cap now q h) = (if fst (history_step cap now q h) = Some True then h @ [now] else h)"
        by (simp add: history_step_def Let_def)
    qed (simp_all add: rs_def ans [unfolded rs_def])
    also have "\<dots> \<le> cap" using history_bounded [OF all, of "[]" cap T] by (simp add: ws_aged_iff not_le conj_commute)
    finally show ?thesis .
  qed
  with ans show ?thesis by blast
qed

theorem node_limiter_exact_witness:
  "answers (\<lambda>q. op_node q = ''n'') [(0, Allow ''n''), (1, Allow ''m''), (2, Allow ''n''), (from_secs 60, Allow ''n'')]
     (fst (run (limiter_op 1) [(0, Allow ''n''), (1, Allow ''m''), (2, Allow ''n''), (from_secs 60, Allow ''n'')]
        limiter_default)) = [Some True, Some False, Some True]"
proof -
  let ?es = "[(0, Allow ''n''), (1, Allow ''m''), (2, Allow ''n''), (from_secs 60, Allow ''n'')]"
  have "sorted (map fst ?es)" by (simp add: from_secs_def)
  from node_limiter_exact [OF this, of "''n''" 1] show ?thesis
    by (simp add: history_step_def Let_def WINDOW_def from_secs_def)
qed

section \<open>Commands in flight\<close>

text \<open>
  A call is a command between \<open>send_begin\<close> and its end: the node, the connection its frame went
  to, and the mailbox of its one-shot channel. An entry of \<open>pending\<close> that goes away without an
  answer closes the channel.
\<close>

datatype mailbox = Empty | Got json | Closed

record ws_call =
  call_node :: string
  call_conn :: nat
  call_mail :: mailbox

record ws_sys =
  mgr :: manager
  calls :: "string \<Rightarrow> ws_call option"
  delivered :: "(string \<times> string \<times> json) list"
  finished :: "(string \<times> string \<times> (command_error + json)) list"

definition ws_init :: ws_sys where
  "ws_init = \<lparr>mgr = manager_default, calls = (\<lambda>_. None), delivered = [], finished = []\<rparr>"

text \<open>The calls after the registry went from one state to the next.\<close>

definition close_dropped :: "manager \<Rightarrow> (string \<Rightarrow> ws_call option) \<Rightarrow> string \<Rightarrow> ws_call option" where
  "close_dropped m cs c =
     (case cs c of
        Some call \<Rightarrow>
          Some (if call_mail call = Empty \<and> map_of (pending m) c = None then call\<lparr>call_mail := Closed\<rparr> else call)
      | None \<Rightarrow> None)"

definition set_mgr :: "manager \<Rightarrow> ws_sys \<Rightarrow> ws_sys" where
  "set_mgr m s = s\<lparr>mgr := m, calls := close_dropped m (calls s)\<rparr>"

fun wait_fits :: "wait_outcome \<Rightarrow> mailbox \<Rightarrow> bool" where
  "wait_fits (Received v) mb \<longleftrightarrow> mb = Got v"
| "wait_fits SenderDropped mb \<longleftrightarrow> mb = Closed"
| "wait_fits WaitTimedOut mb \<longleftrightarrow> True"

inductive ws_step :: "ws_sys \<Rightarrow> ws_sys \<Rightarrow> bool" where
  connect: "ws_step s (set_mgr (snd (connect n (mgr s))) s)"
| disconnect: "ws_step s (set_mgr (disconnect n i (mgr s)) s)"
| begin_refused:
    "send_begin c n (mgr s) = (Inl e, m) \<Longrightarrow> ws_step s (s\<lparr>mgr := m, finished := (c, n, Inl e) # finished s\<rparr>)"
| begin_sent:
    "calls s c = None \<Longrightarrow> map_of (pending (mgr s)) c = None \<Longrightarrow> send_begin c n (mgr s) = (Inr i, m) \<Longrightarrow>
     ws_step s (s\<lparr>mgr := m, calls := (calls s)(c \<mapsto> \<lparr>call_node = n, call_conn = i, call_mail = Empty\<rparr>)\<rparr>)"
| resolve:
    "calls s c = Some call \<Longrightarrow> resolve_command c n (mgr s) = (True, m) \<Longrightarrow>
     ws_step s (s\<lparr>mgr := m, calls := (calls s)(c \<mapsto> call\<lparr>call_mail := Got v\<rparr>), delivered := (c, n, v) # delivered s\<rparr>)"
| resolve_stray: "resolve_command c n (mgr s) = (False, m) \<Longrightarrow> ws_step s (s\<lparr>mgr := m\<rparr>)"
| finish:
    "calls s c = Some call \<Longrightarrow> wait_fits waited (call_mail call) \<Longrightarrow>
     send_end c (call_node call) command (call_conn call) sent waited (mgr s) = (r, m) \<Longrightarrow>
     ws_step s (set_mgr m (s\<lparr>calls := (calls s)(c := None), finished := (c, call_node call, r) # finished s\<rparr>))"
| abandon:
    "calls s c = Some call \<Longrightarrow>
     ws_step s (s\<lparr>mgr := forget_pending c (mgr s), calls := (calls s)(c := None)\<rparr>)"

inductive ws_reach :: "ws_sys \<Rightarrow> bool" where
  init: "ws_reach ws_init"
| step: "ws_reach s \<Longrightarrow> ws_step s s' \<Longrightarrow> ws_reach s'"

text \<open>The registry on its own: nodes in order, identifiers used once, no entry without a connection.\<close>

definition manager_ok :: "manager \<Rightarrow> bool" where
  "manager_ok m \<longleftrightarrow>
     hash_ok (connections m) \<and> hash_ok (pending m) \<and>
     distinct (conn_order m) \<and> set (conn_order m) = fst ` set (connections m) \<and>
     (\<forall>n i. map_of (connections m) n = Some i \<longrightarrow> i \<le> next_id m) \<and>
     (\<forall>n n' i. map_of (connections m) n = Some i \<longrightarrow> map_of (connections m) n' = Some i \<longrightarrow> n = n')"

lemma cancel_pending_simps [simp]:
  "connections (cancel_pending n m) = connections m"
  "conn_order (cancel_pending n m) = conn_order m"
  "next_id (cancel_pending n m) = next_id m"
  by (simp_all add: cancel_pending_def)

lemma forget_pending_simps [simp]:
  "connections (forget_pending c m) = connections m"
  "conn_order (forget_pending c m) = conn_order m"
  "next_id (forget_pending c m) = next_id m"
  "map_of (pending (forget_pending c m)) = (map_of (pending m))(c := None)"
  by (simp_all add: forget_pending_def map_of_delete)

lemma pending_cancel [simp]:
  "hash_ok (pending m) \<Longrightarrow>
   map_of (pending (cancel_pending n m)) c = (if map_of (pending m) c = Some n then None else map_of (pending m) c)"
  by (auto simp: cancel_pending_def map_of_filter_keys [where P = "\<lambda>_ v. v \<noteq> n"] split: option.splits)

lemma hash_ok_pending [simp]:
  "hash_ok (pending m) \<Longrightarrow> hash_ok (pending (cancel_pending n m))"
  "hash_ok (pending m) \<Longrightarrow> hash_ok (pending (forget_pending c m))"
  by (simp_all add: cancel_pending_def forget_pending_def distinct_fst_filter distinct_fst_delete)

lemma connections_connect [simp]:
  "hash_ok (connections m) \<Longrightarrow> map_of (connections (snd (connect n m))) = (map_of (connections m))(n \<mapsto> next_id m + 1)"
  "next_id (snd (connect n m)) = next_id m + 1"
  by (simp_all add: connect_def Let_def hash.map_of_put)

lemma connections_disconnect [simp]:
  "map_of (connections (disconnect n i m)) =
     (if map_of (connections m) n = Some i then (map_of (connections m))(n := None) else map_of (connections m))"
  "next_id (disconnect n i m) = next_id m"
  by (simp_all add: disconnect_def map_of_delete)

lemma keys_map_of: "k \<in> fst ` set m \<longleftrightarrow> map_of m k \<noteq> None"
  by (metis map_of_eq_None_iff)

lemma manager_ok_connect:
  assumes "manager_ok m"
  shows "manager_ok (snd (connect n m))"
proof -
  have hc: "hash_ok (connections m)" and hp: "hash_ok (pending m)" and o: "set (conn_order m) = fst ` set (connections m)"
    and d: "distinct (conn_order m)"
    and le: "\<And>k i. map_of (connections m) k = Some i \<Longrightarrow> i \<le> next_id m"
    and inj: "\<And>k k' i. map_of (connections m) k = Some i \<Longrightarrow> map_of (connections m) k' = Some i \<Longrightarrow> k = k'"
    using assms by (auto simp: manager_ok_def)
  have keys: "fst ` set (connections (snd (connect n m))) = insert n (fst ` set (connections m))"
    by (rule set_eqI) (simp only: insert_iff keys_map_of connections_connect(1) [OF hc], simp)
  have conns: "hash_ok (connections (snd (connect n m)))" "hash_ok (pending (snd (connect n m)))"
    using hash.ok_put [OF hc] hp by (simp_all add: connect_def Let_def cancel_pending_def distinct_fst_filter)
  have old: "n \<in> fst ` set (connections m) \<longleftrightarrow> map_of (connections m) n \<noteq> None" by (rule keys_map_of)
  have "conn_order (snd (connect n m)) = (if n \<in> fst ` set (connections m) then conn_order m else conn_order m @ [n])"
    by (simp only: old) (simp add: connect_def Let_def)
  then have ord: "distinct (conn_order (snd (connect n m)))"
    "set (conn_order (snd (connect n m))) = fst ` set (connections (snd (connect n m)))"
    using d o keys by auto
  have le': "i \<le> next_id m + 1" if "((map_of (connections m))(n \<mapsto> next_id m + 1)) k = Some i" for k i
    using that le [of k i] by (cases "k = n") auto
  have inj': "k = k'" if "((map_of (connections m))(n \<mapsto> next_id m + 1)) k = Some i"
      "((map_of (connections m))(n \<mapsto> next_id m + 1)) k' = Some i" for k k' i
  proof (cases "i = next_id m + 1")
    case True
    then have "k = n" "k' = n" using that le [of k i] le [of k' i] by (auto simp: fun_upd_def split: if_splits)
    then show ?thesis by simp
  next
    case False
    then have "map_of (connections m) k = Some i" "map_of (connections m) k' = Some i"
      using that by (simp_all add: fun_upd_def split: if_splits del: map_of_eq_Some_iff)
    then show ?thesis by (rule inj)
  qed
  show ?thesis
    unfolding manager_ok_def connections_connect(1) [OF hc] connections_connect(2)
    using conns ord le' inj' by blast
qed

lemma manager_ok_disconnect:
  assumes "manager_ok m"
  shows "manager_ok (disconnect n i m)"
proof (cases "map_of (connections m) n = Some i")
  case True
  have "set (conn_order (disconnect n i m)) = fst ` set (connections (disconnect n i m))"
    using assms True by (auto simp: manager_ok_def disconnect_def AList.delete_eq)
  moreover have "hash_ok (connections (disconnect n i m))" "hash_ok (pending (disconnect n i m))"
    "distinct (conn_order (disconnect n i m))"
    using assms True by (auto simp: manager_ok_def disconnect_def distinct_fst_delete)
  ultimately show ?thesis
    using assms True by (auto simp: manager_ok_def split: if_splits)
qed (use assms in \<open>simp add: disconnect_def\<close>)

lemma manager_ok_pending:
  "manager_ok m \<Longrightarrow> hash_ok p \<Longrightarrow> manager_ok (m\<lparr>pending := p\<rparr>)"
  by (simp add: manager_ok_def)

lemma manager_ok_forget_pending: "manager_ok m \<Longrightarrow> manager_ok (forget_pending c m)"
  unfolding forget_pending_def by (rule manager_ok_pending) (simp_all add: manager_ok_def distinct_fst_delete)

lemma manager_ok_send_begin:
  assumes "manager_ok m" "send_begin c n m = (r, m')"
  shows "manager_ok m'"
proof -
  have "hash_ok (AList.update c n (pending m))" using assms(1) by (intro hash.ok_put) (simp add: manager_ok_def)
  then have "manager_ok (m\<lparr>pending := AList.update c n (pending m)\<rparr>)" using assms(1) by (intro manager_ok_pending)
  moreover have "m' = m \<or> m' = m\<lparr>pending := AList.update c n (pending m)\<rparr>"
    using assms(2) by (auto simp: send_begin_def split: option.splits)
  ultimately show ?thesis using assms(1) by blast
qed

lemma manager_ok_send_end: "manager_ok m \<Longrightarrow> send_end c n cmd i sent waited m = (r, m') \<Longrightarrow> manager_ok m'"
  by (auto simp: send_end_def manager_ok_forget_pending manager_ok_disconnect
      split: send_outcome.splits wait_outcome.splits)

lemma manager_ok_resolve: "manager_ok m \<Longrightarrow> resolve_command c n m = (r, m') \<Longrightarrow> manager_ok m'"
  by (auto simp: resolve_command_def manager_ok_forget_pending split: if_splits)

lemmas manager_ok_ops =
  manager_ok_connect manager_ok_disconnect manager_ok_forget_pending manager_ok_send_begin
  manager_ok_send_end manager_ok_resolve

text \<open>
  The invariant of the whole: the pending entries are the open mailboxes, each on its node's
  registered connection; every delivered value was answered by the command's own node.
\<close>

definition pend_ok :: "manager \<Rightarrow> (string \<Rightarrow> ws_call option) \<Rightarrow> bool" where
  "pend_ok m cs \<longleftrightarrow>
     (\<forall>c. map_of (pending m) c =
        (case cs c of Some call \<Rightarrow> if call_mail call = Empty then Some (call_node call) else None | None \<Rightarrow> None))"

definition conn_ok :: "manager \<Rightarrow> (string \<Rightarrow> ws_call option) \<Rightarrow> bool" where
  "conn_ok m cs \<longleftrightarrow>
     (\<forall>c call. cs c = Some call \<longrightarrow> call_mail call = Empty \<longrightarrow>
        map_of (connections m) (call_node call) = Some (call_conn call))"

definition mail_ok :: "(string \<times> string \<times> json) list \<Rightarrow> (string \<Rightarrow> ws_call option) \<Rightarrow> bool" where
  "mail_ok dl cs \<longleftrightarrow> (\<forall>c call v. cs c = Some call \<longrightarrow> call_mail call = Got v \<longrightarrow> (c, call_node call, v) \<in> set dl)"

definition ws_inv :: "ws_sys \<Rightarrow> bool" where
  "ws_inv s \<longleftrightarrow> manager_ok (mgr s) \<and> pend_ok (mgr s) (calls s) \<and> conn_ok (mgr s) (calls s) \<and>
     mail_ok (delivered s) (calls s) \<and> (\<forall>c n v. (c, n, Inr v) \<in> set (finished s) \<longrightarrow> (c, n, v) \<in> set (delivered s))"

lemma close_dropped_Some:
  "close_dropped m cs c = Some call' \<longleftrightarrow>
     (\<exists>call. cs c = Some call \<and>
        call' = (if call_mail call = Empty \<and> map_of (pending m) c = None then call\<lparr>call_mail := Closed\<rparr> else call))"
  by (auto simp: close_dropped_def split: option.splits)

lemma close_dropped_keeps:
  "mail_ok dl cs \<Longrightarrow> mail_ok dl (close_dropped m cs)"
  by (auto simp: mail_ok_def close_dropped_Some split: if_splits)

text \<open>Shrinking \<open>pending\<close> keeps the mailboxes in step with it.\<close>

lemma pend_ok_close:
  assumes "pend_ok m cs" "\<And>c. map_of (pending m') c = None \<or> map_of (pending m') c = map_of (pending m) c"
  shows "pend_ok m' (close_dropped m' cs)"
  unfolding pend_ok_def
proof
  fix c
  show "map_of (pending m') c = (case close_dropped m' cs c of
      Some call \<Rightarrow> if call_mail call = Empty then Some (call_node call) else None | None \<Rightarrow> None)"
    using assms(1) [unfolded pend_ok_def, rule_format, of c] assms(2) [of c]
    by (auto simp: close_dropped_def split: option.splits)
qed

text \<open>An open mailbox survives only on a connection that is still registered.\<close>

lemma conn_ok_close:
  assumes "conn_ok m cs" "pend_ok m cs"
    and "\<And>c n. map_of (pending m') c = Some n \<Longrightarrow> map_of (connections m') n = map_of (connections m) n"
    and "\<And>c. map_of (pending m') c = None \<or> map_of (pending m') c = map_of (pending m) c"
  shows "conn_ok m' (close_dropped m' cs)"
  unfolding conn_ok_def
proof (intro allI impI)
  fix c call'
  assume c': "close_dropped m' cs c = Some call'" and e: "call_mail call' = Empty"
  then obtain call where call0: "cs c = Some call"
      "call' = (if call_mail call = Empty \<and> map_of (pending m') c = None then call\<lparr>call_mail := Closed\<rparr> else call)"
    unfolding close_dropped_Some by blast
  then have call: "cs c = Some call" "call' = call" "map_of (pending m') c \<noteq> None"
    using e by (cases "call_mail call = Empty \<and> map_of (pending m') c = None"; force)+
  then have "map_of (pending m') c = Some (call_node call)"
    using assms(2) [unfolded pend_ok_def, rule_format, of c] assms(4) [of c] e by auto
  then show "map_of (connections m') (call_node call') = Some (call_conn call')"
    using assms(1,3) call e unfolding conn_ok_def by (metis (no_types))
qed

lemma ws_inv_set_mgr:
  assumes "ws_inv s" "manager_ok m'"
    and "\<And>c. map_of (pending m') c = None \<or> map_of (pending m') c = map_of (pending (mgr s)) c"
    and "\<And>c n. map_of (pending m') c = Some n \<Longrightarrow> map_of (connections m') n = map_of (connections (mgr s)) n"
  shows "ws_inv (set_mgr m' s)"
  using assms pend_ok_close [of "mgr s" "calls s" m'] conn_ok_close [of "mgr s" "calls s" m'] close_dropped_keeps
  by (auto simp: ws_inv_def set_mgr_def)

lemma pending_connect:
  "manager_ok m \<Longrightarrow> map_of (pending (snd (connect n m))) c =
     (if map_of (connections m) n \<noteq> None \<and> map_of (pending m) c = Some n then None else map_of (pending m) c)"
proof -
  assume "manager_ok m"
  then have "hash_ok (pending m)" by (simp add: manager_ok_def)
  then show ?thesis by (simp add: connect_def Let_def del: map_of_eq_Some_iff)
qed

lemma pending_disconnect:
  "manager_ok m \<Longrightarrow> map_of (pending (disconnect n i m)) c =
     (if map_of (connections m) n = Some i \<and> map_of (pending m) c = Some n then None else map_of (pending m) c)"
proof -
  assume "manager_ok m"
  then have "hash_ok (pending m)" by (simp add: manager_ok_def)
  then show ?thesis by (simp add: disconnect_def del: map_of_eq_Some_iff)
qed

text \<open>A pending entry's node is connected.\<close>

lemma pending_connected:
  assumes "ws_inv s" "map_of (pending (mgr s)) c = Some n"
  shows "map_of (connections (mgr s)) n \<noteq> None"
proof -
  obtain call where "calls s c = Some call" "call_mail call = Empty" "call_node call = n"
    using assms unfolding ws_inv_def pend_ok_def by (auto split: option.splits if_splits)
  then show ?thesis using assms(1) unfolding ws_inv_def conn_ok_def by auto
qed

lemma ws_inv_connect:
  assumes "ws_inv s"
  shows "ws_inv (set_mgr (snd (connect n (mgr s))) s)"
proof (rule ws_inv_set_mgr [OF assms])
  have ok: "manager_ok (mgr s)" using assms by (simp add: ws_inv_def)
  then have hc: "hash_ok (connections (mgr s))" by (simp add: manager_ok_def)
  show "manager_ok (snd (connect n (mgr s)))" using ok by (rule manager_ok_connect)
  fix c
  show "map_of (pending (snd (connect n (mgr s)))) c = None \<or>
      map_of (pending (snd (connect n (mgr s)))) c = map_of (pending (mgr s)) c"
    by (simp add: pending_connect [OF ok] del: map_of_eq_Some_iff)
  fix k
  assume "map_of (pending (snd (connect n (mgr s)))) c = Some k"
  then have "map_of (pending (mgr s)) c = Some k" "k \<noteq> n \<or> map_of (connections (mgr s)) n = None"
    by (auto simp: pending_connect [OF ok] simp del: map_of_eq_Some_iff split: if_splits)
  then have "k \<noteq> n" using pending_connected [OF assms] by blast
  then show "map_of (connections (snd (connect n (mgr s)))) k = map_of (connections (mgr s)) k"
    by (simp add: hc)
qed

lemma ws_inv_disconnect:
  assumes "ws_inv s"
  shows "ws_inv (set_mgr (disconnect n i (mgr s)) s)"
proof (rule ws_inv_set_mgr [OF assms])
  have ok: "manager_ok (mgr s)" using assms by (simp add: ws_inv_def)
  show "manager_ok (disconnect n i (mgr s))" using ok by (rule manager_ok_disconnect)
  fix c
  show "map_of (pending (disconnect n i (mgr s))) c = None \<or>
      map_of (pending (disconnect n i (mgr s))) c = map_of (pending (mgr s)) c"
    by (simp add: pending_disconnect [OF ok] del: map_of_eq_Some_iff)
  fix k
  assume "map_of (pending (disconnect n i (mgr s))) c = Some k"
  then show "map_of (connections (disconnect n i (mgr s))) k = map_of (connections (mgr s)) k"
    by (auto simp: pending_disconnect [OF ok] simp del: map_of_eq_Some_iff split: if_splits)
qed

text \<open>Ending a call: it leaves, and its pending entry with it.\<close>

lemma ws_inv_remove:
  assumes "ws_inv s" "calls s c = Some call" "\<And>v. r = Inr v \<Longrightarrow> call_mail call = Got v"
  shows "ws_inv (s\<lparr>mgr := forget_pending c (mgr s), calls := (calls s)(c := None),
                   finished := (c, call_node call, r) # finished s\<rparr>)"
    and "ws_inv (s\<lparr>mgr := forget_pending c (mgr s), calls := (calls s)(c := None)\<rparr>)"
proof -
  have p: "pend_ok (forget_pending c (mgr s)) ((calls s)(c := None))"
    using assms(1) by (simp add: ws_inv_def pend_ok_def)
  have k: "conn_ok (forget_pending c (mgr s)) ((calls s)(c := None))" "mail_ok (delivered s) ((calls s)(c := None))"
    using assms(1) by (simp_all add: ws_inv_def conn_ok_def mail_ok_def)
  have d: "(c, call_node call, v) \<in> set (delivered s)" if "r = Inr v" for v
    using assms(1,2) assms(3) [OF that] by (simp add: ws_inv_def mail_ok_def)
  have m: "manager_ok (forget_pending c (mgr s))" using assms(1) by (intro manager_ok_forget_pending) (simp add: ws_inv_def)
  show "ws_inv (s\<lparr>mgr := forget_pending c (mgr s), calls := (calls s)(c := None),
                   finished := (c, call_node call, r) # finished s\<rparr>)"
    "ws_inv (s\<lparr>mgr := forget_pending c (mgr s), calls := (calls s)(c := None)\<rparr>)"
    using p k d m assms(1) by (auto simp: ws_inv_def)
qed

lemma disconnect_forget_pending:
  "forget_pending c (disconnect n i m) = disconnect n i (forget_pending c m)"
  by (simp add: disconnect_def forget_pending_def cancel_pending_def AList.delete_eq conj_commute)

lemma send_end_cases:
  assumes "send_end c n cmd i sent waited m = (r, m')"
  shows "(m' = disconnect n i (forget_pending c m) \<or> m' = forget_pending c m) \<and>
    (\<forall>v. r = Inr v \<longrightarrow> sent = Sent \<and> waited = Received v)"
  using assms by (auto simp: send_end_def disconnect_forget_pending split: send_outcome.splits wait_outcome.splits)

lemma ws_inv_finish:
  assumes "ws_inv s" "calls s c = Some call" "wait_fits waited (call_mail call)"
    and "send_end c (call_node call) command (call_conn call) sent waited (mgr s) = (r, m)"
  shows "ws_inv (set_mgr m (s\<lparr>calls := (calls s)(c := None), finished := (c, call_node call, r) # finished s\<rparr>))"
proof -
  let ?s1 = "s\<lparr>mgr := forget_pending c (mgr s), calls := (calls s)(c := None),
               finished := (c, call_node call, r) # finished s\<rparr>"
  have r: "call_mail call = Got v" if "r = Inr v" for v
    using send_end_cases [OF assms(4)] assms(3) that by auto
  have s1: "ws_inv ?s1" using ws_inv_remove(1) [OF assms(1,2) r] .
  have eq: "set_mgr m (s\<lparr>calls := (calls s)(c := None), finished := (c, call_node call, r) # finished s\<rparr>) = set_mgr m ?s1"
    by (simp add: set_mgr_def)
  from send_end_cases [OF assms(4)]
  have "m = disconnect (call_node call) (call_conn call) (mgr ?s1) \<or> m = mgr ?s1" by simp
  then show ?thesis
  proof
    assume "m = disconnect (call_node call) (call_conn call) (mgr ?s1)"
    then show ?thesis using ws_inv_disconnect [OF s1] eq by simp
  next
    assume m: "m = mgr ?s1"
    have "ws_inv (set_mgr (mgr ?s1) ?s1)"
      by (rule ws_inv_set_mgr [OF s1]) (use s1 in \<open>simp_all add: ws_inv_def\<close>)
    then show ?thesis using eq m by simp
  qed
qed

lemma ws_inv_begin:
  assumes "ws_inv s" "calls s c = None" "send_begin c n (mgr s) = (Inr i, m)"
  shows "ws_inv (s\<lparr>mgr := m, calls := (calls s)(c \<mapsto> \<lparr>call_node = n, call_conn = i, call_mail = Empty\<rparr>)\<rparr>)"
proof -
  have ok: "manager_ok (mgr s)" and hp: "hash_ok (pending (mgr s))" using assms(1) by (simp_all add: ws_inv_def manager_ok_def)
  have i: "map_of (connections (mgr s)) n = Some i" and m: "m = (mgr s)\<lparr>pending := AList.update c n (pending (mgr s))\<rparr>"
    using assms(3) by (auto simp: send_begin_def simp del: map_of_eq_Some_iff split: option.splits)
  have "manager_ok m" using ok assms(3) by (rule manager_ok_send_begin)
  moreover have "pend_ok m ((calls s)(c \<mapsto> \<lparr>call_node = n, call_conn = i, call_mail = Empty\<rparr>))"
    using assms(1) hash.map_of_put [OF hp] by (simp add: m ws_inv_def pend_ok_def)
  moreover have "conn_ok m ((calls s)(c \<mapsto> \<lparr>call_node = n, call_conn = i, call_mail = Empty\<rparr>))"
    using assms(1) i by (simp add: m ws_inv_def conn_ok_def del: map_of_eq_Some_iff)
  moreover have "mail_ok (delivered s) ((calls s)(c \<mapsto> \<lparr>call_node = n, call_conn = i, call_mail = Empty\<rparr>))"
    using assms(1) by (simp add: ws_inv_def mail_ok_def)
  ultimately show ?thesis using assms(1) by (simp add: ws_inv_def)
qed

lemma ws_inv_resolve:
  assumes "ws_inv s" "calls s c = Some call" "resolve_command c n (mgr s) = (True, m)"
  shows "ws_inv (s\<lparr>mgr := m, calls := (calls s)(c \<mapsto> call\<lparr>call_mail := Got v\<rparr>), delivered := (c, n, v) # delivered s\<rparr>)"
proof -
  have m: "m = forget_pending c (mgr s)" and pend: "map_of (pending (mgr s)) c = Some n"
    using assms(3) by (auto simp: resolve_command_def simp del: map_of_eq_Some_iff split: if_splits)
  have n: "call_node call = n"
    using assms(1,2) pend unfolding ws_inv_def pend_ok_def
    by (auto simp del: map_of_eq_Some_iff split: if_splits dest!: spec [where x = c])
  have "manager_ok m" using manager_ok_resolve [OF _ assms(3)] assms(1) by (simp add: ws_inv_def)
  moreover have "pend_ok m ((calls s)(c \<mapsto> call\<lparr>call_mail := Got v\<rparr>))"
    using assms(1) by (simp add: m ws_inv_def pend_ok_def)
  moreover have "conn_ok m ((calls s)(c \<mapsto> call\<lparr>call_mail := Got v\<rparr>))"
    using assms(1) by (simp add: m ws_inv_def conn_ok_def del: map_of_eq_Some_iff)
  moreover have "mail_ok ((c, n, v) # delivered s) ((calls s)(c \<mapsto> call\<lparr>call_mail := Got v\<rparr>))"
    using assms(1) n by (auto simp: ws_inv_def mail_ok_def)
  ultimately show ?thesis using assms(1) by (auto simp: ws_inv_def)
qed

lemma ws_inv_step: "ws_step s s' \<Longrightarrow> ws_inv s \<Longrightarrow> ws_inv s'"
proof (induction rule: ws_step.induct)
  case (begin_refused c n s e m)
  then have "m = mgr s" by (auto simp: send_begin_def split: option.splits)
  then show ?case using begin_refused by (simp add: ws_inv_def)
next
  case (resolve_stray c n s m)
  then have "m = mgr s" by (auto simp: resolve_command_def split: if_splits)
  then show ?case using resolve_stray by (simp add: ws_inv_def)
next
  case (abandon s c call)
  then show ?case using ws_inv_remove(2) by blast
qed (auto intro: ws_inv_connect ws_inv_disconnect ws_inv_begin ws_inv_resolve ws_inv_finish)

lemma ws_inv_reach: "ws_reach s \<Longrightarrow> ws_inv s"
proof (induction rule: ws_reach.induct)
  case init
  then show ?case
    by (simp add: ws_init_def ws_inv_def manager_ok_def manager_default_def pend_ok_def conn_ok_def mail_ok_def)
qed (auto intro: ws_inv_step)

section \<open>Properties of the registry\<close>

text \<open>
  C18. In every state that any interleaving of connects, disconnects, commands and answers can
  reach: the reported nodes are the connected ones, each once; a command that is still
  waiting waits on the connection its node has now, so a reconnect or a disconnect leaves no
  caller waiting on a socket that cannot answer; the pending entries are exactly the waiting
  commands; and every value a command returned was sent by the node it was addressed to.
\<close>

theorem ws_reach_sound:
  assumes "ws_reach s"
  shows "distinct (connected_nodes (mgr s)) \<and>
    (\<forall>n. n \<in> set (connected_nodes (mgr s)) \<longleftrightarrow> is_connected (mgr s) n) \<and>
    (\<forall>c call. calls s c = Some call \<and> call_mail call = Empty \<longrightarrow>
       map_of (connections (mgr s)) (call_node call) = Some (call_conn call)) \<and>
    (\<forall>c n. map_of (pending (mgr s)) c = Some n \<longleftrightarrow>
       (\<exists>call. calls s c = Some call \<and> call_mail call = Empty \<and> call_node call = n)) \<and>
    (\<forall>c n v. (c, n, Inr v) \<in> set (finished s) \<longrightarrow> (c, n, v) \<in> set (delivered s))"
proof -
  have inv: "ws_inv s" using assms by (rule ws_inv_reach)
  then have ok: "manager_ok (mgr s)" by (simp add: ws_inv_def)
  have "n \<in> set (connected_nodes (mgr s)) \<longleftrightarrow> is_connected (mgr s) n" for n
    using ok keys_map_of [of n "connections (mgr s)"] by (simp only: manager_ok_def connected_nodes_def is_connected_def)
  moreover have "distinct (connected_nodes (mgr s))" using ok by (simp add: manager_ok_def connected_nodes_def)
  moreover have "map_of (pending (mgr s)) c = Some n \<longleftrightarrow>
       (\<exists>call. calls s c = Some call \<and> call_mail call = Empty \<and> call_node call = n)" for c n
    using inv [unfolded ws_inv_def pend_ok_def]
    by (auto simp del: map_of_eq_Some_iff split: option.splits if_splits)
  ultimately show ?thesis using inv unfolding ws_inv_def conn_ok_def by blast
qed

definition ws_demo :: ws_sys where
  "ws_demo = set_mgr (snd (connect ''n'' manager_default)) ws_init"

theorem ws_reach_sound_witness: "set (connected_nodes (mgr ws_demo)) = {''n''}"
proof -
  have "ws_reach ws_demo"
    unfolding ws_demo_def by (rule ws_reach.step [OF ws_reach.init]) (use ws_step.connect [of ws_init "''n''"] in \<open>simp add: ws_init_def\<close>)
  from ws_reach_sound [OF this] have "n \<in> set (connected_nodes (mgr ws_demo)) \<longleftrightarrow> is_connected (mgr ws_demo) n" for n
    by blast
  moreover have "is_connected (mgr ws_demo) n \<longleftrightarrow> n = ''n''" for n
    by (simp add: ws_demo_def set_mgr_def connect_def manager_default_def is_connected_def)
  ultimately show ?thesis by blast
qed

text \<open>Every operation that takes the registry's lock.\<close>

datatype mgr_op =
    Connect string
  | Disconnect string nat
  | Begin string string
  | End string string string nat send_outcome wait_outcome
  | Resolve string string

fun apply_op :: "mgr_op \<Rightarrow> manager \<Rightarrow> manager" where
  "apply_op (Connect n) m = snd (connect n m)"
| "apply_op (Disconnect n i) m = disconnect n i m"
| "apply_op (Begin c n) m = snd (send_begin c n m)"
| "apply_op (End c n cmd i sent waited) m = snd (send_end c n cmd i sent waited m)"
| "apply_op (Resolve c n) m = snd (resolve_command c n m)"

text \<open>The operations that may end the connection \<open>i\<close> of \<open>n\<close>: a newer socket, its own, or a failed send on it.\<close>

fun ends :: "string \<Rightarrow> nat \<Rightarrow> mgr_op \<Rightarrow> bool" where
  "ends n i (Connect k) \<longleftrightarrow> k = n"
| "ends n i (Disconnect k j) \<longleftrightarrow> k = n \<and> j = i"
| "ends n i (End c k cmd j sent waited) \<longleftrightarrow> k = n \<and> j = i \<and> sent = ChannelClosed"
| "ends n i _ \<longleftrightarrow> False"

lemma connections_send [simp]:
  "connections (snd (send_begin c n m)) = connections m"
  "connections (snd (resolve_command c n m)) = connections m"
  by (simp_all add: send_begin_def resolve_command_def split: option.splits)

lemma connections_send_end:
  "connections (snd (send_end c n cmd i sent waited m)) =
     (if sent = ChannelClosed then connections (disconnect n i m) else connections m)"
  by (cases sent; cases waited) (simp_all add: send_end_def)

lemma hash_ok_apply: "hash_ok (connections m) \<Longrightarrow> hash_ok (connections (apply_op op m))"
  by (cases op)
    (simp_all add: connect_def Let_def hash.ok_put connections_send_end disconnect_def distinct_fst_delete)

lemma apply_keeps:
  assumes "hash_ok (connections m)" "map_of (connections m) n = Some i" "\<not> ends n i op"
  shows "map_of (connections (apply_op op m)) n = Some i"
  using assms by (cases op) (auto simp: connections_send_end simp del: map_of_eq_Some_iff)

text \<open>
  C32. The identity guard: once a node has connected, its connection stays registered through
  any sequence of operations that does not contain a newer connect of that node, the
  disconnect of this very socket, or a failed send on it. A disconnect or a failed send of a
  socket that was replaced evicts nothing.
\<close>

theorem live_connection_survives:
  assumes "hash_ok (connections m)" "connect n m = (i, m')" "\<forall>op \<in> set ops. \<not> ends n i op"
  shows "map_of (connections (fold apply_op ops m')) n = Some i"
proof -
  have m': "m' = snd (connect n m)" and i: "i = next_id m + 1"
    using assms(2) by (auto simp: connect_def Let_def split: if_splits)
  have "hash_ok (connections m')" "map_of (connections m') n = Some i"
    using hash_ok_apply [OF assms(1), of "Connect n"] assms(1) by (simp_all add: m' i)
  with assms(3) show ?thesis
  proof (induction ops arbitrary: m')
    case (Cons op ops)
    then show ?case using hash_ok_apply apply_keeps by simp
  qed simp
qed

theorem live_connection_survives_witness:
  "map_of (connections (fold apply_op [Disconnect ''n'' 1, Begin ''c'' ''n'', End ''d'' ''n'' ''ping'' 1 ChannelClosed WaitTimedOut]
     (snd (connect ''n'' (snd (connect ''n'' manager_default)))))) ''n'' = Some 2"
proof -
  let ?m = "snd (connect ''n'' manager_default)"
  have "hash_ok (connections ?m)" "connect ''n'' ?m = (2, snd (connect ''n'' ?m))"
    by (simp_all add: connect_def manager_default_def Let_def)
  from live_connection_survives [OF this, of "[Disconnect ''n'' 1, Begin ''c'' ''n'', End ''d'' ''n'' ''ping'' 1 ChannelClosed WaitTimedOut]"]
  show ?thesis by simp
qed

end
