(* ===== verification/Mcp_Scope.thy ===== *)
theory Mcp_Scope
  imports Windows Complex_Main
begin

text \<open>
  \<^verbatim>\<open>backend-rs/src/mcp/scope.rs\<close>: which MCP tools a key or the autonomous agent may call, and
  the per-key limiter with its sixty-second and twenty-four-hour windows. A timestamp is a
  double holding seconds since the epoch; it is a rational here, and the only arithmetic on
  it, subtracting whole seconds, is exact for doubles between 2004 and 2038. The tool
  descriptions and the activity-log rendering are not modelled.
\<close>

section \<open>Tools\<close>

definition MCP_READ_TOOLS :: "string list" where
  "MCP_READ_TOOLS =
     [''list_cameras'', ''get_camera'', ''get_stream_url'', ''view_camera'', ''watch_camera'',
      ''list_camera_groups'', ''list_nodes'', ''get_node'', ''get_camera_recording_policy'',
      ''get_stream_logs'', ''get_stream_stats'', ''get_system_status'', ''list_incidents'',
      ''get_incident'', ''get_incident_snapshot'', ''get_incident_clip'']"

definition MCP_WRITE_TOOLS :: "string list" where
  "MCP_WRITE_TOOLS =
     [''create_incident'', ''add_observation'', ''attach_snapshot'', ''attach_clip'',
      ''update_incident'', ''finalize_incident'', ''set_camera_recording_policy'']"

definition AGENT_WRITE_TOOLS :: "string list" where
  "AGENT_WRITE_TOOLS =
     [''create_incident'', ''add_observation'', ''attach_snapshot'', ''attach_clip'',
      ''update_incident'', ''finalize_incident'']"

definition all_tools :: "string set" where
  "all_tools = set (MCP_READ_TOOLS @ MCP_WRITE_TOOLS)"

definition read_tools :: "string set" where
  "read_tools = set MCP_READ_TOOLS"

definition compute_agent_allowed_tools :: "string set \<Rightarrow> string set \<Rightarrow> string set \<Rightarrow> string set" where
  "compute_agent_allowed_tools all reads agent_writes = {tool \<in> reads \<union> agent_writes. tool \<in> all}"

definition agent_allowed_tools :: "string set" where
  "agent_allowed_tools = compute_agent_allowed_tools all_tools read_tools (set AGENT_WRITE_TOOLS)"

definition compute_allowed_tools :: "string option \<Rightarrow> string list option \<Rightarrow> string set" where
  "compute_allowed_tools scope_mode scope_tools =
     (let mode = to_lowercase (case scope_mode of Some m \<Rightarrow> m | None \<Rightarrow> ''all'')
      in if mode = ''readonly'' then read_tools
         else if mode = ''custom'' then
           (case scope_tools of
              None \<Rightarrow> {}
            | Some tools \<Rightarrow> if tools = [] then {} else set (filter (\<lambda>name. name \<in> all_tools) tools))
         else all_tools)"

definition rate_limits :: "string \<Rightarrow> (nat \<times> nat) option" where
  "rate_limits plan =
     (if plan = ''pro'' then Some (30, 5000)
      else if plan = ''pro_plus'' \<or> plan = ''self_host'' then Some (120, 30000)
      else None)"

section \<open>The per-key limiter\<close>

type_synonym seconds = rat

definition PRUNE_INTERVAL :: seconds where "PRUNE_INTERVAL = 3600"

datatype breach = NoBreach | Minute | Daily

record mcp_windows =
  minute_win :: "(string \<times> seconds list) list"
  daily_win :: "(string \<times> seconds list) list"
  last_prune :: seconds

definition starting_at :: "seconds \<Rightarrow> mcp_windows" where
  "starting_at now = \<lparr>minute_win = [], daily_win = [], last_prune = now\<rparr>"

definition or_default :: "string \<Rightarrow> (string \<times> seconds list) list \<Rightarrow> seconds list" where
  "or_default k m = (case map_of m k of Some q \<Rightarrow> q | None \<Rightarrow> [])"

definition minute_aged :: "seconds \<Rightarrow> seconds \<Rightarrow> bool" where
  "minute_aged now t \<longleftrightarrow> t < now - 60"

definition daily_aged :: "seconds \<Rightarrow> seconds \<Rightarrow> bool" where
  "daily_aged now t \<longleftrightarrow> t < now - 86400"

definition prune :: "mcp_windows \<Rightarrow> seconds \<Rightarrow> mcp_windows" where
  "prune windows now =
     (let daily = map (\<lambda>(k, q). (k, dropWhile (daily_aged now) q)) (daily_win windows);
          dead = map fst (filter (\<lambda>(k, q). q = []) daily)
      in windows\<lparr>daily_win := filter (\<lambda>(k, q). k \<notin> set dead) daily,
                 minute_win := filter (\<lambda>(k, q). k \<notin> set dead) (minute_win windows)\<rparr>)"

type_synonym mcp_request = "string \<times> nat \<times> nat"

definition check_at :: "seconds \<Rightarrow> mcp_request \<Rightarrow> mcp_windows \<Rightarrow> (bool \<times> nat \<times> breach) \<times> mcp_windows" where
  "check_at now = (\<lambda>(key_hash, minute_limit, daily_limit) windows0.
     (let windows = (if now - last_prune windows0 \<ge> PRUNE_INTERVAL
                     then (prune windows0 now)\<lparr>last_prune := now\<rparr> else windows0);
          minute = dropWhile (minute_aged now) (or_default key_hash (minute_win windows));
          daily = dropWhile (daily_aged now) (or_default key_hash (daily_win windows));
          slid = windows\<lparr>minute_win := AList.update key_hash minute (minute_win windows),
                         daily_win := AList.update key_hash daily (daily_win windows)\<rparr>
      in if length minute \<ge> minute_limit then ((False, 0, Minute), slid)
         else if length daily \<ge> daily_limit then ((False, 0, Daily), slid)
         else ((True, minute_limit - (length minute + 1), NoBreach),
               windows\<lparr>minute_win := AList.update key_hash (minute @ [now]) (minute_win windows),
                       daily_win := AList.update key_hash (daily @ [now]) (daily_win windows)\<rparr>)))"

definition clear :: "mcp_windows \<Rightarrow> mcp_windows" where
  "clear windows = windows\<lparr>minute_win := [], daily_win := []\<rparr>"

section \<open>The limiter against one key's history\<close>

interpretation minute_window: sliding_window minute_aged
  by unfold_locales (auto simp: minute_aged_def)

interpretation daily_window: sliding_window daily_aged
  by unfold_locales (auto simp: daily_aged_def)

text \<open>The reference: every call of the key that was let through, and how many are in each window.\<close>

definition mcp_step :: "seconds \<Rightarrow> mcp_request \<Rightarrow> seconds list \<Rightarrow> (bool \<times> nat \<times> breach) \<times> seconds list" where
  "mcp_step now = (\<lambda>(key_hash, minute_limit, daily_limit) h.
     (let in_minute = length (filter (\<lambda>t. now - 60 \<le> t) h);
          in_day = length (filter (\<lambda>t. now - 86400 \<le> t) h)
      in if in_minute \<ge> minute_limit then ((False, 0, Minute), h)
         else if in_day \<ge> daily_limit then ((False, 0, Daily), h)
         else ((True, minute_limit - (in_minute + 1), NoBreach), h @ [now])))"

definition mcp_sim :: "string \<Rightarrow> seconds \<Rightarrow> mcp_windows \<Rightarrow> seconds list \<Rightarrow> bool" where
  "mcp_sim k now windows h \<longleftrightarrow>
     queue_sim minute_aged now (or_default k (minute_win windows)) h \<and>
     queue_sim daily_aged now (or_default k (daily_win windows)) h"

definition mcp_wf :: "mcp_windows \<Rightarrow> bool" where
  "mcp_wf windows \<longleftrightarrow> hash_ok (minute_win windows) \<and> hash_ok (daily_win windows)"

lemma or_default_update: "or_default k (AList.update j q m) = (if k = j then q else or_default k m)"
  by (simp add: or_default_def AList.update_conv')

lemma or_default_filter:
  "hash_ok m \<Longrightarrow> or_default k (filter (\<lambda>(j, q). P j) m) = (if P k then or_default k m else [])"
  by (auto simp: or_default_def map_of_filter_keys [where P = "\<lambda>j _. P j"] split: option.splits)

lemma or_default_map: "or_default k (map (\<lambda>(j, q). (j, dropWhile P q)) m) = dropWhile P (or_default k m)"
  by (induction m) (auto simp: or_default_def)

lemma fst_map_drop: "map fst (map (\<lambda>(j, q). (j, dropWhile P q)) m) = map fst m"
  by (induction m) auto

lemma hash_ok_drop: "hash_ok m \<Longrightarrow> hash_ok (map (\<lambda>(j, q). (j, dropWhile P q)) m)"
  by (simp only: fst_map_drop)

lemma dead_iff:
  assumes "hash_ok m"
  shows "k \<in> set (map fst (filter (\<lambda>(j, q). q = []) m)) \<longleftrightarrow> map_of m k = Some []"
  using assms by (force simp: image_iff)

text \<open>The prune keeps every key's standing: it drops only keys with nothing in the last day.\<close>

lemma prune_sim:
  assumes "mcp_wf windows" "mcp_sim k now windows h"
  shows "mcp_sim k now (prune windows now) h"
proof -
  define daily where "daily = map (\<lambda>(j, q). (j, dropWhile (daily_aged now) q)) (daily_win windows)"
  define dead where "dead = map fst (filter (\<lambda>(j, q). q = []) daily)"
  have ok: "hash_ok daily" "hash_ok (minute_win windows)"
    using assms(1) hash_ok_drop unfolding daily_def mcp_wf_def by blast+
  have p: "prune windows now = windows\<lparr>daily_win := filter (\<lambda>(j, q). j \<notin> set dead) daily,
      minute_win := filter (\<lambda>(j, q). j \<notin> set dead) (minute_win windows)\<rparr>"
    by (simp add: prune_def Let_def dead_def daily_def)
  have d: "or_default k daily = dropWhile (daily_aged now) (or_default k (daily_win windows))"
    unfolding daily_def by (rule or_default_map)
  have slid: "queue_sim daily_aged now (or_default k daily) h" "or_default k daily = filter (\<lambda>t. \<not> daily_aged now t) h"
    using assms(2) daily_window.queue_sim_slide unfolding d mcp_sim_def by blast+
  show ?thesis
  proof (cases "k \<in> set dead")
    case True
    then have "or_default k daily = []"
      using dead_iff [OF ok(1), of k] by (simp add: dead_def or_default_def)
    then have none: "filter (\<lambda>t. \<not> daily_aged now t) h = []" "queue_sim daily_aged now [] h" using slid by simp_all
    have "\<forall>t \<in> set h. minute_aged now t"
      using none(1) by (auto simp: filter_empty_conv daily_aged_def minute_aged_def)
    then have "queue_sim minute_aged now [] h" by (simp add: queue_sim_def)
    with none True ok show ?thesis by (simp add: p mcp_sim_def or_default_filter)
  next
    case False
    then show ?thesis using assms(2) slid(1) ok by (simp add: p mcp_sim_def or_default_filter)
  qed
qed

lemma prune_wf: "mcp_wf windows \<Longrightarrow> mcp_wf (prune windows now)"
  using hash_ok_drop [of "daily_win windows" "daily_aged now"]
  by (simp add: mcp_wf_def prune_def Let_def distinct_fst_filter)

definition pruned :: "seconds \<Rightarrow> mcp_windows \<Rightarrow> mcp_windows" where
  "pruned now windows =
     (if now - last_prune windows \<ge> PRUNE_INTERVAL then (prune windows now)\<lparr>last_prune := now\<rparr> else windows)"

lemma pruned_wf: "mcp_wf windows \<Longrightarrow> mcp_wf (pruned now windows)"
  using prune_wf [of windows now] by (simp add: pruned_def mcp_wf_def)

lemma pruned_sim: "mcp_wf windows \<Longrightarrow> mcp_sim k now windows h \<Longrightarrow> mcp_sim k now (pruned now windows) h"
  using prune_sim [of windows k now h] by (simp add: pruned_def mcp_sim_def)

text \<open>One check, with the three stores it may make written once.\<close>

definition put_windows :: "string \<Rightarrow> seconds list \<Rightarrow> seconds list \<Rightarrow> mcp_windows \<Rightarrow> mcp_windows" where
  "put_windows k mq dq windows =
     windows\<lparr>minute_win := AList.update k mq (minute_win windows), daily_win := AList.update k dq (daily_win windows)\<rparr>"

lemma put_windows_sim:
  "mcp_sim k now (put_windows j mq dq windows) h \<longleftrightarrow>
     (if k = j then queue_sim minute_aged now mq h \<and> queue_sim daily_aged now dq h else mcp_sim k now windows h)"
  by (simp add: mcp_sim_def put_windows_def or_default_update)

lemma put_windows_wf: "mcp_wf windows \<Longrightarrow> mcp_wf (put_windows k mq dq windows)"
  using hash.ok_put [of "minute_win windows" k mq] hash.ok_put [of "daily_win windows" k dq]
  by (simp add: mcp_wf_def put_windows_def)

lemma check_at_eq:
  "check_at now (k, ml, dl) windows =
     (let ws = pruned now windows;
          mq = dropWhile (minute_aged now) (or_default k (minute_win ws));
          dq = dropWhile (daily_aged now) (or_default k (daily_win ws))
      in if length mq \<ge> ml then ((False, 0, Minute), put_windows k mq dq ws)
         else if length dq \<ge> dl then ((False, 0, Daily), put_windows k mq dq ws)
         else ((True, ml - (length mq + 1), NoBreach), put_windows k (mq @ [now]) (dq @ [now]) ws))"
  by (simp add: check_at_def pruned_def put_windows_def Let_def)

lemma mcp_step_eq:
  "mcp_step now (k, ml, dl) h =
     (let mq = filter (\<lambda>t. \<not> minute_aged now t) h; dq = filter (\<lambda>t. \<not> daily_aged now t) h
      in if length mq \<ge> ml then ((False, 0, Minute), h)
         else if length dq \<ge> dl then ((False, 0, Daily), h)
         else ((True, ml - (length mq + 1), NoBreach), h @ [now]))"
  by (simp add: mcp_step_def Let_def minute_aged_def daily_aged_def not_less)

lemma mcp_step_history: "snd (mcp_step now q h) = (if fst (fst (mcp_step now q h)) then h @ [now] else h)"
  by (cases q) (simp add: mcp_step_eq Let_def)

interpretation mcp_limiter: swept_table check_at mcp_step fst "\<lambda>_. True" mcp_sim mcp_wf
proof unfold_locales
  fix windows :: mcp_windows and now :: seconds and q :: mcp_request
  obtain k ml dl where q: "q = (k, ml, dl)" by (cases q)
  assume wf: "mcp_wf windows"
  show "mcp_wf (snd (check_at now q windows))"
    using put_windows_wf [OF pruned_wf [OF wf]] by (simp add: q check_at_eq Let_def)
  fix h
  {
    assume "mcp_sim (fst q) now windows h"
    then have sim: "mcp_sim k now (pruned now windows) h" using pruned_sim [OF wf] q by simp
    let ?mq = "dropWhile (minute_aged now) (or_default k (minute_win (pruned now windows)))"
    let ?dq = "dropWhile (daily_aged now) (or_default k (daily_win (pruned now windows)))"
    have m: "queue_sim minute_aged now ?mq h" "?mq = filter (\<lambda>t. \<not> minute_aged now t) h"
      and d: "queue_sim daily_aged now ?dq h" "?dq = filter (\<lambda>t. \<not> daily_aged now t) h"
      using sim minute_window.queue_sim_slide daily_window.queue_sim_slide unfolding mcp_sim_def by blast+
    show "fst (check_at now q windows) = fst (mcp_step now q h)"
      using m(2) d(2) by (simp add: q check_at_eq mcp_step_eq Let_def)
    show "mcp_sim (fst q) now (snd (check_at now q windows)) (snd (mcp_step now q h))"
      using m d queue_sim_push [OF m(1)] queue_sim_push [OF d(1)]
      by (simp add: q check_at_eq mcp_step_eq Let_def put_windows_sim)
  }
  fix j
  assume "j \<noteq> fst q" "mcp_sim j now windows h"
  then show "mcp_sim j now (snd (check_at now q windows)) h"
    using pruned_sim [OF wf] by (simp add: q check_at_eq Let_def put_windows_sim)
next
  fix k now windows h later
  assume "mcp_sim k now windows h" "now \<le> later"
  then show "mcp_sim k later windows h"
    unfolding mcp_sim_def using minute_window.queue_sim_later daily_window.queue_sim_later by blast
qed

section \<open>Properties\<close>

lemma mcp_answers:
  assumes "sorted (map fst es)"
  shows "answers (\<lambda>q. fst q = k) es (fst (run check_at es (starting_at t0))) =
    fst (run mcp_step (filter (\<lambda>e. fst (snd e) = k) es) [])"
proof (cases es)
  case (Cons e es')
  have "mcp_sim k now (starting_at t0) []" for now
    by (simp add: mcp_sim_def starting_at_def or_default_def queue_sim_Nil)
  then show ?thesis
    by (intro mcp_limiter.run_sim [where now = "fst e"])
      (use assms Cons in \<open>auto simp: starting_at_def mcp_wf_def\<close>)
qed simp

text \<open>The history of the calls that passed keeps within both caps.\<close>

lemma mcp_history_bounded:
  assumes "\<forall>(now, k, ml, dl) \<in> set es. ml \<le> M \<and> dl \<le> D"
    and "\<And>T. length (filter (\<lambda>t. t \<le> T \<and> \<not> minute_aged T t) h) \<le> M"
    and "\<And>T. length (filter (\<lambda>t. t \<le> T \<and> \<not> daily_aged T t) h) \<le> D"
  shows "length (filter (\<lambda>t. t \<le> T \<and> \<not> minute_aged T t) (snd (run mcp_step es h))) \<le> M \<and>
    length (filter (\<lambda>t. t \<le> T \<and> \<not> daily_aged T t) (snd (run mcp_step es h))) \<le> D"
  using assms
proof (induction es arbitrary: h)
  case Nil
  then show ?case by simp
next
  case (Cons e es)
  obtain now k ml dl where e: "e = (now, k, ml, dl)" by (cases e) auto
  have lim: "ml \<le> M" "dl \<le> D" using Cons.prems(1) e by auto
  let ?h' = "snd (mcp_step now (k, ml, dl) h)"
  have m: "length (filter (\<lambda>t. t \<le> T \<and> \<not> minute_aged T t) ?h') \<le> M" for T
    using Cons.prems(2) [of T] minute_window.within_cap_snoc [OF Cons.prems(2), of now T] lim
    by (simp add: mcp_step_eq Let_def)
  have d: "length (filter (\<lambda>t. t \<le> T \<and> \<not> daily_aged T t) ?h') \<le> D" for T
    using Cons.prems(3) [of T] daily_window.within_cap_snoc [OF Cons.prems(3), of now T] lim
    by (simp add: mcp_step_eq Let_def)
  show ?case using Cons.IH [OF _ m d] Cons.prems(1) e by simp
qed

text \<open>
  The MCP limiter is exact on both windows: whatever other keys do and whenever the prune
  runs, a key's calls get the answers (allowed, calls left in the minute, which window
  refused) of a machine that keeps the key's whole history; and when no call of the key was
  checked against more than \<open>M\<close> a minute and \<open>D\<close> a day, no sixty seconds hold more than \<open>M\<close>
  allowed calls and no twenty-four hours more than \<open>D\<close>.
\<close>

theorem mcp_limiter_exact:
  fixes es :: "(seconds \<times> mcp_request) list" and k :: string and t0 :: seconds
  defines "rs \<equiv> fst (run check_at es (starting_at t0))"
  assumes "sorted (map fst es)"
  shows "answers (\<lambda>q. fst q = k) es rs = fst (run mcp_step (filter (\<lambda>e. fst (snd e) = k) es) []) \<and>
    ((\<forall>(now, j, ml, dl) \<in> set es. j = k \<longrightarrow> ml \<le> M \<and> dl \<le> D) \<longrightarrow>
      length (filter (\<lambda>((now, q), r). fst q = k \<and> fst r \<and> T - 60 \<le> now \<and> now \<le> T) (zip es rs)) \<le> M \<and>
      length (filter (\<lambda>((now, q), r). fst q = k \<and> fst r \<and> T - 86400 \<le> now \<and> now \<le> T) (zip es rs)) \<le> D)"
proof -
  let ?mine = "filter (\<lambda>e. fst (snd e) = k) es"
  let ?h = "snd (run mcp_step ?mine [])"
  have ans: "answers (\<lambda>q. fst q = k) es rs = fst (run mcp_step ?mine [])"
    unfolding rs_def using assms(2) by (rule mcp_answers)
  have count: "length (filter (\<lambda>((now, q), r). fst q = k \<and> fst r \<and> P now) (zip es rs)) = length (filter P ?h)" for P
    by (rule history_count) (simp_all add: rs_def ans [unfolded rs_def] mcp_step_history)
  have "length (filter (\<lambda>((now, q), r). fst q = k \<and> fst r \<and> T - 60 \<le> now \<and> now \<le> T) (zip es rs)) \<le> M \<and>
      length (filter (\<lambda>((now, q), r). fst q = k \<and> fst r \<and> T - 86400 \<le> now \<and> now \<le> T) (zip es rs)) \<le> D"
    if "\<forall>(now, j, ml, dl) \<in> set es. j = k \<longrightarrow> ml \<le> M \<and> dl \<le> D"
  proof -
    have "\<forall>(now, j, ml, dl) \<in> set ?mine. ml \<le> M \<and> dl \<le> D" using that by auto
    from mcp_history_bounded [OF this, of "[]" T] show ?thesis
      unfolding count by (simp add: minute_aged_def daily_aged_def not_less conj_commute)
  qed
  with ans show ?thesis by blast
qed

theorem mcp_limiter_exact_witness:
  "answers (\<lambda>q. fst q = ''k'')
     [(1000, ''k'', 1, 5), (1001, ''j'', 1, 5), (1060, ''k'', 1, 5), (1061, ''k'', 1, 5)]
     (fst (run check_at [(1000, ''k'', 1, 5), (1001, ''j'', 1, 5), (1060, ''k'', 1, 5), (1061, ''k'', 1, 5)] (starting_at 0))) =
   [(True, 0, NoBreach), (False, 0, Minute), (True, 0, NoBreach)]"
proof -
  let ?es = "[(1000 :: rat, ''k'', 1, 5), (1001, ''j'', 1, 5), (1060, ''k'', 1, 5), (1061, ''k'', 1, 5)]"
  have "sorted (map fst ?es)" by simp
  from mcp_limiter_exact [OF this, of "''k''" 0] show ?thesis
    by (simp add: mcp_step_def Let_def)
qed

lemma catalog_simps:
  "set AGENT_WRITE_TOOLS \<union> {''set_camera_recording_policy''} = set MCP_WRITE_TOOLS"
  "''set_camera_recording_policy'' \<notin> set AGENT_WRITE_TOOLS"
  "set MCP_READ_TOOLS \<inter> set MCP_WRITE_TOOLS = {}"
  by (auto simp: AGENT_WRITE_TOOLS_def MCP_WRITE_TOOLS_def MCP_READ_TOOLS_def)

text \<open>
  C28. Scoping fails closed: the agent reaches the read tools and the six incident-authoring
  tools and never the recording policy, and a tool added to the registry stays out of its
  reach unless it is listed as a read or as an agent write; every key's tools are served
  tools; a read-only key, in any letter case, has no write tool; and a custom key has only
  served tools it lists, none when it lists none.
\<close>

theorem tool_scoping_fails_closed:
  "agent_allowed_tools = all_tools - {''set_camera_recording_policy''} \<and>
   (tool \<notin> reads \<union> writes \<longrightarrow>
     compute_agent_allowed_tools (insert tool all) reads writes = compute_agent_allowed_tools all reads writes \<and>
     tool \<notin> compute_agent_allowed_tools (insert tool all) reads writes) \<and>
   compute_allowed_tools mode tools \<subseteq> all_tools \<and>
   (to_lowercase name = ''readonly'' \<longrightarrow>
     compute_allowed_tools (Some name) tools \<inter> set MCP_WRITE_TOOLS = {}) \<and>
   (to_lowercase name = ''custom'' \<longrightarrow>
     compute_allowed_tools (Some name) tools = (case tools of Some ts \<Rightarrow> set ts \<inter> all_tools | None \<Rightarrow> {}))"
proof (intro conjI impI)
  show "agent_allowed_tools = all_tools - {''set_camera_recording_policy''}"
    using catalog_simps by (auto simp: agent_allowed_tools_def compute_agent_allowed_tools_def all_tools_def read_tools_def)
  show "compute_allowed_tools mode tools \<subseteq> all_tools"
    by (auto simp: compute_allowed_tools_def Let_def all_tools_def read_tools_def split: option.splits)
  show "compute_allowed_tools (Some name) tools \<inter> set MCP_WRITE_TOOLS = {}" if "to_lowercase name = ''readonly''"
    using that catalog_simps(3) by (simp add: compute_allowed_tools_def read_tools_def)
  show "compute_allowed_tools (Some name) tools = (case tools of Some ts \<Rightarrow> set ts \<inter> all_tools | None \<Rightarrow> {})"
    if "to_lowercase name = ''custom''"
    using that by (auto simp: compute_allowed_tools_def split: option.splits)
qed (auto simp: compute_agent_allowed_tools_def)

theorem tool_scoping_fails_closed_witness:
  "compute_allowed_tools (Some ''ReadOnly'') None \<inter> set MCP_WRITE_TOOLS = {} \<and>
   ''delete_everything'' \<notin> compute_agent_allowed_tools (insert ''delete_everything'' all_tools) read_tools (set AGENT_WRITE_TOOLS)"
proof -
  have "to_lowercase ''ReadOnly'' = ''readonly''" by (simp add: to_lowercase_def less_eq_char_def char_of_def bit_iff_odd)
  moreover have "''delete_everything'' \<notin> read_tools \<union> set AGENT_WRITE_TOOLS"
    by (simp add: read_tools_def MCP_READ_TOOLS_def AGENT_WRITE_TOOLS_def)
  ultimately show ?thesis
    using tool_scoping_fails_closed [of "''delete_everything''" read_tools "set AGENT_WRITE_TOOLS" all_tools None None "''ReadOnly''"]
    by blast
qed

end
