(* ===== verification/Plans.thy ===== *)
theory Plans
  imports Windows Json "HOL-Library.Product_Lexorder"
begin

text \<open>
  \<^verbatim>\<open>backend-rs/src/plans.rs\<close>: plan limits, the live lookup with its throttle, the plan used
  for caps with its grace period, and the camera cap. A billing lookup gives \<open>None\<close> for any
  failure on the way. Points in time are nanoseconds since the epoch, and parsing a
  timestamp, which the \<open>chrono\<close> crate does, is an argument. A camera row is a record, and the
  rows of one organisation are a list.
\<close>

section \<open>Limits\<close>

definition PAYMENT_GRACE_DAYS :: int where "PAYMENT_GRACE_DAYS = 7"

definition PAID_PLAN_SLUGS :: "string list" where
  "PAID_PLAN_SLUGS = [''pro'', ''pro_plus'', ''self_host'']"

record plan_limits =
  max_cameras :: int
  max_nodes :: int
  max_seats :: int
  max_viewer_hours_per_month :: int
  max_sse_subscribers :: int
  log_retention_days :: int

definition plan_limits_json :: "plan_limits \<Rightarrow> json" where
  "plan_limits_json l =
     Object
       [(''max_cameras'', IntNum (max_cameras l)), (''max_nodes'', IntNum (max_nodes l)),
        (''max_seats'', IntNum (max_seats l)),
        (''max_viewer_hours_per_month'', IntNum (max_viewer_hours_per_month l)),
        (''max_sse_subscribers'', IntNum (max_sse_subscribers l)),
        (''log_retention_days'', IntNum (log_retention_days l))]"

definition get_plan_limits :: "string \<Rightarrow> plan_limits" where
  "get_plan_limits plan =
     (if plan = ''pro'' then
        \<lparr>max_cameras = 25, max_nodes = 10, max_seats = 10, max_viewer_hours_per_month = 300,
         max_sse_subscribers = 30, log_retention_days = 90\<rparr>
      else if plan = ''pro_plus'' then
        \<lparr>max_cameras = 200, max_nodes = 999, max_seats = 20, max_viewer_hours_per_month = 1500,
         max_sse_subscribers = 100, log_retention_days = 365\<rparr>
      else if plan = ''self_host'' then
        \<lparr>max_cameras = 999, max_nodes = 999, max_seats = 1, max_viewer_hours_per_month = 999999,
         max_sse_subscribers = 50, log_retention_days = 365\<rparr>
      else
        \<lparr>max_cameras = 5, max_nodes = 2, max_seats = 2, max_viewer_hours_per_month = 30,
         max_sse_subscribers = 10, log_retention_days = 30\<rparr>)"

definition get_plan_display_name :: "string \<Rightarrow> string" where
  "get_plan_display_name plan =
     (if plan = ''pro'' then ''Pro'' else if plan = ''pro_plus'' then ''Pro Plus''
      else if plan = ''self_host'' then ''Self-Hosted'' else ''Free'')"

section \<open>The caches\<close>

definition RESOLVE_THROTTLE :: duration where "RESOLVE_THROTTLE = from_secs 60"
definition EFFECTIVE_TTL :: duration where "EFFECTIVE_TTL = from_secs 30"
definition RESOLVE_PRUNE_INTERVAL :: duration where "RESOLVE_PRUNE_INTERVAL = from_secs 600"

record plan_caches =
  last_resolve_at :: "(string \<times> instant) list"
  last_prune_at :: "instant option"
  effective :: "(string \<times> (instant \<times> string)) list"

definition caches_default :: plan_caches where
  "caches_default = \<lparr>last_resolve_at = [], last_prune_at = None, effective = []\<rparr>"

definition invalidate_effective_plan_cache :: "string option \<Rightarrow> plan_caches \<Rightarrow> plan_caches" where
  "invalidate_effective_plan_cache org_id c =
     (case org_id of
        Some org \<Rightarrow> c\<lparr>effective := AList.delete org (effective c)\<rparr>
      | None \<Rightarrow> c\<lparr>effective := []\<rparr>)"

definition reset_resolve_throttle :: "plan_caches \<Rightarrow> plan_caches" where
  "reset_resolve_throttle c = c\<lparr>last_resolve_at := [], last_prune_at := None\<rparr>"

definition prune_resolve_cache :: "plan_caches \<Rightarrow> instant \<Rightarrow> plan_caches" where
  "prune_resolve_cache c now =
     (if (case last_prune_at c of Some t \<Rightarrow> duration_since now t < RESOLVE_PRUNE_INTERVAL | None \<Rightarrow> False) then c
      else c\<lparr>last_prune_at := Some now,
            last_resolve_at := filter (\<lambda>(_, t). duration_since now t < RESOLVE_THROTTLE) (last_resolve_at c)\<rparr>)"

text \<open>The throttle inside \<open>resolve_org_plan\<close>: whether this call backs off.\<close>

definition throttled :: "instant \<Rightarrow> string \<Rightarrow> plan_caches \<Rightarrow> bool \<times> plan_caches" where
  "throttled now org_id c0 =
     (let c = prune_resolve_cache c0 now
      in if (case map_of (last_resolve_at c) org_id of
               Some t \<Rightarrow> duration_since now t < RESOLVE_THROTTLE | None \<Rightarrow> False)
         then (True, c)
         else (False, c\<lparr>last_resolve_at := AList.update org_id now (last_resolve_at c)\<rparr>))"

definition cache_effective :: "instant \<Rightarrow> string \<Rightarrow> string \<Rightarrow> plan_caches \<Rightarrow> plan_caches" where
  "cache_effective now org_id slug c0 =
     (let c = c0\<lparr>effective := AList.update org_id (now + EFFECTIVE_TTL, slug) (effective c0)\<rparr>
      in if length (effective c) > 10000
         then c\<lparr>effective := filter (\<lambda>(_, e). fst e > now) (effective c)\<rparr> else c)"

section \<open>The live lookup\<close>

definition is_null :: "json \<Rightarrow> bool" where
  "is_null j \<longleftrightarrow> j = Null"

definition trunc_rat :: "rat \<Rightarrow> int" where
  "trunc_rat r = (if r < 0 then \<lceil>r\<rceil> else \<lfloor>r\<rfloor>)"

fun as_f64 :: "json \<Rightarrow> rat option" where
  "as_f64 (IntNum n) = Some (of_int n)"
| "as_f64 (FloatNum f) = Some f"
| "as_f64 _ = None"

text \<open>\<open>DateTime::from_timestamp\<close>: the whole seconds \<open>chrono\<close> can represent.\<close>

definition from_timestamp :: "int \<Rightarrow> int option" where
  "from_timestamp secs =
     (if - 8334601228800 \<le> secs \<and> secs \<le> 8210266876799 then Some (secs * 1000000000) else None)"

definition item_period_end_utc :: "(string \<Rightarrow> int option) \<Rightarrow> json \<Rightarrow> int option" where
  "item_period_end_utc parse_rfc3339 item =
     (case (case json_get ''period_end'' item of Some v \<Rightarrow> Some v | None \<Rightarrow> json_get ''periodEnd'' item) of
        None \<Rightarrow> None
      | Some raw \<Rightarrow>
          if is_null raw then None
          else case as_str raw of
              Some s \<Rightarrow> parse_rfc3339 s
            | None \<Rightarrow>
                (case as_f64 raw of
                   None \<Rightarrow> None
                 | Some val \<Rightarrow>
                     (let seconds = (if val > 1000000000000 then val / 1000 else val)
                      in from_timestamp (trunc_rat seconds))))"

fun entitled_loop :: "(string \<Rightarrow> int option) \<Rightarrow> int \<Rightarrow> string option \<Rightarrow> json list \<Rightarrow> string" where
  "entitled_loop parse now canceled [] = (case canceled of Some s \<Rightarrow> s | None \<Rightarrow> ''free_org'')"
| "entitled_loop parse now canceled (item # items) =
     (let status = Option.bind (json_get ''status'' item) as_str;
          slug = Option.bind (Option.bind (json_get ''plan'' item) (json_get ''slug'')) as_str
      in case slug of
           None \<Rightarrow> entitled_loop parse now canceled items
         | Some s \<Rightarrow>
             if s = [] then entitled_loop parse now canceled items
             else if status = Some ''active'' then s
             else if status = Some ''canceled'' \<and> canceled = None \<and>
                     (case item_period_end_utc parse item of Some period_end \<Rightarrow> period_end > now | None \<Rightarrow> False)
             then entitled_loop parse now (Some s) items
             else entitled_loop parse now canceled items)"

text \<open>\<open>billing\<close> is the decoded body of a successful response.\<close>

definition fetch_live_plan_slug :: "(string \<Rightarrow> int option) \<Rightarrow> int \<Rightarrow> json option \<Rightarrow> string option" where
  "fetch_live_plan_slug parse now billing =
     (case billing of
        None \<Rightarrow> None
      | Some sub \<Rightarrow>
          (let items = (case json_get ''subscription_items'' sub of Some (Array items) \<Rightarrow> items | _ \<Rightarrow> [])
           in Some (entitled_loop parse now None items)))"

section \<open>Resolution\<close>

text \<open>
  A setting's row: \<open>None\<close> when the query failed, \<open>Some None\<close> without a row, and the value of the
  row, which may be null, otherwise.
\<close>

type_synonym db_get = "string \<Rightarrow> string option option option"

definition setting :: "db_get \<Rightarrow> string \<Rightarrow> string \<Rightarrow> string" where
  "setting db key dflt = 
     (case db key of
        None \<Rightarrow> []
      | Some None \<Rightarrow> dflt
      | Some (Some v) \<Rightarrow> (case v of Some s \<Rightarrow> s | None \<Rightarrow> []))"

definition non_empty_or_free :: "string \<Rightarrow> string" where
  "non_empty_or_free cached = (if cached = [] then ''free_org'' else cached)"

text \<open>The slug, the caches, and the value written to the \<open>org_plan\<close> setting, if any.\<close>

definition resolve_org_plan ::
  "(string \<Rightarrow> int option) \<Rightarrow> bool \<Rightarrow> db_get \<Rightarrow> json option \<Rightarrow> instant \<Rightarrow> int \<Rightarrow> string \<Rightarrow> plan_caches \<Rightarrow>
   string \<times> plan_caches \<times> string option" where
  "resolve_org_plan parse local_auth db billing now utc org_id c =
     (if local_auth then (''self_host'', c, None)
      else
        (let cached = setting db ''org_plan'' ''''
         in if cached \<in> set PAID_PLAN_SLUGS then (cached, c, None)
            else
              (let (backs_off, c1) = throttled now org_id c
               in if backs_off then (non_empty_or_free cached, c1, None)
                  else case fetch_live_plan_slug parse utc billing of
                      None \<Rightarrow> (non_empty_or_free cached, c1, None)
                    | Some live_slug \<Rightarrow>
                        (live_slug, c1, if live_slug \<noteq> cached then Some live_slug else None))))"

definition replace_Z :: "string \<Rightarrow> string" where
  "replace_Z raw = concat (map (\<lambda>c. if c = CHR ''Z'' then ''+00:00'' else [c]) raw)"

definition parse_past_due_at ::
  "(string \<Rightarrow> int option) \<Rightarrow> (string \<Rightarrow> int option) \<Rightarrow> string \<Rightarrow> int option" where
  "parse_past_due_at parse_rfc3339 parse_naive raw =
     (let normalised = replace_Z raw
      in case parse_rfc3339 normalised of Some dt \<Rightarrow> Some dt | None \<Rightarrow> parse_naive normalised)"

definition days :: "int \<Rightarrow> int" where
  "days n = n * 86400000000000"

text \<open>The plan for caps once the nominal plan is known.\<close>

definition grace_plan ::
  "(string \<Rightarrow> int option) \<Rightarrow> (string \<Rightarrow> int option) \<Rightarrow> bool \<Rightarrow> db_get \<Rightarrow> int \<Rightarrow> string \<Rightarrow> string" where
  "grace_plan parse_rfc3339 parse_naive local_auth db utc nominal =
     (if local_auth then nominal
      else if setting db ''payment_past_due'' ''false'' \<noteq> ''true'' then nominal
      else
        (let past_due_at = setting db ''payment_past_due_at'' ''''
         in if past_due_at = [] then nominal
            else case parse_past_due_at parse_rfc3339 parse_naive past_due_at of
                None \<Rightarrow> nominal
              | Some dt \<Rightarrow> if utc - dt > days PAYMENT_GRACE_DAYS then ''free_org'' else nominal))"

definition effective_plan_for_caps ::
  "(string \<Rightarrow> int option) \<Rightarrow> (string \<Rightarrow> int option) \<Rightarrow> bool \<Rightarrow> db_get \<Rightarrow> json option \<Rightarrow> instant \<Rightarrow> int \<Rightarrow>
   string \<Rightarrow> bool \<Rightarrow> plan_caches \<Rightarrow> string \<times> plan_caches \<times> string option" where
  "effective_plan_for_caps parse_rfc3339 parse_naive local_auth db billing now utc org_id use_cache c =
     (case (if use_cache
            then (case map_of (effective c) org_id of
                    Some (expiry, slug) \<Rightarrow> if expiry > now then Some slug else None
                  | None \<Rightarrow> None)
            else None) of
        Some slug \<Rightarrow> (slug, c, None)
      | None \<Rightarrow>
          (let (nominal, c1, write) = resolve_org_plan parse_rfc3339 local_auth db billing now utc org_id c;
               slug = grace_plan parse_rfc3339 parse_naive local_auth db utc nominal
           in (slug, cache_effective now org_id slug c1, write)))"

definition wire_plan_slug :: "string \<Rightarrow> string" where
  "wire_plan_slug plan0 =
     (let plan = to_lowercase (trim plan0)
      in if plan = [] then ''free''
         else case strip_suffix ''_org'' plan of Some stripped \<Rightarrow> stripped | None \<Rightarrow> plan)"

section \<open>The camera cap\<close>

record camera_row =
  row_id :: int
  camera_id :: string
  created_at :: "int option"
  disabled_by_plan :: "bool option"

text \<open>\<open>ORDER BY created_at ASC NULLS LAST, id ASC\<close>.\<close>

definition camera_key :: "camera_row \<Rightarrow> bool \<times> int \<times> int" where
  "camera_key r = (created_at r = None, (case created_at r of Some t \<Rightarrow> t | None \<Rightarrow> 0), row_id r)"

definition set_disabled :: "string \<Rightarrow> bool \<Rightarrow> camera_row list \<Rightarrow> camera_row list" where
  "set_disabled cam flag rows =
     map (\<lambda>r. if camera_id r = cam then r\<lparr>disabled_by_plan := Some flag\<rparr> else r) rows"

record cap_outcome =
  outcome_plan :: string
  outcome_max :: int
  enabled :: "string list"
  disabled :: "string list"
  changed :: bool

text \<open>The rows to flip, in the order of the loop.\<close>

definition flips :: "string set \<Rightarrow> camera_row list \<Rightarrow> (string \<times> bool) list" where
  "flips keep_ids cameras =
     map (\<lambda>r. (camera_id r, camera_id r \<notin> keep_ids))
       (filter (\<lambda>r. (case disabled_by_plan r of Some b \<Rightarrow> b | None \<Rightarrow> False) \<noteq> (camera_id r \<notin> keep_ids)) cameras)"

text \<open>The updates, \<open>ok\<close> saying which queries succeed: the first failure ends the function.\<close>

fun apply_flips :: "(string \<Rightarrow> bool) \<Rightarrow> (string \<times> bool) list \<Rightarrow> camera_row list \<Rightarrow> bool \<times> camera_row list" where
  "apply_flips ok [] rows = (True, rows)"
| "apply_flips ok ((cam, flag) # fs) rows =
     (if ok cam then apply_flips ok fs (set_disabled cam flag rows) else (False, rows))"

text \<open>
  The outcome (\<open>None\<close> is the database error), the rows, and whether the HLS auth cache was
  invalidated. \<open>plan_slug\<close> is \<open>effective_plan_for_caps\<close> with the cache bypassed.
\<close>

definition enforce_camera_cap ::
  "string \<Rightarrow> (string \<Rightarrow> bool) \<Rightarrow> camera_row list \<Rightarrow> cap_outcome option \<times> camera_row list \<times> bool" where
  "enforce_camera_cap plan_slug ok rows =
     (let cap = max_cameras (get_plan_limits plan_slug);
          cameras = sort_key camera_key rows;
          keep = nat (max cap 0);
          keep_ids = set (map camera_id (take keep cameras));
          flip_to = flips keep_ids cameras;
          (done_all, rows1) = apply_flips ok flip_to rows
      in if \<not> done_all then (None, rows1, False)
         else (Some \<lparr>outcome_plan = wire_plan_slug plan_slug, outcome_max = cap,
                     enabled = map camera_id (filter (\<lambda>r. camera_id r \<in> keep_ids) cameras),
                     disabled = map camera_id (drop keep cameras),
                     changed = (flip_to \<noteq> [])\<rparr>,
               rows1, flip_to \<noteq> []))"

section \<open>The lookup throttle\<close>

definition lookup_aged :: "instant \<Rightarrow> instant \<Rightarrow> bool" where
  "lookup_aged now t \<longleftrightarrow> duration_since now t \<ge> RESOLVE_THROTTLE"

lemma lookup_aged_iff: "lookup_aged now t \<longleftrightarrow> t \<le> now - RESOLVE_THROTTLE"
  by (auto simp: lookup_aged_def duration_since_def RESOLVE_THROTTLE_def from_secs_def)

interpretation lookup_window: sliding_window lookup_aged
  by unfold_locales (auto simp: lookup_aged_iff)

text \<open>The reference: every live lookup of the organisation; a call backs off while one is fresh.\<close>

definition throttle_step :: "instant \<Rightarrow> string \<Rightarrow> instant list \<Rightarrow> bool \<times> instant list" where
  "throttle_step now org h =
     (let busy = (filter (\<lambda>t. \<not> lookup_aged now t) h \<noteq> []) in (busy, if busy then h else h @ [now]))"

definition lookup_queue :: "string \<Rightarrow> plan_caches \<Rightarrow> instant list" where
  "lookup_queue org c = (case map_of (last_resolve_at c) org of Some t \<Rightarrow> [t] | None \<Rightarrow> [])"

definition throttle_sim :: "string \<Rightarrow> instant \<Rightarrow> plan_caches \<Rightarrow> instant list \<Rightarrow> bool" where
  "throttle_sim org now c h \<longleftrightarrow> queue_sim lookup_aged now (lookup_queue org c) h"

lemma lookup_queue_prune:
  assumes "hash_ok (last_resolve_at c)"
  shows "lookup_queue org (prune_resolve_cache c now) = lookup_queue org c \<or>
    lookup_queue org (prune_resolve_cache c now) = [] \<and>
      (lookup_queue org c \<noteq> [] \<longrightarrow> lookup_aged now (last (lookup_queue org c)))"
  using map_of_filter_keys [OF assms, of "\<lambda>_ t. duration_since now t < RESOLVE_THROTTLE" org]
  by (auto simp: prune_resolve_cache_def lookup_queue_def lookup_aged_def split: option.splits if_splits)

lemma throttle_sim_prune:
  assumes "hash_ok (last_resolve_at c)" "throttle_sim org now c h"
  shows "throttle_sim org now (prune_resolve_cache c now) h"
  using lookup_queue_prune [OF assms(1), of org now] assms(2) lookup_window.queue_sim_drop
  by (auto simp: throttle_sim_def)

lemma hash_ok_prune: "hash_ok (last_resolve_at c) \<Longrightarrow> hash_ok (last_resolve_at (prune_resolve_cache c now))"
  by (simp add: prune_resolve_cache_def distinct_fst_filter)

lemma throttled_eq:
  "throttled now org c =
     (let p = prune_resolve_cache c now; busy = (filter (\<lambda>t. \<not> lookup_aged now t) (lookup_queue org p) \<noteq> [])
      in (busy, if busy then p else p\<lparr>last_resolve_at := AList.update org now (last_resolve_at p)\<rparr>))"
  by (simp add: throttled_def lookup_queue_def lookup_aged_def Let_def split: option.splits)

lemma lookup_queue_update:
  "lookup_queue k (c\<lparr>last_resolve_at := AList.update org t (last_resolve_at c)\<rparr>) =
     (if k = org then [t] else lookup_queue k c)"
  by (simp add: lookup_queue_def AList.update_conv')

interpretation lookup_throttle: swept_table throttled throttle_step "\<lambda>org. org" "\<lambda>_. True" throttle_sim
  "\<lambda>c. hash_ok (last_resolve_at c)"
proof unfold_locales
  fix c :: plan_caches and now :: instant and org :: string
  assume ok: "hash_ok (last_resolve_at c)"
  show "hash_ok (last_resolve_at (snd (throttled now org c)))"
    using hash.ok_put [OF hash_ok_prune [OF ok]] hash_ok_prune [OF ok] by (simp add: throttled_eq Let_def)
  fix h
  {
    assume "throttle_sim org now c h"
    then have sim: "queue_sim lookup_aged now (lookup_queue org (prune_resolve_cache c now)) h"
      using throttle_sim_prune [OF ok] by (simp add: throttle_sim_def)
    then have same: "filter (\<lambda>t. \<not> lookup_aged now t) (lookup_queue org (prune_resolve_cache c now)) =
        filter (\<lambda>t. \<not> lookup_aged now t) h" by (simp add: queue_sim_def)
    then show "fst (throttled now org c) = fst (throttle_step now org h)"
      by (simp add: throttled_eq throttle_step_def Let_def)
    have "queue_sim lookup_aged now [now] (h @ [now])" if "filter (\<lambda>t. \<not> lookup_aged now t) h = []"
      using that by (simp add: queue_sim_def)
    then show "throttle_sim org now (snd (throttled now org c)) (snd (throttle_step now org h))"
      using sim same by (simp add: throttled_eq throttle_step_def Let_def throttle_sim_def lookup_queue_update)
  }
  fix k
  assume "k \<noteq> org" "throttle_sim k now c h"
  then show "throttle_sim k now (snd (throttled now org c)) h"
    using throttle_sim_prune [OF ok] by (simp add: throttled_eq Let_def throttle_sim_def lookup_queue_update)
next
  fix k now c h later
  assume "throttle_sim k now c h" "now \<le> later"
  then show "throttle_sim k later c h" unfolding throttle_sim_def by (rule lookup_window.queue_sim_later)
qed

lemma throttle_bounded:
  assumes "\<And>T. length (filter (\<lambda>t. t \<le> T \<and> \<not> lookup_aged T t) h) \<le> 1"
  shows "length (filter (\<lambda>t. t \<le> T \<and> \<not> lookup_aged T t) (snd (run throttle_step es h))) \<le> 1"
  using assms
proof (induction es arbitrary: h)
  case Nil
  then show ?case by simp
next
  case (Cons e es)
  obtain now q where e: "e = (now, q)" by (cases e)
  have "length (filter (\<lambda>t. t \<le> T \<and> \<not> lookup_aged T t) (snd (throttle_step now q h))) \<le> 1" for T
    using Cons.prems lookup_window.within_cap_snoc [OF Cons.prems, of now T] by (simp add: throttle_step_def Let_def)
  then show ?case using Cons.IH e by simp
qed

text \<open>
  Live billing lookups are throttled per organisation: over any sequence of calls for any
  organisations, whenever the prune runs, no sixty seconds hold two lookups for the same
  organisation, and a call backs off only when there was one in the sixty seconds before it.
\<close>

theorem lookups_spaced:
  fixes es :: "(instant \<times> string) list" and org :: string
  defines "rs \<equiv> fst (run throttled es caches_default)"
  assumes "sorted (map fst es)"
  shows "answers (\<lambda>q. q = org) es rs = fst (run throttle_step (filter (\<lambda>e. snd e = org) es) []) \<and>
    length (filter (\<lambda>((now, q), r). q = org \<and> \<not> r \<and> T - RESOLVE_THROTTLE < now \<and> now \<le> T) (zip es rs)) \<le> 1"
proof -
  have sim: "throttle_sim org now caches_default []" for now
    by (simp add: throttle_sim_def lookup_queue_def caches_default_def queue_sim_Nil)
  have ans: "answers (\<lambda>q. q = org) es rs = fst (run throttle_step (filter (\<lambda>e. snd e = org) es) [])"
  proof (cases es)
    case (Cons e es')
    show ?thesis unfolding rs_def
      by (rule lookup_throttle.run_sim [where now = "fst e"])
        (use assms(2) Cons sim in \<open>auto simp: caches_default_def\<close>)
  qed (simp add: rs_def)
  have "length (filter (\<lambda>((now, q), r). q = org \<and> \<not> r \<and> T - RESOLVE_THROTTLE < now \<and> now \<le> T) (zip es rs)) =
      length (filter (\<lambda>t. T - RESOLVE_THROTTLE < t \<and> t \<le> T) (snd (run throttle_step (filter (\<lambda>e. snd e = org) es) [])))"
    by (rule history_count [where adm = "\<lambda>r. \<not> r"]) (simp_all add: rs_def ans [unfolded rs_def] throttle_step_def Let_def)
  also have "\<dots> \<le> 1"
    using throttle_bounded [of "[]" T "filter (\<lambda>e. snd e = org) es"] by (simp add: lookup_aged_iff not_le conj_commute)
  finally show ?thesis using ans by blast
qed

theorem lookups_spaced_witness:
  "answers (\<lambda>q. q = ''o'') [(0, ''o''), (5, ''p''), (7, ''o''), (from_secs 60, ''o'')]
     (fst (run throttled [(0, ''o''), (5, ''p''), (7, ''o''), (from_secs 60, ''o'')] caches_default)) = [False, True, False]"
proof -
  let ?es = "[(0, ''o''), (5, ''p''), (7, ''o''), (from_secs 60, ''o'')]"
  have "sorted (map fst ?es)" by (simp add: from_secs_def)
  from lookups_spaced [OF this, of "''o''"] show ?thesis
    by (simp add: throttle_step_def lookup_aged_iff RESOLVE_THROTTLE_def from_secs_def)
qed

section \<open>The plan for caps\<close>

lemma throttled_effective: "effective (snd (throttled now org c)) = effective c"
  by (simp add: throttled_def prune_resolve_cache_def Let_def split: option.splits)

lemma resolve_effective:
  "effective (fst (snd (resolve_org_plan parse la db billing now utc org c))) = effective c"
  using throttled_effective [of now org c]
  by (cases "throttled now org c") (simp add: resolve_org_plan_def Let_def split: option.splits)

lemma cache_effective_hit:
  assumes "hash_ok (effective c)"
  shows "map_of (effective (cache_effective now org slug c)) org = Some (now + EFFECTIVE_TTL, slug)"
proof -
  let ?m = "AList.update org (now + EFFECTIVE_TTL, slug) (effective c)"
  have m: "map_of ?m org = Some (now + EFFECTIVE_TTL, slug)" by (simp add: AList.update_conv')
  have ok: "hash_ok ?m" using assms by (rule hash.ok_put)
  have "0 < EFFECTIVE_TTL" by (simp add: EFFECTIVE_TTL_def from_secs_def)
  then show ?thesis
    using m map_of_filter_keys [OF ok, of "\<lambda>_ e. fst e > now" org]
    by (simp add: cache_effective_def Let_def del: map_of_eq_Some_iff)
qed

lemma resolve_outage:
  "billing = None \<Longrightarrow> \<exists>c'. resolve_org_plan parse la db billing now utc org c =
     (if la then ''self_host'' else non_empty_or_free (setting db ''org_plan'' ''''), c', None)"
  by (auto simp: resolve_org_plan_def Let_def fetch_live_plan_slug_def non_empty_or_free_def PAID_PLAN_SLUGS_def
      split: prod.splits)

text \<open>
  C23. The plan used for caps. It is the resolved plan except that it is the free tier when a
  payment has been flagged past due for more than seven days (never on a self-hosted
  install, and never when the flag has no readable timestamp). When the billing lookup
  fails, the resolved plan is the stored one (free only when nothing is stored) and nothing
  is written. And the answer is what a cached call gives for the next thirty seconds, with
  no lookup, until it is invalidated.
\<close>

theorem plan_for_caps_correct:
  fixes pr pn :: "string \<Rightarrow> int option" and la :: bool and db :: db_get and billing :: "json option"
    and now later :: instant and utc :: int and org :: string and c :: plan_caches
  defines "res \<equiv> resolve_org_plan pr la db billing now utc org c"
  defines "eff \<equiv> effective_plan_for_caps pr pn la db billing now utc org False c"
  assumes "hash_ok (effective c)"
  shows "(fst eff = fst res \<or>
      fst eff = ''free_org'' \<and> \<not> la \<and> setting db ''payment_past_due'' ''false'' = ''true'' \<and>
        (\<exists>dt. parse_past_due_at pr pn (setting db ''payment_past_due_at'' '''') = Some dt \<and> utc - dt > days 7)) \<and>
    (billing = None \<longrightarrow>
      fst res = (if la then ''self_host'' else non_empty_or_free (setting db ''org_plan'' '''')) \<and> snd (snd eff) = None) \<and>
    (later < now + EFFECTIVE_TTL \<longrightarrow>
      (\<forall>db' billing' utc'. effective_plan_for_caps pr pn la db' billing' later utc' org True (fst (snd eff)) =
        (fst eff, fst (snd eff), None))) \<and>
    map_of (effective (invalidate_effective_plan_cache (Some org) (fst (snd eff)))) org = None"
proof (intro conjI impI allI)
  obtain nominal c1 w where r: "res = (nominal, c1, w)" by (cases res) auto
  have eff: "eff = (grace_plan pr pn la db utc nominal, cache_effective now org (grace_plan pr pn la db utc nominal) c1, w)"
    using r by (simp add: eff_def effective_plan_for_caps_def res_def Let_def)
  show "fst eff = fst res \<or>
      fst eff = ''free_org'' \<and> \<not> la \<and> setting db ''payment_past_due'' ''false'' = ''true'' \<and>
        (\<exists>dt. parse_past_due_at pr pn (setting db ''payment_past_due_at'' '''') = Some dt \<and> utc - dt > days 7)"
    by (auto simp: eff r grace_plan_def Let_def PAYMENT_GRACE_DAYS_def split: option.splits)
  show "fst res = (if la then ''self_host'' else non_empty_or_free (setting db ''org_plan'' ''''))"
    "snd (snd eff) = None" if "billing = None"
    using resolve_outage [OF that, of pr la db now utc org c] r by (auto simp: eff res_def)
  have "hash_ok (effective c1)"
    using resolve_effective [of pr la db billing now utc org c] assms(3) r by (simp add: res_def)
  then have hit: "map_of (effective (fst (snd eff))) org = Some (now + EFFECTIVE_TTL, fst eff)"
    by (simp add: eff cache_effective_hit del: map_of_eq_Some_iff)
  show "effective_plan_for_caps pr pn la db' billing' later utc' org True (fst (snd eff)) = (fst eff, fst (snd eff), None)"
    if "later < now + EFFECTIVE_TTL" for db' billing' utc'
    using hit that by (simp add: effective_plan_for_caps_def)
  show "map_of (effective (invalidate_effective_plan_cache (Some org) (fst (snd eff)))) org = None"
    by (simp add: invalidate_effective_plan_cache_def map_of_delete)
qed

theorem plan_for_caps_correct_witness:
  "\<forall>db' billing' utc'. fst (effective_plan_for_caps (\<lambda>_. None) (\<lambda>_. None) False db' billing' 5 utc' ''o'' True
     (fst (snd (effective_plan_for_caps (\<lambda>_. None) (\<lambda>_. None) False (\<lambda>_. Some (Some (Some ''pro''))) None 0 0 ''o'' False
       caches_default)))) = ''pro''"
proof -
  have "hash_ok (effective caches_default)" by (simp add: caches_default_def)
  from plan_for_caps_correct [OF this, of "\<lambda>_. None" "\<lambda>_. None" False "\<lambda>_. Some (Some (Some ''pro''))" None 0 0 "''o''" 5]
  show ?thesis
    by (simp add: EFFECTIVE_TTL_def from_secs_def effective_plan_for_caps_def resolve_org_plan_def setting_def
        PAID_PLAN_SLUGS_def grace_plan_def)
qed

section \<open>The camera cap\<close>

abbreviation is_disabled :: "camera_row \<Rightarrow> bool" where
  "is_disabled r \<equiv> (case disabled_by_plan r of Some b \<Rightarrow> b | None \<Rightarrow> False)"

text \<open>When no query fails the updates are one map over the rows.\<close>

definition flagged :: "string set \<Rightarrow> camera_row \<Rightarrow> camera_row" where
  "flagged keep_ids r =
     (if is_disabled r \<noteq> (camera_id r \<notin> keep_ids) then r\<lparr>disabled_by_plan := Some (camera_id r \<notin> keep_ids)\<rparr> else r)"

lemma camera_id_flagged [simp]: "camera_id (flagged K r) = camera_id r"
  by (simp add: flagged_def)

lemma is_disabled_flagged [simp]: "is_disabled (flagged K r) \<longleftrightarrow> camera_id r \<notin> K"
  by (auto simp: flagged_def split: option.splits)

lemma camera_key_flagged [simp]: "camera_key (flagged K r) = camera_key r"
  by (simp add: flagged_def camera_key_def)

lemma apply_flips_map:
  assumes "\<forall>(cam, flag) \<in> set fs. ok cam \<and> (flag \<longleftrightarrow> cam \<notin> K)"
  shows "apply_flips ok fs rows =
    (True, map (\<lambda>r. if camera_id r \<in> fst ` set fs then r\<lparr>disabled_by_plan := Some (camera_id r \<notin> K)\<rparr> else r) rows)"
  using assms
proof (induction fs arbitrary: rows)
  case Nil
  then show ?case by simp
next
  case (Cons f fs)
  obtain cam flag where f: "f = (cam, flag)" by (cases f)
  have "apply_flips ok fs (set_disabled cam flag rows) =
      (True, map (\<lambda>r. if camera_id r \<in> fst ` set fs then r\<lparr>disabled_by_plan := Some (camera_id r \<notin> K)\<rparr> else r)
         (set_disabled cam flag rows))"
    using Cons.prems by (intro Cons.IH) auto
  with f Cons.prems show ?case by (auto simp: set_disabled_def)
qed

lemma distinct_camera:
  "distinct (map camera_id rows) \<Longrightarrow> r \<in> set rows \<Longrightarrow> r' \<in> set rows \<Longrightarrow> camera_id r = camera_id r' \<Longrightarrow> r = r'"
  by (metis distinct_map inj_onD)

lemma apply_flips_flagged:
  assumes "distinct (map camera_id rows)" "set cameras = set rows" "\<And>cam. ok cam"
  shows "apply_flips ok (flips K cameras) rows = (True, map (flagged K) rows)"
proof -
  define flip where "flip r \<longleftrightarrow> is_disabled r \<noteq> (camera_id r \<notin> K)" for r
  have "fst ` set (flips K cameras) = camera_id ` {r \<in> set rows. flip r}"
    by (simp add: flips_def flip_def image_image assms(2))
  then have "camera_id r \<in> fst ` set (flips K cameras) \<longleftrightarrow> flip r" if "r \<in> set rows" for r
    using that distinct_camera [OF assms(1) that] by blast
  then have "camera_id r \<in> fst ` set (flips K cameras) \<longleftrightarrow> is_disabled r \<noteq> (camera_id r \<notin> K)" if "r \<in> set rows" for r
    using that by (simp add: flip_def)
  then show ?thesis
    using apply_flips_map [of "flips K cameras" ok K rows] assms(3)
    by (simp add: flagged_def cong: map_cong) (auto simp: flips_def)
qed

lemma flips_Nil_iff: "flips K cameras = [] \<longleftrightarrow> (\<forall>r \<in> set cameras. is_disabled r \<longleftrightarrow> camera_id r \<notin> K)"
  by (auto simp: flips_def filter_empty_conv)

lemma flips_flagged: "flips K (map (flagged K) cameras) = []"
  unfolding flips_Nil_iff by auto

lemma sort_key_flagged: "sort_key camera_key (map (flagged K) rows) = map (flagged K) (sort_key camera_key rows)"
proof (induction rows)
  case (Cons r rows)
  have "insort_key camera_key (flagged K r) (map (flagged K) rs) = map (flagged K) (insort_key camera_key r rs)" for rs
    by (induction rs) auto
  with Cons show ?case by simp
qed simp

definition kept :: "string \<Rightarrow> camera_row list \<Rightarrow> camera_row list" where
  "kept plan rows = take (nat (max_cameras (get_plan_limits plan))) (sort_key camera_key rows)"

lemma enforce_eq:
  assumes "distinct (map camera_id rows)" "\<And>cam. ok cam"
  shows "enforce_camera_cap plan ok rows =
    (let K = camera_id ` set (kept plan rows); cap = max_cameras (get_plan_limits plan);
         ch = (flips K (sort_key camera_key rows) \<noteq> [])
     in (Some \<lparr>outcome_plan = wire_plan_slug plan, outcome_max = cap,
               enabled = map camera_id (filter (\<lambda>r. camera_id r \<in> K) (sort_key camera_key rows)),
               disabled = map camera_id (drop (nat cap) (sort_key camera_key rows)), changed = ch\<rparr>,
         map (flagged K) rows, ch))"
proof -
  define s where "s = sort_key camera_key rows"
  define K where "K = camera_id ` set (kept plan rows)"
  have n: "nat (max (max_cameras (get_plan_limits plan)) 0) = nat (max_cameras (get_plan_limits plan))" by simp
  have K: "set (map camera_id (take (nat (max_cameras (get_plan_limits plan))) s)) = K"
    by (simp add: K_def kept_def s_def)
  have "apply_flips ok (flips K s) rows = (True, map (flagged K) rows)"
    using assms by (intro apply_flips_flagged) (auto simp: s_def)
  then show ?thesis
    unfolding enforce_camera_cap_def Let_def n s_def [symmetric] K K_def [symmetric] by simp
qed

lemma kept_flagged: "kept plan (map (flagged K) rows) = map (flagged K) (kept plan rows)"
  by (simp add: kept_def sort_key_flagged take_map)

lemma camera_id_sorted: "distinct (map camera_id rows) \<Longrightarrow> distinct (map camera_id (sort_key f rows))"
  by (metis distinct_map set_sort distinct_sort)

text \<open>Which rows are kept: as many as the cap allows, and none newer than a row left out.\<close>

lemma kept_count:
  assumes "distinct (map camera_id rows)"
  shows "length (filter (\<lambda>r. camera_id r \<in> camera_id ` set (kept plan rows)) rows) =
    min (nat (max_cameras (get_plan_limits plan))) (length rows)"
proof -
  let ?K = "set (kept plan rows)"
  have sub: "?K \<subseteq> set rows" unfolding kept_def by (metis set_sort set_take_subset)
  have "camera_id r \<in> camera_id ` ?K \<longleftrightarrow> r \<in> ?K" if "r \<in> set rows" for r
    using distinct_camera [OF assms that] sub by blast
  then have "filter (\<lambda>r. camera_id r \<in> camera_id ` ?K) rows = filter (\<lambda>r. r \<in> ?K) rows"
    by (intro filter_cong) auto
  moreover have d: "distinct rows" "distinct (sort_key camera_key rows)"
    using assms by (auto simp: distinct_map)
  then have "length (filter (\<lambda>r. r \<in> ?K) rows) = card ?K"
    using sub by (metis distinct_card distinct_filter inf.absorb2 set_filter Collect_conj_eq Int_def mem_Collect_eq Collect_mem_eq)
  moreover have "card ?K = length (kept plan rows)"
    using d(2) unfolding kept_def by (intro distinct_card distinct_take)
  ultimately show ?thesis by (simp add: kept_def min.commute)
qed

lemma kept_oldest:
  assumes "distinct (map camera_id rows)" "r \<in> set rows" "r' \<in> set rows"
    and "camera_id r \<in> camera_id ` set (kept plan rows)" "camera_id r' \<notin> camera_id ` set (kept plan rows)"
  shows "camera_key r \<le> camera_key r'"
proof -
  let ?n = "nat (max_cameras (get_plan_limits plan))" and ?s = "sort_key camera_key rows"
  have "set (kept plan rows) \<subseteq> set rows" unfolding kept_def by (metis set_sort set_take_subset)
  then have "r \<in> set (take ?n ?s)" using assms(1,2,4) distinct_camera [OF assms(1,2)] by (auto simp: kept_def)
  moreover have "r' \<in> set (drop ?n ?s)"
    using assms(3,5) by (metis Un_iff append_take_drop_id imageI kept_def set_append set_sort)
  moreover have "sorted (map camera_key (take ?n ?s) @ map camera_key (drop ?n ?s))"
    by (simp flip: map_append)
  ultimately show ?thesis by (auto simp: sorted_append)
qed



text \<open>A query that fails part of the way leaves earlier rows flipped with the auth cache as it was.\<close>

lemma partial_failure_skips_invalidation:
  "enforce_camera_cap ''free_org'' (\<lambda>cam. cam = ''a'')
     [\<lparr>row_id = 1, camera_id = ''a'', created_at = Some 1, disabled_by_plan = Some True\<rparr>,
      \<lparr>row_id = 2, camera_id = ''b'', created_at = Some 2, disabled_by_plan = Some True\<rparr>] =
   (None,
    [\<lparr>row_id = 1, camera_id = ''a'', created_at = Some 1, disabled_by_plan = Some False\<rparr>,
     \<lparr>row_id = 2, camera_id = ''b'', created_at = Some 2, disabled_by_plan = Some True\<rparr>], False)"
  by (simp add: enforce_camera_cap_def get_plan_limits_def camera_key_def flips_def set_disabled_def Let_def numeral_eq_Suc)

end
