(* ===== verification/Sse.thy ===== *)
theory Sse
  imports Sentinel_Prelude "HOL-Library.Sublist"
begin

text \<open>
  \<^verbatim>\<open>backend-rs/src/sse.rs\<close>: the per-organisation broadcasters. A subscriber's channel is a
  bounded queue named by the subscriber's identifier; \<open>receivers\<close> are the subscriptions still
  held by a stream. The lock makes every operation a step, and \<open>sse_step\<close> interleaves them;
  the log of notifications is what the steps have been asked to send.
\<close>

section \<open>The broadcaster\<close>

definition QUEUE_DEPTH :: nat where "QUEUE_DEPTH = 100"
definition KEEPALIVE :: duration where "KEEPALIVE = from_secs 25"
definition DEFAULT_CAP :: nat where "DEFAULT_CAP = 100"

record subscriber =
  sub_id :: nat
  is_admin :: bool

record broadcaster =
  subscribers :: "(string \<times> subscriber list) list"
  next_sub :: nat
  queues :: "nat \<Rightarrow> string list"
  receivers :: "nat set"

definition broadcaster_default :: broadcaster where
  "broadcaster_default = \<lparr>subscribers = [], next_sub = 0, queues = (\<lambda>_. []), receivers = {}\<rparr>"

definition subscribers_of :: "string \<Rightarrow> broadcaster \<Rightarrow> subscriber list" where
  "subscribers_of org_id b = (case map_of (subscribers b) org_id of Some s \<Rightarrow> s | None \<Rightarrow> [])"

definition subscribe :: "string \<Rightarrow> bool \<Rightarrow> nat \<Rightarrow> broadcaster \<Rightarrow> nat option \<times> broadcaster" where
  "subscribe org_id admin cap b =
     (let existing = subscribers_of org_id b
      in if length existing \<ge> cap
         then (None, b\<lparr>subscribers := AList.update org_id existing (subscribers b)\<rparr>)
         else
           (let i = next_sub b + 1
            in (Some i,
                b\<lparr>next_sub := i,
                  subscribers := AList.update org_id (existing @ [\<lparr>sub_id = i, is_admin = admin\<rparr>]) (subscribers b),
                  queues := (queues b)(i := []),
                  receivers := insert i (receivers b)\<rparr>)))"

datatype try_send = SendOk | SendFull | SendClosed

definition try_send :: "nat \<Rightarrow> broadcaster \<Rightarrow> try_send" where
  "try_send i b =
     (if i \<notin> receivers b then SendClosed
      else if length (queues b i) \<ge> QUEUE_DEPTH then SendFull else SendOk)"

text \<open>Whether the event is for this subscriber at all.\<close>

definition for_subscriber :: "string \<Rightarrow> subscriber \<Rightarrow> bool" where
  "for_subscriber audience s \<longleftrightarrow> \<not> (audience = ''admin'' \<and> \<not> is_admin s)"

definition notify :: "string \<Rightarrow> string \<Rightarrow> string \<Rightarrow> broadcaster \<Rightarrow> broadcaster" where
  "notify org_id audience payload b =
     (case map_of (subscribers b) org_id of
        None \<Rightarrow> b
      | Some subs \<Rightarrow>
          (let keeps = (\<lambda>s. \<not> for_subscriber audience s \<or> try_send (sub_id s) b \<noteq> SendFull);
               sent = set (map sub_id (filter (\<lambda>s. for_subscriber audience s \<and> try_send (sub_id s) b = SendOk) subs))
           in b\<lparr>subscribers := AList.update org_id (filter keeps subs) (subscribers b),
                queues := (\<lambda>i. if i \<in> sent then queues b i @ [payload] else queues b i)\<rparr>))"

definition unsubscribe :: "string \<Rightarrow> nat \<Rightarrow> broadcaster \<Rightarrow> broadcaster" where
  "unsubscribe org_id i b =
     (case map_of (subscribers b) org_id of
        None \<Rightarrow> b
      | Some subs \<Rightarrow> b\<lparr>subscribers := AList.update org_id (filter (\<lambda>s. sub_id s \<noteq> i) subs) (subscribers b)\<rparr>)"

text \<open>Dropping a subscription: its receiver goes, with what was queued, and then its slot.\<close>

definition drop_subscription :: "string \<Rightarrow> nat \<Rightarrow> broadcaster \<Rightarrow> broadcaster" where
  "drop_subscription org_id i b =
     unsubscribe org_id i (b\<lparr>receivers := receivers b - {i}, queues := (queues b)(i := [])\<rparr>)"

datatype recv = Event string | Ended | Quiet

definition registered :: "string \<Rightarrow> nat \<Rightarrow> broadcaster \<Rightarrow> bool" where
  "registered org_id i b \<longleftrightarrow> i \<in> sub_id ` set (subscribers_of org_id b)"

text \<open>\<open>recv\<close>: the channel ends once its sender, the registry's entry, is gone and it is empty.\<close>

definition recv :: "string \<Rightarrow> nat \<Rightarrow> broadcaster \<Rightarrow> recv \<times> broadcaster" where
  "recv org_id i b =
     (case queues b i of
        e # q \<Rightarrow> (Event e, b\<lparr>queues := (queues b)(i := q)\<rparr>)
      | [] \<Rightarrow> (if registered org_id i b then Quiet else Ended, b))"

text \<open>The frame a stream writes, after its greeting; \<open>None\<close> ends the response.\<close>

fun frame :: "recv \<Rightarrow> string option" where
  "frame (Event e) = Some (''data: '' @ e @ [CHR 0x0A, CHR 0x0A])"
| "frame Quiet = Some ('': keepalive'' @ [CHR 0x0A, CHR 0x0A])"
| "frame Ended = None"

definition counts :: "broadcaster \<Rightarrow> nat \<times> nat" where
  "counts b =
     (length (filter (\<lambda>(_, s). s \<noteq> []) (subscribers b)), sum_list (map (\<lambda>(_, s). length s) (subscribers b)))"

definition clear_subscribers :: "broadcaster \<Rightarrow> broadcaster" where
  "clear_subscribers b = b\<lparr>subscribers := []\<rparr>"

section \<open>Streams and notifications interleaved\<close>

record sub_info =
  info_org :: string
  info_admin :: bool
  info_start :: nat
  info_got :: "string list"

record sse_sys =
  bc :: broadcaster
  subs :: "nat \<Rightarrow> sub_info option"
  notified :: "(string \<times> string \<times> string) list"

definition sse_init :: sse_sys where
  "sse_init = \<lparr>bc = broadcaster_default, subs = (\<lambda>_. None), notified = []\<rparr>"

inductive sse_step :: "sse_sys \<Rightarrow> sse_sys \<Rightarrow> bool" where
  subscribe:
    "subscribe org admin cap (bc s) = (Some i, b) \<Longrightarrow>
     sse_step s (s\<lparr>bc := b,
       subs := (subs s)(i \<mapsto> \<lparr>info_org = org, info_admin = admin, info_start = length (notified s), info_got = []\<rparr>)\<rparr>)"
| refuse: "subscribe org admin cap (bc s) = (None, b) \<Longrightarrow> sse_step s (s\<lparr>bc := b\<rparr>)"
| notify: "sse_step s (s\<lparr>bc := notify org aud p (bc s), notified := notified s @ [(org, aud, p)]\<rparr>)"
| receive:
    "subs s i = Some info \<Longrightarrow> recv (info_org info) i (bc s) = (Event e, b) \<Longrightarrow>
     sse_step s (s\<lparr>bc := b, subs := (subs s)(i \<mapsto> info\<lparr>info_got := info_got info @ [e]\<rparr>)\<rparr>)"
| hang_up:
    "subs s i = Some info \<Longrightarrow>
     sse_step s (s\<lparr>bc := drop_subscription (info_org info) i (bc s), subs := (subs s)(i := None)\<rparr>)"

inductive sse_reach :: "sse_sys \<Rightarrow> bool" where
  init: "sse_reach sse_init"
| step: "sse_reach s \<Longrightarrow> sse_step s s' \<Longrightarrow> sse_reach s'"

text \<open>What a subscriber is owed: the events for its organisation and audience since it came.\<close>

definition owed :: "(string \<times> string \<times> string) list \<Rightarrow> sub_info \<Rightarrow> string list" where
  "owed lg info =
     map (\<lambda>(org, aud, p). p)
       (filter (\<lambda>(org, aud, p). org = info_org info \<and> (aud = ''admin'' \<longrightarrow> info_admin info)) (drop (info_start info) lg))"

section \<open>The invariant\<close>

definition reg_ok :: "broadcaster \<Rightarrow> (nat \<Rightarrow> sub_info option) \<Rightarrow> bool" where
  "reg_ok b sb \<longleftrightarrow>
     hash_ok (subscribers b) \<and> receivers b = dom sb \<and> (\<forall>i \<in> dom sb. i \<le> next_sub b) \<and>
     (\<forall>org. distinct (map sub_id (subscribers_of org b))) \<and>
     (\<forall>org. \<forall>s \<in> set (subscribers_of org b).
        \<exists>info. sb (sub_id s) = Some info \<and> info_org info = org \<and> info_admin info = is_admin s)"

definition sub_ok :: "broadcaster \<Rightarrow> (string \<times> string \<times> string) list \<Rightarrow> nat \<Rightarrow> sub_info \<Rightarrow> bool" where
  "sub_ok b lg i info \<longleftrightarrow>
     length (queues b i) \<le> QUEUE_DEPTH \<and> info_start info \<le> length lg \<and>
     prefix (info_got info @ queues b i) (owed lg info) \<and>
     (registered (info_org info) i b \<longrightarrow> info_got info @ queues b i = owed lg info)"

definition sse_inv :: "sse_sys \<Rightarrow> bool" where
  "sse_inv s \<longleftrightarrow> reg_ok (bc s) (subs s) \<and> (\<forall>i info. subs s i = Some info \<longrightarrow> sub_ok (bc s) (notified s) i info)"

lemma subscribers_of_update [simp]:
  "subscribers_of o1 (b\<lparr>subscribers := AList.update o2 l (subscribers b)\<rparr>) = (if o1 = o2 then l else subscribers_of o1 b)"
  by (simp add: subscribers_of_def AList.update_conv')

lemma owed_snoc:
  "info_start info \<le> length lg \<Longrightarrow>
   owed (lg @ [(org, aud, p)]) info =
     owed lg info @ (if org = info_org info \<and> (aud = ''admin'' \<longrightarrow> info_admin info) then [p] else [])"
  by (simp add: owed_def)

text \<open>What a notification does, with the organisation's list written out.\<close>

lemma notify_simps:
  "subscribers_of o1 (notify org aud p b) =
     (if o1 = org
      then filter (\<lambda>s. \<not> for_subscriber aud s \<or> try_send (sub_id s) b \<noteq> SendFull) (subscribers_of org b)
      else subscribers_of o1 b)"
  "queues (notify org aud p b) i =
     (if \<exists>s \<in> set (subscribers_of org b). sub_id s = i \<and> for_subscriber aud s \<and> try_send i b = SendOk
      then queues b i @ [p] else queues b i)"
  "receivers (notify org aud p b) = receivers b"
  "next_sub (notify org aud p b) = next_sub b"
  "hash_ok (subscribers b) \<Longrightarrow> hash_ok (subscribers (notify org aud p b))"
  by (auto simp: notify_def Let_def subscribers_of_def AList.update_conv' hash.ok_put split: option.splits)

lemma reg_ok_notify: "reg_ok b sb \<Longrightarrow> reg_ok (notify org aud p b) sb"
  by (auto simp: reg_ok_def notify_simps distinct_map_filter)

text \<open>Who a registered subscriber is.\<close>

lemma registered_sub:
  assumes "reg_ok b sb" "sb i = Some info" "s \<in> set (subscribers_of org b)" "sub_id s = i"
  shows "org = info_org info" "is_admin s = info_admin info" "i \<in> receivers b"
proof -
  have "\<exists>info. sb (sub_id s) = Some info \<and> info_org info = org \<and> info_admin info = is_admin s"
    using assms(1,3) unfolding reg_ok_def by blast
  then show "org = info_org info" "is_admin s = info_admin info" using assms(2,4) by auto
  show "i \<in> receivers b" using assms(1,2) by (auto simp: reg_ok_def)
qed

lemma sub_ok_notify:
  assumes "reg_ok b sb" "sb i = Some info" "sub_ok b lg i info"
  shows "sub_ok (notify org aud p b) (lg @ [(org, aud, p)]) i info"
proof -
  let ?b = "notify org aud p b"
  have start: "info_start info \<le> length lg" using assms(3) by (simp add: sub_ok_def)
  note ow = owed_snoc [OF start, of org aud p]
  have pre: "prefix (owed lg info) (owed (lg @ [(org, aud, p)]) info)" by (simp add: ow)
  have rec: "i \<in> receivers b" using assms(1,2) by (auto simp: reg_ok_def)
  have dist: "distinct (map sub_id (subscribers_of org b))" using assms(1) by (simp add: reg_ok_def)
  show ?thesis
  proof (cases "\<exists>s \<in> set (subscribers_of org b). sub_id s = i \<and> for_subscriber aud s")
    case True
    then obtain s where s: "s \<in> set (subscribers_of org b)" "sub_id s = i" "for_subscriber aud s" by blast
    have org: "org = info_org info" and adm: "is_admin s = info_admin info"
      using registered_sub [OF assms(1,2) s(1,2)] by auto
    have due: "aud = ''admin'' \<longrightarrow> info_admin info" using s(3) adm by (simp add: for_subscriber_def)
    have reg: "registered (info_org info) i b" using s org by (auto simp: registered_def)
    then have eq: "info_got info @ queues b i = owed lg info" using assms(3) by (simp add: sub_ok_def)
    show ?thesis
    proof (cases "length (queues b i) \<ge> QUEUE_DEPTH")
      case True
      then have full: "try_send i b = SendFull" using rec by (simp add: try_send_def)
      then have q: "queues ?b i = queues b i" by (simp add: notify_simps(2))
      have "\<not> registered (info_org info) i ?b"
      proof
        assume "registered (info_org info) i ?b"
        then obtain s' where s': "s' \<in> set (subscribers_of org b)" "sub_id s' = i" "\<not> for_subscriber aud s'"
          using org full by (auto simp: registered_def notify_simps(1))
        then have "s' = s" using s(1,2) dist by (metis distinct_map inj_onD)
        with s'(3) s(3) show False by simp
      qed
      then show ?thesis unfolding sub_ok_def q using assms(3) pre prefix_order.trans by (auto simp: sub_ok_def)
    next
      case False
      then have "try_send i b = SendOk" using rec by (simp add: try_send_def)
      then have q: "queues ?b i = queues b i @ [p]" using s by (auto simp: notify_simps(2))
      have ow': "owed (lg @ [(org, aud, p)]) info = owed lg info @ [p]" using due org ow by simp
      have "info_got info @ queues b i @ [p] = owed lg info @ [p]" using eq by simp
      then show ?thesis using assms(3) q False by (simp add: sub_ok_def ow')
    qed
  next
    case False
    then have q: "queues ?b i = queues b i" by (auto simp: notify_simps(2))
    have reg: "registered (info_org info) i ?b \<Longrightarrow> registered (info_org info) i b"
      by (auto simp: registered_def notify_simps(1) split: if_splits)
    have "\<not> (org = info_org info \<and> (aud = ''admin'' \<longrightarrow> info_admin info))" if r0: "registered (info_org info) i b"
    proof
      assume d: "org = info_org info \<and> (aud = ''admin'' \<longrightarrow> info_admin info)"
      then obtain s where s: "s \<in> set (subscribers_of org b)" "sub_id s = i" using r0 by (auto simp: registered_def)
      then have "for_subscriber aud s" using registered_sub(2) [OF assms(1,2) s] d by (simp add: for_subscriber_def)
      with False s show False by blast
    qed
    then show ?thesis using assms(3) q reg by (auto simp: sub_ok_def ow)
  qed
qed

lemma subscribe_Some:
  assumes "subscribe org admin cap b = (Some i, b')"
  shows "i = next_sub b + 1" "length (subscribers_of org b) < cap"
    "b' = b\<lparr>next_sub := i,
        subscribers := AList.update org (subscribers_of org b @ [\<lparr>sub_id = i, is_admin = admin\<rparr>]) (subscribers b),
        queues := (queues b)(i := []), receivers := insert i (receivers b)\<rparr>"
  using assms by (auto simp: subscribe_def Let_def split: if_splits)

lemma subscribers_of_fields [simp]:
  "subscribers_of org (b\<lparr>queues := q\<rparr>) = subscribers_of org b"
  "subscribers_of org (b\<lparr>receivers := r\<rparr>) = subscribers_of org b"
  "subscribers_of org (b\<lparr>next_sub := n\<rparr>) = subscribers_of org b"
  by (simp_all add: subscribers_of_def)

lemma reg_id_bound: "reg_ok b sb \<Longrightarrow> s \<in> set (subscribers_of org b) \<Longrightarrow> sub_id s \<le> next_sub b"
  unfolding reg_ok_def by blast

lemma sse_inv_subscribe:
  assumes "sse_inv s" "subscribe org admin cap (bc s) = (Some i, b)"
  defines "info \<equiv> \<lparr>info_org = org, info_admin = admin, info_start = length (notified s), info_got = []\<rparr>"
  shows "sse_inv (s\<lparr>bc := b, subs := (subs s)(i \<mapsto> info)\<rparr>)"
proof -
  note b = subscribe_Some [OF assms(2)]
  have r: "reg_ok (bc s) (subs s)" using assms(1) by (simp add: sse_inv_def)
  have fresh: "sub_id x \<noteq> i" if "x \<in> set (subscribers_of o1 (bc s))" for x o1
    using reg_id_bound [OF r that] b(1) by simp
  have so: "subscribers_of o1 b =
      (if o1 = org then subscribers_of org (bc s) @ [\<lparr>sub_id = i, is_admin = admin\<rparr>] else subscribers_of o1 (bc s))" for o1
    by (simp add: b(3) subscribers_of_def AList.update_conv')
  have "reg_ok b ((subs s)(i \<mapsto> info))"
    unfolding reg_ok_def
  proof (intro conjI allI ballI)
    show "hash_ok (subscribers b)" using r by (simp add: b(3) reg_ok_def hash.ok_put)
    show "receivers b = dom ((subs s)(i \<mapsto> info))" using r by (simp add: b(3) reg_ok_def)
    show "j \<le> next_sub b" if "j \<in> dom ((subs s)(i \<mapsto> info))" for j
      using r that b(1) by (auto simp: b(3) reg_ok_def split: if_splits) (metis domI le_SucI)
    show "distinct (map sub_id (subscribers_of o1 b))" for o1
      using r fresh by (auto simp: so reg_ok_def)
    show "\<exists>inf. ((subs s)(i \<mapsto> info)) (sub_id x) = Some inf \<and> info_org inf = o1 \<and> info_admin inf = is_admin x"
      if "x \<in> set (subscribers_of o1 b)" for o1 x
    proof (cases "sub_id x = i")
      case True
      then have "o1 = org" "x = \<lparr>sub_id = i, is_admin = admin\<rparr>"
        using that fresh by (auto simp: so split: if_splits)
      then show ?thesis by (simp add: info_def)
    next
      case False
      then have "x \<in> set (subscribers_of o1 (bc s))" using that by (auto simp: so split: if_splits)
      then show ?thesis using r False unfolding reg_ok_def by auto
    qed
  qed
  moreover have "sub_ok b (notified s) j inf" if "((subs s)(i \<mapsto> info)) j = Some inf" for j inf
  proof (cases "j = i")
    case True
    then have "inf = info" using that by simp
    then show ?thesis using True by (simp add: sub_ok_def b(3) info_def owed_def QUEUE_DEPTH_def)
  next
    case False
    then have "sub_ok (bc s) (notified s) j inf" using that assms(1) by (simp add: sse_inv_def)
    moreover have "registered o1 j b \<longleftrightarrow> registered o1 j (bc s)" for o1 using False by (auto simp: registered_def so)
    moreover have "queues b j = queues (bc s) j" using False by (simp add: b(3))
    ultimately show ?thesis by (simp add: sub_ok_def)
  qed
  ultimately show ?thesis by (simp add: sse_inv_def)
qed

lemma sse_inv_refuse:
  assumes "sse_inv s" "subscribe org admin cap (bc s) = (None, b)"
  shows "sse_inv (s\<lparr>bc := b\<rparr>)"
proof -
  have b: "b = bc s\<lparr>subscribers := AList.update org (subscribers_of org (bc s)) (subscribers (bc s))\<rparr>"
    using assms(2) by (auto simp: subscribe_def Let_def split: if_splits)
  have so: "subscribers_of o1 b = subscribers_of o1 (bc s)" for o1 by (simp add: b)
  have "reg_ok b (subs s)" using assms(1) hash.ok_put [of "subscribers (bc s)"] so
    by (simp add: sse_inv_def reg_ok_def b)
  moreover have "sub_ok b lg i info \<longleftrightarrow> sub_ok (bc s) lg i info" for lg i info
    by (simp add: sub_ok_def registered_def so) (simp add: b)
  ultimately show ?thesis using assms(1) by (simp add: sse_inv_def)
qed

lemma sse_inv_receive:
  assumes "sse_inv s" "subs s i = Some info" "recv (info_org info) i (bc s) = (Event e, b)"
  shows "sse_inv (s\<lparr>bc := b, subs := (subs s)(i \<mapsto> info\<lparr>info_got := info_got info @ [e]\<rparr>)\<rparr>)"
proof -
  obtain q where q: "queues (bc s) i = e # q" and b: "b = bc s\<lparr>queues := (queues (bc s))(i := q)\<rparr>"
    using assms(3) by (auto simp: recv_def split: list.splits if_splits)
  have so: "subscribers_of o1 b = subscribers_of o1 (bc s)" for o1 by (simp add: b)
  have r: "reg_ok (bc s) (subs s)" using assms(1) by (simp add: sse_inv_def)
  have "receivers b = dom ((subs s)(i \<mapsto> info\<lparr>info_got := info_got info @ [e]\<rparr>))"
    using r assms(2) by (auto simp: reg_ok_def b)
  moreover have "\<exists>inf. ((subs s)(i \<mapsto> info\<lparr>info_got := info_got info @ [e]\<rparr>)) (sub_id x) = Some inf \<and>
      info_org inf = o1 \<and> info_admin inf = is_admin x" if "x \<in> set (subscribers_of o1 (bc s))" for o1 x
    using registered_sub [OF r _ that] r that assms(2) unfolding reg_ok_def by (cases "sub_id x = i") auto
  ultimately have "reg_ok b ((subs s)(i \<mapsto> info\<lparr>info_got := info_got info @ [e]\<rparr>))"
    using r assms(2) so by (auto simp: reg_ok_def b)
  moreover have "sub_ok b (notified s) j inf"
    if "((subs s)(i \<mapsto> info\<lparr>info_got := info_got info @ [e]\<rparr>)) j = Some inf" for j inf
  proof (cases "j = i")
    case True
    have "sub_ok (bc s) (notified s) i info" using assms(1,2) by (simp add: sse_inv_def)
    then show ?thesis using that True by (auto simp: sub_ok_def registered_def so q owed_def) (simp_all add: b)
  next
    case False
    then have "sub_ok (bc s) (notified s) j inf" using that assms(1) by (simp add: sse_inv_def)
    then show ?thesis using False by (simp add: sub_ok_def registered_def so) (simp add: b)
  qed
  ultimately show ?thesis by (simp add: sse_inv_def)
qed

lemma drop_simps:
  "subscribers_of o1 (drop_subscription org i b) =
     (if o1 = org then filter (\<lambda>s. sub_id s \<noteq> i) (subscribers_of org b) else subscribers_of o1 b)"
  "queues (drop_subscription org i b) = (queues b)(i := [])"
  "receivers (drop_subscription org i b) = receivers b - {i}"
  "next_sub (drop_subscription org i b) = next_sub b"
  "hash_ok (subscribers b) \<Longrightarrow> hash_ok (subscribers (drop_subscription org i b))"
  by (auto simp: drop_subscription_def unsubscribe_def subscribers_of_def AList.update_conv' hash.ok_put split: option.splits)

lemma sse_inv_hang_up:
  assumes "sse_inv s" "subs s i = Some info"
  shows "sse_inv (s\<lparr>bc := drop_subscription (info_org info) i (bc s), subs := (subs s)(i := None)\<rparr>)"
proof -
  let ?b = "drop_subscription (info_org info) i (bc s)"
  have r: "reg_ok (bc s) (subs s)" using assms(1) by (simp add: sse_inv_def)
  have gone: "sub_id x \<noteq> i" if "x \<in> set (subscribers_of o1 ?b)" for o1 x
    using that registered_sub(1) [OF r assms(2), of x o1] by (auto simp: drop_simps(1) split: if_splits)
  have sub: "set (subscribers_of o1 ?b) \<subseteq> set (subscribers_of o1 (bc s))" for o1 by (auto simp: drop_simps(1))
  have "\<exists>inf. ((subs s)(i := None)) (sub_id x) = Some inf \<and> info_org inf = o1 \<and> info_admin inf = is_admin x"
    if "x \<in> set (subscribers_of o1 ?b)" for o1 x
    using gone [OF that] that sub r unfolding reg_ok_def by (simp add: subset_iff)
  then have "reg_ok ?b ((subs s)(i := None))"
    using r by (auto simp: reg_ok_def drop_simps distinct_map_filter)
  moreover have "sub_ok ?b (notified s) j inf" if "((subs s)(i := None)) j = Some inf" for j inf
  proof -
    have j: "j \<noteq> i" "sub_ok (bc s) (notified s) j inf" using that assms(1) by (auto simp: sse_inv_def split: if_splits)
    have "registered o1 j ?b \<Longrightarrow> registered o1 j (bc s)" for o1 using sub by (auto simp: registered_def)
    then show ?thesis using j by (auto simp: sub_ok_def drop_simps(2))
  qed
  ultimately show ?thesis by (simp add: sse_inv_def)
qed

lemma sse_inv_step: "sse_step s s' \<Longrightarrow> sse_inv s \<Longrightarrow> sse_inv s'"
proof (induction rule: sse_step.induct)
  case (notify s org aud p)
  then show ?case using reg_ok_notify sub_ok_notify [of "bc s" "subs s"] by (auto simp: sse_inv_def)
qed (auto intro: sse_inv_subscribe sse_inv_refuse sse_inv_receive sse_inv_hang_up)

lemma sse_inv_reach: "sse_reach s \<Longrightarrow> sse_inv s"
proof (induction rule: sse_reach.induct)
  case init
  then show ?case
    by (simp add: sse_init_def sse_inv_def reg_ok_def broadcaster_default_def subscribers_of_def)
qed (auto intro: sse_inv_step)

section \<open>Properties\<close>

text \<open>
  C19. What a stream receives, under any interleaving of subscriptions, notifications, reads
  and hang-ups: the events it has read followed by those queued for it are a prefix of the
  events sent to its organisation since it subscribed, in order, each once, with the
  admin-only ones left out for a viewer; nothing is missing while it is registered, so it
  loses events only by falling a hundred behind, and then its stream ends after what was
  queued; and no queue holds more than a hundred events.
\<close>

theorem stream_delivers:
  assumes "sse_reach s" "subs s i = Some info"
  shows "prefix (info_got info @ queues (bc s) i) (owed (notified s) info) \<and>
    (registered (info_org info) i (bc s) \<longrightarrow> info_got info @ queues (bc s) i = owed (notified s) info) \<and>
    (\<not> registered (info_org info) i (bc s) \<and> queues (bc s) i = [] \<longrightarrow>
       frame (fst (recv (info_org info) i (bc s))) = None) \<and>
    length (queues (bc s) i) \<le> QUEUE_DEPTH"
  using sse_inv_reach [OF assms(1)] assms(2) by (auto simp: sse_inv_def sub_ok_def recv_def)

definition sse_demo :: sse_sys where
  "sse_demo = sse_init\<lparr>bc := snd (subscribe ''o'' False 5 broadcaster_default),
     subs := (subs sse_init)(1 \<mapsto> \<lparr>info_org = ''o'', info_admin = False, info_start = 0, info_got = []\<rparr>)\<rparr>"

lemma sse_demo_reach: "sse_reach sse_demo"
proof (rule sse_reach.step [OF sse_reach.init])
  have "subscribe ''o'' False 5 (bc sse_init) = (Some 1, snd (subscribe ''o'' False 5 broadcaster_default))"
    by (simp add: subscribe_def subscribers_of_def sse_init_def broadcaster_default_def)
  from sse_step.subscribe [OF this] show "sse_step sse_init sse_demo" by (simp add: sse_demo_def sse_init_def)
qed

theorem stream_delivers_witness:
  "queues (notify ''o'' ''admin'' ''secret'' (notify ''o'' ''all'' ''hi'' (bc sse_demo))) 1 = [''hi'']"
proof -
  let ?s1 = "sse_demo\<lparr>bc := notify ''o'' ''all'' ''hi'' (bc sse_demo), notified := notified sse_demo @ [(''o'', ''all'', ''hi'')]\<rparr>"
  let ?s2 = "?s1\<lparr>bc := notify ''o'' ''admin'' ''secret'' (bc ?s1), notified := notified ?s1 @ [(''o'', ''admin'', ''secret'')]\<rparr>"
  have "sse_reach ?s2"
    by (rule sse_reach.step [OF sse_reach.step [OF sse_demo_reach sse_step.notify] sse_step.notify])
  moreover have "subs ?s2 1 = Some \<lparr>info_org = ''o'', info_admin = False, info_start = 0, info_got = []\<rparr>"
    by (simp add: sse_demo_def)
  moreover have "subscribers_of ''o'' (bc sse_demo) = [\<lparr>sub_id = 1, is_admin = False\<rparr>]" "queues (bc sse_demo) 1 = []"
    by (simp_all add: sse_demo_def subscribe_def subscribers_of_def broadcaster_default_def)
  then have "registered ''o'' 1 (bc ?s2)"
    by (simp add: registered_def notify_simps for_subscriber_def try_send_def QUEUE_DEPTH_def)
  ultimately show ?thesis
    using stream_delivers [of ?s2 1] by (simp add: owed_def) (simp add: sse_demo_def sse_init_def)
qed

end
