(* ===== verification/Versions.thy ===== *)
theory Versions
  imports Json "HOL-Library.Product_Lexorder"
begin

text \<open>
  \<^verbatim>\<open>backend-rs/src/versions.rs\<close>: the release cache and the comparison of a node's build with
  the oldest supported and the latest one. A component of a version is a \<open>u64\<close>, a natural
  number below \<open>2\<^sup>6\<^sup>4\<close>; a response from the release server is \<open>None\<close> unless it was a 200 with a
  JSON body.
\<close>

section \<open>The release cache\<close>

definition RELEASE_TTL :: duration where "RELEASE_TTL = from_secs 600"

type_synonym release_cache = "(json \<times> instant) option"

definition strip_leading_v :: "string \<Rightarrow> string" where
  "strip_leading_v tag =
     (case strip_prefix ''v'' tag of
        Some r \<Rightarrow> r
      | None \<Rightarrow> (case strip_prefix ''V'' tag of Some r \<Rightarrow> r | None \<Rightarrow> tag))"

definition latest_node_version :: "release_cache \<Rightarrow> string \<Rightarrow> string" where
  "latest_node_version cache fallback =
     (case Option.bind (Option.bind cache (\<lambda>(payload, _). json_get ''tag_name'' payload)) as_str of
        Some tag \<Rightarrow> if tag \<noteq> [] then strip_leading_v tag else fallback
      | None \<Rightarrow> fallback)"

definition cached_release :: "release_cache \<Rightarrow> json option" where
  "cached_release cache = map_option fst cache"

text \<open>\<open>now\<close> is when the age is read, \<open>later\<close> when the response arrived.\<close>

definition refresh_release ::
  "instant \<Rightarrow> instant \<Rightarrow> json option \<Rightarrow> bool \<Rightarrow> release_cache \<Rightarrow> json option \<times> release_cache" where
  "refresh_release now later response force cache =
     (case (if force then None
            else case cache of
                Some (payload, fetched_at) \<Rightarrow>
                  if duration_since now fetched_at < RELEASE_TTL then Some payload else None
              | None \<Rightarrow> None) of
        Some payload \<Rightarrow> (Some payload, cache)
      | None \<Rightarrow>
          (case response of
             Some payload \<Rightarrow> (Some payload, Some (payload, later))
           | None \<Rightarrow> (cached_release cache, cache)))"

section \<open>Versions\<close>

definition ascii_space :: "char \<Rightarrow> bool" where
  "ascii_space c \<longleftrightarrow> c \<in> {CHR '' '', CHR 0x09, CHR 0x0A, CHR 0x0D, CHR 0x0B, CHR 0x0C}"

definition parse_u64 :: "string \<Rightarrow> nat" where
  "parse_u64 digits = (if digits_value digits < 2 ^ 64 then digits_value digits else 0)"

text \<open>One component: its value and what follows it.\<close>

definition version_part :: "string \<Rightarrow> (nat \<times> string) option" where
  "version_part chars =
     (let digits = takeWhile is_ascii_digit chars
      in if digits = [] then None else Some (parse_u64 digits, drop (length digits) chars))"

definition parse_version :: "string option \<Rightarrow> nat \<times> nat \<times> nat" where
  "parse_version version =
     (case version of
        None \<Rightarrow> (0, 0, 0)
      | Some v \<Rightarrow>
          (let rest = dropWhile ascii_space v;
               chars = (case strip_prefix ''v'' rest of Some r \<Rightarrow> r | None \<Rightarrow> rest)
           in case version_part chars of
                None \<Rightarrow> (0, 0, 0)
              | Some (a, r1) \<Rightarrow>
                  (case Option.bind (strip_prefix ''.'' r1) version_part of
                     None \<Rightarrow> (0, 0, 0)
                   | Some (b, r2) \<Rightarrow>
                       (case Option.bind (strip_prefix ''.'' r2) version_part of
                          None \<Rightarrow> (0, 0, 0)
                        | Some (c, _) \<Rightarrow> (a, b, c)))))"

definition format_version :: "nat \<times> nat \<times> nat \<Rightarrow> string" where
  "format_version = (\<lambda>(a, b, c). show_nat a @ ''.'' @ show_nat b @ ''.'' @ show_nat c)"

definition check_node_version :: "string option \<Rightarrow> string \<Rightarrow> string \<Rightarrow> json" where
  "check_node_version reported min_supported latest =
     (let parsed = parse_version reported;
          min_parts = parse_version (Some min_supported);
          latest_parts = parse_version (Some latest);
          supported = (if reported = None \<or> reported = Some [] then True else parsed \<ge> min_parts);
          update_available = (if parsed < latest_parts then String (format_version latest_parts) else Null)
      in Object
        [(''reported'', case reported of Some r \<Rightarrow> String r | None \<Rightarrow> Null),
         (''parsed'', String (format_version parsed)),
         (''supported'', Bool supported),
         (''min_supported'', String (format_version min_parts)),
         (''latest'', String (format_version latest_parts)),
         (''update_available'', update_available)])"

section \<open>Properties\<close>

definition u64_triple :: "nat \<times> nat \<times> nat \<Rightarrow> bool" where
  "u64_triple = (\<lambda>(a, b, c). a < 2 ^ 64 \<and> b < 2 ^ 64 \<and> c < 2 ^ 64)"

lemma version_part_show:
  assumes "n < 2 ^ 64" "rest = [] \<or> \<not> is_ascii_digit (hd rest)"
  shows "version_part (show_nat n @ rest) = Some (n, rest)"
proof -
  have "takeWhile is_ascii_digit (show_nat n @ rest) = show_nat n"
    using show_nat_digits [of n] assms(2) by (cases rest) (auto simp: takeWhile_append2)
  then show ?thesis
    using assms(1) show_nat_ne [of n] by (simp add: version_part_def parse_u64_def show_nat_value)
qed

lemma parse_format:
  assumes "u64_triple v" "p \<in> {'''', ''v''}" "\<forall>c \<in> set sp. ascii_space c"
    and "suffix = [] \<or> \<not> is_ascii_digit (hd suffix)"
  shows "parse_version (Some (sp @ p @ format_version v @ suffix)) = v"
proof -
  obtain a b c where v: "v = (a, b, c)" by (cases v) auto
  have lt: "a < 2 ^ 64" "b < 2 ^ 64" "c < 2 ^ 64" using assms(1) by (simp_all add: v u64_triple_def)
  have dot: "\<not> is_ascii_digit (CHR ''.'')" by (simp add: is_ascii_digit_code)
  obtain d ds where d: "show_nat a = d # ds" "is_ascii_digit d"
    using show_nat_ne [of a] show_nat_digits [of a] by (cases "show_nat a") auto
  then have dv: "d \<noteq> CHR ''v''" "\<not> ascii_space d" by (auto simp: is_ascii_digit_code ascii_space_def)
  have "\<not> ascii_space (CHR ''v'')" by (simp add: ascii_space_def)
  then have dw: "dropWhile ascii_space (sp @ p @ format_version v @ suffix) = p @ format_version v @ suffix"
    using assms(2,3) d dv by (auto simp: dropWhile_append2 v format_version_def)
  have pv: "(case strip_prefix ''v'' (p @ format_version v @ suffix) of Some r \<Rightarrow> r
      | None \<Rightarrow> p @ format_version v @ suffix) = format_version v @ suffix"
    using assms(2) d dv by (auto simp: strip_prefix_def v format_version_def)
  have body: "format_version v @ suffix = show_nat a @ (CHR ''.'' # show_nat b @ (CHR ''.'' # show_nat c @ suffix))"
    by (simp add: v format_version_def)
  have sd: "strip_prefix ''.'' (CHR ''.'' # r) = Some r" for r by (simp add: strip_prefix_def)
  show ?thesis
    unfolding parse_version_def Let_def option.case unfolding dw unfolding pv unfolding body
    using lt assms(4) dot by (simp add: version_part_show sd v)
qed

text \<open>
  What a node is told about its build: a version written with or without a leading \<open>v\<close>,
  spaces before it and any suffix that does not go on with digits, is read back as its three
  numbers; the node is supported exactly when they are not lexicographically below the
  oldest supported version, and is offered the latest exactly when they are below it.
\<close>

theorem version_gate:
  assumes "u64_triple v" "u64_triple lo" "u64_triple hi" "p \<in> {'''', ''v''}" "\<forall>c \<in> set sp. ascii_space c"
    and "suffix = [] \<or> \<not> is_ascii_digit (hd suffix)"
  shows "check_node_version (Some (sp @ p @ format_version v @ suffix)) (format_version lo) (format_version hi) =
    Object
      [(''reported'', String (sp @ p @ format_version v @ suffix)),
       (''parsed'', String (format_version v)),
       (''supported'', Bool (lo \<le> v)),
       (''min_supported'', String (format_version lo)),
       (''latest'', String (format_version hi)),
       (''update_available'', if v < hi then String (format_version hi) else Null)]"
proof -
  have "parse_version (Some (format_version lo)) = lo" "parse_version (Some (format_version hi)) = hi"
    using parse_format [of lo "''''" "[]" "[]"] parse_format [of hi "''''" "[]" "[]"] assms(2,3) by simp_all
  moreover have "format_version v \<noteq> []" by (simp add: format_version_def show_nat_ne split: prod.splits)
  ultimately show ?thesis
    using parse_format [OF assms(1,4,5,6)] by (simp add: check_node_version_def Let_def)
qed

theorem version_gate_witness:
  "json_get ''supported'' (check_node_version (Some ('' v'' @ format_version (0, 1, 10) @ ''-rc1'')) (format_version (0, 1, 9))
     (format_version (0, 2, 0))) = Some (Bool True)"
proof -
  have "u64_triple (0, 1, 10)" "u64_triple (0, 1, 9)" "u64_triple (0, 2, 0)" "''v'' \<in> {'''', ''v''}"
    "\<forall>c \<in> set '' ''. ascii_space c" "''-rc1'' = [] \<or> \<not> is_ascii_digit (hd ''-rc1'')"
    by (simp_all add: u64_triple_def ascii_space_def is_ascii_digit_code)
  from version_gate [OF this] show ?thesis by simp
qed

text \<open>A failed refresh keeps serving what was cached, however old.\<close>

lemma refresh_failure_keeps:
  "refresh_release now later None force cache = (cached_release cache, cache)"
  by (auto simp: refresh_release_def cached_release_def split: option.splits)

end
