(* ===== verification/Csv_Export.thy ===== *)
theory Csv_Export
  imports Sentinel_Prelude "HOL-Library.Sublist"
begin

text \<open>
  \<^verbatim>\<open>backend-rs/src/csv_export.rs\<close>: cells and their defanging, the record writer, file names,
  and the chunker that turns a stream of rows into body chunks. Strings are bytes, and every
  character the code looks for is ASCII; where it counts characters (\<open>safe_segment\<close>),
  continuation bytes are skipped. The stream of rows is a list whose items are rows or the
  query's error. \<open>read_csv\<close> is a reader of the format, used to state that writing loses
  nothing.
\<close>

section \<open>Cells\<close>

datatype cell = Text string | Raw string

definition cell_text :: "string option \<Rightarrow> cell" where
  "cell_text value = Text (case value of Some v \<Rightarrow> v | None \<Rightarrow> [])"

definition cell_int :: "int option \<Rightarrow> cell" where
  "cell_int value = (case value of Some v \<Rightarrow> Raw (show_int v) | None \<Rightarrow> Text [])"

definition FORMULA_PREFIXES :: "char list" where
  "FORMULA_PREFIXES = [CHR ''='', CHR ''+'', CHR ''-'', CHR ''@'', CHR 0x09, CHR 0x0D]"

fun rendered :: "cell \<Rightarrow> string" where
  "rendered (Raw v) = v"
| "rendered (Text v) = (if v \<noteq> [] \<and> hd v \<in> set FORMULA_PREFIXES then CHR 0x27 # v else v)"

section \<open>Records\<close>

abbreviation quote :: char where "quote \<equiv> CHR 0x22"
abbreviation cr :: char where "cr \<equiv> CHR 0x0D"
abbreviation lf :: char where "lf \<equiv> CHR 0x0A"

definition needs_quotes :: "bool \<Rightarrow> string \<Rightarrow> bool" where
  "needs_quotes single field \<longleftrightarrow>
     (single \<and> field = []) \<or> (\<exists>c \<in> set field. c \<in> {CHR '','', quote, cr, lf})"

definition double_quotes :: "string \<Rightarrow> string" where
  "double_quotes field = concat (map (\<lambda>c. if c = quote then [quote, c] else [c]) field)"

definition write_field :: "bool \<Rightarrow> string \<Rightarrow> string" where
  "write_field single field =
     (if needs_quotes single field then [quote] @ double_quotes field @ [quote] else field)"

fun write_cells :: "bool \<Rightarrow> cell list \<Rightarrow> string" where
  "write_cells single [] = []"
| "write_cells single [c] = write_field single (rendered c)"
| "write_cells single (c # cs) = write_field single (rendered c) @ '','' @ write_cells single cs"

definition write_row :: "cell list \<Rightarrow> string" where
  "write_row cells = write_cells (length cells = 1) cells @ [cr, lf]"

section \<open>Names\<close>

definition is_ascii_alphanumeric :: "char \<Rightarrow> bool" where
  "is_ascii_alphanumeric c \<longleftrightarrow>
     (CHR ''A'' \<le> c \<and> c \<le> CHR ''Z'') \<or> (CHR ''a'' \<le> c \<and> c \<le> CHR ''z'') \<or> is_ascii_digit c"

definition safe_char :: "char \<Rightarrow> bool" where
  "safe_char c \<longleftrightarrow> is_ascii_alphanumeric c \<or> c \<in> {CHR ''.'', CHR ''_'', CHR ''-''}"

definition continuation :: "char \<Rightarrow> bool" where
  "continuation c \<longleftrightarrow> CHR 0x80 \<le> c \<and> c \<le> CHR 0xBF"

definition safe_segment :: "string \<Rightarrow> string" where
  "safe_segment text =
     concat (map (\<lambda>c. if safe_char c then [c] else if continuation c then [] else ''-'') text)"

definition filename_for_at :: "string \<Rightarrow> string option \<Rightarrow> string \<Rightarrow> string" where
  "filename_for_at pre org_id date =
     (let org = (case org_id of Some org \<Rightarrow> safe_segment org | None \<Rightarrow> ''unknown'')
      in safe_segment pre @ ''-'' @ org @ ''-'' @ date @ ''.csv'')"

definition download_name :: "string \<Rightarrow> string" where
  "download_name filename =
     (let safe = safe_segment filename;
          safe = (if safe = [] then ''export.csv'' else safe)
      in case strip_suffix ''.csv'' safe of Some _ \<Rightarrow> safe | None \<Rightarrow> safe @ ''.csv'')"

section \<open>The body\<close>

definition CHUNK_TARGET_BYTES :: nat where "CHUNK_TARGET_BYTES = 8 * 1024"

text \<open>
  One turn of the chunker: it reads rows until the buffer is large enough, the rows end or the
  query fails. The first component is what it hands on, the second the rows left, and the
  third whether the stream is over.
\<close>

fun fill :: "string \<Rightarrow> ('e + cell list) list \<Rightarrow> ('e + string) option \<times> ('e + cell list) list \<times> bool" where
  "fill buf [] =
     (if length buf < CHUNK_TARGET_BYTES then (if buf = [] then None else Some (Inr buf), [], True)
      else (Some (Inr buf), [], False))"
| "fill buf (item # items) =
     (if length buf < CHUNK_TARGET_BYTES
      then (case item of
              Inr cells \<Rightarrow> fill (buf @ write_row cells) items
            | Inl e \<Rightarrow> (Some (Inl e), items, True))
      else (Some (Inr buf), item # items, False))"

lemma fill_shorter:
  "fill buf items = (r, rest, False) \<Longrightarrow> length buf < CHUNK_TARGET_BYTES \<Longrightarrow> length rest < length items"
proof (induction buf items rule: fill.induct)
  case (2 buf item items)
  show ?case
  proof (cases item)
    case (Inr cells)
    show ?thesis
    proof (cases "length (buf @ write_row cells) < CHUNK_TARGET_BYTES")
      case True
      then show ?thesis using 2 Inr by simp
    next
      case False
      then show ?thesis using 2 Inr by (cases items) auto
    qed
  qed (use 2 in simp)
qed (simp split: if_splits)

function body_chunks :: "('e + cell list) list \<Rightarrow> ('e + string) list" where
  "body_chunks items =
     (case fill [] items of
        (None, _, _) \<Rightarrow> []
      | (Some r, rest, over) \<Rightarrow> r # (if over then [] else body_chunks rest))"
  by pat_completeness auto
termination
proof (relation "measure length")
  fix items rest :: "('e + cell list) list" and x y r over
  assume "(x, y) = fill [] items" "x = Some r" "(rest, over) = y" "\<not> over"
  then have "fill [] items = (Some r, rest, False)" by (metis (full_types))
  then show "(rest, items) \<in> measure length"
    using fill_shorter [of "[]" items "Some r" rest] by (simp add: CHUNK_TARGET_BYTES_def)
qed simp

declare body_chunks.simps [simp del]

definition csv_body :: "string list \<Rightarrow> ('e + cell list) list \<Rightarrow> ('e + string) list" where
  "csv_body header rows = Inr (write_row (map Raw header)) # body_chunks rows"

section \<open>A reader\<close>

text \<open>A quoted field from after its opening quote: the text and what follows the closing quote.\<close>

fun read_quoted :: "string \<Rightarrow> string \<times> string" where
  "read_quoted [] = ([], [])"
| "read_quoted (c # s) =
     (if c = quote then (case s of d # t \<Rightarrow> if d = quote then apfst (Cons quote) (read_quoted t) else ([], s) | [] \<Rightarrow> ([], s))
      else apfst (Cons c) (read_quoted s))"

definition read_field :: "string \<Rightarrow> string \<times> string" where
  "read_field s =
     (case s of
        c # t \<Rightarrow> if c = quote then read_quoted t
                 else (takeWhile (\<lambda>c. c \<noteq> CHR '','' \<and> c \<noteq> cr) s, dropWhile (\<lambda>c. c \<noteq> CHR '','' \<and> c \<noteq> cr) s)
      | [] \<Rightarrow> ([], []))"

lemma length_read_quoted: "length (snd (read_quoted s)) \<le> length s"
proof (induction s rule: read_quoted.induct)
  case (2 c s)
  show ?case
  proof (cases "c = quote")
    case True
    show ?thesis
    proof (cases s)
      case (Cons d t)
      then show ?thesis using 2(1) [OF True Cons] True by (cases "d = quote") (simp_all add: le_SucI)
    qed (use True in simp)
  next
    case False
    then show ?thesis using 2(2) [OF False] by (simp add: le_SucI)
  qed
qed simp

lemma length_read_field: "length (snd (read_field s)) \<le> length s"
proof (cases s)
  case (Cons c t)
  have "length (snd (read_quoted t)) \<le> Suc (length t)" using length_read_quoted [of t] by simp
  then show ?thesis by (simp add: read_field_def Cons le_SucI length_dropWhile_le)
qed (simp add: read_field_def)

function read_record :: "string \<Rightarrow> string list \<times> string" where
  "read_record s =
     (let f = fst (read_field s); r = snd (read_field s)
      in case r of
           c # r' \<Rightarrow>
             if c = CHR '','' then apfst (Cons f) (read_record r')
             else if c = cr \<and> r' \<noteq> [] \<and> hd r' = lf then ([f], tl r') else ([f], [])
         | [] \<Rightarrow> ([f], []))"
  by pat_completeness auto
termination
proof (relation "measure length")
  fix s x xa c r'
  assume "xa = snd (read_field s)" "xa = c # r'"
  then have "length (c # r') \<le> length s" using length_read_field [of s] by metis
  then show "(r', s) \<in> measure length" by simp
qed simp

declare read_record.simps [simp del]

lemma length_read_record: "s \<noteq> [] \<Longrightarrow> length (snd (read_record s)) < length s"
proof (induction s rule: read_record.induct)
  case (1 s)
  show ?case
  proof (cases "snd (read_field s)")
    case Nil
    then show ?thesis using 1 by (subst read_record.simps) simp
  next
    case (Cons c r')
    have l: "length r' < length s" using length_read_field [of s] Cons by simp
    have "length (snd (read_record r')) < length r'" if "c = CHR '',''" "r' \<noteq> []"
      using 1(1) [OF refl refl Cons that(1)] that(2) by simp
    moreover have "snd (read_record []) = []" by (subst read_record.simps) (simp add: read_field_def)
    ultimately have "length (snd (read_record r')) \<le> length r'" if "c = CHR '',''"
      using that by (cases "r' = []") auto
    then show ?thesis using l Cons by (subst read_record.simps) (auto simp: Let_def)
  qed
qed

function read_csv :: "string \<Rightarrow> string list list" where
  "read_csv s = (if s = [] then [] else fst (read_record s) # read_csv (snd (read_record s)))"
  by pat_completeness auto
termination by (relation "measure length") (auto intro: length_read_record)

declare read_csv.simps [simp del]

section \<open>Writing loses nothing\<close>

lemma double_quotes_simps [simp]:
  "double_quotes [] = []"
  "double_quotes (c # s) = (if c = quote then [quote, quote] else [c]) @ double_quotes s"
  by (simp_all add: double_quotes_def)

lemma read_quoted_doubled:
  assumes "rest = [] \<or> hd rest \<noteq> quote"
  shows "read_quoted (double_quotes f @ quote # rest) = (f, rest)"
proof (induction f)
  case Nil
  then show ?case using assms by (cases rest) simp_all
next
  case (Cons c f)
  then show ?case by simp
qed

lemma read_field_write:
  assumes "rest \<noteq> []" "hd rest = CHR '','' \<or> hd rest = cr"
  shows "read_field (write_field single f @ rest) = (f, rest)"
proof (cases "needs_quotes single f")
  case True
  have "rest = [] \<or> hd rest \<noteq> quote" using assms by auto
  then have "read_quoted (double_quotes f @ quote # rest) = (f, rest)" by (rule read_quoted_doubled)
  then show ?thesis using True by (simp add: write_field_def read_field_def)
next
  case False
  then have c: "c \<noteq> CHR '','' \<and> c \<noteq> cr \<and> c \<noteq> quote" if "c \<in> set f" for c
    using that by (auto simp: needs_quotes_def)
  let ?P = "\<lambda>c. c \<noteq> CHR '','' \<and> c \<noteq> cr"
  have all: "\<forall>c \<in> set f. ?P c" using c by blast
  obtain r rs where rest: "rest = r # rs" "\<not> ?P r" "r \<noteq> quote" using assms by (cases rest) auto
  have "takeWhile ?P (f @ rest) = f" "dropWhile ?P (f @ rest) = rest"
    using all rest by (auto simp: takeWhile_append2 dropWhile_append2)
  moreover obtain d ds where d: "f @ rest = d # ds" "d \<noteq> quote"
    using rest c by (cases f) auto
  ultimately show ?thesis using False by (simp add: write_field_def read_field_def)
qed

lemma read_record_write:
  assumes "cells \<noteq> []"
  shows "read_record (write_cells single cells @ cr # lf # rest) = (map rendered cells, rest)"
  using assms
proof (induction single cells rule: write_cells.induct)
  case (2 single c)
  have "read_field (write_field single (rendered c) @ cr # lf # rest) = (rendered c, cr # lf # rest)"
    by (rule read_field_write) simp_all
  then show ?case by (subst read_record.simps) simp
next
  case (3 single c c' cs)
  let ?rest = "CHR '','' # write_cells single (c' # cs) @ cr # lf # rest"
  have "read_field (write_field single (rendered c) @ ?rest) = (rendered c, ?rest)"
    by (rule read_field_write) simp_all
  moreover have "read_record (write_cells single (c' # cs) @ cr # lf # rest) = (map rendered (c' # cs), rest)"
    using 3 by blast
  ultimately show ?case by (subst read_record.simps) simp
qed simp

lemma read_csv_write:
  assumes "\<forall>cells \<in> set rows. cells \<noteq> []"
  shows "read_csv (concat (map write_row rows)) = map (map rendered) rows"
  using assms
proof (induction rows)
  case Nil
  then show ?case by (simp add: read_csv.simps)
next
  case (Cons cells rows)
  have "read_record (write_row cells @ concat (map write_row rows)) = (map rendered cells, concat (map write_row rows))"
    using read_record_write [of cells "length cells = 1"] Cons.prems by (simp add: write_row_def)
  moreover have "write_row cells \<noteq> []" by (simp add: write_row_def)
  ultimately show ?case using Cons by (subst read_csv.simps) simp
qed

text \<open>The chunks are the rows, in order, cut anywhere.\<close>

lemma fill_rows:
  assumes "fill buf (map Inr rows) = (r, rest, over)"
  shows "\<exists>done_rows left. rows = done_rows @ left \<and> rest = map Inr left \<and>
    (case r of None \<Rightarrow> buf @ concat (map write_row done_rows) = [] | Some x \<Rightarrow> x = Inr (buf @ concat (map write_row done_rows))) \<and>
    (over \<longrightarrow> left = []) \<and> (r = None \<longrightarrow> over)"
  using assms
proof (induction rows arbitrary: buf)
  case Nil
  then show ?case by (auto split: if_splits)
next
  case (Cons cells rows)
  show ?case
  proof (cases "length buf < CHUNK_TARGET_BYTES")
    case True
    then have "fill (buf @ write_row cells) (map Inr rows) = (r, rest, over)" using Cons.prems by simp
    from Cons.IH [OF this] obtain done_rows left where "rows = done_rows @ left" "rest = map Inr left"
      "case r of None \<Rightarrow> (buf @ write_row cells) @ concat (map write_row done_rows) = []
        | Some x \<Rightarrow> x = Inr ((buf @ write_row cells) @ concat (map write_row done_rows))"
      "over \<longrightarrow> left = []" "r = None \<longrightarrow> over" by blast
    then show ?thesis by (intro exI [of _ "cells # done_rows"] exI [of _ left]) (simp split: option.splits)
  next
    case False
    then have "r = Some (Inr buf)" "rest = Inr cells # map Inr rows" "\<not> over" using Cons.prems by auto
    then show ?thesis by (intro exI [of _ "[]"] exI [of _ "cells # rows"]) simp
  qed
qed

lemma body_chunks_rows:
  "\<exists>cs. body_chunks (map Inr rows :: ('e + cell list) list) = map Inr cs \<and> concat cs = concat (map write_row rows)"
proof (induction "length rows" arbitrary: rows rule: less_induct)
  case less
  obtain r rest over where f: "fill [] (map Inr rows :: ('e + cell list) list) = (r, rest, over)"
    by (cases "fill [] (map Inr rows :: ('e + cell list) list)") auto
  obtain done_rows left where rows: "rows = done_rows @ left" "rest = map Inr left"
    and r: "case r of None \<Rightarrow> concat (map write_row done_rows) = [] | Some x \<Rightarrow> x = Inr (concat (map write_row done_rows))"
    and over: "over \<longrightarrow> left = []" "r = None \<longrightarrow> over"
    using fill_rows [OF f] unfolding append_Nil by blast
  show ?case
  proof (cases r)
    case None
    then have "body_chunks (map Inr rows :: ('e + cell list) list) = map Inr []" "concat (map write_row rows) = []"
      using f r rows over by (auto simp: body_chunks.simps)
    then show ?thesis by (metis concat.simps(1))
  next
    case (Some x)
    then have x: "x = Inr (concat (map write_row done_rows))" using r by simp
    show ?thesis
    proof (cases over)
      case True
      then have "body_chunks (map Inr rows :: ('e + cell list) list) = map Inr [concat (map write_row done_rows)]"
        using f Some x by (simp add: body_chunks.simps)
      then show ?thesis using rows over True by (intro exI [of _ "[concat (map write_row done_rows)]"]) simp
    next
      case False
      then have "length left < length rows"
        using fill_shorter [of "[]" "map Inr rows" r rest] f rows(2) by (simp add: CHUNK_TARGET_BYTES_def)
      from less [OF this] obtain cs where "body_chunks (map Inr left :: ('e + cell list) list) = map Inr cs" "concat cs = concat (map write_row left)"
        by blast
      then show ?thesis
        using f Some x False rows
        by (intro exI [of _ "concat (map write_row done_rows) # cs"]) (simp add: body_chunks.simps)
    qed
  qed
qed

section \<open>Properties\<close>

text \<open>
  C37. An export read back is the export: for any header and any rows of at least one cell,
  the body is sent as chunks with no error among them, and a CSV reader gets from their
  concatenation exactly the header and the rendered cells, whatever commas, quotes and line
  breaks they hold; and no text cell is rendered so that a spreadsheet would run it as a
  formula.
\<close>

theorem csv_export_roundtrip:
  assumes "header \<noteq> []" "\<forall>cells \<in> set rows. cells \<noteq> []"
  shows "\<exists>cs. csv_body header (map Inr rows :: ('e + cell list) list) = map Inr cs \<and>
      read_csv (concat cs) = header # map (map rendered) rows \<and>
      (\<forall>v. rendered (Text v) = [] \<or> hd (rendered (Text v)) \<notin> set FORMULA_PREFIXES)"
proof -
  obtain cs where cs: "body_chunks (map Inr rows :: ('e + cell list) list) = map Inr cs" "concat cs = concat (map write_row rows)"
    using body_chunks_rows by blast
  have "read_csv (concat (map write_row (map Raw header # rows))) = map (map rendered) (map Raw header # rows)"
    by (rule read_csv_write) (use assms in auto)
  then have "read_csv (concat (write_row (map Raw header) # cs)) = header # map (map rendered) rows"
    using cs(2) by (simp add: o_def)
  moreover have "csv_body header (map Inr rows :: ('e + cell list) list) = map Inr (write_row (map Raw header) # cs)"
    using cs(1) by (simp add: csv_body_def)
  moreover have "rendered (Text v) = [] \<or> hd (rendered (Text v)) \<notin> set FORMULA_PREFIXES" for v
    by (simp add: FORMULA_PREFIXES_def)
  ultimately show ?thesis by blast
qed

theorem csv_export_roundtrip_witness:
  "\<exists>cs. csv_body [''a'', ''b''] (map Inr [[Text ''=1,2'', Raw ''-5'']] :: (unit + cell list) list) = map Inr cs \<and>
     read_csv (concat cs) = [[''a'', ''b''], [CHR 0x27 # ''=1,2'', ''-5'']]"
proof -
  have "[''a'', ''b''] \<noteq> []" "\<forall>cells \<in> set [[Text ''=1,2'', Raw ''-5'']]. cells \<noteq> []" by simp_all
  from csv_export_roundtrip [OF this] show ?thesis by (auto simp: FORMULA_PREFIXES_def)
qed

end
