(* ===== verification/Utf8.thy ===== *)
theory Utf8
  imports Sentinel_Prelude
begin

text \<open>
  Rust's \<open>char\<close> and \<open>str::chars\<close>: a code point is a natural number, \<open>utf8\<close> writes one and
  \<open>chars\<close> is the standard library's decoder. It is only ever applied to text, that is to
  the encoding of a list of scalar values, where it is the inverse of the encoder.
\<close>

definition scalar :: "nat \<Rightarrow> bool" where
  "scalar n \<longleftrightarrow> n < 0xD800 \<or> 0xE000 \<le> n \<and> n < 0x110000"

definition utf8 :: "nat \<Rightarrow> string" where
  "utf8 n =
     map char_of
       (if n < 0x80 then [n]
        else if n < 0x800 then [0xC0 + n div 64, 0x80 + n mod 64]
        else if n < 0x10000 then [0xE0 + n div 4096, 0x80 + n div 64 mod 64, 0x80 + n mod 64]
        else [0xF0 + n div 262144, 0x80 + n div 4096 mod 64, 0x80 + n div 64 mod 64, 0x80 + n mod 64])"

definition encode_utf8 :: "nat list \<Rightarrow> string" where
  "encode_utf8 cps = concat (map utf8 cps)"

text \<open>The low six bits of the \<open>k\<close>-th byte that follows.\<close>

definition cont :: "nat \<Rightarrow> string \<Rightarrow> nat" where
  "cont k s = (if k < length s then of_char (s ! k) mod 64 else 0)"

fun chars :: "string \<Rightarrow> nat list" where
  "chars [] = []"
| "chars (c # s) =
     (let b = of_char c :: nat
      in if b < 0x80 then b # chars s
         else if b < 0xE0 then (b mod 32 * 64 + cont 0 s) # chars (drop 1 s)
         else if b < 0xF0 then (b mod 16 * 4096 + cont 0 s * 64 + cont 1 s) # chars (drop 2 s)
         else (b mod 8 * 262144 + cont 0 s * 4096 + cont 1 s * 64 + cont 2 s) # chars (drop 3 s))"

declare chars.simps(2) [simp del]

lemma encode_utf8_Nil [simp]: "encode_utf8 [] = []"
  and encode_utf8_Cons [simp]: "encode_utf8 (n # cps) = utf8 n @ encode_utf8 cps"
  and encode_utf8_append [simp]: "encode_utf8 (cps @ cps') = encode_utf8 cps @ encode_utf8 cps'"
  by (simp_all add: encode_utf8_def)

lemma utf8_ascii: "n < 0x80 \<Longrightarrow> utf8 n = [char_of n]"
  by (simp add: utf8_def)

lemma chars_ascii: "of_char c < (0x80 :: nat) \<Longrightarrow> chars (c # s) = of_char c # chars s"
  by (simp add: chars.simps)

lemma lead_mods:
  "(192 + m) mod 32 = m mod 32" "(224 + m) mod 16 = m mod 16" "(240 + m) mod 8 = m mod 8"
  "(128 + m) mod 64 = m mod (64 :: nat)"
  using mod_mult_self1 [of m 6 32] mod_mult_self1 [of m 14 16] mod_mult_self1 [of m 30 8]
    mod_mult_self1 [of m 2 64]
  by (simp_all add: add.commute)

lemma of_char_byte: "m < 256 \<Longrightarrow> of_char (char_of m) = (m :: nat)"
  by simp

lemma base64_digits:
  fixes n :: nat
  shows "n div 4096 * 4096 + n div 64 mod 64 * 64 + n mod 64 = n"
    and "n div 262144 * 262144 + n div 4096 mod 64 * 4096 + n div 64 mod 64 * 64 + n mod 64 = n"
proof -
  have 1: "n div 64 * 64 + n mod 64 = n" by simp
  have 2: "n div 4096 * 64 + n div 64 mod 64 = n div 64"
    using div_mult_mod_eq [of "n div 64" 64] by (simp add: div_mult2_eq [symmetric])
  have 3: "n div 262144 * 64 + n div 4096 mod 64 = n div 4096"
    using div_mult_mod_eq [of "n div 4096" 64] by (simp add: div_mult2_eq [symmetric])
  show "n div 4096 * 4096 + n div 64 mod 64 * 64 + n mod 64 = n" using 1 2 by linarith
  then show "n div 262144 * 262144 + n div 4096 mod 64 * 4096 + n div 64 mod 64 * 64 + n mod 64 = n"
    using 3 by linarith
qed

lemma cont_byte: "m < 64 \<Longrightarrow> of_char (char_of (128 + m)) mod 64 = (m :: nat)"
  by (simp add: lead_mods)

lemma chars_utf8:
  assumes "n < 0x110000"
  shows "chars (utf8 n @ s) = n # chars s"
proof -
  note cs = utf8_def chars.simps cont_def lead_mods of_char_byte cont_byte Let_def
  consider "n < 0x80" | "0x80 \<le> n" "n < 0x800" | "0x800 \<le> n" "n < 0x10000" | "0x10000 \<le> n"
    by linarith
  then show ?thesis
  proof cases
    case 1
    then show ?thesis by (simp add: cs)
  next
    case 2
    then have "n div 64 < 32" by (simp add: div_less_iff_less_mult)
    with 2 show ?thesis by (simp add: cs)
  next
    case 3
    then have "n div 4096 < 16" by (simp add: div_less_iff_less_mult)
    with 3 show ?thesis by (simp add: cs base64_digits)
  next
    case 4
    then have "n div 262144 < 8" using assms by (simp add: div_less_iff_less_mult)
    with 4 show ?thesis by (simp add: cs base64_digits)
  qed
qed

lemma scalar_bound: "scalar n \<Longrightarrow> n < 0x110000"
  by (auto simp: scalar_def)

lemma chars_encode_append:
  "\<forall>n \<in> set cps. scalar n \<Longrightarrow> chars (encode_utf8 cps @ s) = cps @ chars s"
  by (induction cps) (simp_all add: chars_utf8 scalar_bound)

lemma chars_encode: "\<forall>n \<in> set cps. scalar n \<Longrightarrow> chars (encode_utf8 cps) = cps"
  using chars_encode_append [of cps "[]"] by simp

text \<open>A byte below \<open>0x80\<close> occurs in an encoding exactly when it is one of the characters.\<close>

lemma utf8_high:
  assumes "0x80 \<le> n" "n < 0x110000"
  shows "\<exists>ms. utf8 n = map char_of ms \<and> (\<forall>m \<in> set ms. 128 \<le> m \<and> m < (256 :: nat))"
proof -
  have r: "128 + m mod 64 < 256" for m :: nat
    using mod_less_divisor [of 64 m] by linarith
  have d: "n < 2048 \<Longrightarrow> n div 64 < 32" "n < 65536 \<Longrightarrow> n div 4096 < 16" "n div 262144 < 8"
    using assms by (simp_all add: div_less_iff_less_mult)
  show ?thesis
    unfolding utf8_def using assms r d by (intro exI conjI refl) (auto split: if_splits)
qed

lemma ascii_in_utf8:
  assumes "n < 0x110000" "of_char c < (0x80 :: nat)"
  shows "c \<in> set (utf8 n) \<longleftrightarrow> n = of_char c"
proof (cases "n < 0x80")
  case True
  then show ?thesis by (auto simp: utf8_def)
next
  case False
  then obtain ms where "utf8 n = map char_of ms" "\<forall>m \<in> set ms. 128 \<le> m \<and> m < (256 :: nat)"
    using utf8_high assms(1) by (meson not_less)
  then show ?thesis using assms(2) False by fastforce
qed

lemma ascii_in_encode:
  "\<forall>n \<in> set cps. scalar n \<Longrightarrow> of_char c < (0x80 :: nat) \<Longrightarrow> c \<in> set (encode_utf8 cps) \<longleftrightarrow> of_char c \<in> set cps"
  by (induction cps) (auto simp: ascii_in_utf8 scalar_bound)

end
