(* ===== verification/PyRepr.thy ===== *)
theory PyRepr
  imports Json Utf8
begin

text \<open>
  \<^verbatim>\<open>backend-rs/src/pyrepr.rs\<close>: Python's truthiness, \<open>repr()\<close> and \<open>str()\<close> of a JSON value, and
  the two container tests. The shortest digits of a double (\<open>{:e}\<close> of the standard library)
  are an argument, \<open>lower_exp\<close>; the layout around them is the code's. A JSON number is never
  NaN or infinite, and a negative zero is the rational zero. \<open>read_literal\<close> is a reader of
  Python string literals, used to state that \<open>repr_str\<close> loses nothing.
\<close>

section \<open>Truthiness\<close>

fun json_truthy :: "json \<Rightarrow> bool" where
  "json_truthy Null \<longleftrightarrow> False"
| "json_truthy (Bool b) \<longleftrightarrow> b"
| "json_truthy (IntNum n) \<longleftrightarrow> n \<noteq> 0"
| "json_truthy (FloatNum f) \<longleftrightarrow> f \<noteq> 0"
| "json_truthy (String s) \<longleftrightarrow> s \<noteq> []"
| "json_truthy (Array a) \<longleftrightarrow> a \<noteq> []"
| "json_truthy (Object m) \<longleftrightarrow> m \<noteq> []"

section \<open>Spelling\<close>

abbreviation backslash :: char where "backslash \<equiv> CHR 0x5C"
abbreviation squote :: char where "squote \<equiv> CHR 0x27"
abbreviation dquote :: char where "dquote \<equiv> CHR 0x22"

definition hex_char :: "nat \<Rightarrow> char" where
  "hex_char d = (if d < 10 then char_of (48 + d) else char_of (87 + d))"

definition repr_char :: "char \<Rightarrow> nat \<Rightarrow> string" where
  "repr_char q n =
     (if n = 0x5C then [backslash, backslash]
      else if n = 0x0A then [backslash, CHR ''n'']
      else if n = 0x0D then [backslash, CHR ''r'']
      else if n = 0x09 then [backslash, CHR ''t'']
      else if n = of_char q then [backslash, q]
      else if n < 0x20 \<or> 0x7F \<le> n \<and> n \<le> 0xA0 then [backslash, CHR ''x'', hex_char (n div 16), hex_char (n mod 16)]
      else utf8 n)"

definition quote_for :: "string \<Rightarrow> char" where
  "quote_for s = (if squote \<in> set s \<and> dquote \<notin> set s then dquote else squote)"

definition repr_str :: "string \<Rightarrow> string" where
  "repr_str s = (let q = quote_for s in q # concat (map (repr_char q) (chars s)) @ [q])"

text \<open>\<open>format!("{:02}")\<close> of an exponent.\<close>

definition two_digits :: "nat \<Rightarrow> string" where
  "two_digits n = (if n < 10 then CHR ''0'' # show_nat n else show_nat n)"

definition parse_exp :: "string \<Rightarrow> int" where
  "parse_exp s =
     (case strip_prefix ''-'' s of
        Some ds \<Rightarrow> - int (digits_value ds)
      | None \<Rightarrow> int (digits_value s))"

definition repr_float :: "(rat \<Rightarrow> string) \<Rightarrow> rat \<Rightarrow> string" where
  "repr_float lower_exp f =
     (if f = 0 then ''0.0''
      else
        (let sci = lower_exp f;
             mantissa = takeWhile (\<lambda>c. c \<noteq> CHR ''e'') sci;
             ex = (if CHR ''e'' \<in> set sci then parse_exp (drop (length mantissa + 1) sci) else 0);
             sign = (if starts_with ''-'' mantissa then ''-'' else '''');
             digits = filter is_ascii_digit mantissa
         in if - 4 \<le> ex \<and> ex < 16 then
              (let point = ex + 1;
                   body =
                     (if point \<le> 0 then ''0.'' @ replicate (nat (- point)) (CHR ''0'') @ digits
                      else if nat point \<ge> length digits
                      then digits @ replicate (nat point - length digits) (CHR ''0'') @ ''.0''
                      else take (nat point) digits @ ''.'' @ drop (nat point) digits)
               in sign @ body)
            else
              (let m = (if length digits > 1 then take 1 digits @ ''.'' @ drop 1 digits else digits)
               in sign @ m @ ''e'' @ (if ex < 0 then ''-'' else ''+'') @ two_digits (nat \<bar>ex\<bar>))))"

fun join :: "string \<Rightarrow> string list \<Rightarrow> string" where
  "join sep [] = []"
| "join sep [x] = x"
| "join sep (x # xs) = x @ sep @ join sep xs"

fun repr_value :: "(rat \<Rightarrow> string) \<Rightarrow> json \<Rightarrow> string" where
  "repr_value fl Null = ''None''"
| "repr_value fl (Bool b) = (if b then ''True'' else ''False'')"
| "repr_value fl (IntNum n) = show_int n"
| "repr_value fl (FloatNum f) = repr_float fl f"
| "repr_value fl (String s) = repr_str s"
| "repr_value fl (Array items) = ''['' @ join '', '' (map (repr_value fl) items) @ '']''"
| "repr_value fl (Object m) =
     ''{'' @ join '', '' (map (\<lambda>(k, v). repr_str k @ '': '' @ repr_value fl v) m) @ ''}''"

definition str_value :: "(rat \<Rightarrow> string) \<Rightarrow> json \<Rightarrow> string" where
  "str_value fl v = (case v of String s \<Rightarrow> s | other \<Rightarrow> repr_value fl other)"

section \<open>Containers\<close>

fun py_len :: "json \<Rightarrow> nat option" where
  "py_len (String s) = Some (length (chars s))"
| "py_len (Array a) = Some (length a)"
| "py_len (Object m) = Some (length m)"
| "py_len _ = None"

fun is_substring :: "string \<Rightarrow> string \<Rightarrow> bool" where
  "is_substring needle [] \<longleftrightarrow> needle = []"
| "is_substring needle (c # s) \<longleftrightarrow> starts_with needle (c # s) \<or> is_substring needle s"

fun contains_str :: "json \<Rightarrow> string \<Rightarrow> bool option" where
  "contains_str (String s) needle = Some (is_substring needle s)"
| "contains_str (Array a) needle = Some (\<exists>v \<in> set a. as_str v = Some needle)"
| "contains_str (Object m) needle = Some (needle \<in> fst ` set m)"
| "contains_str _ needle = None"

section \<open>\<open>python_float\<close>\<close>

definition underscores_ok :: "string \<Rightarrow> bool" where
  "underscores_ok s \<longleftrightarrow>
     (\<forall>i < length s. s ! i = CHR ''_'' \<longrightarrow>
        0 < i \<and> is_ascii_digit (s ! (i - 1)) \<and> i + 1 < length s \<and> is_ascii_digit (s ! (i + 1)))"

text \<open>\<open>str::parse::<f64>\<close> is the standard library's, an argument here.\<close>

definition python_float :: "(string \<Rightarrow> 'f option) \<Rightarrow> string \<Rightarrow> 'f option" where
  "python_float parse_f64 raw =
     (let trimmed = trim raw
      in if trimmed = [] then None
         else if CHR ''_'' \<in> set trimmed \<and> \<not> underscores_ok trimmed then None
         else parse_f64 (filter (\<lambda>c. c \<noteq> CHR ''_'') trimmed))"

section \<open>Reading a literal back\<close>

definition hex_value :: "nat \<Rightarrow> nat option" where
  "hex_value n =
     (if 48 \<le> n \<and> n \<le> 57 then Some (n - 48) else if 97 \<le> n \<and> n \<le> 102 then Some (n - 87) else None)"

fun read_escape :: "nat list \<Rightarrow> (nat \<times> nat list) option" where
  "read_escape [] = None"
| "read_escape (d # ds) =
     (if d \<in> {0x5C, 0x27, 0x22} then Some (d, ds)
      else if d = 0x6E then Some (0x0A, ds)
      else if d = 0x72 then Some (0x0D, ds)
      else if d = 0x74 then Some (0x09, ds)
      else if d = 0x78 then
        (case ds of
           h # l # rest \<Rightarrow>
             (case (hex_value h, hex_value l) of
                (Some a, Some b) \<Rightarrow> Some (16 * a + b, rest)
              | _ \<Rightarrow> None)
         | _ \<Rightarrow> None)
      else None)"

lemma read_escape_shorter: "read_escape ds = Some (n, rest) \<Longrightarrow> length rest < length ds"
  by (cases ds) (auto split: if_splits list.splits option.splits)

function read_body :: "nat \<Rightarrow> nat list \<Rightarrow> nat list option" where
  "read_body q [] = None"
| "read_body q (c # cs) =
     (if c = q then (if cs = [] then Some [] else None)
      else if c = 0x5C then
        (case read_escape cs of
           None \<Rightarrow> None
         | Some (n, rest) \<Rightarrow> map_option (Cons n) (read_body q rest))
      else if c = 0x0A then None
      else map_option (Cons c) (read_body q cs))"
  by pat_completeness auto
termination
  by (relation "measure (\<lambda>(q, cs). length cs)") (auto dest: read_escape_shorter)

declare read_body.simps(2) [simp del]

definition read_literal :: "string \<Rightarrow> nat list option" where
  "read_literal s =
     (case chars s of
        q # cs \<Rightarrow> if q = 0x27 \<or> q = 0x22 then read_body q cs else None
      | [] \<Rightarrow> None)"

lemma hex_value_char:
  "d < 16 \<Longrightarrow> of_char (hex_char d) < (0x80 :: nat) \<and> hex_value (of_char (hex_char d)) = Some d"
  by (auto simp: hex_char_def hex_value_def of_char_byte)

lemma quote_for_cases: "quote_for s \<in> {squote, dquote}"
  by (simp add: quote_for_def)

lemma read_repr_char:
  assumes "scalar n" "q \<in> {squote, dquote}"
  shows "read_body (of_char q) (chars (repr_char q n @ s)) = map_option (Cons n) (read_body (of_char q) (chars s))"
proof -
  have q: "of_char q < (0x80 :: nat)" "of_char q \<noteq> (0x5C :: nat)" "of_char q \<in> {0x27, 0x22 :: nat}"
    using assms(2) by auto
  note rs = repr_char_def chars_ascii read_body.simps
  consider "n \<in> {0x5C, 0x0A, 0x0D, 0x09, of_char q}"
    | "n \<notin> {0x5C, 0x0A, 0x0D, 0x09, of_char q}" "n < 0x20 \<or> 0x7F \<le> n \<and> n \<le> 0xA0"
    | "n \<notin> {0x5C, 0x0A, 0x0D, 0x09, of_char q}" "\<not> (n < 0x20 \<or> 0x7F \<le> n \<and> n \<le> 0xA0)"
    by blast
  then show ?thesis
  proof cases
    case 1
    then show ?thesis using q by (auto simp: rs)
  next
    case 2
    then have "n div 16 < 16" by (auto simp: div_less_iff_less_mult)
    then show ?thesis
      using 2 q hex_value_char [of "n div 16"] hex_value_char [of "n mod 16"] by (simp add: rs)
  next
    case 3
    then have "repr_char q n = utf8 n" by (auto simp: repr_char_def)
    then show ?thesis
      using 3 by (simp add: chars_utf8 scalar_bound assms(1) read_body.simps)
  qed
qed

lemma read_repr_chars:
  "\<forall>n \<in> set cps. scalar n \<Longrightarrow> q \<in> {squote, dquote} \<Longrightarrow>
   read_body (of_char q) (chars (concat (map (repr_char q) cps) @ [q])) = Some cps"
proof (induction cps)
  case Nil
  then show ?case by (auto simp: chars_ascii read_body.simps)
next
  case (Cons n cps)
  then show ?case using read_repr_char [of n q "concat (map (repr_char q) cps) @ [q]"] by simp
qed

text \<open>
  \<open>repr_str\<close> is faithful: for every text (every list of Unicode scalar values), reading
  its output as a Python string literal gives the text back, whichever quotes it chose. So
  two different values can never be spelled alike in a message or an audit line.
\<close>

theorem repr_str_roundtrip:
  assumes "\<forall>n \<in> set cps. scalar n"
  shows "read_literal (repr_str (encode_utf8 cps)) = Some cps"
proof -
  define q where "q = quote_for (encode_utf8 cps)"
  have q: "q \<in> {squote, dquote}" using quote_for_cases by (simp add: q_def)
  then have "chars (q # concat (map (repr_char q) cps) @ [q])
      = of_char q # chars (concat (map (repr_char q) cps) @ [q])"
    by (auto simp: chars_ascii)
  then show ?thesis
    using q read_repr_chars [OF assms q]
    by (auto simp: read_literal_def repr_str_def Let_def q_def [symmetric] chars_encode [OF assms])
qed

theorem repr_str_roundtrip_witness:
  "read_literal (repr_str (encode_utf8 [0x41, 0x27, 0x5C, 0x0A, 0x85, 0xE9, 0x1F600]))
     = Some [0x41, 0x27, 0x5C, 0x0A, 0x85, 0xE9, 0x1F600]"
  by (rule repr_str_roundtrip) (simp add: scalar_def)

end
