(* ===== verification/Settings.thy ===== *)
theory Settings
  imports Sentinel_Prelude
begin

text \<open>
  \<^verbatim>\<open>backend-rs/src/settings.rs\<close>: the key/value table. The table is the list of its rows in the
  order a query meets them, so \<open>LIMIT 1\<close> is the first match; \<open>set\<close> is check-then-insert, as
  the code has it, and an error of one of its statements leaves the table as it was
  (\<open>None\<close>). The locale \<open>key_value\<close> is what the other components rely on: an update is
  read back and changes nothing else.
\<close>

record setting_row =
  st_id :: int
  st_org :: string
  st_key :: string
  st_value :: "string option"
  st_updated :: int

definition find_setting :: "string \<Rightarrow> string \<Rightarrow> setting_row list \<Rightarrow> setting_row option" where
  "find_setting org key rows = find (\<lambda>r. st_org r = org \<and> st_key r = key) rows"

definition settings_get :: "setting_row list \<Rightarrow> string \<Rightarrow> string \<Rightarrow> string option \<Rightarrow> string option" where
  "settings_get rows org key dflt =
     (case find_setting org key rows of Some r \<Rightarrow> st_value r | None \<Rightarrow> dflt)"

definition payment_past_due :: "setting_row list \<Rightarrow> string \<Rightarrow> bool" where
  "payment_past_due rows org \<longleftrightarrow> settings_get rows org ''payment_past_due'' (Some ''false'') = Some ''true''"

text \<open>The id the database gives to a new row.\<close>

definition next_id :: "setting_row list \<Rightarrow> int" where
  "next_id rows = 1 + foldr max (map st_id rows) 0"

definition write_setting :: "int \<Rightarrow> string \<Rightarrow> string \<Rightarrow> string \<Rightarrow> setting_row list \<Rightarrow> setting_row list" where
  "write_setting now org key value rows =
     (case find_setting org key rows of
        Some r \<Rightarrow>
          if st_value r = Some value then rows
          else map (\<lambda>x. if st_id x = st_id r then x\<lparr>st_value := Some value, st_updated := now\<rparr> else x) rows
      | None \<Rightarrow>
          rows @ [\<lparr>st_id = next_id rows, st_org = org, st_key = key, st_value = Some value, st_updated = now\<rparr>])"

definition settings_set ::
  "bool \<Rightarrow> int \<Rightarrow> string \<Rightarrow> string \<Rightarrow> string \<Rightarrow> setting_row list \<Rightarrow> setting_row list option" where
  "settings_set works now org key value rows =
     (if works then Some (write_setting now org key value rows) else None)"

text \<open>\<open>settings::set(..).await.ok()\<close>: the error is dropped.\<close>

definition set_ignoring ::
  "(string \<Rightarrow> bool) \<Rightarrow> int \<Rightarrow> string \<Rightarrow> string \<Rightarrow> string \<Rightarrow> setting_row list \<Rightarrow> setting_row list" where
  "set_ignoring works now org key value rows =
     (case settings_set (works key) now org key value rows of Some rows' \<Rightarrow> rows' | None \<Rightarrow> rows)"

section \<open>The table as a store\<close>

definition settings_ok :: "setting_row list \<Rightarrow> bool" where
  "settings_ok rows \<longleftrightarrow> distinct (map st_id rows)"

definition stored :: "setting_row list \<Rightarrow> string \<times> string \<Rightarrow> string option option" where
  "stored rows k = map_option st_value (find_setting (fst k) (snd k) rows)"

locale key_value =
  fixes ok :: "'s \<Rightarrow> bool"
    and look :: "'s \<Rightarrow> 'k \<Rightarrow> 'r option"
    and put :: "'k \<Rightarrow> 'v \<Rightarrow> 's \<Rightarrow> 's"
    and wrap :: "'v \<Rightarrow> 'r"
  assumes ok_put: "ok s \<Longrightarrow> ok (put k v s)"
    and look_put: "ok s \<Longrightarrow> look (put k v s) k' = (if k' = k then Some (wrap v) else look s k')"
begin

definition puts :: "('k \<times> 'v) list \<Rightarrow> 's \<Rightarrow> 's" where
  "puts kvs s = fold (\<lambda>(k, v). put k v) kvs s"

lemma puts_simps [simp]: "puts [] s = s" "puts ((k, v) # kvs) s = puts kvs (put k v s)"
  by (simp_all add: puts_def)

lemma ok_puts: "ok s \<Longrightarrow> ok (puts kvs s)"
  by (induction kvs arbitrary: s) (auto simp: ok_put)

lemma look_puts:
  "ok s \<Longrightarrow> look (puts kvs s) k =
     (case map_of (rev kvs) k of Some v \<Rightarrow> Some (wrap v) | None \<Rightarrow> look s k)"
  by (induction kvs arbitrary: s) (auto simp: ok_put look_put map_add_def split: option.split)

end

lemma next_id_fresh: "r \<in> set rows \<Longrightarrow> st_id r < next_id rows"
  by (induction rows) (auto simp: next_id_def)

lemma find_setting_Some:
  "find_setting org key rows = Some r \<Longrightarrow> r \<in> set rows \<and> st_org r = org \<and> st_key r = key"
  by (auto simp: find_setting_def find_Some_iff)

lemma find_setting_map:
  assumes "\<And>x. st_org (f x) = st_org x \<and> st_key (f x) = st_key x"
  shows "find_setting org key (map f rows) = map_option f (find_setting org key rows)"
  by (induction rows) (auto simp: find_setting_def assms)

lemma find_setting_snoc:
  "find_setting org key (rows @ [r]) =
     (case find_setting org key rows of
        Some x \<Rightarrow> Some x | None \<Rightarrow> if st_org r = org \<and> st_key r = key then Some r else None)"
  by (induction rows) (auto simp: find_setting_def)

lemma settings_ok_write: "settings_ok rows \<Longrightarrow> settings_ok (write_setting now org key value rows)"
proof -
  assume ok: "settings_ok rows"
  have "map st_id (map (\<lambda>x. if st_id x = i then x\<lparr>st_value := v, st_updated := now\<rparr> else x) rows) = map st_id rows"
    for i v by simp
  moreover have "next_id rows \<notin> st_id ` set rows" using next_id_fresh by fastforce
  ultimately show ?thesis
    using ok by (auto simp: write_setting_def settings_ok_def split: option.split simp del: map_map)
qed

lemma stored_write:
  assumes "settings_ok rows"
  shows "stored (write_setting now org key value rows) k = (if k = (org, key) then Some (Some value) else stored rows k)"
proof (cases "find_setting org key rows")
  case None
  then show ?thesis
    by (cases k) (auto simp: stored_def write_setting_def find_setting_snoc split: option.split)
next
  case (Some r)
  note r = find_setting_Some [OF Some]
  show ?thesis
  proof (cases "st_value r = Some value")
    case True
    then show ?thesis using Some by (cases k) (auto simp: stored_def write_setting_def)
  next
    case False
    define f :: "setting_row \<Rightarrow> setting_row" where "f = (\<lambda>x. if st_id x = st_id r then x\<lparr>st_value := Some value, st_updated := now\<rparr> else x)"
    have w: "write_setting now org key value rows = map f rows" using Some False by (simp add: write_setting_def f_def)
    have same: "x = r" if "x \<in> set rows" "st_id x = st_id r" for x
      using assms r that by (auto simp: settings_ok_def distinct_map inj_on_def)
    have fm: "find_setting (fst k) (snd k) (map f rows) = map_option f (find_setting (fst k) (snd k) rows)"
      by (rule find_setting_map) (simp add: f_def)
    show ?thesis
    proof (cases "find_setting (fst k) (snd k) rows")
      case None
      then show ?thesis using Some fm by (auto simp: stored_def w)
    next
      case (Some x)
      note x = find_setting_Some [OF Some]
      have "st_id x = st_id r \<longleftrightarrow> k = (org, key)"
      proof
        assume "st_id x = st_id r"
        then have "x = r" using same x by blast
        then show "k = (org, key)" using x r by (simp add: prod_eq_iff)
      next
        assume "k = (org, key)"
        then show "st_id x = st_id r" using Some \<open>find_setting org key rows = Some r\<close> by simp
      qed
      then show ?thesis using Some fm by (auto simp: stored_def w f_def)
    qed
  qed
qed

text \<open>A write is a time and a value.\<close>

interpretation settings: key_value settings_ok stored
  "\<lambda>k (now, v). write_setting now (fst k) (snd k) v" "\<lambda>(now, v). Some v"
  by unfold_locales (auto simp: settings_ok_write stored_write prod_eq_iff)

lemma settings_get_stored:
  "settings_get rows org key dflt = (case stored rows (org, key) of Some v \<Rightarrow> v | None \<Rightarrow> dflt)"
  by (auto simp: settings_get_def stored_def split: option.split)



end
