(* ===== verification/License.thy ===== *)
theory License
  imports Settings Plans PyRepr PyInt
begin

text \<open>
  \<^verbatim>\<open>backend-rs/src/license.rs\<close>: the self-hosted licence gate, its read side and the periodic
  check-in that writes the settings it reads. Points in time are nanoseconds since the epoch;
  chrono's parsers and its formatter are arguments. A check-in takes the body of a 2xx
  response that decoded as JSON, \<open>None\<close> for every other outcome of the request.
\<close>

section \<open>The read side\<close>

definition GRACE_HOURS :: int where "GRACE_HOURS = 72"

definition LICENSE_VALID :: string where "LICENSE_VALID = ''sentinel_license_valid''"
definition LAST_CHECK_AT :: string where "LAST_CHECK_AT = ''sentinel_license_last_check_at''"
definition LAST_CHECK_REACHABLE :: string where "LAST_CHECK_REACHABLE = ''sentinel_license_last_check_reachable''"
definition LAST_OK_AT :: string where "LAST_OK_AT = ''sentinel_license_last_ok_at''"
definition SYNC_ENABLED :: string where "SYNC_ENABLED = ''sentinel_data_sync_enabled''"
definition INSTALL_ID :: string where "INSTALL_ID = ''sentinel_install_id''"
definition LICENSE_GATED_PLAN :: string where "LICENSE_GATED_PLAN = ''self_host''"

definition hours :: "int \<Rightarrow> int" where
  "hours n = n * 3600000000000"

record license_ctx =
  lic_local_auth :: bool
  license_key :: "string option"

definition parse_iso_or_none ::
  "(string \<Rightarrow> int option) \<Rightarrow> (string \<Rightarrow> int option) \<Rightarrow> string \<Rightarrow> int option" where
  "parse_iso_or_none parse_rfc3339 parse_naive raw =
     (case parse_rfc3339 raw of Some dt \<Rightarrow> Some dt | None \<Rightarrow> parse_naive raw)"

definition has_key :: "string option \<Rightarrow> bool" where
  "has_key key \<longleftrightarrow> (case key of Some k \<Rightarrow> k \<noteq> [] | None \<Rightarrow> False)"

definition is_sentinel_licensed ::
  "(string \<Rightarrow> int option) \<Rightarrow> (string \<Rightarrow> int option) \<Rightarrow> license_ctx \<Rightarrow> db_get \<Rightarrow> int \<Rightarrow> bool" where
  "is_sentinel_licensed parse_rfc3339 parse_naive ctx db now =
     (if \<not> lic_local_auth ctx then True
      else if \<not> has_key (license_key ctx) then False
      else if setting db LAST_CHECK_REACHABLE '''' = ''true''
      then setting db LICENSE_VALID '''' = ''true''
      else
        (let last_ok_raw = setting db LAST_OK_AT ''''
         in if last_ok_raw = [] then False
            else case parse_iso_or_none parse_rfc3339 parse_naive last_ok_raw of
                None \<Rightarrow> False
              | Some last_ok_at \<Rightarrow> now - last_ok_at \<le> hours GRACE_HOURS))"

definition is_sync_enabled ::
  "(string \<Rightarrow> int option) \<Rightarrow> (string \<Rightarrow> int option) \<Rightarrow> license_ctx \<Rightarrow> db_get \<Rightarrow> int \<Rightarrow> bool" where
  "is_sync_enabled parse_rfc3339 parse_naive ctx db now =
     (if \<not> lic_local_auth ctx \<or> \<not> has_key (license_key ctx) then False
      else if \<not> is_sentinel_licensed parse_rfc3339 parse_naive ctx db now then False
      else setting db SYNC_ENABLED '''' = ''true'')"

definition sentinel_blocked_by_license ::
  "(string \<Rightarrow> int option) \<Rightarrow> (string \<Rightarrow> int option) \<Rightarrow> license_ctx \<Rightarrow> db_get \<Rightarrow> int \<Rightarrow> string \<Rightarrow> bool" where
  "sentinel_blocked_by_license parse_rfc3339 parse_naive ctx db now plan \<longleftrightarrow>
     plan = LICENSE_GATED_PLAN \<and> \<not> is_sentinel_licensed parse_rfc3339 parse_naive ctx db now"

section \<open>The check-in\<close>

record check_in_outcome =
  attempted :: bool
  reachable :: bool
  valid :: bool
  sync_enabled :: bool

definition outcome_default :: check_in_outcome where
  "outcome_default = \<lparr>attempted = False, reachable = False, valid = False, sync_enabled = False\<rparr>"

definition check_in_outcome_json :: "check_in_outcome \<Rightarrow> json" where
  "check_in_outcome_json c =
     Object [(''attempted'', Bool (attempted c)), (''reachable'', Bool (reachable c)),
             (''valid'', Bool (valid c)), (''sync_enabled'', Bool (sync_enabled c))]"

definition bool_str :: "bool \<Rightarrow> string" where
  "bool_str b = (if b then ''true'' else ''false'')"

text \<open>The row's id and the table; \<open>minted\<close> is what \<open>token_hex\<close> draws.\<close>

definition get_or_create_install_id ::
  "(string \<Rightarrow> bool) \<Rightarrow> int \<Rightarrow> string \<Rightarrow> string \<Rightarrow> setting_row list \<Rightarrow> string \<times> setting_row list" where
  "get_or_create_install_id works now minted org rows =
     (case settings_get rows org INSTALL_ID (Some '''') of
        Some existing \<Rightarrow>
          if existing \<noteq> [] then (existing, rows)
          else (minted, set_ignoring works now org INSTALL_ID minted rows)
      | None \<Rightarrow> (minted, set_ignoring works now org INSTALL_ID minted rows))"

definition flag :: "string \<Rightarrow> json \<Rightarrow> bool" where
  "flag k data = (case json_get k data of Some v \<Rightarrow> json_truthy v | None \<Rightarrow> False)"

definition is_object :: "json \<Rightarrow> bool" where
  "is_object j \<longleftrightarrow> (case j of Object _ \<Rightarrow> True | _ \<Rightarrow> False)"

definition check_in ::
  "(int \<Rightarrow> string) \<Rightarrow> (string \<Rightarrow> bool) \<Rightarrow> string \<Rightarrow> string \<Rightarrow> string option \<Rightarrow> int \<Rightarrow> json option \<Rightarrow>
   setting_row list \<Rightarrow> check_in_outcome \<times> setting_row list" where
  "check_in fmt works minted org key now response rows0 =
     (if \<not> has_key key then (outcome_default, rows0)
      else
        (let now_iso = fmt now;
             rows = snd (get_or_create_install_id works now minted org rows0);
             put = (\<lambda>k v. set_ignoring works now org k v)
         in case response of
              Some data \<Rightarrow>
                if is_object data then
                  (let v = flag ''valid'' data;
                       sync = (v \<and> flag ''sync_enabled'' data);
                       r1 = put LAST_CHECK_AT now_iso rows;
                       r2 = put LAST_CHECK_REACHABLE ''true'' r1;
                       r3 = put LICENSE_VALID (bool_str v) r2;
                       r4 = put SYNC_ENABLED (bool_str sync) r3;
                       r5 = (if v then put LAST_OK_AT now_iso r4 else r4)
                   in (\<lparr>attempted = True, reachable = True, valid = v, sync_enabled = sync\<rparr>, r5))
                else (outcome_default\<lparr>attempted := True\<rparr>,
                      put LAST_CHECK_REACHABLE ''false'' (put LAST_CHECK_AT now_iso rows))
            | None \<Rightarrow> (outcome_default\<lparr>attempted := True\<rparr>,
                      put LAST_CHECK_REACHABLE ''false'' (put LAST_CHECK_AT now_iso rows))))"

section \<open>What a history of check-ins means\<close>

type_synonym check_ins = "(int \<times> json option) list"

definition answered :: "json option \<Rightarrow> bool" where
  "answered r \<longleftrightarrow> (case r of Some d \<Rightarrow> is_object d | None \<Rightarrow> False)"

definition said :: "string \<Rightarrow> json option \<Rightarrow> bool" where
  "said k r \<longleftrightarrow> (case r of Some d \<Rightarrow> is_object d \<and> flag k d | None \<Rightarrow> False)"

text \<open>The newest check-in first: the last one that said valid, and the last one answered.\<close>

definition last_valid :: "check_ins \<Rightarrow> int option" where
  "last_valid h = map_option fst (find (\<lambda>(_, r). said ''valid'' r) h)"

definition last_answer :: "check_ins \<Rightarrow> json option" where
  "last_answer h = (case find (\<lambda>(_, r). answered r) h of Some (_, r) \<Rightarrow> r | None \<Rightarrow> None)"

definition licensed_by :: "check_ins \<Rightarrow> int \<Rightarrow> bool" where
  "licensed_by h now =
     (case h of
        [] \<Rightarrow> False
      | (_, r) # _ \<Rightarrow>
          if answered r then said ''valid'' r
          else case last_valid h of
              Some t \<Rightarrow> now - (t - t mod 1000) \<le> hours GRACE_HOURS
            | None \<Rightarrow> False)"

definition db_of :: "setting_row list \<Rightarrow> string \<Rightarrow> db_get" where
  "db_of rows org key = Some (stored rows (org, key))"

definition records :: "(int \<Rightarrow> string) \<Rightarrow> string \<Rightarrow> check_ins \<Rightarrow> setting_row list \<Rightarrow> bool" where
  "records fmt org h rows \<longleftrightarrow> settings_ok rows \<and>
     stored rows (org, LAST_CHECK_REACHABLE) = (case h of [] \<Rightarrow> None | (_, r) # _ \<Rightarrow> Some (Some (bool_str (answered r)))) \<and>
     stored rows (org, LAST_OK_AT) = map_option (Some \<circ> fmt) (last_valid h) \<and>
     (if \<exists>(t, r) \<in> set h. answered r
      then stored rows (org, LICENSE_VALID) = Some (Some (bool_str (said ''valid'' (last_answer h)))) \<and>
           stored rows (org, SYNC_ENABLED) =
             Some (Some (bool_str (said ''valid'' (last_answer h) \<and> said ''sync_enabled'' (last_answer h))))
      else stored rows (org, LICENSE_VALID) = None \<and> stored rows (org, SYNC_ENABLED) = None)"

lemmas license_keys =
  LICENSE_VALID_def LAST_CHECK_AT_def LAST_CHECK_REACHABLE_def LAST_OK_AT_def SYNC_ENABLED_def INSTALL_ID_def

lemma set_ignoring_works [simp]:
  "set_ignoring (\<lambda>_. True) now org k v = write_setting now org k v"
  by (simp add: set_ignoring_def settings_set_def fun_eq_iff)

lemma install_id_rows:
  assumes "settings_ok rows" "k \<noteq> INSTALL_ID"
  shows "settings_ok (snd (get_or_create_install_id (\<lambda>_. True) now minted org rows)) \<and>
    stored (snd (get_or_create_install_id (\<lambda>_. True) now minted org rows)) (org, k) = stored rows (org, k)"
  using assms
  by (auto simp: get_or_create_install_id_def settings_ok_write stored_write split: option.split)

lemma bool_str_iff [simp]: "bool_str b = ''true'' \<longleftrightarrow> b"
  by (simp add: bool_str_def)

lemma check_in_answered:
  assumes "has_key key" "answered r"
  shows "snd (check_in fmt (\<lambda>_. True) minted org key t r rows) =
    (let rows1 = snd (get_or_create_install_id (\<lambda>_. True) t minted org rows);
         rows2 = write_setting t org SYNC_ENABLED (bool_str (said ''valid'' r \<and> said ''sync_enabled'' r))
           (write_setting t org LICENSE_VALID (bool_str (said ''valid'' r))
             (write_setting t org LAST_CHECK_REACHABLE ''true'' (write_setting t org LAST_CHECK_AT (fmt t) rows1)))
     in if said ''valid'' r then write_setting t org LAST_OK_AT (fmt t) rows2 else rows2)"
  using assms by (auto simp: check_in_def answered_def said_def Let_def split: option.splits)

lemma check_in_unreachable:
  assumes "has_key key" "\<not> answered r"
  shows "snd (check_in fmt (\<lambda>_. True) minted org key t r rows) =
    write_setting t org LAST_CHECK_REACHABLE ''false'' (write_setting t org LAST_CHECK_AT (fmt t)
      (snd (get_or_create_install_id (\<lambda>_. True) t minted org rows)))"
  using assms by (auto simp: check_in_def answered_def Let_def split: option.splits)

lemma said_answered: "said k r \<Longrightarrow> answered r"
  by (auto simp: said_def answered_def split: option.splits)

lemma last_valid_Cons: "last_valid ((t, r) # h) = (if said ''valid'' r then Some t else last_valid h)"
  by (simp add: last_valid_def)

lemma last_answer_Cons: "last_answer ((t, r) # h) = (if answered r then r else last_answer h)"
  by (simp add: last_answer_def)

lemma records_check_in:
  assumes rec: "records fmt org h rows" and key: "has_key key"
  shows "records fmt org ((t, r) # h) (snd (check_in fmt (\<lambda>_. True) minted org key t r rows))"
proof -
  define rows1 where "rows1 = snd (get_or_create_install_id (\<lambda>_. True) t minted org rows)"
  have ok: "settings_ok rows1" and st: "\<And>k. k \<noteq> INSTALL_ID \<Longrightarrow> stored rows1 (org, k) = stored rows (org, k)"
    using rec install_id_rows unfolding rows1_def records_def by blast+
  note old = rec [unfolded records_def license_keys]
  note ss = records_def settings_ok_write stored_write ok st last_valid_Cons last_answer_Cons license_keys
  show ?thesis
  proof (cases "answered r")
    case True
    then show ?thesis
      unfolding check_in_answered [OF key True] rows1_def [symmetric] Let_def
      using old by (simp add: ss bool_str_def)
  next
    case False
    then show ?thesis
      unfolding check_in_unreachable [OF key False] rows1_def [symmetric]
      using old said_answered [of "''valid''" r]
      by (cases "\<exists>(t, r) \<in> set h. answered r") (auto simp: ss bool_str_def)
  qed
qed

lemma records_run:
  assumes "records fmt org h rows" "has_key key"
  shows "records fmt org (rev hs @ h)
    (fold (\<lambda>(t, r) rows. snd (check_in fmt (\<lambda>_. True) minted org key t r rows)) hs rows)"
  using assms
proof (induction hs arbitrary: h rows)
  case (Cons e hs)
  obtain t r where e: "e = (t, r)" by (cases e)
  show ?case using Cons.IH [OF records_check_in [OF Cons.prems, of t r] Cons.prems(2)] e by simp
qed simp

lemma setting_db_of: "setting (db_of rows org) k '''' = (case stored rows (org, k) of Some (Some v) \<Rightarrow> v | _ \<Rightarrow> [])"
  by (auto simp: setting_def db_of_def split: option.split)

lemma answered_newest: "h = (t, r) # h' \<Longrightarrow> answered r \<Longrightarrow> last_answer h = r \<and> (\<exists>(t, r) \<in> set h. answered r)"
  by (auto simp: last_answer_def)

lemma licensed_records:
  assumes rec: "records fmt org h rows" and key: "has_key key"
    and parse: "\<And>t. parse_rfc3339 (fmt t) = Some (t - t mod 1000)" "\<And>t. fmt t \<noteq> []"
  shows "is_sentinel_licensed parse_rfc3339 parse_naive \<lparr>lic_local_auth = True, license_key = key\<rparr> (db_of rows org) now
    = licensed_by h now"
proof (cases h)
  case Nil
  then show ?thesis
    using rec key by (simp add: records_def is_sentinel_licensed_def setting_db_of licensed_by_def last_valid_def)
next
  case (Cons e h')
  obtain t r where h: "h = (t, r) # h'" using Cons by (cases e) auto
  note old = rec [unfolded records_def]
  show ?thesis
  proof (cases "answered r")
    case True
    then show ?thesis
      using old answered_newest [OF h True] h key
      by (auto simp: is_sentinel_licensed_def setting_db_of licensed_by_def)
  next
    case False
    have "stored rows (org, LAST_CHECK_REACHABLE) = Some (Some ''false'')"
      using old h False by (simp add: bool_str_def)
    then show ?thesis
      using old h False key parse
      by (auto simp: is_sentinel_licensed_def setting_db_of licensed_by_def parse_iso_or_none_def Let_def
          split: option.split)
  qed
qed

lemma records_empty: "records fmt org [] []"
  by (simp add: records_def settings_ok_def stored_def find_setting_def last_valid_def)


text \<open>Any formatter with a parser will do for the witness; this one writes the number out.\<close>

definition show_micros :: "int \<Rightarrow> string" where "show_micros t = show_int (t - t mod 1000)"
definition read_micros :: "string \<Rightarrow> int option" where "read_micros s = Some (signed_value s)"

lemma show_int_ne: "show_int n \<noteq> []"
  by (simp add: show_int_def show_nat_ne)

lemma show_micros_laws: "read_micros (show_micros t) = Some (t - t mod 1000)" "show_micros t \<noteq> []"
  by (simp_all add: read_micros_def show_micros_def signed_value_show_int show_int_ne)


text \<open>
  An answer of \<open>invalid\<close> is forgotten by the next check-in that gets no answer: the grace
  window is measured from the last valid answer, so the gate opens again.
\<close>

lemma revoked_licence_reopens:
  defines "refused \<equiv> [(hours 1, Some (Object [(''valid'', Bool False)])), (0, Some (Object [(''valid'', Bool True)]))]"
  shows "\<not> licensed_by refused (hours 3)" "licensed_by ((hours 2, None) # refused) (hours 3)"
  by (simp_all add: refused_def licensed_by_def last_valid_def answered_def said_def is_object_def flag_def
      GRACE_HOURS_def hours_def)

end
