(* ===== verification/PyJson.thy ===== *)
theory PyJson
  imports Utf8
begin

text \<open>
  \<^verbatim>\<open>backend-rs/src/pyjson.rs\<close>: CPython's JSON scanner, which decides whether a body decodes and
  where it does not. A text is its list of code points, \<open>s\<close>; every function takes it with an
  index, as the decoder does, and returns the index after what it read, or where and why it
  stopped. The scanner for values calls itself through objects and arrays at an index another
  call returned, so its termination rests on every successful scan advancing the index.
\<close>

datatype decode_error = Invalid string nat | TooDeep

datatype stop = StopValue nat | StopMsg string nat | StopTooDeep

definition bad_escape :: string where
  "bad_escape = ''Invalid '' @ [CHR 0x5C] @ ''escape''"

definition bad_unicode_escape :: string where
  "bad_unicode_escape = ''Invalid '' @ [CHR 0x5C] @ ''uXXXX escape''"

definition expecting :: "char \<Rightarrow> string" where
  "expecting c = ''Expecting '' @ [CHR 0x27, c, CHR 0x27] @ '' delimiter''"

definition MAX_DEPTH :: nat where "MAX_DEPTH = 900"

definition char_at :: "nat list \<Rightarrow> nat \<Rightarrow> nat option" where
  "char_at s i = (if i < length s then Some (s ! i) else None)"

definition is_ws :: "nat \<Rightarrow> bool" where
  "is_ws c \<longleftrightarrow> c = 0x20 \<or> c = 0x09 \<or> c = 0x0A \<or> c = 0x0D"

definition is_digit :: "nat \<Rightarrow> bool" where
  "is_digit c \<longleftrightarrow> 48 \<le> c \<and> c \<le> 57"

text \<open>The \<open>while\<close> loops that move an index over characters of one kind.\<close>

function skip_while :: "(nat \<Rightarrow> bool) \<Rightarrow> nat list \<Rightarrow> nat \<Rightarrow> nat" where
  "skip_while p s i = (if i < length s \<and> p (s ! i) then skip_while p s (Suc i) else i)"
  by pat_completeness auto
termination
  by (relation "measure (\<lambda>(p, s, i). length s - i)") auto

declare skip_while.simps [simp del]

definition skip_ws :: "nat list \<Rightarrow> nat \<Rightarrow> nat" where
  "skip_ws s i = skip_while is_ws s i"

definition digit_at :: "nat list \<Rightarrow> nat \<Rightarrow> bool" where
  "digit_at s i \<longleftrightarrow> i < length s \<and> is_digit (s ! i)"

definition skip_digits :: "nat list \<Rightarrow> nat \<Rightarrow> nat" where
  "skip_digits s i = skip_while is_digit s i"

section \<open>Numbers\<close>

definition int_part :: "nat list \<Rightarrow> nat \<Rightarrow> nat option" where
  "int_part s i =
     (case char_at s i of
        Some c \<Rightarrow>
          if 49 \<le> c \<and> c \<le> 57 then Some (skip_digits s (i + 1))
          else if c = 48 then Some (i + 1) else None
      | None \<Rightarrow> None)"

definition frac_part :: "nat list \<Rightarrow> nat \<Rightarrow> nat" where
  "frac_part s i =
     (if i + 1 < length s \<and> s ! i = 0x2E \<and> digit_at s (i + 1) then skip_digits s (i + 2) else i)"

definition exp_part :: "nat list \<Rightarrow> nat \<Rightarrow> nat" where
  "exp_part s i =
     (if i + 1 < length s \<and> (s ! i = 0x65 \<or> s ! i = 0x45) then
        (let j = i + 1;
             j = (if j + 1 < length s \<and> (s ! j = 0x2D \<or> s ! j = 0x2B) then j + 1 else j);
             j = skip_digits s j
         in if \<not> digit_at s (j - 1) then i else j)
      else i)"

definition number :: "nat list \<Rightarrow> nat \<Rightarrow> stop + nat" where
  "number s start =
     (let neg = (char_at s start = Some 0x2D);
          i = (if neg then start + 1 else start)
      in if neg \<and> i \<ge> length s then Inl (StopValue start)
         else case int_part s i of
             None \<Rightarrow> Inl (StopValue start)
           | Some j \<Rightarrow> Inr (exp_part s (frac_part s j)))"

section \<open>Strings\<close>

definition to_digit16 :: "nat \<Rightarrow> nat option" where
  "to_digit16 c =
     (if 48 \<le> c \<and> c \<le> 57 then Some (c - 48)
      else if 97 \<le> c \<and> c \<le> 102 then Some (c - 87)
      else if 65 \<le> c \<and> c \<le> 70 then Some (c - 55)
      else None)"

text \<open>The loop over the four digits from \<open>i\<close>, which are inside the text when it runs.\<close>

definition hex4 :: "nat list \<Rightarrow> nat \<Rightarrow> nat option" where
  "hex4 s i =
     foldl (\<lambda>acc k. case (acc, to_digit16 (s ! k)) of (Some code, Some v) \<Rightarrow> Some (code * 16 + v) | _ \<Rightarrow> None)
       (Some 0) [i, i + 1, i + 2, i + 3]"

definition plain :: "nat \<Rightarrow> bool" where
  "plain c \<longleftrightarrow> c \<noteq> 0x22 \<and> c \<noteq> 0x5C \<and> \<not> c \<le> 0x1F"

text \<open>An escape whose backslash is at \<open>i\<close>: the index after it.\<close>

definition escape :: "nat list \<Rightarrow> nat \<Rightarrow> nat \<Rightarrow> stop + nat" where
  "escape s begin_at i =
     (let next = i + 1
      in if next = length s then Inl (StopMsg ''Unterminated string starting at'' begin_at)
         else if s ! next \<noteq> 0x75 then
           (if s ! next \<in> {0x22, 0x5C, 0x2F, 0x62, 0x66, 0x6E, 0x72, 0x74} then Inr (next + 1)
            else Inl (StopMsg bad_escape (next + 1 - 2)))
         else
           (let next = next + 1; end = next + 4
            in if end \<ge> length s then Inl (StopMsg bad_unicode_escape (next - 1))
               else case hex4 s next of
                   None \<Rightarrow> Inl (StopMsg bad_unicode_escape (end - 5))
                 | Some code \<Rightarrow>
                     if 0xD800 \<le> code \<and> code < 0xDC00 \<and> end + 6 < length s \<and>
                        s ! end = 0x5C \<and> s ! (end + 1) = 0x75
                     then case hex4 s (end + 2) of
                         None \<Rightarrow> Inl (StopMsg bad_unicode_escape (end + 6 - 5))
                       | Some low \<Rightarrow> Inr (if 0xDC00 \<le> low \<and> low < 0xE000 then end + 6 else end)
                     else Inr end))"

lemma skip_while_ge: "i \<le> skip_while p s i"
proof (induction p s i rule: skip_while.induct)
  case (1 p s i)
  then show ?case by (subst skip_while.simps) (auto simp: Suc_le_eq intro: Suc_leD)
qed

lemma skip_while_le: "i \<le> length s \<Longrightarrow> skip_while p s i \<le> length s"
proof (induction p s i rule: skip_while.induct)
  case (1 p s i)
  then show ?case by (subst skip_while.simps) auto
qed

lemma escape_bounds:
  assumes "escape s b i = Inr j" "i < length s"
  shows "i < j \<and> j \<le> length s"
  using assms by (auto simp: escape_def Let_def split: if_splits option.splits)

function scanstring :: "nat list \<Rightarrow> nat \<Rightarrow> nat \<Rightarrow> stop + nat" where
  "scanstring s begin_at i =
     (let next = skip_while plain s i
      in if next \<ge> length s then Inl (StopMsg ''Unterminated string starting at'' begin_at)
         else if s ! next = 0x22 then Inr (next + 1)
         else if s ! next = 0x5C then
           (case escape s begin_at next of Inl e \<Rightarrow> Inl e | Inr end \<Rightarrow> scanstring s begin_at end)
         else Inl (StopMsg ''Invalid control character at'' next))"
  by pat_completeness auto
termination
proof (relation "measure (\<lambda>(s, b, i). length s - i)", simp)
  fix s :: "nat list" and b i n j
  assume n: "n = skip_while plain s i" "\<not> length s \<le> n" and j: "escape s b n = Inr j"
  have "i \<le> n" "n < j" "j \<le> length s"
    using n skip_while_ge [of i plain s] escape_bounds [OF j] by auto
  with n show "((s, b, j), (s, b, i)) \<in> measure (\<lambda>(s, b, i). length s - i)" by simp
qed

declare scanstring.simps [simp del]

section \<open>Values\<close>

definition word_at :: "nat list \<Rightarrow> nat \<Rightarrow> string \<Rightarrow> bool" where
  "word_at s i w \<longleftrightarrow> i + length w \<le> length s \<and> take (length w) (drop i s) = map of_char w"

text \<open>The words Python takes for values, and how far each moves the index.\<close>

definition literal_at :: "nat list \<Rightarrow> nat \<Rightarrow> nat option" where
  "literal_at s i =
     map_option length
       (find (word_at s i) [''null'', ''true'', ''false'', ''NaN'', ''Infinity'', ''-Infinity''])"

function (sequential) scan_once :: "nat list \<Rightarrow> nat \<Rightarrow> nat \<Rightarrow> stop + nat"
  and object_at :: "nat list \<Rightarrow> nat \<Rightarrow> nat \<Rightarrow> stop + nat"
  and members :: "nat list \<Rightarrow> nat \<Rightarrow> nat \<Rightarrow> stop + nat"
  and array_at :: "nat list \<Rightarrow> nat \<Rightarrow> nat \<Rightarrow> stop + nat"
  and elements :: "nat list \<Rightarrow> nat \<Rightarrow> nat \<Rightarrow> stop + nat" where
  "scan_once s depth idx =
     (case char_at s idx of
        None \<Rightarrow> Inl (StopValue idx)
      | Some c \<Rightarrow>
          if c = 0x22 then scanstring s idx (idx + 1)
          else if c = 0x7B \<or> c = 0x5B then
            (if depth + 1 > MAX_DEPTH then Inl StopTooDeep
             else if c = 0x7B then object_at s (depth + 1) (idx + 1)
             else array_at s (depth + 1) (idx + 1))
          else case literal_at s idx of
              Some n \<Rightarrow> Inr (idx + n)
            | None \<Rightarrow> number s idx)"
| "object_at s depth idx =
     (let i = skip_ws s idx
      in if char_at s i \<noteq> Some 0x7D then members s depth i else Inr (i + 1))"
| "members s depth idx =
     (if char_at s idx \<noteq> Some 0x22
      then Inl (StopMsg ''Expecting property name enclosed in double quotes'' idx)
      else case scanstring s idx (idx + 1) of
          Inl e \<Rightarrow> Inl e
        | Inr i \<Rightarrow>
            (let i = skip_ws s i
             in if char_at s i \<noteq> Some 0x3A then Inl (StopMsg (expecting (CHR '':'')) i)
                else case scan_once s depth (skip_ws s (i + 1)) of
                    Inl e \<Rightarrow> Inl e
                  | Inr j \<Rightarrow>
                      (let j = skip_ws s j
                       in if char_at s j = Some 0x7D then Inr (j + 1)
                          else if char_at s j \<noteq> Some 0x2C
                          then Inl (StopMsg (expecting (CHR '','')) j)
                          else members s depth (skip_ws s (j + 1)))))"
| "array_at s depth idx =
     (let i = skip_ws s idx
      in if char_at s i \<noteq> Some 0x5D then elements s depth i else Inr (i + 1))"
| "elements s depth idx =
     (case scan_once s depth idx of
        Inl e \<Rightarrow> Inl e
      | Inr j \<Rightarrow>
          (let j = skip_ws s j
           in if char_at s j = Some 0x5D then Inr (j + 1)
              else if char_at s j \<noteq> Some 0x2C
              then Inl (StopMsg (expecting (CHR '','')) j)
              else elements s depth (skip_ws s (j + 1))))"
  by pat_completeness auto

lemma skip_ws_ge: "i \<le> skip_ws s i"
  by (simp add: skip_ws_def skip_while_ge)

lemma skip_ws_le: "i \<le> length s \<Longrightarrow> skip_ws s i \<le> length s"
  by (simp add: skip_ws_def skip_while_le)

lemma skip_digits_ge: "i \<le> skip_digits s i"
  by (simp add: skip_digits_def skip_while_ge)

lemma skip_digits_le: "i \<le> length s \<Longrightarrow> skip_digits s i \<le> length s"
  by (simp add: skip_digits_def skip_while_le)

lemma char_at_Some: "char_at s i = Some c \<longleftrightarrow> i < length s \<and> s ! i = c"
  by (simp add: char_at_def)

lemma int_part_bounds: "int_part s i = Some j \<Longrightarrow> i < j \<and> j \<le> length s"
  using skip_digits_ge [of "i + 1" s] skip_digits_le [of "i + 1" s]
  by (auto simp: int_part_def char_at_Some split: option.splits if_splits)

lemma frac_part_bounds: "i \<le> length s \<Longrightarrow> i \<le> frac_part s i \<and> frac_part s i \<le> length s"
  using skip_digits_ge [of "i + 2" s] skip_digits_le [of "i + 2" s]
  by (auto simp: frac_part_def)

lemma exp_part_bounds: "i \<le> length s \<Longrightarrow> i \<le> exp_part s i \<and> exp_part s i \<le> length s"
  using skip_digits_ge [of "i + 1" s] skip_digits_le [of "i + 1" s]
    skip_digits_ge [of "i + 2" s] skip_digits_le [of "i + 2" s]
  by (auto simp: exp_part_def Let_def)

lemma number_bounds:
  assumes "number s i = Inr j"
  shows "i < j \<and> j \<le> length s"
proof -
  obtain k where k: "int_part s (if char_at s i = Some 0x2D then i + 1 else i) = Some k"
    "j = exp_part s (frac_part s k)"
    using assms by (auto simp: number_def Let_def split: if_splits option.splits)
  then show ?thesis
    using int_part_bounds [OF k(1)] frac_part_bounds [of k s] exp_part_bounds [of "frac_part s k" s]
    by (auto split: if_splits)
qed

lemma scanstring_bounds: "scanstring s b i = Inr j \<Longrightarrow> i < j \<and> j \<le> length s"
proof (induction s b i rule: scanstring.induct)
  case (1 s b i)
  define n where "n = skip_while plain s i"
  have n: "i \<le> n" by (simp add: n_def skip_while_ge)
  consider "n < length s" "j = n + 1"
    | k where "\<not> length s \<le> n" "s ! n \<noteq> 0x22" "s ! n = 0x5C" "escape s b n = Inr k" "scanstring s b k = Inr j"
    using "1.prems" by (subst (asm) scanstring.simps) (auto simp: n_def [symmetric] Let_def split: if_splits sum.splits)
  then show ?case
  proof cases
    case 1
    then show ?thesis using n by simp
  next
    case 2
    then have "k < j \<and> j \<le> length s" using "1.IH" [OF n_def 2(1) 2(2) 2(3) 2(4) 2(5)] by simp
    moreover have "n < k" using escape_bounds [OF 2(4)] 2(1) by simp
    ultimately show ?thesis using n by simp
  qed
qed

lemma find_SomeD: "find P xs = Some x \<Longrightarrow> P x \<and> x \<in> set xs"
  by (induction xs) (auto split: if_splits)

lemma literal_at_bounds:
  assumes "literal_at s i = Some n"
  shows "0 < n \<and> i + n \<le> length s"
proof -
  obtain w where w: "find (word_at s i) [''null'', ''true'', ''false'', ''NaN'', ''Infinity'', ''-Infinity''] = Some w"
    "n = length w"
    using assms unfolding literal_at_def by auto
  show ?thesis using find_SomeD [OF w(1)] w(2) by (auto simp: word_at_def)
qed

text \<open>Every successful scan advances the index, wherever it terminates.\<close>

lemma scan_advances_dom:
  "scan_once_object_at_members_array_at_elements_dom (Inl (Inl (s, d, i))) \<Longrightarrow>
     (\<forall>j. scan_once s d i = Inr j \<longrightarrow> i < j \<and> j \<le> length s)"
  "scan_once_object_at_members_array_at_elements_dom (Inl (Inr (s, d, i))) \<Longrightarrow>
     (\<forall>j. object_at s d i = Inr j \<longrightarrow> i < j \<and> j \<le> length s)"
  "scan_once_object_at_members_array_at_elements_dom (Inr (Inl (s, d, i))) \<Longrightarrow>
     (\<forall>j. members s d i = Inr j \<longrightarrow> i < j \<and> j \<le> length s)"
  "scan_once_object_at_members_array_at_elements_dom (Inr (Inr (Inl (s, d, i)))) \<Longrightarrow>
     (\<forall>j. array_at s d i = Inr j \<longrightarrow> i < j \<and> j \<le> length s)"
  "scan_once_object_at_members_array_at_elements_dom (Inr (Inr (Inr (s, d, i)))) \<Longrightarrow>
     (\<forall>j. elements s d i = Inr j \<longrightarrow> i < j \<and> j \<le> length s)"
proof (induction s d i and s d i and s d i and s d i and s d i
    rule: scan_once_object_at_members_array_at_elements.pinduct)
  case (1 s d i)
  then show ?case
    by (fastforce simp: scan_once.psimps char_at_def split: if_splits option.splits
        dest: scanstring_bounds literal_at_bounds number_bounds)
next
  case (2 s d i)
  then show ?case
    using skip_ws_ge [of i s]
    by (fastforce simp: object_at.psimps char_at_Some Let_def split: if_splits)
next
  case (3 s d i)
  show ?case
  proof (intro allI impI)
    fix j assume "members s d i = Inr j"
    with "3.hyps" obtain k l where name: "char_at s i = Some 0x22" "scanstring s i (i + 1) = Inr k"
      and colon: "char_at s (skip_ws s k) = Some 0x3A"
      and val: "scan_once s d (skip_ws s (skip_ws s k + 1)) = Inr l"
      and j: "char_at s (skip_ws s l) = Some 0x7D \<and> j = skip_ws s l + 1 \<or>
        char_at s (skip_ws s l) = Some 0x2C \<and> members s d (skip_ws s (skip_ws s l + 1)) = Inr j"
      by (auto simp: members.psimps Let_def split: sum.splits if_splits)
    have "skip_ws s (skip_ws s k + 1) < l" using "3.IH"(1) name colon val by blast
    then have "i < l"
      using scanstring_bounds [OF name(2)] skip_ws_ge [of k s] skip_ws_ge [of "skip_ws s k + 1" s] by simp
    then show "i < j \<and> j \<le> length s"
      using j "3.IH"(2) [OF _ name(2) refl _ val refl] name colon skip_ws_ge [of l s]
        skip_ws_ge [of "skip_ws s l + 1" s]
      by (fastforce simp: char_at_Some)
  qed
next
  case (4 s d i)
  then show ?case
    using skip_ws_ge [of i s]
    by (fastforce simp: array_at.psimps char_at_Some Let_def split: if_splits)
next
  case (5 s d i)
  show ?case
  proof (intro allI impI)
    fix j assume "elements s d i = Inr j"
    with "5.hyps" obtain k where k: "scan_once s d i = Inr k"
      and j: "char_at s (skip_ws s k) = Some 0x5D \<and> j = skip_ws s k + 1 \<or>
        char_at s (skip_ws s k) = Some 0x2C \<and> elements s d (skip_ws s (skip_ws s k + 1)) = Inr j"
      by (auto simp: elements.psimps Let_def split: sum.splits if_splits)
    have "i < k" using "5.IH"(1) k by blast
    then show "i < j \<and> j \<le> length s"
      using j "5.IH"(2) [OF k refl] skip_ws_ge [of k s] skip_ws_ge [of "skip_ws s k + 1" s]
      by (fastforce simp: char_at_Some)
  qed
qed

definition scan_left :: "(((nat list \<times> nat \<times> nat) + (nat list \<times> nat \<times> nat)) +
    (nat list \<times> nat \<times> nat) + (nat list \<times> nat \<times> nat) + (nat list \<times> nat \<times> nat)) \<Rightarrow> nat" where
  "scan_left x =
     (let left = (\<lambda>(s, d, i). length s - i)
      in case x of Inl (Inl y) \<Rightarrow> left y | Inl (Inr y) \<Rightarrow> left y
         | Inr (Inl y) \<Rightarrow> left y | Inr (Inr (Inl y)) \<Rightarrow> left y | Inr (Inr (Inr y)) \<Rightarrow> left y)"

definition scan_rank :: "((('a + 'b) + 'c + 'd + 'e)) \<Rightarrow> nat" where
  "scan_rank x =
     (case x of Inl (Inl y) \<Rightarrow> 0 | Inl (Inr y) \<Rightarrow> 2 | Inr (Inl y) \<Rightarrow> 1 | Inr (Inr (Inl y)) \<Rightarrow> 2 | Inr (Inr (Inr y)) \<Rightarrow> 1)"

lemma skip_ws_left: "length s - skip_ws s i \<le> length s - i"
  using skip_ws_ge [of i s] by linarith

lemma scan_dom: "All scan_once_object_at_members_array_at_elements_dom"
proof (relation "measures [scan_left, scan_rank]", goal_cases)
  case 1
  then show ?case by simp
next
  case (2 s d i c)
  then show ?case by (auto simp: scan_left_def char_at_Some)
next
  case (3 s d i c)
  then show ?case by (auto simp: scan_left_def char_at_Some)
next
  case (4 s d i x)
  then show ?case using skip_ws_left [of s i] by (auto simp: scan_left_def scan_rank_def)
next
  case (5 s d i j x)
  then show ?case
    using skip_ws_ge [of j s] skip_ws_ge [of "x + 1" s] scanstring_bounds [OF 5(2)]
    by (auto simp: scan_left_def char_at_Some)
next
  case (6 s d i j x k y)
  have "x < k" using 6(5) scan_advances_dom(1) [OF 6(9)] skip_ws_ge [of "x + 1" s] by fastforce
  then show ?case
    using 6 skip_ws_ge [of j s] skip_ws_ge [of k s] skip_ws_ge [of "y + 1" s] scanstring_bounds [OF 6(2)]
    by (auto simp: scan_left_def char_at_Some)
next
  case (7 s d i x)
  then show ?case using skip_ws_left [of s i] by (auto simp: scan_left_def scan_rank_def)
next
  case (8 s d i)
  then show ?case by (auto simp: scan_left_def scan_rank_def)
next
  case (9 s d i k x)
  have "i < k" "k \<le> length s" using 9(1) scan_advances_dom(1) [OF 9(5)] by auto
  then show ?case
    using 9 skip_ws_ge [of k s] skip_ws_ge [of "x + 1" s]
    by (auto simp: scan_left_def char_at_Some)
qed

termination scan_once
  by (rule scan_dom)

declare scan_once.simps [simp del] object_at.simps [simp del] members.simps [simp del]
  array_at.simps [simp del] elements.simps [simp del]

definition python_decode_error :: "string \<Rightarrow> decode_error option" where
  "python_decode_error text =
     (let s = chars text
      in case scan_once s 0 (skip_ws s 0) of
           Inl (StopValue i) \<Rightarrow> Some (Invalid ''Expecting value'' i)
         | Inl (StopMsg m p) \<Rightarrow> Some (Invalid m p)
         | Inl StopTooDeep \<Rightarrow> Some TooDeep
         | Inr e \<Rightarrow>
             (let e = skip_ws s e
              in if e \<noteq> length s then Some (Invalid ''Extra data'' e) else None))"

section \<open>Where errors are\<close>

fun stop_pos :: "stop \<Rightarrow> nat" where
  "stop_pos (StopValue i) = i"
| "stop_pos (StopMsg m i) = i"
| "stop_pos StopTooDeep = 0"

lemma number_stop: "number s i = Inl e \<Longrightarrow> stop_pos e = i"
  by (auto simp: number_def Let_def split: if_splits option.splits)

lemma escape_stop: "escape s b i = Inl e \<Longrightarrow> i < length s \<Longrightarrow> b \<le> length s \<Longrightarrow> stop_pos e \<le> length s"
  by (auto simp: escape_def Let_def split: if_splits option.splits)

lemma scanstring_stop:
  "scanstring s b i = Inl e \<Longrightarrow> b \<le> length s \<Longrightarrow> stop_pos e \<le> length s"
proof (induction s b i rule: scanstring.induct)
  case (1 s b i)
  note unf = "1.prems"(1) [unfolded scanstring.simps [of s b i] Let_def]
  show ?case
    using unf "1.prems"(2) "1.IH" [OF refl] by (auto simp: not_le split: if_splits sum.splits dest: escape_stop)
qed

lemma scan_advances:
  "scan_once s d i = Inr j \<Longrightarrow> i < j \<and> j \<le> length s"
  "object_at s d i = Inr j \<Longrightarrow> i < j \<and> j \<le> length s"
  "members s d i = Inr j \<Longrightarrow> i < j \<and> j \<le> length s"
  "array_at s d i = Inr j \<Longrightarrow> i < j \<and> j \<le> length s"
  "elements s d i = Inr j \<Longrightarrow> i < j \<and> j \<le> length s"
  using scan_advances_dom scan_dom by blast+

lemma scan_stop:
  "\<forall>e. scan_once s d i = Inl e \<longrightarrow> i \<le> length s \<longrightarrow> stop_pos e \<le> length s"
  "\<forall>e. object_at s d i = Inl e \<longrightarrow> i \<le> length s \<longrightarrow> stop_pos e \<le> length s"
  "\<forall>e. members s d i = Inl e \<longrightarrow> i \<le> length s \<longrightarrow> stop_pos e \<le> length s"
  "\<forall>e. array_at s d i = Inl e \<longrightarrow> i \<le> length s \<longrightarrow> stop_pos e \<le> length s"
  "\<forall>e. elements s d i = Inl e \<longrightarrow> i \<le> length s \<longrightarrow> stop_pos e \<le> length s"
proof (induction s d i and s d i and s d i and s d i and s d i
    rule: scan_once_object_at_members_array_at_elements.induct)
  case (1 s d i)
  then show ?case
    by (auto simp: scan_once.simps [of s d i] char_at_def split: if_splits option.splits
        dest: scanstring_stop number_stop)
next
  case (2 s d i)
  then show ?case
    using skip_ws_le [of i s] by (auto simp: object_at.simps [of s d i] Let_def split: if_splits)
next
  case (3 s d i)
  show ?case
    unfolding members.simps [of s d i] Let_def
    using 3 scan_advances scanstring_bounds skip_ws_le
    by (fastforce simp: char_at_Some split: if_splits sum.splits dest: scanstring_stop)
next
  case (4 s d i)
  then show ?case
    using skip_ws_le [of i s] by (auto simp: array_at.simps [of s d i] Let_def split: if_splits)
next
  case (5 s d i)
  show ?case
    unfolding elements.simps [of s d i] Let_def
    using 5 scan_advances(1) [of s d i] skip_ws_le
    by (fastforce simp: char_at_Some split: if_splits sum.splits)
qed

lemma decode_error_bound:
  assumes "python_decode_error text = Some (Invalid m p)"
  shows "p \<le> length (chars text)"
proof -
  define s where "s = chars text"
  have 0: "skip_ws s 0 \<le> length s" by (rule skip_ws_le) simp
  have "e \<le> length s" if "scan_once s 0 (skip_ws s 0) = Inr e" for e
    using scan_advances(1) [OF that] by simp
  moreover have "stop_pos e \<le> length s" if "scan_once s 0 (skip_ws s 0) = Inl e" for e
    using scan_stop(1) that 0 by blast
  ultimately show ?thesis
    using assms skip_ws_le [of _ s]
    by (fastforce simp: python_decode_error_def s_def [symmetric] Let_def split: sum.splits stop.splits if_splits)
qed

end
