(* ===== verification/Audit_Trail.thy ===== *)
theory Audit_Trail
  imports PyRepr PyJson RateLimit
begin

text \<open>
  \<^verbatim>\<open>backend-rs/src/audit.rs\<close>: the actor's label, \<open>json.dumps\<close> as the audit log and the MCP
  results write it, and the row an action leaves. How \<open>serde_json\<close> writes a double is an
  argument. \<open>Json_Written\<close> shows that what is written is what \<^verbatim>\<open>pyjson.rs\<close> accepts.
\<close>

definition EVENT_MAX :: nat where "EVENT_MAX = 50"
definition IP_MAX :: nat where "IP_MAX = 45"
definition USERNAME_MAX :: nat where "USERNAME_MAX = 80"
definition USER_ID_MAX :: nat where "USER_ID_MAX = 100"

record audit_actor =
  actor_email :: string
  actor_username :: string
  actor_user_id :: string

definition truncate_str :: "string \<Rightarrow> nat \<Rightarrow> string" where
  "truncate_str s n = encode_utf8 (take n (chars s))"

definition audit_label :: "audit_actor \<Rightarrow> string" where
  "audit_label user =
     (if actor_email user \<noteq> [] then actor_email user
      else if actor_username user \<noteq> [] then actor_username user
      else truncate_str (actor_user_id user) 32)"

definition audit_client_ip :: "bool \<Rightarrow> headers \<Rightarrow> string option \<Rightarrow> string" where
  "audit_client_ip trusted hs peer = (case client_ip hs peer trusted of Some ip \<Rightarrow> ip | None \<Rightarrow> [])"

section \<open>\<open>json.dumps\<close>\<close>

definition u_escape :: "nat \<Rightarrow> string" where
  "u_escape n =
     [backslash, CHR ''u'', hex_char (n div 4096 mod 16), hex_char (n div 256 mod 16), hex_char (n div 16 mod 16),
      hex_char (n mod 16)]"

definition json_char :: "nat \<Rightarrow> string" where
  "json_char n =
     (if n = 0x22 then [backslash, dquote]
      else if n = 0x5C then [backslash, backslash]
      else if n = 0x0A then [backslash, CHR ''n'']
      else if n = 0x0D then [backslash, CHR ''r'']
      else if n = 0x09 then [backslash, CHR ''t'']
      else if n = 0x08 then [backslash, CHR ''b'']
      else if n = 0x0C then [backslash, CHR ''f'']
      else if 0x20 \<le> n \<and> n \<le> 0x7E then [char_of n]
      else if n > 0xFFFF then
        (let v = n - 0x10000 in u_escape (0xD800 + v div 1024) @ u_escape (0xDC00 + v mod 1024))
      else u_escape n)"

definition python_json_string :: "string \<Rightarrow> string" where
  "python_json_string s = dquote # concat (map json_char (chars s)) @ [dquote]"

fun python_json_value :: "(rat \<Rightarrow> string) \<Rightarrow> json \<Rightarrow> string" where
  "python_json_value fl (String s) = python_json_string s"
| "python_json_value fl (Array items) = ''['' @ join '', '' (map (python_json_value fl) items) @ '']''"
| "python_json_value fl (Object m) =
     ''{'' @ join '', '' (map (\<lambda>(k, v). python_json_string k @ '': '' @ python_json_value fl v) m) @ ''}''"
| "python_json_value fl Null = ''null''"
| "python_json_value fl (Bool b) = (if b then ''true'' else ''false'')"
| "python_json_value fl (IntNum n) = show_int n"
| "python_json_value fl (FloatNum f) = fl f"

fun python_json_compact :: "(rat \<Rightarrow> string) \<Rightarrow> json \<Rightarrow> string" where
  "python_json_compact fl (String s) = python_json_string s"
| "python_json_compact fl (Array items) = ''['' @ join '','' (map (python_json_compact fl) items) @ '']''"
| "python_json_compact fl (Object m) =
     ''{'' @ join '','' (map (\<lambda>(k, v). python_json_string k @ '':'' @ python_json_compact fl v) m) @ ''}''"
| "python_json_compact fl j = python_json_value fl j"

definition python_json :: "(rat \<Rightarrow> string) \<Rightarrow> (string \<times> json) list \<Rightarrow> string" where
  "python_json fl pairs =
     ''{'' @ join '', '' (map (\<lambda>(k, v). python_json_string k @ '': '' @ python_json_value fl v) pairs) @ ''}''"

section \<open>The row\<close>

record audit_row =
  au_org :: string
  au_event :: string
  au_ip :: "string option"
  au_username :: "string option"
  au_user_id :: "string option"
  au_details :: "string option"
  au_timestamp :: int

definition non_empty :: "string \<Rightarrow> string option" where
  "non_empty s = (if s = [] then None else Some s)"

definition write_audit ::
  "bool \<Rightarrow> bool \<Rightarrow> int \<Rightarrow> string \<Rightarrow> string \<Rightarrow> string \<Rightarrow> string \<Rightarrow> string option \<Rightarrow> headers \<Rightarrow> string option \<Rightarrow>
   audit_row list \<Rightarrow> audit_row list" where
  "write_audit works trusted now org event user_id username details hs peer trail =
     (let row =
        \<lparr>au_org = org, au_event = truncate_str event EVENT_MAX,
         au_ip = non_empty (truncate_str (audit_client_ip trusted hs peer) IP_MAX),
         au_username = non_empty (truncate_str username USERNAME_MAX),
         au_user_id = non_empty (truncate_str user_id USER_ID_MAX),
         au_details = details, au_timestamp = now\<rparr>
      in if works then trail @ [row] else trail)"

end
