(* ===== verification/Json_Written.thy ===== *)
theory Json_Written
  imports Audit_Trail
begin

text \<open>
  What \<^verbatim>\<open>audit.rs\<close> writes, \<^verbatim>\<open>pyjson.rs\<close> reads: the scanner run on a written string, number,
  array and object, each where the text occurs at an index of a longer one, and the two
  properties that rest on it.
\<close>

section \<open>Scanning what was written\<close>

text \<open>Reading a text at an index: the next character, and a run of characters of one kind.\<close>

lemma drop_Cons_at: "drop i s = c # r \<Longrightarrow> i < length s \<and> s ! i = c \<and> drop (Suc i) s = r"
  by (metis Cons_nth_drop_Suc drop_eq_Nil2 list.distinct(1) list.inject not_le)

lemma drop_append_at: "drop i s = t @ r \<Longrightarrow> drop (i + length t) s = r"
  by (metis add.commute append_eq_conv_conj drop_drop)

lemma drop_Cons_char_at: "drop i s = c # r \<Longrightarrow> char_at s i = Some c"
  by (auto simp: char_at_Some dest: drop_Cons_at)

lemma drop_Nil_char_at: "drop i s = [] \<Longrightarrow> char_at s i = None"
  by (simp add: char_at_def)

lemma skip_while_run:
  assumes "drop i s = ds @ r" "\<forall>c \<in> set ds. p c" "r = [] \<or> \<not> p (hd r)"
  shows "skip_while p s i = i + length ds"
  using assms
proof (induction ds arbitrary: i)
  case Nil
  then show ?case by (subst skip_while.simps) (cases r; auto dest: drop_Cons_at)
next
  case (Cons d ds)
  then show ?case
    using drop_Cons_at [of i s d "ds @ r"] by (subst skip_while.simps) simp
qed

definition delimited :: "nat list \<Rightarrow> bool" where
  "delimited r \<longleftrightarrow> r = [] \<or> hd r = 0x2C \<or> hd r = 0x5D \<or> hd r = 0x7D"

text \<open>A JSON number: an optional minus, an integer with no leading zero, and optional fraction and exponent.\<close>

definition digits :: "nat list \<Rightarrow> bool" where
  "digits ds \<longleftrightarrow> ds \<noteq> [] \<and> (\<forall>c \<in> set ds. is_digit c)"

definition int_text :: "nat list \<Rightarrow> bool" where
  "int_text t \<longleftrightarrow> t = [48] \<or> digits t \<and> hd t \<noteq> 48"

definition frac_text :: "nat list \<Rightarrow> bool" where
  "frac_text t \<longleftrightarrow> t = [] \<or> (\<exists>ds. digits ds \<and> t = 0x2E # ds)"

definition exp_text :: "nat list \<Rightarrow> bool" where
  "exp_text t \<longleftrightarrow> t = [] \<or>
     (\<exists>c sg ds. (c = 0x65 \<or> c = 0x45) \<and> (sg = [] \<or> sg = [0x2D] \<or> sg = [0x2B]) \<and> digits ds \<and> t = c # sg @ ds)"

definition json_number :: "nat list \<Rightarrow> bool" where
  "json_number t \<longleftrightarrow>
     (\<exists>sg ip fp ep. (sg = [] \<or> sg = [0x2D]) \<and> int_text ip \<and> frac_text fp \<and> exp_text ep \<and> t = sg @ ip @ fp @ ep)"

lemma skip_digits_run:
  "drop i s = ds @ r \<Longrightarrow> \<forall>c \<in> set ds. is_digit c \<Longrightarrow> r = [] \<or> \<not> is_digit (hd r) \<Longrightarrow> skip_digits s i = i + length ds"
  unfolding skip_digits_def by (rule skip_while_run)

lemma int_part_run:
  assumes "drop i s = t @ r" "int_text t" "r = [] \<or> \<not> is_digit (hd r)"
  shows "int_part s i = Some (i + length t)"
proof -
  obtain c cs where t: "t = c # cs" using assms(2) by (cases t) (auto simp: int_text_def digits_def)
  have at: "char_at s i = Some c" and d: "drop (Suc i) s = cs @ r"
    using assms(1) t by (auto dest: drop_Cons_char_at drop_Cons_at)
  show ?thesis
  proof (cases "t = [48]")
    case True
    then show ?thesis using at t by (simp add: int_part_def)
  next
    case False
    then have "digits t" "c \<noteq> 48" using assms(2) t by (auto simp: int_text_def)
    then show ?thesis
      using at t skip_digits_run [OF d] assms(3) by (auto simp: int_part_def digits_def is_digit_def)
  qed
qed

lemma digits_first: "digits ds \<Longrightarrow> drop i s = ds @ r \<Longrightarrow> digit_at s i"
  by (cases ds) (auto simp: digits_def digit_at_def dest: drop_Cons_at)

lemma digits_last:
  assumes "digits ds" "drop i s = ds @ r"
  shows "digit_at s (i + length ds - 1)"
proof -
  obtain es e where ds: "ds = es @ [e]" "is_digit e" using assms(1) by (cases ds rule: rev_cases) (auto simp: digits_def)
  then have "drop (i + length es) s = e # r" using assms(2) by (simp add: drop_append_at)
  then show ?thesis using ds by (auto simp: digit_at_def dest: drop_Cons_at)
qed

lemma frac_part_run:
  assumes "drop i s = t @ r" "frac_text t" "r = [] \<or> \<not> is_digit (hd r) \<and> hd r \<noteq> 0x2E"
  shows "frac_part s i = i + length t"
proof (cases "t = []")
  case True
  then show ?thesis using assms(1,3) by (cases r) (auto simp: frac_part_def dest: drop_Cons_at)
next
  case False
  then obtain ds where t: "t = 0x2E # ds" "digits ds" using assms(2) by (auto simp: frac_text_def)
  then have d: "drop (Suc i) s = ds @ r" and c: "i < length s" "s ! i = 0x2E" using assms(1) by (auto dest: drop_Cons_at)
  have "digit_at s (i + 1)" using digits_first [OF t(2) d] by simp
  moreover obtain e es where ds: "ds = e # es" using t(2) by (cases ds) (auto simp: digits_def)
  then have es: "drop (Suc (Suc i)) s = es @ r" using d by (auto dest: drop_Cons_at)
  have "skip_digits s (Suc (Suc i)) = Suc (Suc i) + length es"
    by (rule skip_digits_run [OF es]) (use t(2) ds assms(3) in \<open>auto simp: digits_def\<close>)
  ultimately show ?thesis using c t ds by (simp add: frac_part_def digit_at_def)
qed

lemma exp_part_run:
  assumes "drop i s = t @ r" "exp_text t" "delimited r"
  shows "exp_part s i = i + length t"
proof (cases "t = []")
  case True
  then show ?thesis using assms(1,3) by (cases r) (auto simp: exp_part_def delimited_def dest: drop_Cons_at)
next
  case False
  then obtain c sg ds where t: "t = c # sg @ ds" "c = 0x65 \<or> c = 0x45" "sg = [] \<or> sg = [0x2D] \<or> sg = [0x2B]" "digits ds"
    using assms(2) unfolding exp_text_def by blast
  have 1: "i < length s" "s ! i = c" "drop (Suc i) s = sg @ ds @ r" using assms(1) t(1) by (auto dest: drop_Cons_at)
  define j where "j = Suc i + length sg"
  have 2: "drop j s = ds @ r" using drop_append_at [OF 1(3)] by (simp add: j_def)
  have nd: "r = [] \<or> \<not> is_digit (hd r)" using assms(3) by (auto simp: delimited_def is_digit_def)
  have 3: "skip_digits s j = j + length ds" using skip_digits_run [OF 2 _ nd] t(4) by (simp add: digits_def)
  have 4: "digit_at s (j + length ds - 1)" by (rule digits_last [OF t(4) 2])
  have 5: "digit_at s j" by (rule digits_first [OF t(4) 2])
  have sign: "(if i + 1 + 1 < length s \<and> (s ! (i + 1) = 0x2D \<or> s ! (i + 1) = 0x2B) then i + 1 + 1 else i + 1) = j"
  proof (cases "sg = []")
    case True
    then show ?thesis using 5 by (auto simp: j_def digit_at_def is_digit_def)
  next
    case False
    then have "s ! (i + 1) = 0x2D \<or> s ! (i + 1) = 0x2B" "length sg = 1" using 1(3) t(3) by (auto dest: drop_Cons_at)
    then show ?thesis using 5 by (auto simp: j_def digit_at_def)
  qed
  have "i + 1 < length s" using 5 by (auto simp: j_def digit_at_def)
  then have "exp_part s i = j + length ds"
    using 1 t(2) unfolding exp_part_def Let_def sign using 4 by (simp add: 3)
  then show ?thesis using t(1) by (simp add: j_def)
qed


lemma number_run:
  assumes "drop i s = t @ r" "json_number t" "delimited r"
  shows "number s i = Inr (i + length t)"
proof -
  obtain sg ip fp ep where t: "t = sg @ ip @ fp @ ep" "sg = [] \<or> sg = [0x2D]"
    and tx: "int_text ip" "frac_text fp" "exp_text ep"
    using assms(2) unfolding json_number_def by blast
  define j where "j = i + length sg"
  have d1: "drop j s = ip @ fp @ ep @ r" using assms(1) t(1) by (simp add: j_def drop_append_at)
  have d2: "drop (j + length ip) s = fp @ ep @ r" using drop_append_at [OF d1] .
  have d3: "drop (j + length ip + length fp) s = ep @ r" using drop_append_at [OF d2] .
  have nd: "\<not> is_digit 0x2E" "\<not> is_digit 0x65" "\<not> is_digit 0x45" "r = [] \<or> \<not> is_digit (hd r) \<and> hd r \<noteq> 0x2E"
    using assms(3) by (auto simp: is_digit_def delimited_def)
  have e: "ep @ r = [] \<or> \<not> is_digit (hd (ep @ r)) \<and> hd (ep @ r) \<noteq> 0x2E"
    using tx(3) nd by (auto simp: exp_text_def)
  then have f: "fp @ ep @ r = [] \<or> \<not> is_digit (hd (fp @ ep @ r))"
    using tx(2) nd by (auto simp: frac_text_def)
  note p1 = int_part_run [OF d1 tx(1) f]
  note p2 = frac_part_run [OF d2 tx(2) e]
  note p3 = exp_part_run [OF d3 tx(3) assms(3)]
  obtain c cs where ip: "ip = c # cs" "c \<noteq> 0x2D"
    using tx(1) by (cases ip) (auto simp: int_text_def digits_def is_digit_def)
  then have j: "j < length s" "s ! j = c" using d1 by (auto dest: drop_Cons_at)
  have neg: "char_at s i = Some 0x2D \<longleftrightarrow> sg \<noteq> []"
    using t(2) j ip(2) assms(1) t(1) by (auto simp: j_def char_at_Some dest: drop_Cons_at)
  have "(if char_at s i = Some 0x2D then i + 1 else i) = j"
    using neg t(2) by (auto simp: j_def)
  then have "number s i = Inr (exp_part s (frac_part s (j + length ip)))"
    using j(1) p1 unfolding number_def Let_def by auto
  then show ?thesis using p2 p3 t(1) by (simp add: j_def algebra_simps)
qed

abbreviation codes :: "string \<Rightarrow> nat list" where
  "codes t \<equiv> map of_char t"

lemma show_nat_number: "int_text (codes (show_nat n))"
proof (cases "n = 0")
  case True
  then show ?thesis by (simp add: show_nat_0 int_text_def)
next
  case False
  obtain c cs where c: "show_nat n = c # cs" using show_nat_ne by (cases "show_nat n") auto
  have "c \<noteq> CHR ''0''" using show_nat_lead [of n] False c by simp
  then show ?thesis
    using c show_nat_digits [of n]
    by (auto simp: int_text_def digits_def is_digit_def is_ascii_digit_code char_zero_code)
qed

lemma show_int_number: "json_number (codes (show_int n))"
proof -
  have "codes (show_int n) = (if n < 0 then [0x2D] else []) @ codes (show_nat (nat \<bar>n\<bar>)) @ [] @ []"
    by (simp add: show_int_def)
  moreover have "frac_text []" "exp_text []" by (simp_all add: frac_text_def exp_text_def)
  ultimately show ?thesis
    unfolding json_number_def using show_nat_number [of "nat \<bar>n\<bar>"] by (metis (full_types))
qed

section \<open>Strings\<close>

lemma scanstring_plain:
  assumes "i < length s" "plain (s ! i)"
  shows "scanstring s b i = scanstring s b (Suc i)"
proof -
  have "skip_while plain s i = skip_while plain s (Suc i)"
    unfolding skip_while.simps [of plain s i] using assms by simp
  then show ?thesis unfolding scanstring.simps [of s b i] scanstring.simps [of s b "Suc i"] by simp
qed

lemma skip_while_stop: "i < length s \<Longrightarrow> \<not> p (s ! i) \<Longrightarrow> skip_while p s i = i"
  by (subst skip_while.simps) simp

lemma scanstring_escape:
  assumes "i < length s" "s ! i = 0x5C" "escape s b i = Inr j"
  shows "scanstring s b i = scanstring s b j"
  using assms unfolding scanstring.simps [of s b i] by (simp add: skip_while_stop plain_def)

lemma scanstring_quote:
  "i < length s \<Longrightarrow> s ! i = 0x22 \<Longrightarrow> scanstring s b i = Inr (i + 1)"
  unfolding scanstring.simps [of s b i] by (simp add: skip_while_stop plain_def)

lemma to_digit16_hex: "d < 16 \<Longrightarrow> to_digit16 (of_char (hex_char d)) = Some d"
  by (auto simp: to_digit16_def hex_char_def of_char_byte)

lemma hex4_run:
  assumes "drop i s = codes [hex_char a, hex_char b, hex_char c, hex_char d] @ r" "a < 16" "b < 16" "c < 16" "d < 16"
  shows "hex4 s i = Some (((a * 16 + b) * 16 + c) * 16 + d)"
proof -
  have "s ! i = of_char (hex_char a)" "s ! (i + 1) = of_char (hex_char b)" "s ! (i + 2) = of_char (hex_char c)"
    "s ! (i + 3) = of_char (hex_char d)"
    using assms(1) by (auto dest!: drop_Cons_at simp: numeral_2_eq_2 numeral_3_eq_3)
  then show ?thesis using assms(2-) by (simp add: hex4_def to_digit16_hex)
qed

lemma hex_digits_value:
  fixes n :: nat
  assumes "n < 0x10000"
  shows "((n div 4096 mod 16 * 16 + n div 256 mod 16) * 16 + n div 16 mod 16) * 16 + n mod 16 = n"
proof -
  have 1: "n div 16 * 16 + n mod 16 = n" by simp
  have 2: "n div 256 * 16 + n div 16 mod 16 = n div 16"
    using div_mult_mod_eq [of "n div 16" 16] by (simp add: div_mult2_eq [symmetric])
  have 3: "n div 4096 * 16 + n div 256 mod 16 = n div 256"
    using div_mult_mod_eq [of "n div 256" 16] by (simp add: div_mult2_eq [symmetric])
  have 4: "n div 4096 mod 16 = n div 4096" using assms by (simp add: div_less_iff_less_mult)
  show ?thesis by (simp only: 4 3 2 1)
qed

lemma length_u_escape [simp]: "length (u_escape n) = 6"
  by (simp add: u_escape_def)

lemma u_escape_hex4:
  assumes "drop i s = codes (u_escape n) @ r" "n < 0x10000"
  shows "hex4 s (i + 2) = Some n" "i < length s" "s ! i = 0x5C" "s ! (i + 1) = 0x75"
proof -
  have d: "drop (Suc (Suc i)) s = codes [hex_char (n div 4096 mod 16), hex_char (n div 256 mod 16),
      hex_char (n div 16 mod 16), hex_char (n mod 16)] @ r"
    using assms(1) by (auto simp: u_escape_def dest!: drop_Cons_at)
  have "hex4 s (Suc (Suc i)) = Some n"
    using hex4_run [OF d, unfolded hex_digits_value [OF assms(2)]] by simp
  then show "hex4 s (i + 2) = Some n" by simp
  show "i < length s" "s ! i = 0x5C" "s ! (i + 1) = 0x75"
    using assms(1) by (auto simp: u_escape_def dest!: drop_Cons_at)
qed

lemma drop_length: "drop i s = t @ r \<Longrightarrow> t \<noteq> [] \<Longrightarrow> length s = i + length t + length r"
  by (metis append_is_Nil_conv drop_eq_Nil2 length_append length_drop le_add_diff_inverse add.assoc less_imp_le not_le)

lemma escape_u:
  assumes "drop i s = codes (u_escape n) @ r" "n < 0xD800 \<or> 0xDC00 \<le> n \<and> n < 0x10000" "r \<noteq> []"
  shows "escape s b i = Inr (i + 6)"
proof -
  have n: "n < 0x10000" using assms(2) by auto
  note u = u_escape_hex4 [OF assms(1) n]
  have len: "i + 6 < length s" using drop_length [OF assms(1)] assms(3) by (simp add: u_escape_def)
  show ?thesis
    using u len assms(2) by (auto simp: escape_def Let_def add.commute)
qed

lemma escape_pair:
  assumes "drop i s = codes (u_escape hi @ u_escape lo) @ r" "0xD800 \<le> hi" "hi < 0xDC00" "0xDC00 \<le> lo" "lo < 0xE000" "r \<noteq> []"
  shows "escape s b i = Inr (i + 12)"
proof -
  have d1: "drop i s = codes (u_escape hi) @ codes (u_escape lo) @ r" using assms(1) by simp
  have d2: "drop (i + 6) s = codes (u_escape lo) @ r" using drop_append_at [OF d1] by simp
  note u = u_escape_hex4 [OF d1] and v = u_escape_hex4 [OF d2]
  have len: "i + 12 < length s" using drop_length [OF d1] assms(6) by (simp add: u_escape_def)
  show ?thesis
    using u v len assms(2-5) by (auto simp: escape_def Let_def add.commute)
qed


lemma scanstring_json_char:
  assumes d: "drop i s = codes (json_char n) @ r" and n: "scalar n" and r: "r \<noteq> []"
  shows "scanstring s b i = scanstring s b (i + length (json_char n))"
proof -
  have simple: ?thesis if "json_char n = [backslash, c]" "of_char c \<in> {0x22, 0x5C, 0x6E, 0x72, 0x74, 0x62, 0x66 :: nat}" for c
  proof -
    have "i < length s" "s ! i = 0x5C" "i + 1 < length s" "s ! (i + 1) = of_char c"
      using d that by (auto dest!: drop_Cons_at)
    then have "escape s b i = Inr (i + 2)" using that by (auto simp: escape_def)
    then show ?thesis using \<open>i < length s\<close> \<open>s ! i = 0x5C\<close> that scanstring_escape by simp
  qed
  consider "n \<in> {0x22, 0x5C, 0x0A, 0x0D, 0x09, 0x08, 0x0C}"
    | "n \<notin> {0x22, 0x5C, 0x0A, 0x0D, 0x09, 0x08, 0x0C}" "0x20 \<le> n" "n \<le> 0x7E"
    | "n \<notin> {0x22, 0x5C, 0x0A, 0x0D, 0x09, 0x08, 0x0C}" "\<not> (0x20 \<le> n \<and> n \<le> 0x7E)" "n \<le> 0xFFFF"
    | "n > 0xFFFF"
    by force
  then show ?thesis
  proof cases
    case 1
    then have "\<exists>c. json_char n = [backslash, c] \<and> of_char c \<in> {0x22, 0x5C, 0x6E, 0x72, 0x74, 0x62, 0x66 :: nat}"
      by (auto simp: json_char_def)
    then show ?thesis using simple by blast
  next
    case 2
    then have "json_char n = [char_of n]" by (simp add: json_char_def)
    moreover then have "i < length s" "s ! i = n" using d 2 by (auto dest!: drop_Cons_at)
    ultimately show ?thesis using 2 scanstring_plain [of i s b] by (simp add: plain_def)
  next
    case 3
    then have j: "json_char n = u_escape n" by (auto simp: json_char_def)
    have "n < 0xD800 \<or> 0xDC00 \<le> n \<and> n < 0x10000" using n 3 by (auto simp: scalar_def)
    moreover have "n < 0x10000" using 3 by simp
    ultimately show ?thesis
      using escape_u [OF d [unfolded j] _ r] u_escape_hex4 [OF d [unfolded j]] scanstring_escape [of i s b "i + 6"] j
      by simp
  next
    case 4
    define v where "v = n - 0x10000"
    have v: "v div 1024 < 1024" using n 4 by (auto simp: scalar_def v_def div_less_iff_less_mult)
    have j: "json_char n = u_escape (0xD800 + v div 1024) @ u_escape (0xDC00 + v mod 1024)"
      using 4 by (simp add: json_char_def v_def Let_def)
    have "drop i s = codes (u_escape (0xD800 + v div 1024)) @ codes (u_escape (0xDC00 + v mod 1024)) @ r"
      using d j by simp
    from u_escape_hex4 [OF this] have "i < length s" "s ! i = 0x5C" using v by simp_all
    moreover have "escape s b i = Inr (i + 12)"
      using escape_pair [OF d [unfolded j]] v r by simp
    ultimately show ?thesis using scanstring_escape [of i s b "i + 12"] j by simp
  qed
qed

lemma scanstring_body:
  assumes "drop i s = codes (concat (map json_char cps)) @ 0x22 # r" "\<forall>n \<in> set cps. scalar n"
  shows "scanstring s b i = Inr (i + length (concat (map json_char cps)) + 1)"
  using assms
proof (induction cps arbitrary: i)
  case Nil
  then have "i < length s" "s ! i = 0x22" by (auto dest: drop_Cons_at)
  then show ?case by (simp add: scanstring_quote)
next
  case (Cons n cps)
  define t where "t = codes (concat (map json_char cps)) @ 0x22 # r"
  have d: "drop i s = codes (json_char n) @ t" using Cons.prems(1) by (simp add: t_def)
  have d': "drop (i + length (json_char n)) s = t" using drop_append_at [OF d] by simp
  have "scanstring s b i = scanstring s b (i + length (json_char n))"
    using scanstring_json_char [OF d] Cons.prems(2) by (simp add: t_def)
  then show ?case using Cons.IH [OF d' [unfolded t_def]] Cons.prems(2) by simp
qed

text \<open>Text, and the values whose strings and keys are text.\<close>

definition is_text :: "string \<Rightarrow> bool" where
  "is_text s \<longleftrightarrow> (\<forall>n \<in> set (chars s). scalar n)"

fun texts :: "json \<Rightarrow> bool" where
  "texts (String s) \<longleftrightarrow> is_text s"
| "texts (Array items) \<longleftrightarrow> (\<forall>v \<in> set items. texts v)"
| "texts (Object m) \<longleftrightarrow> (\<forall>(k, v) \<in> set m. is_text k \<and> texts v)"
| "texts _ \<longleftrightarrow> True"

fun nesting :: "json \<Rightarrow> nat" where
  "nesting (Array items) = 1 + Max (insert 0 (set (map nesting items)))"
| "nesting (Object m) = 1 + Max (insert 0 (set (map (\<lambda>(k, v). nesting v) m)))"
| "nesting _ = 0"

lemma scan_string_value:
  assumes "drop i s = codes (python_json_string t) @ r" "is_text t"
  shows "char_at s i = Some 0x22 \<and> scanstring s i (i + 1) = Inr (i + length (python_json_string t))"
proof -
  have "drop i s = 0x22 # codes (concat (map json_char (chars t))) @ 0x22 # r"
    using assms(1) by (simp add: python_json_string_def)
  then have "char_at s i = Some 0x22" and d: "drop (Suc i) s = codes (concat (map json_char (chars t))) @ 0x22 # r"
    by (auto dest: drop_Cons_char_at drop_Cons_at)
  then show ?thesis
    using scanstring_body [OF d] assms(2) by (simp add: is_text_def python_json_string_def)
qed


section \<open>Values\<close>

lemma literal_at_word:
  assumes "drop i s = codes w @ r" "w \<in> {''null'', ''true'', ''false''}"
  shows "literal_at s i = Some (length w)"
proof -
  have "i + length w \<le> length s" using drop_length [OF assms(1)] assms(2) by auto
  then have w: "word_at s i w" using assms(1) by (simp add: word_at_def)
  have c: "drop i s = of_char (hd w) # codes (tl w) @ r" using assms by auto
  have "\<not> word_at s i v" if "v \<noteq> []" "hd v \<noteq> hd w" for v
    using that c by (cases v) (auto simp: word_at_def)
  then have "find (word_at s i) [''null'', ''true'', ''false'', ''NaN'', ''Infinity'', ''-Infinity''] = Some w"
    using assms(2) w by auto
  then show ?thesis unfolding literal_at_def by simp
qed

lemma word_at_Cons: "drop i s = c # r \<Longrightarrow> word_at s i (d # w) \<Longrightarrow> of_char d = c \<and> (w \<noteq> [] \<longrightarrow> r \<noteq> [] \<and> of_char (hd w) = hd r)"
  by (cases w; cases r) (auto simp: word_at_def)

lemma literal_at_number:
  assumes "drop i s = t @ r" "json_number t"
  shows "literal_at s i = None" "\<exists>c. char_at s i = Some c \<and> c \<noteq> 0x22 \<and> c \<noteq> 0x7B \<and> c \<noteq> 0x5B \<and> \<not> is_ws c"
proof -
  obtain sg ip rest where t: "t = sg @ ip @ rest" "sg = [] \<or> sg = [0x2D]" and ip: "int_text ip"
    using assms(2) unfolding json_number_def by blast
  obtain c cs where c: "ip = c # cs" "is_digit c"
    using ip by (cases ip) (auto simp: int_text_def digits_def is_digit_def)
  have d: "drop i s = sg @ c # cs @ rest @ r" using assms(1) t(1) c(1) by simp
  have "\<not> word_at s i w" if "w \<in> set [''null'', ''true'', ''false'', ''NaN'', ''Infinity'', ''-Infinity'']" for w
  proof
    assume w: "word_at s i w"
    show False
      using t(2)
    proof
      assume "sg = []"
      then show False using d that w c(2) by (auto dest: word_at_Cons simp: is_digit_def)
    next
      assume "sg = [0x2D]"
      then show False using d that w c(2) by (auto dest: word_at_Cons simp: is_digit_def)
    qed
  qed
  then show "literal_at s i = None" unfolding literal_at_def by (simp add: find_None_iff)
  show "\<exists>c. char_at s i = Some c \<and> c \<noteq> 0x22 \<and> c \<noteq> 0x7B \<and> c \<noteq> 0x5B \<and> \<not> is_ws c"
    using t(2) d c(2) by (auto simp: is_digit_def is_ws_def dest!: drop_Cons_char_at)
qed

text \<open>The first character of a written value is not whitespace.\<close>

lemma first_not_ws:
  assumes "\<And>f. json_number (codes (fl f))"
  shows "\<exists>c u. codes (python_json_value fl v) = c # u \<and> \<not> is_ws c \<and> c \<noteq> 0x5D \<and> c \<noteq> 0x7D"
proof -
  have num: "\<exists>c u. t = c # u \<and> \<not> is_ws c \<and> c \<noteq> 0x5D \<and> c \<noteq> 0x7D" if jn: "json_number t" for t
  proof -
    obtain sg ip rest where t: "t = sg @ ip @ rest" "sg = [] \<or> sg = [0x2D]" "int_text ip"
      using jn unfolding json_number_def by blast
    then obtain c cs where c: "ip = c # cs" "is_digit c"
      by (cases ip) (auto simp: int_text_def digits_def is_digit_def)
    have "\<not> is_ws c \<and> c \<noteq> 0x5D \<and> c \<noteq> 0x7D" using c(2) by (auto simp: is_digit_def is_ws_def)
    then show ?thesis using t(2) by (auto simp: t(1) c(1) is_ws_def)
  qed
  show ?thesis
  proof (cases v)
    case (IntNum n)
    then show ?thesis using num [OF show_int_number] by simp
  next
    case (FloatNum f)
    then show ?thesis using num [OF assms] by simp
  qed (simp_all add: python_json_string_def is_ws_def)
qed

lemma skip_ws_stay: "drop i s = c # r \<Longrightarrow> \<not> is_ws c \<Longrightarrow> skip_ws s i = i"
  by (auto simp: skip_ws_def skip_while_stop dest: drop_Cons_at)

lemma skip_ws_space: "drop i s = 0x20 # c # r \<Longrightarrow> \<not> is_ws c \<Longrightarrow> skip_ws s i = Suc i"
  unfolding skip_ws_def using skip_while_run [of i s "[0x20]" "c # r" is_ws] by (simp add: is_ws_def)

text \<open>What scanning one written value gives, and the same for the tail of a list of values.\<close>

definition scans :: "(rat \<Rightarrow> string) \<Rightarrow> nat \<Rightarrow> json \<Rightarrow> bool" where
  "scans fl d v \<longleftrightarrow>
     (\<forall>s i r. drop i s = codes (python_json_value fl v) @ r \<longrightarrow> delimited r \<longrightarrow>
        scan_once s d i = Inr (i + length (python_json_value fl v)))"

lemma join_Cons: "join sep (x # y # xs) = x @ sep @ join sep (y # xs)"
  by simp

lemma join_first:
  assumes "\<And>f. json_number (codes (fl f))" "vs \<noteq> []"
  shows "\<exists>c u. codes (join '', '' (map (python_json_value fl) vs)) = c # u \<and> \<not> is_ws c"
proof -
  obtain v ws where "vs = v # ws" using assms(2) by (cases vs) auto
  then show ?thesis using first_not_ws [of fl v, OF assms(1)] by (cases ws) auto
qed

lemma not_ws_marks: "\<not> is_ws 0x5D" "\<not> is_ws 0x7D" "\<not> is_ws 0x2C" "\<not> is_ws 0x3A" "\<not> is_ws 0x22"
  by (simp_all add: is_ws_def)

lemma elements_run:
  assumes fl: "\<And>f. json_number (codes (fl f))" and ne: "vs \<noteq> []" and sc: "\<forall>v \<in> set vs. scans fl d v"
    and dr: "drop i s = codes (join '', '' (map (python_json_value fl) vs)) @ 0x5D # r"
  shows "elements s d i = Inr (i + length (join '', '' (map (python_json_value fl) vs)) + 1)"
  using ne sc dr
proof (induction vs arbitrary: i)
  case (Cons v vs)
  define t where "t = codes (python_json_value fl v)"
  define j where "j = i + length t"
  have scan: "scan_once s d i = Inr j" if "drop i s = t @ r'" "delimited r'" for r'
    using that Cons.prems(2) by (auto simp: scans_def t_def j_def)
  show ?case
  proof (cases "vs = []")
    case True
    then have d: "drop i s = t @ 0x5D # r" using Cons.prems(3) by (simp add: t_def)
    have "drop j s = 0x5D # r" using drop_append_at [OF d] by (simp add: j_def)
    then show ?thesis
      unfolding elements.simps [of s d i] using True scan [OF d]
      by (simp add: skip_ws_stay drop_Cons_char_at not_ws_marks delimited_def j_def t_def)
  next
    case False
    define u where "u = codes (join '', '' (map (python_json_value fl) vs)) @ 0x5D # r"
    have jn: "join '', '' (map (python_json_value fl) (v # vs))
        = python_json_value fl v @ '', '' @ join '', '' (map (python_json_value fl) vs)"
      using False by (cases vs) simp_all
    have d: "drop i s = t @ 0x2C # 0x20 # u" using Cons.prems(3) unfolding jn by (simp add: t_def u_def)
    have dj: "drop j s = 0x2C # 0x20 # u" using drop_append_at [OF d] by (simp add: j_def)
    obtain c u' where cu: "u = c # u'" "\<not> is_ws c" using join_first [of fl vs, OF fl False] by (auto simp: u_def)
    have d1: "drop (Suc j) s = 0x20 # u" and d2: "drop (Suc (Suc j)) s = u"
      using dj by (auto dest!: drop_Cons_at)
    have "skip_ws s (Suc j) = Suc (Suc j)" using skip_ws_space d1 cu by simp
    moreover have "elements s d (Suc (Suc j)) = Inr (Suc (Suc j) + length (join '', '' (map (python_json_value fl) vs)) + 1)"
      by (rule Cons.IH [OF False]) (use Cons.prems(2) d2 in \<open>simp_all add: u_def\<close>)
    ultimately show ?thesis
      unfolding elements.simps [of s d i] jn using scan [OF d] dj
      by (simp add: skip_ws_stay drop_Cons_char_at not_ws_marks delimited_def j_def t_def)
  qed
qed simp

definition member_text :: "(rat \<Rightarrow> string) \<Rightarrow> string \<times> json \<Rightarrow> string" where
  "member_text fl = (\<lambda>(k, v). python_json_string k @ '': '' @ python_json_value fl v)"

lemma members_run:
  assumes fl: "\<And>f. json_number (codes (fl f))" and ne: "m \<noteq> []"
    and sc: "\<forall>(k, v) \<in> set m. is_text k \<and> scans fl d v"
    and dr: "drop i s = codes (join '', '' (map (member_text fl) m)) @ 0x7D # r"
  shows "members s d i = Inr (i + length (join '', '' (map (member_text fl) m)) + 1)"
  using ne sc dr
proof (induction m arbitrary: i)
  case (Cons kv m)
  obtain k v where kv: "kv = (k, v)" by (cases kv)
  define t where "t = codes (python_json_value fl v)"
  define a where "a = i + length (python_json_string k)"
  define j where "j = a + 2 + length t"
  have mt: "codes (member_text fl kv) = codes (python_json_string k) @ 0x3A # 0x20 # t"
    by (simp add: member_text_def kv t_def)
  obtain c t' where ct: "t = c # t'" "\<not> is_ws c" using first_not_ws [of fl v, OF fl] by (auto simp: t_def)
  have name: "char_at s i = Some 0x22" "scanstring s i (i + 1) = Inr a" "char_at s a = Some 0x3A" "skip_ws s a = a"
      "skip_ws s (a + 1) = a + 2" "drop j s = r'"
      "scan_once s d (a + 2) = Inr j"
    if d: "drop i s = codes (member_text fl kv) @ r'" and r': "delimited r'" for r'
  proof -
    have d0: "drop i s = codes (python_json_string k) @ 0x3A # 0x20 # t @ r'" using d mt by simp
    have d1: "drop a s = 0x3A # 0x20 # t @ r'" using drop_append_at [OF d0] by (simp add: a_def)
    have d2: "drop (Suc a) s = 0x20 # t @ r'" and d3: "drop (Suc (Suc a)) s = t @ r'"
      using d1 by (auto dest!: drop_Cons_at)
    have "is_text k" "scans fl d v" using Cons.prems(2) kv by auto
    then show "char_at s i = Some 0x22" "scanstring s i (i + 1) = Inr a"
      using scan_string_value [OF d0] by (auto simp: a_def)
    show "char_at s a = Some 0x3A" "skip_ws s a = a"
      using d1 by (auto simp: drop_Cons_char_at skip_ws_stay not_ws_marks)
    show "skip_ws s (a + 1) = a + 2" using skip_ws_space [of "Suc a" s c "t' @ r'"] d2 ct by simp
    show "drop j s = r'" using drop_append_at [OF d3] by (simp add: j_def)
    show "scan_once s d (a + 2) = Inr j"
      using \<open>scans fl d v\<close> d3 r' by (auto simp: scans_def t_def j_def)
  qed
  have len: "i + length (member_text fl kv) = j" by (simp add: member_text_def kv j_def a_def t_def)
  show ?case
  proof (cases "m = []")
    case True
    then have d: "drop i s = codes (member_text fl kv) @ 0x7D # r" using Cons.prems(3) by simp
    note n = name [OF d]
    show ?thesis
      unfolding members.simps [of s d i] using True n len
      by (simp add: skip_ws_stay drop_Cons_char_at not_ws_marks delimited_def)
  next
    case False
    define u where "u = codes (join '', '' (map (member_text fl) m)) @ 0x7D # r"
    have jn: "join '', '' (map (member_text fl) (kv # m)) = member_text fl kv @ '', '' @ join '', '' (map (member_text fl) m)"
      using False by (cases m) simp_all
    have d: "drop i s = codes (member_text fl kv) @ 0x2C # 0x20 # u"
      using Cons.prems(3) unfolding jn by (simp add: u_def)
    note n = name [OF d]
    have dj: "drop j s = 0x2C # 0x20 # u" using n(6) by (simp add: delimited_def)
    obtain x m' where m: "m = x # m'" using False by (cases m) auto
    have "\<exists>w. member_text fl x = dquote # w"
      by (simp add: member_text_def python_json_string_def split: prod.split)
    then have "\<exists>w. join '', '' (map (member_text fl) m) = dquote # w"
      using m by (cases m') auto
    then obtain u' where cu: "u = 0x22 # u'" by (auto simp: u_def)
    have d1: "drop (Suc j) s = 0x20 # u" and d2: "drop (Suc (Suc j)) s = u"
      using dj by (auto dest!: drop_Cons_at)
    have "skip_ws s (Suc j) = Suc (Suc j)" using skip_ws_space d1 cu not_ws_marks by simp
    moreover have "members s d (Suc (Suc j)) = Inr (Suc (Suc j) + length (join '', '' (map (member_text fl) m)) + 1)"
      by (rule Cons.IH [OF False]) (use Cons.prems(2) d2 in \<open>simp_all add: u_def\<close>)
    ultimately show ?thesis
      unfolding members.simps [of s d i] jn using n dj len
      by (simp add: skip_ws_stay drop_Cons_char_at not_ws_marks delimited_def)
  qed
qed simp


lemma object_text: "python_json_value fl (Object m) = ''{'' @ join '', '' (map (member_text fl) m) @ ''}''"
  by (simp add: member_text_def)

lemma scan_number_value:
  assumes "drop i s = t @ r" "json_number t" "delimited r"
  shows "scan_once s d i = Inr (i + length t)"
proof -
  obtain c where c: "char_at s i = Some c" "c \<noteq> 0x22" "c \<noteq> 0x7B" "c \<noteq> 0x5B"
    using literal_at_number(2) [OF assms(1,2)] by blast
  then show ?thesis
    unfolding scan_once.simps [of s d i]
    by (simp add: literal_at_number(1) [OF assms(1,2)] number_run [OF assms])
qed

lemma scan_literal_value:
  assumes "drop i s = codes w @ r" "w \<in> {''null'', ''true'', ''false''}"
  shows "scan_once s d i = Inr (i + length w)"
proof -
  have "\<exists>c. char_at s i = Some c \<and> c \<noteq> 0x22 \<and> c \<noteq> 0x7B \<and> c \<noteq> 0x5B"
    using assms by (auto dest!: drop_Cons_char_at)
  then show ?thesis
    unfolding scan_once.simps [of s d i] using literal_at_word [OF assms] by auto
qed

lemma scan_array_value:
  assumes fl: "\<And>f. json_number (codes (fl f))" and d: "d < MAX_DEPTH"
    and sc: "\<forall>v \<in> set vs. scans fl (d + 1) v"
    and dr: "drop i s = codes (python_json_value fl (Array vs)) @ r"
  shows "scan_once s d i = Inr (i + length (python_json_value fl (Array vs)))"
proof -
  define t where "t = join '', '' (map (python_json_value fl) vs)"
  have c: "char_at s i = Some 0x5B" and d1: "drop (Suc i) s = codes t @ 0x5D # r"
    using dr by (auto simp: t_def dest: drop_Cons_char_at drop_Cons_at)
  have "array_at s (d + 1) (Suc i) = Inr (Suc i + length t + 1)"
  proof (cases "vs = []")
    case True
    then have "drop (Suc i) s = 0x5D # r" using d1 by (simp add: t_def)
    then show ?thesis
      unfolding array_at.simps [of s "d + 1" "Suc i"] using True
      by (simp add: skip_ws_stay not_ws_marks drop_Cons_char_at t_def)
  next
    case False
    obtain c u where cu: "codes t = c # u" "\<not> is_ws c" "c \<noteq> 0x5D"
    proof -
      obtain v ws where "vs = v # ws" using False by (cases vs) auto
      then show ?thesis using first_not_ws [of fl v, OF fl] that by (cases ws) (auto simp: t_def)
    qed
    then have "drop (Suc i) s = c # u @ 0x5D # r" using d1 by simp
    then show ?thesis
      unfolding array_at.simps [of s "d + 1" "Suc i"]
      using elements_run [OF fl False sc d1 [unfolded t_def]] cu by (simp add: skip_ws_stay drop_Cons_char_at t_def)
  qed
  then show ?thesis unfolding scan_once.simps [of s d i] using c d by (simp add: t_def)
qed

lemma scan_object_value:
  assumes fl: "\<And>f. json_number (codes (fl f))" and d: "d < MAX_DEPTH"
    and sc: "\<forall>(k, v) \<in> set m. is_text k \<and> scans fl (d + 1) v"
    and dr: "drop i s = codes (python_json_value fl (Object m)) @ r"
  shows "scan_once s d i = Inr (i + length (python_json_value fl (Object m)))"
proof -
  define t where "t = join '', '' (map (member_text fl) m)"
  have c: "char_at s i = Some 0x7B" and d1: "drop (Suc i) s = codes t @ 0x7D # r"
    using dr unfolding object_text by (auto simp: t_def dest: drop_Cons_char_at drop_Cons_at)
  have "object_at s (d + 1) (Suc i) = Inr (Suc i + length t + 1)"
  proof (cases "m = []")
    case True
    then have "drop (Suc i) s = 0x7D # r" using d1 by (simp add: t_def)
    then show ?thesis
      unfolding object_at.simps [of s "d + 1" "Suc i"] using True
      by (simp add: skip_ws_stay not_ws_marks drop_Cons_char_at t_def)
  next
    case False
    obtain u where cu: "codes t = 0x22 # u"
    proof -
      obtain x m' where m: "m = x # m'" using False by (cases m) auto
      have "\<exists>w. member_text fl x = dquote # w"
        by (simp add: member_text_def python_json_string_def split: prod.split)
      then show ?thesis using m that by (cases m') (auto simp: t_def)
    qed
    then have "drop (Suc i) s = 0x22 # u @ 0x7D # r" using d1 by simp
    then show ?thesis
      unfolding object_at.simps [of s "d + 1" "Suc i"]
      using members_run [OF fl False sc d1 [unfolded t_def]]
      by (simp add: skip_ws_stay not_ws_marks drop_Cons_char_at t_def)
  qed
  then show ?thesis unfolding scan_once.simps [of s d i] object_text using c d by (simp add: t_def)
qed

lemma nesting_le: "x \<in> set xs \<Longrightarrow> nesting x \<le> Max (insert 0 (set (map nesting xs)))"
  by (rule Max_ge) auto

lemma nesting_member_le: "(k, v) \<in> set m \<Longrightarrow> nesting v \<le> Max (insert 0 (set (map (\<lambda>(k, v). nesting v) m)))"
  by (rule Max_ge) force+

lemma scans_value:
  assumes fl: "\<And>f. json_number (codes (fl f))"
  shows "texts v \<Longrightarrow> nesting v + d \<le> MAX_DEPTH \<Longrightarrow> scans fl d v"
proof (induction v arbitrary: d)
  case (String t)
  then show ?case
    by (auto simp: scans_def scan_once.simps dest: scan_string_value)
next
  case (Array vs)
  have "scans fl (d + 1) v" if "v \<in> set vs" for v
  proof (rule Array.IH [OF that])
    show "texts v" using Array.prems(1) that by simp
    show "nesting v + (d + 1) \<le> MAX_DEPTH"
      using Array.prems(2) nesting_le [OF that] unfolding nesting.simps by linarith
  qed
  moreover have "d < MAX_DEPTH" using Array.prems(2) by simp
  ultimately show ?case unfolding scans_def [of fl d "Array vs"] using scan_array_value [of fl, OF fl] by blast
next
  case (Object m)
  have "is_text k \<and> scans fl (d + 1) v" if kv: "(k, v) \<in> set m" for k v
  proof
    show "is_text k" using Object.prems(1) kv by auto
    show "scans fl (d + 1) v"
    proof (rule Object.IH [OF kv])
      show "v \<in> Basic_BNFs.snds (k, v)" by simp
      show "texts v" using Object.prems(1) kv by auto
      show "nesting v + (d + 1) \<le> MAX_DEPTH"
        using Object.prems(2) nesting_member_le [OF kv] unfolding nesting.simps by linarith
    qed
  qed
  moreover have "d < MAX_DEPTH" using Object.prems(2) by simp
  ultimately show ?case unfolding scans_def [of fl d "Object m"] using scan_object_value [of fl, OF fl] by blast
next
  case Null
  then show ?case by (simp add: scans_def scan_literal_value [where w = "''null''"])
next
  case (Bool b)
  then show ?case
    by (cases b) (simp_all add: scans_def scan_literal_value [where w = "''true''"] scan_literal_value [where w = "''false''"])
next
  case (IntNum n)
  then show ?case using scan_number_value show_int_number by (fastforce simp: scans_def)
next
  case (FloatNum f)
  then show ?case using scan_number_value fl by (fastforce simp: scans_def)
qed

lemma chars_ascii_text: "\<forall>c \<in> set t. of_char c < (0x80 :: nat) \<Longrightarrow> chars t = codes t"
  by (induction t) (auto simp: chars_ascii)

definition ascii :: "string \<Rightarrow> bool" where
  "ascii t \<longleftrightarrow> (\<forall>c \<in> set t. of_char c < (0x80 :: nat))"

lemma ascii_append [simp]: "ascii (t @ u) \<longleftrightarrow> ascii t \<and> ascii u"
  and ascii_Cons [simp]: "ascii (c # u) \<longleftrightarrow> of_char c < (0x80 :: nat) \<and> ascii u"
  and ascii_Nil [simp]: "ascii []"
  by (auto simp: ascii_def)

lemma ascii_join: "ascii sep \<Longrightarrow> \<forall>t \<in> set ts. ascii t \<Longrightarrow> ascii (join sep ts)"
  by (induction sep ts rule: join.induct) auto

lemma ascii_json_char: "ascii (json_char n)"
  using hex_value_char by (auto simp: json_char_def u_escape_def Let_def)

lemma ascii_json_string: "ascii (python_json_string t)"
proof -
  have "ascii (concat (map json_char cps))" for cps
    by (induction cps) (simp_all add: ascii_json_char)
  then show ?thesis by (simp add: python_json_string_def)
qed

lemma json_number_ascii:
  assumes "json_number u"
  shows "\<forall>c \<in> set u. c < 0x80"
proof -
  have d: "\<forall>c \<in> set t. c < 0x80" if "digits t" for t
    using that by (fastforce simp: digits_def is_digit_def)
  have "\<forall>c \<in> set t. c < 0x80" if "int_text t" for t
    using that d [of t] by (auto simp: int_text_def)
  moreover have "\<forall>c \<in> set t. c < 0x80" if "frac_text t" for t
    using that d by (auto simp: frac_text_def)
  moreover have "\<forall>c \<in> set t. c < 0x80" if "exp_text t" for t
    using that d by (auto simp: exp_text_def)
  ultimately show ?thesis using assms by (auto simp: json_number_def)
qed

lemma ascii_number: "json_number (codes t) \<Longrightarrow> ascii t"
  using json_number_ascii by (fastforce simp: ascii_def)

lemma ascii_value: "(\<And>f. json_number (codes (fl f))) \<Longrightarrow> ascii (python_json_value fl v)"
proof (induction v)
  case (Object m)
  then show ?case
    by (auto simp: ascii_json_string intro!: ascii_join)
next
  case (Array vs)
  then show ?case by (auto intro!: ascii_join)
qed (auto simp: ascii_json_string ascii_number show_int_number)



lemma scanstring_not_deep: "scanstring s b i \<noteq> Inl StopTooDeep"
proof (induction s b i rule: scanstring.induct)
  case (1 s b i)
  have "escape s b j \<noteq> Inl StopTooDeep" for j
    by (auto simp: escape_def Let_def split: if_splits option.splits)
  then show ?case
    unfolding scanstring.simps [of s b i] Let_def using "1.IH" [OF refl]
    by (auto split: if_splits sum.splits)
qed

lemma number_not_deep: "number s i \<noteq> Inl StopTooDeep"
  by (auto simp: number_def Let_def split: if_splits option.splits)

lemma scan_deep:
  "scan_once s d i = Inl StopTooDeep \<longrightarrow> MAX_DEPTH < d + (length s - i)"
  "object_at s d i = Inl StopTooDeep \<longrightarrow> MAX_DEPTH < d + (length s - i)"
  "members s d i = Inl StopTooDeep \<longrightarrow> MAX_DEPTH < d + (length s - i)"
  "array_at s d i = Inl StopTooDeep \<longrightarrow> MAX_DEPTH < d + (length s - i)"
  "elements s d i = Inl StopTooDeep \<longrightarrow> MAX_DEPTH < d + (length s - i)"
proof (induction s d i and s d i and s d i and s d i and s d i
    rule: scan_once_object_at_members_array_at_elements.induct)
  case (1 s d i)
  then show ?case
    unfolding scan_once.simps [of s d i]
    by (auto simp: char_at_def scanstring_not_deep number_not_deep split: if_splits option.splits)
next
  case (2 s d i)
  then show ?case
    using skip_ws_left [of s i] by (auto simp: object_at.simps [of s d i] Let_def split: if_splits)
next
  case (3 s d i)
  have "length s - skip_ws s (skip_ws s k + 1) \<le> length s - i" if "scanstring s i (i + 1) = Inr k" for k
    using scanstring_bounds [OF that] skip_ws_ge [of k s] skip_ws_ge [of "skip_ws s k + 1" s] by linarith
  moreover have "length s - skip_ws s (skip_ws s l + 1) \<le> length s - i"
    if "scanstring s i (i + 1) = Inr k" "scan_once s d (skip_ws s (skip_ws s k + 1)) = Inr l" for k l
    using scanstring_bounds [OF that(1)] scan_advances(1) [OF that(2)] skip_ws_ge [of k s]
      skip_ws_ge [of "skip_ws s k + 1" s] skip_ws_ge [of l s] skip_ws_ge [of "skip_ws s l + 1" s] by linarith
  ultimately show ?case
    unfolding members.simps [of s d i] Let_def
    using 3 by (fastforce simp: scanstring_not_deep split: if_splits sum.splits)
next
  case (4 s d i)
  then show ?case
    using skip_ws_left [of s i] by (auto simp: array_at.simps [of s d i] Let_def split: if_splits)
next
  case (5 s d i)
  have "length s - skip_ws s (skip_ws s l + 1) \<le> length s - i" if "scan_once s d i = Inr l" for l
    using scan_advances(1) [OF that] skip_ws_ge [of l s] skip_ws_ge [of "skip_ws s l + 1" s] by linarith
  then show ?case
    unfolding elements.simps [of s d i] Let_def
    using 5 by (fastforce split: if_splits sum.splits)
qed

lemma too_deep_long:
  "python_decode_error text = Some TooDeep \<Longrightarrow> MAX_DEPTH < length (chars text)"
  using scan_deep(1) [of "chars text" 0 "skip_ws (chars text) 0"]
  by (auto simp: python_decode_error_def Let_def split: sum.splits stop.splits if_splits)

text \<open>
  Every text gets an answer, and an error is located inside it: the scanner terminates on
  every input, a syntax error is reported at a character of the text or just past its end, and
  only a text of more than 900 characters is ever refused for its nesting.
\<close>

theorem decode_error_located:
  "case python_decode_error body of
      None \<Rightarrow> True
    | Some (Invalid msg pos) \<Rightarrow> pos \<le> length (chars body)
    | Some TooDeep \<Rightarrow> MAX_DEPTH < length (chars body)"
  using decode_error_bound [of body] too_deep_long [of body]
  by (auto split: option.split decode_error.split)

end
