(* ===== verification/Query.thy ===== *)
theory Query
  imports PyInt PyRepr PyJson Audit_Trail
begin

text \<open>
  \<^verbatim>\<open>backend-rs/src/error.rs\<close> and \<^verbatim>\<open>backend-rs/src/query.rs\<close>: the error a handler answers with, the
  query-parameter collector, the JSON body decoder, and the body-field collector that
  reproduces Pydantic's validation. Both collectors append to a list of errors and hand back
  a value in any case; \<open>finish\<close> turns a non-empty list into the 422. What \<open>serde_json\<close> makes of
  a text, the form decoder and the authentication of a route are arguments.
\<close>

section \<open>Errors\<close>

record api_error =
  ae_status :: nat
  ae_detail :: json
  ae_opaque :: bool
  ae_rate_limit :: "(32 word \<times> nat) option"
  ae_headers :: "(string \<times> string) list"

definition api_error_new :: "nat \<Rightarrow> json \<Rightarrow> api_error" where
  "api_error_new status detail =
     \<lparr>ae_status = status, ae_detail = detail, ae_opaque = False, ae_rate_limit = None, ae_headers = []\<rparr>"

definition unauthorized :: "json \<Rightarrow> api_error" where "unauthorized = api_error_new 401"
definition forbidden :: "json \<Rightarrow> api_error" where "forbidden = api_error_new 403"
definition not_found :: "json \<Rightarrow> api_error" where "not_found = api_error_new 404"
definition bad_request :: "json \<Rightarrow> api_error" where "bad_request = api_error_new 400"

definition internal :: "json \<Rightarrow> api_error" where
  "internal detail = (api_error_new 500 detail)\<lparr>ae_opaque := True\<rparr>"

definition with_header :: "string \<Rightarrow> string \<Rightarrow> api_error \<Rightarrow> api_error" where
  "with_header name value e = e\<lparr>ae_headers := ae_headers e @ [(name, value)]\<rparr>"

definition rate_limited :: "32 word \<Rightarrow> nat \<Rightarrow> api_error" where
  "rate_limited limit window_secs = (api_error_new 429 Null)\<lparr>ae_rate_limit := Some (limit, window_secs)\<rparr>"

datatype http_body = JsonBody json | PlainBody string

record http_response =
  hr_status :: nat
  hr_headers :: "(string \<times> string) list"
  hr_body :: http_body

text \<open>\<open>header_ok\<close> is the \<open>http\<close> crate's check of a header name and value.\<close>

definition into_response :: "(string \<times> string \<Rightarrow> bool) \<Rightarrow> api_error \<Rightarrow> http_response" where
  "into_response header_ok e =
     (case ae_rate_limit e of
        Some (limit, window) \<Rightarrow>
          \<lparr>hr_status = 429, hr_headers = [(''retry-after'', ''60'')], hr_body = JsonBody (too_many_requests limit window)\<rparr>
      | None \<Rightarrow>
          if ae_opaque e
          then \<lparr>hr_status = ae_status e, hr_headers = [(''content-type'', ''text/plain; charset=utf-8'')],
                hr_body = PlainBody ''Internal Server Error''\<rparr>
          else \<lparr>hr_status = ae_status e, hr_headers = filter header_ok (ae_headers e),
                hr_body = JsonBody (Object [(''detail'', ae_detail e)])\<rparr>)"

section \<open>The validation envelope\<close>

definition unprocessable :: "json \<Rightarrow> api_error" where
  "unprocessable = api_error_new 422"

fun loc_part :: "json \<Rightarrow> string option" where
  "loc_part (String s) = (if s = ''body'' then None else Some s)"
| "loc_part (IntNum n) = Some (show_int n)"
| "loc_part _ = None"

definition summary_of :: "json \<Rightarrow> string" where
  "summary_of first =
     (let loc = (case json_get ''loc'' first of
                   Some (Array parts) \<Rightarrow> join ''.'' (List.map_filter loc_part parts) | _ \<Rightarrow> []);
          msg = (case Option.bind (json_get ''msg'' first) as_str of Some m \<Rightarrow> m | None \<Rightarrow> ''Validation failed'')
      in if loc = [] then msg else msg @ '' ('' @ loc @ '')'')"

definition validation_error :: "json list \<Rightarrow> api_error + unit" where
  "validation_error errors =
     (case errors of
        [] \<Rightarrow> Inr ()
      | first # _ \<Rightarrow>
          Inl (unprocessable
            (Object [(''error'', String ''validation_failed''), (''message'', String (summary_of first)),
                     (''errors'', Array errors)])))"

text \<open>One error, with the context added at the end when there is one.\<close>

definition error_json :: "string \<Rightarrow> json list \<Rightarrow> string \<Rightarrow> json \<Rightarrow> json option \<Rightarrow> json" where
  "error_json kind loc msg input ctx =
     Object ([(''type'', String kind), (''loc'', Array loc), (''msg'', String msg), (''input'', input)] @
             (case ctx of Some c \<Rightarrow> [(''ctx'', c)] | None \<Rightarrow> []))"

definition int_parsing_msg :: string where
  "int_parsing_msg = ''Input should be a valid integer, unable to parse string as an integer''"
definition int_parsing_size_msg :: string where
  "int_parsing_size_msg = ''Unable to parse input string as an integer, exceeded maximum size''"
definition bool_parsing_msg :: string where
  "bool_parsing_msg = ''Input should be a valid boolean, unable to interpret input''"

section \<open>Coercions\<close>

datatype int_error = IntParsing | IntParsingSize | FromFloat | IntType

definition saturate_i64 :: "int \<Rightarrow> int" where
  "saturate_i64 n = max i64_min (min i64_max n)"

text \<open>
  A number outside \<open>i64\<close> reaches the second branch as a double; rounding to a double and the
  saturating cast both keep it at the same end of the range.
\<close>

fun parse_pydantic_int :: "json \<Rightarrow> int_error + py_int" where
  "parse_pydantic_int (Bool b) = Inr (Small (if b then 1 else 0))"
| "parse_pydantic_int (IntNum n) = Inr (Small (saturate_i64 n))"
| "parse_pydantic_int (FloatNum f) =
     (if f \<in> \<int> then Inr (Small (saturate_i64 \<lfloor>f\<rfloor>)) else Inl FromFloat)"
| "parse_pydantic_int (String s) =
     (case str_as_int s of
        Inr v \<Rightarrow> Inr v
      | Inl Parsing \<Rightarrow> Inl IntParsing
      | Inl ParsingSize \<Rightarrow> Inl IntParsingSize)"
| "parse_pydantic_int _ = Inl IntType"

fun parse_pydantic_bool :: "json \<Rightarrow> bool option" where
  "parse_pydantic_bool (Bool b) = Some b"
| "parse_pydantic_bool (IntNum n) = (if n = 0 then Some False else if n = 1 then Some True else None)"
| "parse_pydantic_bool (FloatNum f) = (if f = 0 then Some False else if f = 1 then Some True else None)"
| "parse_pydantic_bool (String s) =
     (let t = to_lowercase (trim s)
      in if t \<in> set [''1'', ''true'', ''t'', ''yes'', ''y'', ''on''] then Some True
         else if t \<in> set [''0'', ''false'', ''f'', ''no'', ''n'', ''off''] then Some False
         else None)"
| "parse_pydantic_bool _ = None"

section \<open>Query parameters\<close>

record query =
  q_params :: "(string \<times> string) list"
  q_errors :: "json list"

definition query_parse :: "(string \<Rightarrow> (string \<times> string) list) \<Rightarrow> string option \<Rightarrow> query" where
  "query_parse form_parse raw =
     \<lparr>q_params = (case raw of Some q \<Rightarrow> form_parse q | None \<Rightarrow> []), q_errors = []\<rparr>"

definition query_last :: "query \<Rightarrow> string \<Rightarrow> string option" where
  "query_last q name = map_option snd (find (\<lambda>(k, _). k = name) (rev (q_params q)))"

definition push_error :: "string \<Rightarrow> string \<Rightarrow> string \<Rightarrow> string \<Rightarrow> json option \<Rightarrow> query \<Rightarrow> query" where
  "push_error kind name msg input ctx q =
     q\<lparr>q_errors := q_errors q @ [error_json kind [String ''query'', String name] msg (String input) ctx]\<rparr>"

definition query_bool :: "string \<Rightarrow> bool \<Rightarrow> query \<Rightarrow> bool \<times> query" where
  "query_bool name dflt q =
     (case query_last q name of
        None \<Rightarrow> (dflt, q)
      | Some raw \<Rightarrow>
          (case parse_pydantic_bool (String raw) of
             Some value \<Rightarrow> (value, q)
           | None \<Rightarrow> (dflt, push_error ''bool_parsing'' name bool_parsing_msg raw None q)))"

definition ge_msg :: "int \<Rightarrow> string" where
  "ge_msg n = ''Input should be greater than or equal to '' @ show_int n"
definition le_msg :: "int \<Rightarrow> string" where
  "le_msg n = ''Input should be less than or equal to '' @ show_int n"

definition query_big_int ::
  "string \<Rightarrow> py_int \<Rightarrow> int option \<Rightarrow> int option \<Rightarrow> query \<Rightarrow> py_int \<times> query" where
  "query_big_int name dflt ge le q =
     (case query_last q name of
        None \<Rightarrow> (dflt, q)
      | Some raw \<Rightarrow>
          (case str_as_int raw of
             Inl Parsing \<Rightarrow> (dflt, push_error ''int_parsing'' name int_parsing_msg raw None q)
           | Inl ParsingSize \<Rightarrow> (dflt, push_error ''int_parsing_size'' name int_parsing_size_msg raw None q)
           | Inr value \<Rightarrow>
               if (case ge of Some b \<Rightarrow> \<not> py_ge value b | None \<Rightarrow> False)
               then (dflt, push_error ''greater_than_equal'' name (ge_msg (the ge)) raw
                             (Some (Object [(''ge'', IntNum (the ge))])) q)
               else if (case le of Some b \<Rightarrow> \<not> py_le value b | None \<Rightarrow> False)
               then (dflt, push_error ''less_than_equal'' name (le_msg (the le)) raw
                             (Some (Object [(''le'', IntNum (the le))])) q)
               else (value, q)))"

definition query_int :: "string \<Rightarrow> int \<Rightarrow> int \<Rightarrow> int \<Rightarrow> query \<Rightarrow> int \<times> query" where
  "query_int name dflt ge le q =
     (let (v, q') = query_big_int name (Small dflt) (Some ge) (Some le) q
      in (case small v of Some n \<Rightarrow> n | None \<Rightarrow> dflt, q'))"

definition query_pattern :: "string \<Rightarrow> string \<Rightarrow> string \<Rightarrow> string list \<Rightarrow> query \<Rightarrow> string \<times> query" where
  "query_pattern name dflt pattern allowed q =
     (case query_last q name of
        None \<Rightarrow> (dflt, q)
      | Some raw \<Rightarrow>
          if raw \<in> set allowed then (raw, q)
          else (dflt,
                push_error ''string_pattern_mismatch'' name
                  (''String should match pattern '' @ [squote] @ pattern @ [squote]) raw
                  (Some (Object [(''pattern'', String pattern)])) q))"

definition query_optional_str :: "query \<Rightarrow> string \<Rightarrow> string option" where
  "query_optional_str q name =
     (case query_last q name of Some v \<Rightarrow> if v \<noteq> [] then Some v else None | None \<Rightarrow> None)"

definition query_required_str :: "string \<Rightarrow> query \<Rightarrow> string \<times> query" where
  "query_required_str name q =
     (case query_last q name of
        Some value \<Rightarrow> (value, q)
      | None \<Rightarrow>
          ([], q\<lparr>q_errors := q_errors q @ [error_json ''missing'' [String ''query'', String name] ''Field required'' Null None]\<rparr>))"

definition query_finish :: "query \<Rightarrow> api_error + unit" where
  "query_finish q = validation_error (q_errors q)"

section \<open>Request bodies\<close>

definition missing_body :: api_error where
  "missing_body =
     (case validation_error [error_json ''missing'' [String ''body''] ''Field required'' Null None] of
        Inl e \<Rightarrow> e | Inr _ \<Rightarrow> internal Null)"

fun nul_location :: "json \<Rightarrow> json list \<Rightarrow> json list option"
  and nul_items :: "int \<Rightarrow> json list \<Rightarrow> json list \<Rightarrow> json list option"
  and nul_members :: "(string \<times> json) list \<Rightarrow> json list \<Rightarrow> json list option" where
  "nul_location (String s) loc = (if CHR 0x00 \<in> set s then Some loc else None)"
| "nul_location (Array items) loc = nul_items 0 items loc"
| "nul_location (Object m) loc = nul_members m loc"
| "nul_location _ loc = None"
| "nul_items i [] loc = None"
| "nul_items i (item # items) loc =
     (case nul_location item (loc @ [IntNum i]) of Some l \<Rightarrow> Some l | None \<Rightarrow> nul_items (i + 1) items loc)"
| "nul_members [] loc = None"
| "nul_members ((key, item) # m) loc =
     (case (if CHR 0x00 \<in> set key then Some (loc @ [String key]) else nul_location item (loc @ [String key])) of
        Some l \<Rightarrow> Some l | None \<Rightarrow> nul_members m loc)"

definition parse_failed :: api_error where
  "parse_failed = bad_request (String ''There was an error parsing the body'')"

definition one_error :: "json \<Rightarrow> api_error" where
  "one_error e = (case validation_error [e] of Inl x \<Rightarrow> x | Inr _ \<Rightarrow> internal Null)"

definition decode_json_body ::
  "(string \<Rightarrow> bool) \<Rightarrow> (string \<Rightarrow> json option) \<Rightarrow> string \<Rightarrow> api_error + json option" where
  "decode_json_body utf8_ok from_str bytes0 =
     (if bytes0 = [] then Inr None
      else
        (let b = (case strip_prefix [CHR 0xEF, CHR 0xBB, CHR 0xBF] bytes0 of Some r \<Rightarrow> r | None \<Rightarrow> bytes0)
         in if \<not> utf8_ok b then Inl parse_failed
            else case python_decode_error b of
                Some (Invalid msg pos) \<Rightarrow>
                  Inl (one_error (error_json ''json_invalid'' [String ''body'', IntNum (int pos)] ''JSON decode error''
                                    (Object []) (Some (Object [(''error'', String msg)]))))
              | Some TooDeep \<Rightarrow> Inl parse_failed
              | None \<Rightarrow>
                  (case from_str b of
                     None \<Rightarrow> Inl parse_failed
                   | Some value \<Rightarrow>
                       (case nul_location value [String ''body''] of
                          Some loc \<Rightarrow>
                            Inl (one_error (error_json ''string_nul'' loc
                                  (''Text must not contain a NUL ('' @ [backslash] @ ''u0000) character'') Null None))
                        | None \<Rightarrow> Inr (Some value)))))"

definition parse_body ::
  "(string \<Rightarrow> bool) \<Rightarrow> (string \<Rightarrow> json option) \<Rightarrow> string \<Rightarrow> api_error + json" where
  "parse_body utf8_ok from_str b =
     (case decode_json_body utf8_ok from_str b of
        Inl e \<Rightarrow> Inl e | Inr (Some v) \<Rightarrow> Inr v | Inr None \<Rightarrow> Inl missing_body)"

definition model_attributes_msg :: string where
  "model_attributes_msg = ''Input should be a valid dictionary or object to extract fields from''"

definition model_shape :: "json option \<Rightarrow> api_error + json" where
  "model_shape decoded =
     (case decoded of
        Some (Object m) \<Rightarrow> Inr (Object m)
      | None \<Rightarrow> Inl missing_body
      | Some Null \<Rightarrow> Inl missing_body
      | Some other \<Rightarrow>
          Inl (one_error (error_json ''model_attributes_type'' [String ''body''] model_attributes_msg other None)))"

definition parse_model_body ::
  "(string \<Rightarrow> bool) \<Rightarrow> (string \<Rightarrow> json option) \<Rightarrow> string \<Rightarrow> api_error + json" where
  "parse_model_body utf8_ok from_str b =
     (case decode_json_body utf8_ok from_str b of Inl e \<Rightarrow> Inl e | Inr d \<Rightarrow> model_shape d)"

text \<open>
  The order of a route with a declared body: size, decoding, authentication, shape. The size
  limit is two megabytes; \<open>auth\<close> is the route's extractor.
\<close>

definition model_body ::
  "(string \<Rightarrow> bool) \<Rightarrow> (string \<Rightarrow> json option) \<Rightarrow> (unit \<Rightarrow> 'r + 'u) \<Rightarrow> (api_error \<Rightarrow> 'r) \<Rightarrow> string \<Rightarrow> 'r + ('u \<times> json)" where
  "model_body utf8_ok from_str auth respond b =
     (if length b > 2 * 1024 * 1024 then Inl (respond parse_failed)
      else case decode_json_body utf8_ok from_str b of
          Inl e \<Rightarrow> Inl (respond e)
        | Inr decoded \<Rightarrow>
            (case auth () of
               Inl r \<Rightarrow> Inl r
             | Inr u \<Rightarrow>
                 (case model_shape decoded of Inl e \<Rightarrow> Inl (respond e) | Inr body \<Rightarrow> Inr (u, body))))"

text \<open>\<open>display\<close> is \<open>serde_json\<close>'s text of a value; the branch that uses it is never reached.\<close>

definition parse_handler_json ::
  "(json \<Rightarrow> string) \<Rightarrow> (string \<Rightarrow> bool) \<Rightarrow> (string \<Rightarrow> json option) \<Rightarrow> string \<Rightarrow> api_error + (string \<times> json) list" where
  "parse_handler_json display utf8_ok from_str b =
     (case decode_json_body utf8_ok from_str b of
        Inl e \<Rightarrow> Inl e
      | Inr d \<Rightarrow>
          (case model_shape d of
             Inl e \<Rightarrow> Inl e
           | Inr (Object m) \<Rightarrow> Inr m
           | Inr other \<Rightarrow> Inl (bad_request (String (''expected a JSON object, got '' @ display other)))))"

section \<open>Body fields\<close>

record body_errors =
  be_errors :: "json list"
  be_prefix :: "json list"

definition be_new :: body_errors where
  "be_new = \<lparr>be_errors = [], be_prefix = []\<rparr>"

definition plural :: "nat \<Rightarrow> string" where
  "plural n = (if n = 1 then [] else ''s'')"

definition push_at :: "string \<Rightarrow> json list \<Rightarrow> string \<Rightarrow> json \<Rightarrow> json option \<Rightarrow> body_errors \<Rightarrow> body_errors" where
  "push_at kind loc msg input ctx e =
     e\<lparr>be_errors := be_errors e @ [error_json kind (String ''body'' # be_prefix e @ loc) msg input ctx]\<rparr>"

definition push_field :: "string \<Rightarrow> string \<Rightarrow> string \<Rightarrow> json \<Rightarrow> json option \<Rightarrow> body_errors \<Rightarrow> body_errors" where
  "push_field kind field msg input ctx = push_at kind [String field] msg input ctx"

definition int_parsing :: "string \<Rightarrow> json \<Rightarrow> body_errors \<Rightarrow> body_errors" where
  "int_parsing field input = push_field ''int_parsing'' field int_parsing_msg input None"

definition int_parsing_size :: "string \<Rightarrow> json \<Rightarrow> body_errors \<Rightarrow> body_errors" where
  "int_parsing_size field input = push_field ''int_parsing_size'' field int_parsing_size_msg input None"

definition int_type :: "string \<Rightarrow> json \<Rightarrow> body_errors \<Rightarrow> body_errors" where
  "int_type field input = push_field ''int_type'' field ''Input should be a valid integer'' input None"

definition int_from_float :: "string \<Rightarrow> json \<Rightarrow> body_errors \<Rightarrow> body_errors" where
  "int_from_float field input =
     push_field ''int_from_float'' field ''Input should be a valid integer, got a number with a fractional part'' input None"

definition list_type :: "string \<Rightarrow> json \<Rightarrow> body_errors \<Rightarrow> body_errors" where
  "list_type field input = push_field ''list_type'' field ''Input should be a valid list'' input None"

definition dict_type_at :: "string \<Rightarrow> nat \<Rightarrow> json \<Rightarrow> body_errors \<Rightarrow> body_errors" where
  "dict_type_at field index input =
     push_at ''dict_type'' [String field, IntNum (int index)] ''Input should be a valid dictionary'' input None"

definition missing :: "string \<Rightarrow> json \<Rightarrow> body_errors \<Rightarrow> body_errors" where
  "missing field body = push_field ''missing'' field ''Field required'' body None"

definition string_type :: "string \<Rightarrow> json \<Rightarrow> body_errors \<Rightarrow> body_errors" where
  "string_type field input = push_field ''string_type'' field ''Input should be a valid string'' input None"

definition too_long :: "string \<Rightarrow> string \<Rightarrow> nat \<Rightarrow> body_errors \<Rightarrow> body_errors" where
  "too_long field input n =
     push_field ''string_too_long'' field (''String should have at most '' @ show_nat n @ '' character'' @ plural n)
       (String input) (Some (Object [(''max_length'', IntNum (int n))]))"

definition too_short :: "string \<Rightarrow> string \<Rightarrow> nat \<Rightarrow> body_errors \<Rightarrow> body_errors" where
  "too_short field input n =
     push_field ''string_too_short'' field (''String should have at least '' @ show_nat n @ '' character'' @ plural n)
       (String input) (Some (Object [(''min_length'', IntNum (int n))]))"

definition nested :: "json list \<Rightarrow> (body_errors \<Rightarrow> 'a \<times> body_errors) \<Rightarrow> body_errors \<Rightarrow> 'a \<times> body_errors" where
  "nested loc f e =
     (let depth = length (be_prefix e);
          (out, e') = f (e\<lparr>be_prefix := be_prefix e @ loc\<rparr>)
      in (out, e'\<lparr>be_prefix := take depth (be_prefix e')\<rparr>))"

definition extra_forbidden :: "string \<Rightarrow> json \<Rightarrow> body_errors \<Rightarrow> body_errors" where
  "extra_forbidden field input = push_field ''extra_forbidden'' field ''Extra inputs are not permitted'' input None"

definition quoted :: "string \<Rightarrow> string" where
  "quoted o' = squote # o' @ [squote]"

definition literal_expected :: "string list \<Rightarrow> string" where
  "literal_expected options =
     (if options = [] then []
      else if length options = 1 then quoted (hd options)
      else join '', '' (map quoted (butlast options)) @ '' or '' @ quoted (last options))"

definition literal_error :: "string \<Rightarrow> json \<Rightarrow> string list \<Rightarrow> body_errors \<Rightarrow> body_errors" where
  "literal_error field input options =
     push_field ''literal_error'' field (''Input should be '' @ literal_expected options) input
       (Some (Object [(''expected'', String (literal_expected options))]))"

definition model_attributes_type_at :: "json list \<Rightarrow> json \<Rightarrow> body_errors \<Rightarrow> body_errors" where
  "model_attributes_type_at loc input = push_at ''model_attributes_type'' loc model_attributes_msg input None"

definition bool_parsing :: "string \<Rightarrow> json \<Rightarrow> body_errors \<Rightarrow> body_errors" where
  "bool_parsing field input = push_field ''bool_parsing'' field bool_parsing_msg input None"

text \<open>The length rule every string field shares, counted in characters.\<close>

definition check_max :: "string \<Rightarrow> string \<Rightarrow> nat \<Rightarrow> body_errors \<Rightarrow> body_errors" where
  "check_max field s n e = (if length (chars s) > n then too_long field s n e else e)"

definition required_string :: "json \<Rightarrow> string \<Rightarrow> nat \<Rightarrow> body_errors \<Rightarrow> string \<times> body_errors" where
  "required_string body field n e =
     (case json_get field body of
        None \<Rightarrow> ([], missing field body e)
      | Some (String s) \<Rightarrow> (s, check_max field s n e)
      | Some other \<Rightarrow> ([], string_type field other e))"

definition optional_string :: "json \<Rightarrow> string \<Rightarrow> nat \<Rightarrow> body_errors \<Rightarrow> string option \<times> body_errors" where
  "optional_string body field n e =
     (case json_get field body of
        None \<Rightarrow> (None, e)
      | Some Null \<Rightarrow> (None, e)
      | Some (String s) \<Rightarrow> (Some s, check_max field s n e)
      | Some other \<Rightarrow> (None, string_type field other e))"

definition bool_with_default :: "json \<Rightarrow> string \<Rightarrow> bool \<Rightarrow> body_errors \<Rightarrow> bool \<times> body_errors" where
  "bool_with_default body field dflt e =
     (case json_get field body of
        None \<Rightarrow> (dflt, e)
      | Some value \<Rightarrow>
          (case parse_pydantic_bool value of Some b \<Rightarrow> (b, e) | None \<Rightarrow> (dflt, bool_parsing field value e)))"

definition optional_bool :: "json \<Rightarrow> string \<Rightarrow> body_errors \<Rightarrow> bool option \<times> body_errors" where
  "optional_bool body field e =
     (case json_get field body of
        None \<Rightarrow> (None, e)
      | Some Null \<Rightarrow> (None, e)
      | Some value \<Rightarrow>
          (case parse_pydantic_bool value of Some b \<Rightarrow> (Some b, e) | None \<Rightarrow> (None, bool_parsing field value e)))"

definition is_hhmm :: "string \<Rightarrow> bool" where
  "is_hhmm b \<longleftrightarrow>
     length b = 5 \<and> b ! 2 = CHR '':'' \<and>
     is_ascii_digit (b ! 0) \<and> is_ascii_digit (b ! 1) \<and> is_ascii_digit (b ! 3) \<and> is_ascii_digit (b ! 4) \<and>
     (b ! 0 = CHR ''0'' \<or> b ! 0 = CHR ''1'' \<or> b ! 0 = CHR ''2'' \<and> CHR ''0'' \<le> b ! 1 \<and> b ! 1 \<le> CHR ''3'') \<and>
     CHR ''0'' \<le> b ! 3 \<and> b ! 3 \<le> CHR ''5''"

definition hhmm_msg :: string where
  "hhmm_msg = ''must be HH:MM 24-hour, e.g. 08:30''"

definition optional_hhmm :: "json \<Rightarrow> string \<Rightarrow> body_errors \<Rightarrow> string option \<times> body_errors" where
  "optional_hhmm body field e =
     (case optional_string body field 5 e of
        (None, e') \<Rightarrow> (None, e')
      | (Some value, e') \<Rightarrow>
          if length (be_errors e') \<noteq> length (be_errors e) then (None, e')
          else if value = [] \<or> is_hhmm value then (Some value, e')
          else (None, push_field ''value_error'' field (''Value error, '' @ hhmm_msg) (String value)
                        (Some (Object [(''error'', String hhmm_msg)])) e'))"

definition string_with_default :: "json \<Rightarrow> string \<Rightarrow> nat \<Rightarrow> body_errors \<Rightarrow> string \<times> body_errors" where
  "string_with_default body field n e =
     (case json_get field body of
        None \<Rightarrow> ([], e)
      | Some (String s) \<Rightarrow> (s, check_max field s n e)
      | Some other \<Rightarrow> ([], string_type field other e))"

definition push_int_error :: "string \<Rightarrow> json \<Rightarrow> int_error \<Rightarrow> body_errors \<Rightarrow> body_errors" where
  "push_int_error field value err =
     (case err of
        IntParsingSize \<Rightarrow> int_parsing_size field value
      | IntParsing \<Rightarrow> int_parsing field value
      | FromFloat \<Rightarrow> int_from_float field value
      | IntType \<Rightarrow> int_type field value)"

definition int_with_default :: "json \<Rightarrow> string \<Rightarrow> int \<Rightarrow> body_errors \<Rightarrow> py_int \<times> body_errors" where
  "int_with_default body field dflt e =
     (case json_get field body of
        None \<Rightarrow> (Small dflt, e)
      | Some value \<Rightarrow>
          (case parse_pydantic_int value of
             Inr n \<Rightarrow> (n, e)
           | Inl err \<Rightarrow> (Small dflt, push_int_error field value err e)))"

definition optional_int :: "json \<Rightarrow> string \<Rightarrow> body_errors \<Rightarrow> py_int option \<times> body_errors" where
  "optional_int body field e =
     (case json_get field body of
        None \<Rightarrow> (None, e)
      | Some Null \<Rightarrow> (None, e)
      | Some value \<Rightarrow>
          (case parse_pydantic_int value of
             Inr n \<Rightarrow> (Some n, e)
           | Inl err \<Rightarrow> (None, push_int_error field value err e)))"

definition optional_int_in_range ::
  "json \<Rightarrow> string \<Rightarrow> int \<Rightarrow> int \<Rightarrow> body_errors \<Rightarrow> int option \<times> body_errors" where
  "optional_int_in_range body field lo hi e =
     (case optional_int body field e of
        (None, e') \<Rightarrow> (None, e')
      | (Some value, e') \<Rightarrow>
          (let input = (case json_get field body of Some v \<Rightarrow> v | None \<Rightarrow> Null)
           in if \<not> py_ge value lo
              then (None, push_field ''greater_than_equal'' field (ge_msg lo) input (Some (Object [(''ge'', IntNum lo)])) e')
              else if \<not> py_le value hi
              then (None, push_field ''less_than_equal'' field (le_msg hi) input (Some (Object [(''le'', IntNum hi)])) e')
              else (small value, e')))"

text \<open>The loops over a list: an error per offending element, in order.\<close>

fun string_items :: "string \<Rightarrow> nat \<Rightarrow> json list \<Rightarrow> body_errors \<Rightarrow> string list \<times> bool \<times> body_errors" where
  "string_items field i [] e = ([], False, e)"
| "string_items field i (item # items) e =
     (case item of
        String s \<Rightarrow> (let (out, bad, e') = string_items field (i + 1) items e in (s # out, bad, e'))
      | other \<Rightarrow>
          (let e1 = push_at ''string_type'' [String field, IntNum (int i)] ''Input should be a valid string'' other None e;
               (out, bad, e') = string_items field (i + 1) items e1
           in (out, True, e')))"

definition optional_list_of_strings :: "json \<Rightarrow> string \<Rightarrow> body_errors \<Rightarrow> string list option \<times> body_errors" where
  "optional_list_of_strings body field e =
     (case json_get field body of
        None \<Rightarrow> (None, e)
      | Some Null \<Rightarrow> (None, e)
      | Some (Array items) \<Rightarrow>
          (let (out, bad, e') = string_items field 0 items e in (if bad then None else Some out, e'))
      | Some value \<Rightarrow> (None, list_type field value e))"

definition optional_object :: "json \<Rightarrow> string \<Rightarrow> body_errors \<Rightarrow> (string \<times> json) list option \<times> body_errors" where
  "optional_object body field e =
     (case json_get field body of
        None \<Rightarrow> (None, e)
      | Some Null \<Rightarrow> (None, e)
      | Some (Object m) \<Rightarrow> (Some m, e)
      | Some other \<Rightarrow> (None, push_field ''dict_type'' field ''Input should be a valid dictionary'' other None e))"

fun object_items :: "string \<Rightarrow> nat \<Rightarrow> json list \<Rightarrow> body_errors \<Rightarrow> bool \<times> body_errors" where
  "object_items field i [] e = (False, e)"
| "object_items field i (item # items) e =
     (case item of
        Object m \<Rightarrow> object_items field (i + 1) items e
      | other \<Rightarrow> (let (bad, e') = object_items field (i + 1) items (dict_type_at field i other e) in (True, e')))"

definition optional_list_of_objects :: "json \<Rightarrow> string \<Rightarrow> body_errors \<Rightarrow> json list option \<times> body_errors" where
  "optional_list_of_objects body field e =
     (case json_get field body of
        None \<Rightarrow> (None, e)
      | Some Null \<Rightarrow> (None, e)
      | Some (Array items) \<Rightarrow>
          (let (bad, e') = object_items field 0 items e in (if bad then None else Some items, e'))
      | Some value \<Rightarrow> (None, list_type field value e))"

definition be_finish :: "body_errors \<Rightarrow> api_error + unit" where
  "be_finish e = validation_error (be_errors e)"

section \<open>Path parameters\<close>

definition path_segment :: "string \<Rightarrow> api_error + string" where
  "path_segment raw = (if CHR ''/'' \<in> set raw then Inl (not_found (String ''Not Found'')) else Inr raw)"

definition path_int :: "string \<Rightarrow> string \<Rightarrow> api_error + py_int" where
  "path_int name raw =
     (case str_as_int raw of
        Inr value \<Rightarrow> Inr value
      | Inl err \<Rightarrow>
          (let (kind, msg) =
             (case err of
                Parsing \<Rightarrow> (''int_parsing'', int_parsing_msg)
              | ParsingSize \<Rightarrow> (''int_parsing_size'', int_parsing_size_msg))
           in Inl (unprocessable
             (Object [(''error'', String ''validation_failed''),
                      (''message'', String (msg @ '' (path.'' @ name @ '')'')),
                      (''errors'', Array [error_json kind [String ''path'', String name] msg (String raw) None])]))))"

definition int4_msg :: string where
  "int4_msg = ''Input should be between -2147483648 and 2147483647''"

definition int4 :: "py_int \<Rightarrow> api_error + 32 word" where
  "int4 value =
     (case small value of
        Some v \<Rightarrow>
          if - (2 ^ 31) \<le> v \<and> v < 2 ^ 31 then Inr (word_of_int v)
          else Inl (unprocessable (Object [(''error'', String ''validation_failed''), (''message'', String int4_msg),
                 (''errors'', Array [Object [(''type'', String ''int_range''), (''msg'', String int4_msg)]])]))
      | None \<Rightarrow>
          Inl (unprocessable (Object [(''error'', String ''validation_failed''), (''message'', String int4_msg),
                 (''errors'', Array [Object [(''type'', String ''int_range''), (''msg'', String int4_msg)]])])))"

section \<open>NUL characters\<close>

text \<open>A location leads to a NUL: through indices and keys to a string or a key that has one.\<close>

fun nul_at :: "json \<Rightarrow> json list \<Rightarrow> bool" where
  "nul_at v [] \<longleftrightarrow> (\<exists>s. v = String s \<and> CHR 0x00 \<in> set s)"
| "nul_at v (IntNum i # p) \<longleftrightarrow> (\<exists>xs. v = Array xs \<and> 0 \<le> i \<and> nat i < length xs \<and> nul_at (xs ! nat i) p)"
| "nul_at v (String k # p) \<longleftrightarrow>
     (\<exists>m w. v = Object m \<and> (k, w) \<in> set m \<and> (CHR 0x00 \<in> set k \<and> p = [] \<or> nul_at w p))"
| "nul_at v (_ # p) \<longleftrightarrow> False"

lemma nul_at_cases:
  "nul_at (String s) p \<longleftrightarrow> p = [] \<and> CHR 0x00 \<in> set s"
  "nul_at (Array xs) p \<longleftrightarrow> (\<exists>i p'. p = IntNum (int i) # p' \<and> i < length xs \<and> nul_at (xs ! i) p')"
  "nul_at (Object m) p \<longleftrightarrow> (\<exists>k w p'. p = String k # p' \<and> (k, w) \<in> set m \<and> (CHR 0x00 \<in> set k \<and> p' = [] \<or> nul_at w p'))"
  "\<not> nul_at Null p" "\<not> nul_at (Bool b) p" "\<not> nul_at (IntNum n) p" "\<not> nul_at (FloatNum f) p"
proof -
  show "nul_at (String s) p \<longleftrightarrow> p = [] \<and> CHR 0x00 \<in> set s"
    by (cases "(String s, p)" rule: nul_at.cases) auto
  show "nul_at (Array xs) p \<longleftrightarrow> (\<exists>i p'. p = IntNum (int i) # p' \<and> i < length xs \<and> nul_at (xs ! i) p')"
    by (cases "(Array xs, p)" rule: nul_at.cases) (auto, metis int_nat_eq nat_int)
  show "nul_at (Object m) p \<longleftrightarrow> (\<exists>k w p'. p = String k # p' \<and> (k, w) \<in> set m \<and> (CHR 0x00 \<in> set k \<and> p' = [] \<or> nul_at w p'))"
    by (cases "(Object m, p)" rule: nul_at.cases) auto
  show "\<not> nul_at Null p" "\<not> nul_at (Bool b) p" "\<not> nul_at (IntNum n) p" "\<not> nul_at (FloatNum f) p"
    by (cases p rule: list.exhaust; cases "hd p"; auto)+
qed

lemma nul_location_spec:
  "case nul_location v loc of None \<Rightarrow> \<forall>p. \<not> nul_at v p | Some l \<Rightarrow> \<exists>p. l = loc @ p \<and> nul_at v p"
  "case nul_items i xs loc of
     None \<Rightarrow> \<forall>x \<in> set xs. \<forall>p. \<not> nul_at x p
   | Some l \<Rightarrow> \<exists>j p. l = loc @ IntNum (i + int j) # p \<and> j < length xs \<and> nul_at (xs ! j) p"
  "case nul_members m loc of
     None \<Rightarrow> \<forall>p. \<not> nul_at (Object m) p
   | Some l \<Rightarrow> \<exists>p. l = loc @ p \<and> nul_at (Object m) p"
proof (induction v loc and i xs loc and m loc rule: nul_location_nul_items_nul_members.induct)
  case (2 items loc)
  then show ?case
    by (auto simp: nul_at_cases split: option.splits)
next
  case (3 m loc)
  then show ?case by (auto simp: nul_at_cases split: option.splits)
next
  case (6 i item items loc)
  show ?case
  proof (cases "nul_location item (loc @ [IntNum i])")
    case (Some l)
    then obtain p where "l = loc @ IntNum i # p" "nul_at item p" using 6(1) by auto
    then have "l = loc @ IntNum (i + int 0) # p \<and> 0 < length (item # items) \<and> nul_at ((item # items) ! 0) p" by simp
    then show ?thesis using Some by (auto simp del: nth_Cons_0)
  next
    case None
    then have none: "\<forall>p. \<not> nul_at item p" using 6(1) by simp
    show ?thesis
    proof (cases "nul_items (i + 1) items loc")
      case inner: None
      then show ?thesis using 6(2) [OF None] none None by simp
    next
      case (Some l)
      then obtain j p where "l = loc @ IntNum (i + 1 + int j) # p" "j < length items" "nul_at (items ! j) p"
        using 6(2) [OF None] by auto
      then have "l = loc @ IntNum (i + int (Suc j)) # p \<and> Suc j < length (item # items) \<and> nul_at ((item # items) ! Suc j) p"
        by simp
      then show ?thesis using None Some by (auto simp del: nth_Cons_Suc of_nat_Suc)
    qed
  qed
next
  case (8 key item m loc)
  then show ?case
    by (auto simp: nul_at_cases split: option.splits if_splits) blast+
qed (auto simp: nul_at_cases)

definition strip_bom :: "string \<Rightarrow> string" where
  "strip_bom b = (case strip_prefix [CHR 0xEF, CHR 0xBB, CHR 0xBF] b of Some r \<Rightarrow> r | None \<Rightarrow> b)"

lemma one_error_status: "ae_status (one_error e) = 422"
  by (simp add: one_error_def validation_error_def unprocessable_def api_error_new_def)

lemma parse_failed_status: "ae_status parse_failed = 400"
  by (simp add: parse_failed_def bad_request_def api_error_new_def)



section \<open>Collecting errors\<close>

text \<open>
  A field check, whatever was collected before, gives the value \<open>v\<close> and appends \<open>errs\<close>, each
  placed under the current prefix.
\<close>

definition collects :: "(body_errors \<Rightarrow> 'a \<times> body_errors) \<Rightarrow> 'a \<Rightarrow> (json list \<Rightarrow> json) list \<Rightarrow> bool" where
  "collects f v errs \<longleftrightarrow>
     (\<forall>e. f e = (v, e\<lparr>be_errors := be_errors e @ map (\<lambda>g. g (be_prefix e)) errs\<rparr>))"

lemma collectsD: "collects f v errs \<Longrightarrow> f e = (v, e\<lparr>be_errors := be_errors e @ map (\<lambda>g. g (be_prefix e)) errs\<rparr>)"
  by (simp add: collects_def)

lemma collects_none: "collects (\<lambda>e. (v, e)) v []"
  by (simp add: collects_def)

definition field_error :: "string \<Rightarrow> json list \<Rightarrow> string \<Rightarrow> json \<Rightarrow> json option \<Rightarrow> json list \<Rightarrow> json" where
  "field_error kind loc msg input ctx prefix = error_json kind (String ''body'' # prefix @ loc) msg input ctx"

lemma collects_push: "collects (\<lambda>e. (v, push_at kind loc msg input ctx e)) v [field_error kind loc msg input ctx]"
  by (simp add: collects_def push_at_def field_error_def)

lemma collects_nested:
  assumes "collects f v errs"
  shows "collects (nested loc f) v (map (\<lambda>g prefix. g (prefix @ loc)) errs)"
  by (simp add: collects_def nested_def collectsD [OF assms] comp_def)

lemma collects_bind:
  assumes "collects f v errs" "collects (g v) w errs'"
  shows "collects (\<lambda>e. case f e of (x, e') \<Rightarrow> g x e') w (errs @ errs')"
  unfolding collects_def by (simp add: collectsD [OF assms(1)] collectsD [OF assms(2)])

lemma collects_finish:
  "collects f v errs \<Longrightarrow> be_finish (snd (f be_new)) = Inr () \<longleftrightarrow> errs = []"
  by (cases errs) (simp_all add: collectsD be_finish_def validation_error_def be_new_def)

lemma collects_push_field: "collects (\<lambda>e. (v, push_field kind field msg input ctx e)) v [field_error kind [String field] msg input ctx]"
  unfolding push_field_def by (rule collects_push)

lemma collects_int_error: "\<exists>g. collects (\<lambda>e. (v, push_int_error field input err e)) v [g]"
  unfolding push_int_error_def int_parsing_def int_parsing_size_def int_type_def int_from_float_def
  by (cases err) (auto intro: collects_push_field)

text \<open>A field that is there and not null.\<close>

definition present :: "json \<Rightarrow> string \<Rightarrow> json option" where
  "present body field = (case json_get field body of Some v \<Rightarrow> if v = Null then None else Some v | None \<Rightarrow> None)"

lemma optional_int_present:
  "optional_int body field = (\<lambda>e. case present body field of
      None \<Rightarrow> (None, e)
    | Some v \<Rightarrow> (case parse_pydantic_int v of Inr n \<Rightarrow> (Some n, e) | Inl err \<Rightarrow> (None, push_int_error field v err e)))"
  by (rule ext) (auto simp: optional_int_def present_def split: option.split json.split)

text \<open>
  The integer a field denotes, when its coercion succeeds. The coercion of a number beyond
  \<open>i64\<close> saturates, so the bounds of a check must lie inside it.
\<close>

fun field_int :: "json \<Rightarrow> int \<Rightarrow> bool" where
  "field_int (Bool b) n \<longleftrightarrow> n = (if b then 1 else 0)"
| "field_int (IntNum m) n \<longleftrightarrow> n = m"
| "field_int (FloatNum f) n \<longleftrightarrow> of_int n = f"
| "field_int (String s) n \<longleftrightarrow> (\<exists>v. str_as_int s = Inr v \<and> denotes v n)"
| "field_int _ n \<longleftrightarrow> False"


lemma range_saturate:
  assumes "i64_min < lo" "lo \<le> i64_max" "i64_min \<le> hi" "hi < i64_max"
  shows "lo \<le> saturate_i64 n \<longleftrightarrow> lo \<le> n" "saturate_i64 n \<le> hi \<longleftrightarrow> n \<le> hi"
    "lo \<le> n \<Longrightarrow> n \<le> hi \<Longrightarrow> saturate_i64 n = n"
  using assms by (auto simp: saturate_i64_def)

lemma parse_pydantic_int_field:
  assumes "field_int v n" "i64_min < lo" "lo \<le> hi" "hi < i64_max"
  shows "\<exists>p. parse_pydantic_int v = Inr p \<and> (py_ge p lo \<longleftrightarrow> lo \<le> n) \<and> (py_le p hi \<longleftrightarrow> n \<le> hi) \<and>
    (lo \<le> n \<and> n \<le> hi \<longrightarrow> small p = Some n)"
proof -
  have b: "i64_min < lo" "lo \<le> i64_max" "i64_min \<le> hi" "hi < i64_max" using assms by auto
  show ?thesis
  proof (cases v)
    case (String s)
    then obtain p where p: "str_as_int s = Inr p" "denotes p n" using assms(1) by auto
    then show ?thesis using b i64_bounds by (cases p) (auto simp: String in_i64_def)
  next
    case (FloatNum f)
    then have "f = of_int n" using assms(1) by simp
    then show ?thesis using FloatNum range_saturate [OF b] by simp
  qed (use assms(1) range_saturate [OF b] b in auto)
qed

lemma parse_pydantic_int_total:
  "(\<exists>p. parse_pydantic_int v = Inr p) \<Longrightarrow> (\<exists>n. field_int v n)"
proof (cases v)
  case (String s)
  assume "\<exists>p. parse_pydantic_int v = Inr p"
  then obtain p where p: "str_as_int s = Inr p" using String by (auto split: sum.splits str_int_error.splits)
  then have "\<exists>n. denotes p n"
    by (auto simp: str_as_int_def split: sum.splits jiter_error.splits option.splits dest: jiter_int_sound)
  then show ?thesis using String p by auto
next
  case (FloatNum f)
  assume "\<exists>p. parse_pydantic_int v = Inr p"
  then show ?thesis using FloatNum by (auto split: if_splits elim: Ints_cases)
qed auto

lemma optional_int_in_range_collects:
  assumes "i64_min < lo" "lo \<le> hi" "hi < i64_max"
  shows "\<exists>v errs. collects (optional_int_in_range body field lo hi) v errs \<and>
    (case present body field of
       None \<Rightarrow> v = None \<and> errs = []
     | Some j \<Rightarrow>
         if \<exists>n. field_int j n \<and> lo \<le> n \<and> n \<le> hi
         then errs = [] \<and> (\<exists>n. v = Some n \<and> field_int j n \<and> lo \<le> n \<and> n \<le> hi)
         else v = None \<and> length errs = 1)"
proof (cases "present body field")
  case None
  then have "collects (optional_int_in_range body field lo hi) None []"
    by (simp add: collects_def optional_int_in_range_def optional_int_present)
  then show ?thesis using None by auto
next
  case (Some j)
  then have get: "json_get field body = Some j" by (auto simp: present_def split: option.splits if_splits)
  show ?thesis
  proof (cases "\<exists>n. field_int j n")
    case False
    then obtain err where "parse_pydantic_int j = Inl err"
      using parse_pydantic_int_total [of j] by (cases "parse_pydantic_int j") auto
    then have "optional_int_in_range body field lo hi = (\<lambda>e. (None, push_int_error field j err e))"
      by (rule_tac ext) (simp add: optional_int_in_range_def optional_int_present Some)
    then show ?thesis using collects_int_error [of None field j err] False Some by auto
  next
    case True
    then obtain n where n: "field_int j n" by blast
    obtain p where p: "parse_pydantic_int j = Inr p" "py_ge p lo \<longleftrightarrow> lo \<le> n" "py_le p hi \<longleftrightarrow> n \<le> hi"
        "lo \<le> n \<and> n \<le> hi \<longrightarrow> small p = Some n"
      using parse_pydantic_int_field [OF n assms] by blast
    have uniq: "lo \<le> m \<and> m \<le> hi \<longleftrightarrow> lo \<le> n \<and> n \<le> hi" if m: "field_int j m" for m
      using parse_pydantic_int_field [OF m assms] p by auto
    have eq: "optional_int_in_range body field lo hi = (\<lambda>e.
        if \<not> lo \<le> n then (None, push_field ''greater_than_equal'' field (ge_msg lo) j (Some (Object [(''ge'', IntNum lo)])) e)
        else if \<not> n \<le> hi then (None, push_field ''less_than_equal'' field (le_msg hi) j (Some (Object [(''le'', IntNum hi)])) e)
        else (Some n, e))"
      using p by (intro ext) (simp add: optional_int_in_range_def optional_int_present Some get)
    show ?thesis
    proof (cases "lo \<le> n \<and> n \<le> hi")
      case True
      then have "collects (optional_int_in_range body field lo hi) (Some n) []" by (simp add: eq collects_def)
      then show ?thesis using True n Some by auto
    next
      case False
      then obtain g where "collects (optional_int_in_range body field lo hi) None [g]"
        unfolding eq by (cases "lo \<le> n") (auto intro: collects_push_field)
      moreover have "\<not> (\<exists>m. field_int j m \<and> lo \<le> m \<and> m \<le> hi)" using uniq False by blast
      ultimately show ?thesis using Some by (intro exI [of _ None] exI [of _ "[g]"]) simp
    qed
  qed
qed

lemma push_error_errors: "\<exists>err. q_errors (push_error kind name msg input ctx q) = q_errors q @ [err]"
  by (simp add: push_error_def)

lemma query_int_result:
  assumes b: "i64_min < lo" "lo \<le> hi" "hi < i64_max" and d: "lo \<le> dflt" "dflt \<le> hi"
  shows "let (n, q') = query_int name dflt lo hi q
    in lo \<le> n \<and> n \<le> hi \<and>
       (case query_last q name of
          None \<Rightarrow> n = dflt \<and> q' = q
        | Some raw \<Rightarrow>
            if \<exists>z. field_int (String raw) z \<and> lo \<le> z \<and> z \<le> hi
            then field_int (String raw) n \<and> q' = q
            else n = dflt \<and> (\<exists>err. q_errors q' = q_errors q @ [err]))"
proof (cases "query_last q name")
  case None
  then show ?thesis using d by (simp add: query_int_def query_big_int_def)
next
  case (Some raw)
  show ?thesis
  proof (cases "str_as_int raw")
    case (Inl e)
    then show ?thesis
      using Some d push_error_errors by (cases e) (auto simp: query_int_def query_big_int_def)
  next
    case (Inr v)
    then have "parse_pydantic_int (String raw) = Inr v" by simp
    then obtain n where n: "field_int (String raw) n" using parse_pydantic_int_total by blast
    then have p: "py_ge v lo \<longleftrightarrow> lo \<le> n" "py_le v hi \<longleftrightarrow> n \<le> hi" "lo \<le> n \<and> n \<le> hi \<longrightarrow> small v = Some n"
      using parse_pydantic_int_field [OF n b] Inr by auto
    have uniq: "lo \<le> m \<and> m \<le> hi \<longleftrightarrow> lo \<le> n \<and> n \<le> hi" if m: "field_int (String raw) m" for m
      using parse_pydantic_int_field [OF m b] p Inr by auto
    show ?thesis
    proof (cases "lo \<le> n \<and> n \<le> hi")
      case True
      then have "query_int name dflt lo hi q = (n, q)"
        using Some Inr p by (simp add: query_int_def query_big_int_def)
      then show ?thesis using True n Some by auto
    next
      case False
      then have "\<exists>kind msg ctx. query_int name dflt lo hi q = (dflt, push_error kind name msg raw ctx q)"
        using Some Inr p by (auto simp: query_int_def query_big_int_def)
      moreover have "\<not> (\<exists>m. field_int (String raw) m \<and> lo \<le> m \<and> m \<le> hi)" using uniq False by blast
      ultimately show ?thesis using Some d push_error_errors by fastforce
    qed
  qed
qed

text \<open>
  Bounded integers, from the query string and from a body field, for any bounds strictly
  inside \<open>i64\<close>. The handler always continues with a value inside the bounds (or with no value,
  for a body field); when the input denotes an integer inside them that integer is the value
  and nothing is reported; an absent or null input is no error; and anything else, a number
  beyond \<open>i64\<close> included, is reported exactly once and the request is refused.
\<close>

theorem bounded_integers_validated:
  assumes "i64_min < lo" "lo \<le> hi" "hi < i64_max" "lo \<le> dflt" "dflt \<le> hi"
  shows "(let (n, q') = query_int name dflt lo hi q
      in lo \<le> n \<and> n \<le> hi \<and>
         (case query_last q name of
            None \<Rightarrow> n = dflt \<and> q' = q
          | Some raw \<Rightarrow>
              if \<exists>z. field_int (String raw) z \<and> lo \<le> z \<and> z \<le> hi
              then field_int (String raw) n \<and> q' = q
              else n = dflt \<and> (\<exists>err. q_errors q' = q_errors q @ [err]) \<and> query_finish q' \<noteq> Inr ())) \<and>
    (let (v, e) = optional_int_in_range body field lo hi be_new
      in case present body field of
           None \<Rightarrow> v = None \<and> be_finish e = Inr ()
         | Some j \<Rightarrow>
             if \<exists>n. field_int j n \<and> lo \<le> n \<and> n \<le> hi
             then (\<exists>n. v = Some n \<and> field_int j n \<and> lo \<le> n \<and> n \<le> hi) \<and> be_finish e = Inr ()
             else v = None \<and> length (be_errors e) = 1 \<and> be_finish e \<noteq> Inr ())"
proof
  show "let (n, q') = query_int name dflt lo hi q
      in lo \<le> n \<and> n \<le> hi \<and>
         (case query_last q name of
            None \<Rightarrow> n = dflt \<and> q' = q
          | Some raw \<Rightarrow>
              if \<exists>z. field_int (String raw) z \<and> lo \<le> z \<and> z \<le> hi
              then field_int (String raw) n \<and> q' = q
              else n = dflt \<and> (\<exists>err. q_errors q' = q_errors q @ [err]) \<and> query_finish q' \<noteq> Inr ())"
    using query_int_result [OF assms, of name q]
    by (auto simp: query_finish_def validation_error_def Let_def split: option.splits list.split if_splits)
  obtain v errs where c: "collects (optional_int_in_range body field lo hi) v errs"
    and sp: "case present body field of None \<Rightarrow> v = None \<and> errs = []
     | Some j \<Rightarrow>
         if \<exists>n. field_int j n \<and> lo \<le> n \<and> n \<le> hi
         then errs = [] \<and> (\<exists>n. v = Some n \<and> field_int j n \<and> lo \<le> n \<and> n \<le> hi)
         else v = None \<and> length errs = 1"
    using optional_int_in_range_collects [OF assms(1-3), of body field] by blast
  have fin: "be_finish (snd (optional_int_in_range body field lo hi be_new)) = Inr () \<longleftrightarrow> errs = []"
    by (rule collects_finish [OF c])
  have "fst (optional_int_in_range body field lo hi be_new) = v"
    "length (be_errors (snd (optional_int_in_range body field lo hi be_new))) = length errs"
    using collectsD [OF c, of be_new] by (simp_all add: be_new_def)
  then show "let (v, e) = optional_int_in_range body field lo hi be_new
      in case present body field of
           None \<Rightarrow> v = None \<and> be_finish e = Inr ()
         | Some j \<Rightarrow>
             if \<exists>n. field_int j n \<and> lo \<le> n \<and> n \<le> hi
             then (\<exists>n. v = Some n \<and> field_int j n \<and> lo \<le> n \<and> n \<le> hi) \<and> be_finish e = Inr ()
             else v = None \<and> length (be_errors e) = 1 \<and> be_finish e \<noteq> Inr ()"
    using sp fin by (auto simp: Let_def split: option.splits if_splits)
qed

theorem bounded_integers_validated_witness:
  "fst (optional_int_in_range (Object [(''n'', IntNum 61)]) ''n'' 1 60 be_new) = None \<and>
   be_finish (snd (optional_int_in_range (Object [(''n'', IntNum 61)]) ''n'' 1 60 be_new)) \<noteq> Inr ()"
proof -
  have "i64_min < 1" "(1 :: int) \<le> 60" "60 < i64_max" "(1 :: int) \<le> 5" "(5 :: int) \<le> 60"
    by (simp_all add: i64_min_def i64_max_def)
  from bounded_integers_validated [OF this, of "''n''" "\<lparr>q_params = [], q_errors = []\<rparr>" "Object [(''n'', IntNum 61)]" "''n''"]
  show ?thesis by (auto simp: present_def Let_def split: prod.splits)
qed

end
