(* ===== verification/Sentinel_Runs.thy ===== *)
theory Sentinel_Runs
  imports Query "HOL-Library.Product_Lexorder"
begin

text \<open>
  \<^verbatim>\<open>backend-rs/src/api/sentinel.rs\<close>: the run queue the agent drains, the agent keys, and, from
  \<^verbatim>\<open>backend-rs/src/loops.rs\<close>, the reaper. The table \<open>sentinel_runs\<close> is the list of its rows.
  A handler reads a row and later issues an update guarded by its \<open>WHERE\<close>; the two happen at
  different times, so a handler takes the table as it \<open>saw\<close> it and the table it updates.
  Points in time are microseconds; \<open>iso_fmt\<close> formats one, and the text of a run's local time is an
  argument, since the zone data is the \<open>jiff\<close> crate's.
\<close>

section \<open>Rows\<close>

record run_row =
  rn_id :: string
  rn_org :: string
  rn_triggered_at :: "int option"
  rn_trigger_type :: string
  rn_camera :: "string option"
  rn_tool_call_count :: int
  rn_outcome :: string
  rn_severity :: "string option"
  rn_incident :: "int option"
  rn_started_at :: "int option"
  rn_completed_at :: "int option"
  rn_manual_prompt :: "string option"
  rn_summary :: "string option"
  rn_tool_trace :: "string option"
  rn_updated_at :: int

type_synonym runs = "run_row list"

definition TERMINAL :: "string list" where
  "TERMINAL = [''incident'', ''no_action'', ''error'']"

definition is_terminal :: "run_row \<Rightarrow> bool" where
  "is_terminal r \<longleftrightarrow> rn_outcome r \<in> set TERMINAL"

definition tool_trace_json :: "(string \<Rightarrow> json option) \<Rightarrow> run_row \<Rightarrow> json" where
  "tool_trace_json from_str r =
     (case rn_tool_trace r of
        None \<Rightarrow> Array []
      | Some raw \<Rightarrow>
          if raw = [] then Array []
          else case from_str raw of Some (Array items) \<Rightarrow> Array items | _ \<Rightarrow> Array [])"

definition opt_string :: "string option \<Rightarrow> json" where
  "opt_string v = (case v of Some s \<Rightarrow> String s | None \<Rightarrow> Null)"

definition opt_int :: "int option \<Rightarrow> json" where
  "opt_int v = (case v of Some n \<Rightarrow> IntNum n | None \<Rightarrow> Null)"

definition opt_time :: "(int \<Rightarrow> string) \<Rightarrow> int option \<Rightarrow> json" where
  "opt_time iso_fmt v = (case v of Some t \<Rightarrow> String (iso_fmt t) | None \<Rightarrow> Null)"

definition run_json :: "(int \<Rightarrow> string) \<Rightarrow> (string \<Rightarrow> json option) \<Rightarrow> bool \<Rightarrow> run_row \<Rightarrow> (string \<times> json) list" where
  "run_json iso_fmt from_str include_trace r =
     [(''id'', String (rn_id r)), (''triggered_at'', opt_time iso_fmt (rn_triggered_at r)),
      (''trigger_type'', String (rn_trigger_type r)), (''camera_id'', opt_string (rn_camera r)),
      (''tool_call_count'', IntNum (rn_tool_call_count r)), (''outcome'', String (rn_outcome r)),
      (''severity'', opt_string (rn_severity r)), (''incident_id'', opt_int (rn_incident r)),
      (''started_at'', opt_time iso_fmt (rn_started_at r)), (''completed_at'', opt_time iso_fmt (rn_completed_at r)),
      (''manual_prompt'', opt_string (rn_manual_prompt r)),
      (''summary'', String (case rn_summary r of Some s \<Rightarrow> s | None \<Rightarrow> []))] @
     (if include_trace then [(''tool_trace'', tool_trace_json from_str r)] else [])"

section \<open>Who an agent is\<close>

record agent_principal =
  ap_org :: "string option"
  ap_scoped :: bool

record agent_key =
  ak_id :: int
  ak_org :: string
  ak_hash :: string
  ak_last4 :: "string option"
  ak_name :: string
  ak_created_by :: "string option"
  ak_revoked :: bool
  ak_created_at :: "int option"
  ak_last_used_at :: "int option"

definition invalid_key :: api_error where
  "invalid_key = unauthorized (String ''invalid agent key'')"

text \<open>
  The extractor: the presented bytes (empty when the header is absent), the shared key, the
  outcome of the lookup (\<open>None\<close> for a failed query), and whether the last-seen write works.
\<close>

definition agent_from_request ::
  "(bytes \<Rightarrow> bytes) \<Rightarrow> bool \<Rightarrow> bool \<Rightarrow> string option \<Rightarrow> int \<Rightarrow> string \<Rightarrow> agent_key list \<Rightarrow>
   (api_error + agent_principal) \<times> agent_key list" where
  "agent_from_request sha lookup_works stamp_works shared now presented ks =
     (if presented = [] then (Inl invalid_key, ks)
      else if (case shared of Some k \<Rightarrow> k \<noteq> [] \<and> presented = k | None \<Rightarrow> False)
      then (Inr \<lparr>ap_org = None, ap_scoped = False\<rparr>, ks)
      else if \<not> lookup_works then (Inl (internal (String ''database error'')), ks)
      else case find (\<lambda>k. ak_hash k = hex (sha (to_bytes presented)) \<and> \<not> ak_revoked k) ks of
          None \<Rightarrow> (Inl invalid_key, ks)
        | Some row \<Rightarrow>
            (Inr \<lparr>ap_org = Some (ak_org row), ap_scoped = True\<rparr>,
             if stamp_works then map (\<lambda>k. if ak_id k = ak_id row then k\<lparr>ak_last_used_at := Some now\<rparr> else k) ks
             else ks))"

definition run_not_found :: api_error where
  "run_not_found = not_found (String ''run not found'')"

definition find_run :: "runs \<Rightarrow> string \<Rightarrow> run_row option" where
  "find_run t run_id = find (\<lambda>r. rn_id r = run_id) t"

definition agent_visible_run :: "agent_principal \<Rightarrow> string \<Rightarrow> runs \<Rightarrow> api_error + run_row" where
  "agent_visible_run agent run_id t =
     (case find_run t run_id of
        None \<Rightarrow> Inl run_not_found
      | Some row \<Rightarrow>
          if ap_scoped agent \<and> Some (rn_org row) \<noteq> ap_org agent then Inl run_not_found else Inr row)"

section \<open>The queue\<close>

text \<open>\<open>ORDER BY triggered_at ASC NULLS LAST\<close>.\<close>

definition queue_key :: "run_row \<Rightarrow> bool \<times> int" where
  "queue_key r = (case rn_triggered_at r of Some t \<Rightarrow> (False, t) | None \<Rightarrow> (True, 0))"

definition pending_rows :: "agent_principal \<Rightarrow> int \<Rightarrow> runs \<Rightarrow> runs" where
  "pending_rows agent limit t =
     take (nat limit)
       (sort_key queue_key
         (filter (\<lambda>r. rn_outcome r = ''pending'' \<and>
            (ap_scoped agent \<longrightarrow> rn_org r = (case ap_org agent of Some org \<Rightarrow> org | None \<Rightarrow> []))) t))"

definition list_pending_runs ::
  "(int \<Rightarrow> string) \<Rightarrow> (string \<Rightarrow> json option) \<Rightarrow> (string \<Rightarrow> int \<Rightarrow> string) \<Rightarrow> (string \<Rightarrow> (string \<times> string) list) \<Rightarrow>
   agent_principal \<Rightarrow> string option \<Rightarrow> runs \<Rightarrow> api_error + json" where
  "list_pending_runs iso_fmt from_str local_time form_parse agent raw t =
     (let (limit, q) = query_int ''limit'' 20 1 100 (query_parse form_parse raw)
      in case query_finish q of
           Inl e \<Rightarrow> Inl e
         | Inr _ \<Rightarrow>
             Inr (Object [(''runs'', Array (map (\<lambda>r.
               Object (run_json iso_fmt from_str False r @ [(''org_id'', String (rn_org r))] @
                 (case rn_triggered_at r of
                    Some at_ \<Rightarrow> [(''local_time'', String (local_time (rn_org r) at_))] | None \<Rightarrow> [])))
               (pending_rows agent limit t)))]))"

definition get_run ::
  "(int \<Rightarrow> string) \<Rightarrow> (string \<Rightarrow> json option) \<Rightarrow> string \<Rightarrow> string \<Rightarrow> runs \<Rightarrow> api_error + json" where
  "get_run iso_fmt from_str org raw_id t =
     (case path_segment raw_id of
        Inl e \<Rightarrow> Inl e
      | Inr run_id \<Rightarrow>
          (case find (\<lambda>r. rn_org r = org \<and> rn_id r = run_id) t of
             None \<Rightarrow> Inl run_not_found
           | Some row \<Rightarrow> Inr (Object (run_json iso_fmt from_str True row))))"

section \<open>Claiming a run\<close>

definition claim_update :: "int \<Rightarrow> string \<Rightarrow> runs \<Rightarrow> runs" where
  "claim_update now run_id t =
     map (\<lambda>r. if rn_id r = run_id \<and> rn_outcome r = ''pending''
              then r\<lparr>rn_outcome := ''running'', rn_started_at := Some now, rn_updated_at := now\<rparr> else r) t"

definition claim_count :: "string \<Rightarrow> runs \<Rightarrow> nat" where
  "claim_count run_id t = length (filter (\<lambda>r. rn_id r = run_id \<and> rn_outcome r = ''pending'') t)"

text \<open>The row as answered, the flag \<open>claimed\<close>, and the table.\<close>

definition post_run_start ::
  "agent_principal \<Rightarrow> string \<Rightarrow> int \<Rightarrow> runs \<Rightarrow> runs \<Rightarrow> (api_error + run_row \<times> bool) \<times> runs" where
  "post_run_start agent raw_id now saw t =
     (case path_segment raw_id of
        Inl e \<Rightarrow> (Inl e, t)
      | Inr run_id \<Rightarrow>
          (case agent_visible_run agent run_id saw of
             Inl e \<Rightarrow> (Inl e, t)
           | Inr row \<Rightarrow>
               if rn_outcome row \<noteq> ''pending'' then (Inr (row, False), t)
               else
                 (let won = (claim_count (rn_id row) t = 1);
                      t' = claim_update now (rn_id row) t
                  in case find_run t' (rn_id row) of
                       Some row' \<Rightarrow> (Inr (row', won), t')
                     | None \<Rightarrow> (Inl (internal (String ''database error'')), t'))))"

section \<open>Tool traces\<close>

text \<open>\<open>python_repr\<close> of this module leaves control characters as they are.\<close>

definition trace_repr_char :: "char \<Rightarrow> nat \<Rightarrow> string" where
  "trace_repr_char q n =
     (if n = 0x5C then [backslash, backslash]
      else if n = 0x0A then [backslash, CHR ''n'']
      else if n = 0x0D then [backslash, CHR ''r'']
      else if n = 0x09 then [backslash, CHR ''t'']
      else if n = of_char q then [backslash, q]
      else utf8 n)"

definition python_repr :: "string \<Rightarrow> string" where
  "python_repr s = (let q = quote_for s in q # concat (map (trace_repr_char q) (chars s)) @ [q])"

definition truncate_chars :: "string \<Rightarrow> nat \<Rightarrow> string" where
  "truncate_chars s limit = (if length (chars s) \<le> limit then s else encode_utf8 (take limit (chars s)))"

text \<open>\<open>fl\<close> is \<open>serde_json\<close>'s text of a double.\<close>

fun python_repr_value :: "(rat \<Rightarrow> string) \<Rightarrow> json \<Rightarrow> string" where
  "python_repr_value fl (String s) = python_repr s"
| "python_repr_value fl Null = ''None''"
| "python_repr_value fl (Bool b) = (if b then ''True'' else ''False'')"
| "python_repr_value fl (IntNum n) = show_int n"
| "python_repr_value fl (FloatNum f) = fl f"
| "python_repr_value fl (Array items) = ''['' @ join '', '' (map (python_repr_value fl) items) @ '']''"
| "python_repr_value fl (Object m) =
     ''{'' @ join '', '' (map (\<lambda>(k, v). python_repr k @ '': '' @ python_repr_value fl v) m) @ ''}''"

text \<open>\<open>python_str\<close> differs from it only on a string, which it leaves as it is.\<close>

definition python_str :: "(rat \<Rightarrow> string) \<Rightarrow> json \<Rightarrow> string" where
  "python_str fl v = (case v of String s \<Rightarrow> s | other \<Rightarrow> python_repr_value fl other)"

definition ellipsis :: string where
  "ellipsis = utf8 0x2026"

definition cap_str :: "(rat \<Rightarrow> string) \<Rightarrow> json option \<Rightarrow> nat \<Rightarrow> string" where
  "cap_str fl v limit =
     (let s = (case v of None \<Rightarrow> [] | Some (String s) \<Rightarrow> s | Some other \<Rightarrow> python_str fl other)
      in if length (chars s) \<le> limit then s else truncate_chars s limit @ ellipsis)"

definition sanitise_entry :: "(rat \<Rightarrow> string) \<Rightarrow> (string \<times> json) list \<Rightarrow> json" where
  "sanitise_entry fl m =
     (let raw_args = (case map_of m ''args'' of Some (Object a) \<Rightarrow> Object a | _ \<Rightarrow> Object []);
          args_json = python_json_value fl raw_args;
          args_payload =
            (if length (chars args_json) > 1500
             then Object [(''_truncated'', String (truncate_chars args_json 1500 @ ellipsis))] else raw_args)
      in Object [(''tool'', String (cap_str fl (map_of m ''tool'') 200)), (''args'', args_payload),
                 (''result'', String (cap_str fl (map_of m ''result'') 1000))])"

definition serialise_tool_trace :: "(rat \<Rightarrow> string) \<Rightarrow> json list \<Rightarrow> string" where
  "serialise_tool_trace fl trace =
     (let kept = drop (length trace - 50) trace
      in python_json_value fl (Array (map (sanitise_entry fl)
           (List.map_filter (\<lambda>entry. case entry of Object m \<Rightarrow> Some m | _ \<Rightarrow> None) kept))))"


section \<open>Completing a run\<close>

record completion =
  co_outcome :: string
  co_severity :: "string option"
  co_incident :: "int option"
  co_summary :: string
  co_tool_call_count :: int
  co_tool_trace :: "string option"

definition usize_max :: nat where "usize_max = 2 ^ 64 - 1"

text \<open>The \<open>WHERE\<close> of the completing update, and the row it leaves.\<close>

definition completable :: "string \<Rightarrow> run_row \<Rightarrow> bool" where
  "completable outcome r \<longleftrightarrow>
     rn_outcome r \<notin> set TERMINAL \<or> rn_outcome r = ''error'' \<and> outcome \<in> set [''incident'', ''no_action'']"

definition coalesce :: "'a option \<Rightarrow> 'a option \<Rightarrow> 'a option" where
  "coalesce a b = (case a of Some x \<Rightarrow> Some x | None \<Rightarrow> b)"

definition complete_row :: "completion \<Rightarrow> int \<Rightarrow> run_row \<Rightarrow> run_row" where
  "complete_row c now r =
     r\<lparr>rn_outcome := co_outcome c, rn_severity := co_severity c, rn_incident := co_incident c,
       rn_summary := Some (co_summary c), rn_tool_call_count := co_tool_call_count c,
       rn_tool_trace := coalesce (co_tool_trace c) (rn_tool_trace r),
       rn_started_at := coalesce (rn_started_at r) (Some now), rn_completed_at := Some now, rn_updated_at := now\<rparr>"

definition complete_update :: "completion \<Rightarrow> int \<Rightarrow> string \<Rightarrow> runs \<Rightarrow> runs" where
  "complete_update c now run_id t =
     map (\<lambda>r. if rn_id r = run_id \<and> completable (co_outcome c) r then complete_row c now r else r) t"

definition out_of_range :: api_error where
  "out_of_range = unprocessable (String ''tool_call_count is out of range'')"

definition SEVERITIES :: "string list" where
  "SEVERITIES = [''low'', ''medium'', ''high'', ''critical'']"

text \<open>The fields of the body, in the order they are checked.\<close>

definition complete_fields ::
  "json \<Rightarrow> api_error + (string \<times> string option \<times> py_int option \<times> string \<times> py_int \<times> json list option)" where
  "complete_fields body =
     (let (outcome, e1) = required_string body ''outcome'' usize_max be_new;
          (severity, e2) = optional_string body ''severity'' usize_max e1;
          (incident_id, e3) = optional_int body ''incident_id'' e2;
          (summary, e4) = string_with_default body ''summary'' 8000 e3;
          (tool_call_count, e5) = int_with_default body ''tool_call_count'' 0 e4;
          (tool_trace, e6) = optional_list_of_objects body ''tool_trace'' e5
      in case be_finish e6 of
           Inl e \<Rightarrow> Inl e
         | Inr _ \<Rightarrow>
             if outcome \<notin> set TERMINAL
             then Inl (bad_request (String (''invalid outcome: '' @ python_repr outcome)))
             else if outcome = ''incident'' \<and> (case severity of Some s \<Rightarrow> s \<notin> set SEVERITIES | None \<Rightarrow> True)
             then Inl (bad_request (String ''severity required for outcome=incident''))
             else Inr (outcome, severity, incident_id, summary, tool_call_count, tool_trace))"

text \<open>The incident's id, narrowed, and checked to belong to the run's organisation.\<close>

definition check_incident ::
  "(int \<times> string) list \<Rightarrow> string \<Rightarrow> py_int option \<Rightarrow> string \<Rightarrow> api_error + int option" where
  "check_incident incidents outcome incident_id org =
     (if outcome \<noteq> ''incident'' then Inr None
      else case incident_id of
          None \<Rightarrow> Inr None
        | Some v \<Rightarrow>
            (case int4 v of
               Inl e \<Rightarrow> Inl e
             | Inr w \<Rightarrow>
                 if (sint w, org) \<in> set incidents then Inr (Some (sint w))
                 else Inl (bad_request (String (''incident_id does not belong to this run'' @ [squote] @ ''s org'')))))"

definition bind_count :: "py_int \<Rightarrow> api_error + int" where
  "bind_count n =
     (case max_zero n of
        None \<Rightarrow> Inl out_of_range
      | Some v \<Rightarrow> if v < 2 ^ 31 then Inr v else Inl out_of_range)"

definition post_run_complete ::
  "(rat \<Rightarrow> string) \<Rightarrow> (int \<times> string) list \<Rightarrow> agent_principal \<Rightarrow> string \<Rightarrow> json \<Rightarrow> int \<Rightarrow> runs \<Rightarrow> runs \<Rightarrow>
   (api_error + run_row) \<times> runs" where
  "post_run_complete fl incidents agent raw_id body now saw t =
     (case path_segment raw_id of
        Inl e \<Rightarrow> (Inl e, t)
      | Inr run_id \<Rightarrow>
          (case complete_fields body of
             Inl e \<Rightarrow> (Inl e, t)
           | Inr (outcome, severity, incident_id, summary, tool_call_count, tool_trace) \<Rightarrow>
               (case agent_visible_run agent run_id saw of
                  Inl e \<Rightarrow> (Inl e, t)
                | Inr row \<Rightarrow>
                    if is_terminal row \<and> \<not> (rn_outcome row = ''error'' \<and> outcome \<in> set [''incident'', ''no_action''])
                    then (Inr row, t)
                    else
                      (case check_incident incidents outcome incident_id (rn_org row) of
                         Inl e \<Rightarrow> (Inl e, t)
                       | Inr incident_bind \<Rightarrow>
                           (case bind_count tool_call_count of
                              Inl e \<Rightarrow> (Inl e, t)
                            | Inr count \<Rightarrow>
                                (let c = \<lparr>co_outcome = outcome,
                                          co_severity = (if outcome = ''incident'' then severity else None),
                                          co_incident = incident_bind,
                                          co_summary = truncate_chars summary 8000,
                                          co_tool_call_count = count,
                                          co_tool_trace = map_option (serialise_tool_trace fl) tool_trace\<rparr>;
                                     t' = complete_update c now (rn_id row) t
                                 in case find_run t' (rn_id row) of
                                      Some row' \<Rightarrow> (Inr row', t')
                                    | None \<Rightarrow> (Inl (internal (String ''database error'')), t')))))))"

section \<open>The reaper\<close>

definition STRANDED_RUN_AGE_MINUTES :: int where "STRANDED_RUN_AGE_MINUTES = 20"
definition STALE_PENDING_MINUTES :: int where "STALE_PENDING_MINUTES = 2"
definition ABANDONED_PENDING_HOURS :: int where "ABANDONED_PENDING_HOURS = 6"

definition minutes_us :: "int \<Rightarrow> int" where "minutes_us n = n * 60000000"

record reaper_summary =
  reaped :: nat
  reaped_ids :: "string list"
  rewoken_pending :: nat
  abandoned :: nat

definition reaper_summary_json :: "reaper_summary \<Rightarrow> json" where
  "reaper_summary_json s =
     Object [(''reaped'', IntNum (int (reaped s))), (''ids'', Array (map String (reaped_ids s))),
             (''rewoken_pending'', IntNum (int (rewoken_pending s))), (''abandoned'', IntNum (int (abandoned s)))]"

definition stranded :: "int \<Rightarrow> run_row \<Rightarrow> bool" where
  "stranded now r \<longleftrightarrow>
     rn_outcome r = ''running'' \<and>
     (case rn_started_at r of Some s \<Rightarrow> s < now - minutes_us STRANDED_RUN_AGE_MINUTES | None \<Rightarrow> False)"

definition pending_since :: "int \<Rightarrow> run_row \<Rightarrow> bool" where
  "pending_since cutoff r \<longleftrightarrow>
     rn_outcome r = ''pending'' \<and> (case rn_triggered_at r of Some s \<Rightarrow> s < cutoff | None \<Rightarrow> False)"

definition fail_row :: "string \<Rightarrow> int \<Rightarrow> run_row \<Rightarrow> run_row" where
  "fail_row why now r =
     r\<lparr>rn_outcome := ''error'', rn_summary := Some why, rn_completed_at := Some now, rn_updated_at := now\<rparr>"

definition em_dash :: string where "em_dash = utf8 0x2014"

definition stranded_summary :: string where
  "stranded_summary =
     ''Stranded '' @ em_dash @ '' agent never completed within '' @ show_int STRANDED_RUN_AGE_MINUTES @
     '' min.  Reaped automatically.''"

definition abandoned_summary :: string where
  "abandoned_summary =
     ''Abandoned '' @ em_dash @ '' agent never claimed this run within 6 hours '' @
     ''(wakeup webhook unreachable?).  Marked errored automatically.''"

text \<open>
  The stranded ids are read from the table as it \<open>saw\<close> it; the update checks again that each is
  still running. The flag tells whether the wakeup is fired once more.
\<close>

definition reap_update :: "int \<Rightarrow> string list \<Rightarrow> runs \<Rightarrow> runs" where
  "reap_update now ids t =
     map (\<lambda>r. if rn_id r \<in> set ids \<and> rn_outcome r = ''running'' then fail_row stranded_summary now r else r) t"

definition abandon_update :: "int \<Rightarrow> runs \<Rightarrow> runs" where
  "abandon_update now t =
     map (\<lambda>r. if pending_since (now - 60 * minutes_us ABANDONED_PENDING_HOURS) r
              then fail_row abandoned_summary now r else r) t"

definition reap_stranded_runs :: "int \<Rightarrow> runs \<Rightarrow> runs \<Rightarrow> reaper_summary \<times> bool \<times> runs" where
  "reap_stranded_runs now saw t =
     (let ids = map rn_id (filter (stranded now) saw);
          t1 = (if ids = [] then t else reap_update now ids t);
          n_reaped = length (filter (\<lambda>r. rn_id r \<in> set ids \<and> rn_outcome r = ''running'') t);
          stale = length (filter (pending_since (now - minutes_us STALE_PENDING_MINUTES)) t1);
          n_abandoned = length (filter (pending_since (now - 60 * minutes_us ABANDONED_PENDING_HOURS)) t1)
      in (\<lparr>reaped = n_reaped, reaped_ids = ids, rewoken_pending = stale, abandoned = n_abandoned\<rparr>,
          stale > 0, abandon_update now t1))"

section \<open>The life of a run\<close>

definition OUTCOMES :: "string list" where
  "OUTCOMES = [''pending'', ''running'', ''error'', ''incident'', ''no_action'']"

definition runs_ok :: "runs \<Rightarrow> bool" where
  "runs_ok t \<longleftrightarrow> distinct (map rn_id t) \<and> (\<forall>r \<in> set t. rn_outcome r \<in> set OUTCOMES)"

text \<open>How far an outcome is: waiting, running, failed, reported.\<close>

definition stage :: "string \<Rightarrow> nat" where
  "stage outcome =
     (if outcome = ''pending'' then 0 else if outcome = ''running'' then 1 else if outcome = ''error'' then 2 else 3)"

text \<open>The same run, no earlier in its life; a stage once reached names one outcome.\<close>

definition later :: "run_row \<Rightarrow> run_row \<Rightarrow> bool" where
  "later r r' \<longleftrightarrow>
     rn_id r' = rn_id r \<and> rn_org r' = rn_org r \<and> rn_triggered_at r' = rn_triggered_at r \<and>
     rn_trigger_type r' = rn_trigger_type r \<and> rn_camera r' = rn_camera r \<and>
     rn_manual_prompt r' = rn_manual_prompt r \<and>
     (rn_outcome r' = rn_outcome r \<or> stage (rn_outcome r) < stage (rn_outcome r'))"

lemma later_refl [simp]: "later r r"
  by (simp add: later_def)

lemma later_trans: "later a b \<Longrightarrow> later b c \<Longrightarrow> later a c"
  by (auto simp: later_def)

text \<open>Updates of the table: every row in place, each later than it was.\<close>

definition advances :: "runs \<Rightarrow> runs \<Rightarrow> bool" where
  "advances t t' \<longleftrightarrow> list_all2 later t (take (length t) t')"

lemma advances_refl [simp]: "advances t t"
  by (simp add: advances_def list_all2_refl)

lemma advances_length: "advances t t' \<Longrightarrow> length t \<le> length t'"
  by (auto simp: advances_def dest: list_all2_lengthD)

lemma advances_nth: "advances t t' \<Longrightarrow> i < length t \<Longrightarrow> i < length t' \<and> later (t ! i) (t' ! i)"
  using advances_length [of t t'] by (auto simp: advances_def list_all2_conv_all_nth)

lemma advancesI: "length t \<le> length t' \<Longrightarrow> (\<And>i. i < length t \<Longrightarrow> later (t ! i) (t' ! i)) \<Longrightarrow> advances t t'"
  by (simp add: advances_def list_all2_conv_all_nth)

lemma advances_trans: "advances a b \<Longrightarrow> advances b c \<Longrightarrow> advances a c"
proof (rule advancesI)
  assume ab: "advances a b" and bc: "advances b c"
  show "length a \<le> length c" using advances_length [OF ab] advances_length [OF bc] by simp
  fix i assume "i < length a"
  from advances_nth [OF ab this] have "i < length b" "later (a ! i) (b ! i)" by auto
  then show "later (a ! i) (c ! i)" using advances_nth [OF bc] later_trans by blast
qed

lemma advances_map: "(\<And>r. r \<in> set t \<Longrightarrow> later r (f r)) \<Longrightarrow> advances t (map f t)"
  by (rule advancesI) auto

lemma advances_snoc: "advances t (t @ [r])"
  by (simp add: advances_def list_all2_refl)

lemma runs_ok_map:
  assumes "runs_ok t" "\<And>r. r \<in> set t \<Longrightarrow> rn_id (f r) = rn_id r \<and> rn_outcome (f r) \<in> set OUTCOMES"
  shows "runs_ok (map f t)"
proof -
  have "map rn_id (map f t) = map rn_id t" using assms(2) by simp
  then show ?thesis using assms by (auto simp: runs_ok_def simp del: map_map)
qed

lemma outcome_cases: "runs_ok t \<Longrightarrow> r \<in> set t \<Longrightarrow> rn_outcome r \<in> {''pending'', ''running'', ''error'', ''incident'', ''no_action''}"
  by (auto simp: runs_ok_def OUTCOMES_def)

lemmas update_defs = claim_update_def complete_update_def reap_update_def abandon_update_def

lemma claim_advances: "runs_ok t \<Longrightarrow> runs_ok (claim_update now i t) \<and> advances t (claim_update now i t)"
  unfolding claim_update_def
  by (intro conjI runs_ok_map advances_map) (auto simp: later_def stage_def OUTCOMES_def dest: outcome_cases)

lemma complete_advances:
  assumes "runs_ok t" "co_outcome c \<in> set TERMINAL"
  shows "runs_ok (complete_update c now i t) \<and> advances t (complete_update c now i t)"
  unfolding complete_update_def
  using assms by (intro conjI runs_ok_map advances_map)
    (auto simp: later_def stage_def OUTCOMES_def TERMINAL_def complete_row_def completable_def dest: outcome_cases)

lemma reap_advances: "runs_ok t \<Longrightarrow> runs_ok (reap_update now ids t) \<and> advances t (reap_update now ids t)"
  unfolding reap_update_def
  by (intro conjI runs_ok_map advances_map) (auto simp: later_def stage_def OUTCOMES_def fail_row_def dest: outcome_cases)

lemma abandon_advances: "runs_ok t \<Longrightarrow> runs_ok (abandon_update now t) \<and> advances t (abandon_update now t)"
  unfolding abandon_update_def
  by (intro conjI runs_ok_map advances_map)
    (auto simp: later_def stage_def OUTCOMES_def fail_row_def pending_since_def dest: outcome_cases)

lemma complete_fields_outcome: "complete_fields body = Inr (outcome, rest) \<Longrightarrow> outcome \<in> set TERMINAL"
  by (auto simp: complete_fields_def Let_def split: prod.splits sum.splits if_splits)

lemma post_run_start_table:
  "snd (post_run_start agent i now saw t) = t \<or>
   (\<exists>row. agent_visible_run agent i saw = Inr row \<and> snd (post_run_start agent i now saw t) = claim_update now (rn_id row) t)"
  by (auto simp: post_run_start_def path_segment_def Let_def split: sum.splits option.splits if_splits)

lemma post_run_complete_table:
  "snd (post_run_complete fl incidents agent i body now saw t) = t \<or>
   (\<exists>row c. agent_visible_run agent i saw = Inr row \<and> co_outcome c \<in> set TERMINAL \<and>
      snd (post_run_complete fl incidents agent i body now saw t) = complete_update c now (rn_id row) t)"
proof -
  show ?thesis
    unfolding post_run_complete_def Let_def
    by (auto simp: path_segment_def dest: complete_fields_outcome split: sum.splits option.splits if_splits prod.splits)
      (metis complete_fields_outcome completion.select_convs(1))+
qed

lemma reap_table:
  "snd (snd (reap_stranded_runs now saw t)) =
     (let ids = map rn_id (filter (stranded now) saw)
      in abandon_update now (if ids = [] then t else reap_update now ids t))"
  by (simp add: reap_stranded_runs_def Let_def)

text \<open>
  What happens to the table, one request at a time. Every request may have read the table at
  any earlier moment: the state keeps every table there has been.
\<close>

datatype run_label = Queued string | Claim string bool | Report string | Reap

inductive run_step :: "runs list \<times> runs \<Rightarrow> run_label \<Rightarrow> runs list \<times> runs \<Rightarrow> bool" where
  queue: "rn_id r \<notin> rn_id ` set t \<Longrightarrow> rn_outcome r = ''pending'' \<Longrightarrow> run_step (h, t) (Queued (rn_id r)) (t # h, t @ [r])"
| start: "saw \<in> set (t # h) \<Longrightarrow> post_run_start agent i now saw t = (Inr (row, won), t') \<Longrightarrow>
    run_step (h, t) (Claim (rn_id row) won) (t # h, t')"
| complete: "saw \<in> set (t # h) \<Longrightarrow> post_run_complete fl incidents agent i body now saw t = (Inr row, t') \<Longrightarrow>
    run_step (h, t) (Report (rn_id row)) (t # h, t')"
| reap: "saw \<in> set (t # h) \<Longrightarrow> reap_stranded_runs now saw t = (sm, wake, t') \<Longrightarrow> run_step (h, t) Reap (t # h, t')"

inductive_cases run_stepE: "run_step s l s'"

inductive run_trace :: "runs list \<times> runs \<Rightarrow> run_label list \<Rightarrow> runs list \<times> runs \<Rightarrow> bool" where
  none: "run_trace s [] s"
| more: "run_trace s ls s' \<Longrightarrow> run_step s' l s'' \<Longrightarrow> run_trace s (ls @ [l]) s''"

lemma run_step_advances:
  assumes "run_step (h, t) l (h', t')" "runs_ok t"
  shows "runs_ok t' \<and> advances t t' \<and> h' = t # h"
  using assms(1)
proof (cases rule: run_step.cases)
  case (queue r)
  then show ?thesis using assms(2) by (auto simp: runs_ok_def OUTCOMES_def advances_snoc)
next
  case (start saw agent i now row won)
  then show ?thesis
    using post_run_start_table [of agent i now saw t] claim_advances [OF assms(2)] assms(2) by auto
next
  case (complete saw fl incidents agent i body now row)
  then show ?thesis
    using post_run_complete_table [of fl incidents agent i body now saw t] complete_advances [OF assms(2)] assms(2) by auto
next
  case (reap saw now sm wake)
  define ids where "ids = map rn_id (filter (stranded now) saw)"
  define t1 where "t1 = (if ids = [] then t else reap_update now ids t)"
  have 1: "runs_ok t1 \<and> advances t t1" using reap_advances [OF assms(2)] assms(2) by (simp add: t1_def)
  have "t' = abandon_update now t1"
    using reap reap_table [of now saw t] by (simp add: ids_def t1_def)
  then show ?thesis using 1 abandon_advances [of t1 now] advances_trans [of t t1 t'] reap by blast
qed

lemma find_run_Some: "find_run t i = Some r \<Longrightarrow> r \<in> set t \<and> rn_id r = i"
  by (auto simp: find_run_def find_Some_iff)

lemma claim_won:
  assumes "post_run_start agent i now saw t = (Inr (row, True), t')"
  shows "(\<exists>r \<in> set t. rn_id r = rn_id row \<and> rn_outcome r = ''pending'') \<and>
    (\<exists>r \<in> set t'. rn_id r = rn_id row \<and> rn_outcome r = ''running'')"
proof -
  obtain run_id where p: "path_segment i = Inr run_id"
    using assms by (auto simp: post_run_start_def split: sum.splits)
  then obtain seen where v: "agent_visible_run agent run_id saw = Inr seen"
    using assms by (auto simp: post_run_start_def split: sum.splits)
  have c: "claim_count (rn_id seen) t = 1" and t': "t' = claim_update now (rn_id seen) t"
    and f: "find_run t' (rn_id seen) = Some row"
    using assms p v by (auto simp: post_run_start_def Let_def split: option.splits if_splits)
  have "rn_id row = rn_id seen" using find_run_Some [OF f] by simp
  moreover obtain (found) r where r: "r \<in> set t" "rn_id r = rn_id seen" "rn_outcome r = ''pending''"
  proof -
    have "filter (\<lambda>r. rn_id r = rn_id seen \<and> rn_outcome r = ''pending'') t \<noteq> []"
      using c by (auto simp: claim_count_def)
    then show thesis using found by (auto simp: filter_empty_conv)
  qed
  moreover have "r\<lparr>rn_outcome := ''running'', rn_started_at := Some now, rn_updated_at := now\<rparr> \<in> set t'"
    using r by (force simp: t' claim_update_def)
  ultimately show ?thesis by (intro conjI bexI) simp_all
qed

lemma advances_row: "advances t t' \<Longrightarrow> r \<in> set t \<Longrightarrow> \<exists>r' \<in> set t'. later r r'"
  using advances_nth by (metis in_set_conv_nth)

lemma run_trace_invariant:
  assumes "run_trace s ls s'" "s = ([], [])"
  shows "runs_ok (snd s') \<and> (\<forall>old \<in> set (fst s'). advances old (snd s')) \<and>
    (\<forall>i. length (filter ((=) (Claim i True)) ls) \<le> 1) \<and>
    (\<forall>i. Claim i True \<in> set ls \<longrightarrow> (\<exists>r \<in> set (snd s'). rn_id r = i \<and> 0 < stage (rn_outcome r)))"
  using assms
proof (induction rule: run_trace.induct)
  case (none s)
  then show ?case by (simp add: runs_ok_def)
next
  case (more s ls s' l s'')
  obtain h t where s': "s' = (h, t)" by (cases s')
  obtain h' t' where s'': "s'' = (h', t')" by (cases s'')
  have IH: "runs_ok t" "\<forall>old \<in> set h. advances old t" "\<And>i. length (filter ((=) (Claim i True)) ls) \<le> 1"
    "\<And>i. Claim i True \<in> set ls \<Longrightarrow> \<exists>r \<in> set t. rn_id r = i \<and> 0 < stage (rn_outcome r)"
    using more s' by auto
  have st: "run_step (h, t) l (h', t')" using more s' s'' by simp
  have adv: "runs_ok t'" "advances t t'" "h' = t # h" using run_step_advances [OF st IH(1)] by auto
  have hist: "\<forall>old \<in> set h'. advances old t'" using adv IH(2) advances_trans by auto
  have won: "(\<exists>r \<in> set t. rn_id r = i \<and> rn_outcome r = ''pending'') \<and>
      (\<exists>r \<in> set t'. rn_id r = i \<and> rn_outcome r = ''running'')" if "l = Claim i True" for i
    using st that by (cases rule: run_step.cases) (auto dest: claim_won)
  have once: "\<not> (l = Claim i True \<and> Claim i True \<in> set ls)" for i
  proof
    assume a: "l = Claim i True \<and> Claim i True \<in> set ls"
    obtain r where r: "r \<in> set t" "rn_id r = i" "rn_outcome r = ''pending''" using won a by blast
    obtain q where q: "q \<in> set t" "rn_id q = i" "0 < stage (rn_outcome q)" using IH(4) a by blast
    have "q = r" using r q IH(1) by (auto simp: runs_ok_def distinct_map inj_on_def)
    then show False using r q by (simp add: stage_def)
  qed
  have ran: "\<exists>r \<in> set t'. rn_id r = i \<and> 0 < stage (rn_outcome r)" if "Claim i True \<in> set (ls @ [l])" for i
  proof (cases "l = Claim i True")
    case True
    then show ?thesis using won by (fastforce simp: stage_def)
  next
    case False
    then obtain q where "q \<in> set t" "rn_id q = i" "0 < stage (rn_outcome q)" using IH(4) [of i] \<open>Claim i True \<in> set (ls @ [l])\<close> by auto
    then show ?thesis using advances_row [OF adv(2)] by (fastforce simp: later_def)
  qed
  have "length (filter ((=) (Claim i True)) (ls @ [l])) \<le> 1" for i
    using IH(3) [of i] once [of i] by (auto simp: filter_empty_conv)
  then show ?case using s'' adv(1) hist ran by simp
qed


lemma visible_org:
  assumes "agent_visible_run agent i saw = Inr row" "ap_scoped agent" "ap_org agent = Some org"
  shows "row \<in> set saw \<and> rn_org row = org"
  using assms by (auto simp: agent_visible_run_def split: option.splits if_splits dest: find_run_Some)

lemma foreign_rows_kept:
  assumes ok: "runs_ok t" and adv: "advances saw t" and row: "row \<in> set saw" "rn_org row = org"
    and r: "r \<in> set t" "rn_org r \<noteq> org"
  shows "r \<in> set (claim_update now (rn_id row) t)" "r \<in> set (complete_update c now (rn_id row) t)"
proof -
  obtain r' where r': "r' \<in> set t" "later row r'" using advances_row [OF adv row(1)] by blast
  have "rn_id r \<noteq> rn_id row"
  proof
    assume "rn_id r = rn_id row"
    then have "r = r'" using r(1) r' ok by (auto simp: runs_ok_def distinct_map inj_on_def later_def)
    then show False using r' row(2) r(2) by (simp add: later_def)
  qed
  then show "r \<in> set (claim_update now (rn_id row) t)" "r \<in> set (complete_update c now (rn_id row) t)"
    using r(1) by (force simp: claim_update_def complete_update_def)+
qed

lemma reap_clears:
  assumes "q \<in> set (snd (snd (reap_stranded_runs now t t)))"
  shows "\<not> stranded now q \<and> \<not> pending_since (now - 60 * minutes_us ABANDONED_PENDING_HOURS) q"
proof -
  define ids where "ids = map rn_id (filter (stranded now) t)"
  define t1 where "t1 = (if ids = [] then t else reap_update now ids t)"
  have 1: "\<not> stranded now r" if "r \<in> set t1" for r
  proof (cases "ids = []")
    case True
    then have "\<forall>r \<in> set t. \<not> stranded now r" by (auto simp: ids_def filter_empty_conv)
    then show ?thesis using that True by (simp add: t1_def)
  next
    case False
    then show ?thesis
      using that by (auto simp: t1_def reap_update_def fail_row_def ids_def stranded_def split: if_splits)
  qed
  have "q \<in> set (abandon_update now t1)"
    using assms unfolding reap_table Let_def ids_def t1_def .
  then show ?thesis
    using 1 by (auto simp: abandon_update_def fail_row_def stranded_def pending_since_def split: if_splits)
qed

text \<open>
  C6. The life of a run, whatever the requests and however they overlap: each request acts on
  what it read from the table at any earlier moment. Run ids stay unique and outcomes valid;
  a run never loses its organisation, trigger or camera and never moves back (waiting,
  running, failed, reported); a reported outcome is final, and the only way out of a failure
  is up, to a report; and a run is claimed at most once, so two overlapping drains never both
  work on it. The reaper leaves nothing behind: after a pass that overlaps no other request no
  run has been running for more than twenty minutes or waiting for more than six hours.
\<close>

theorem run_lifecycle:
  assumes "run_trace ([], []) ls (h, t)"
  shows "runs_ok t \<and> (\<forall>old \<in> set h. \<forall>r \<in> set old. \<exists>r' \<in> set t. later r r') \<and>
    (\<forall>i. length (filter ((=) (Claim i True)) ls) \<le> 1) \<and>
    (\<forall>q \<in> set (snd (snd (reap_stranded_runs now t t))).
       \<not> stranded now q \<and> \<not> pending_since (now - 60 * minutes_us ABANDONED_PENDING_HOURS) q)"
proof -
  note inv = run_trace_invariant [OF assms refl]
  then have "\<forall>old \<in> set h. advances old t" by simp
  then have "\<forall>old \<in> set h. \<forall>r \<in> set old. \<exists>r' \<in> set t. later r r'" using advances_row by blast
  then show ?thesis using inv reap_clears by simp
qed

definition sample_run :: "string \<Rightarrow> string \<Rightarrow> run_row" where
  "sample_run i org =
     \<lparr>rn_id = i, rn_org = org, rn_triggered_at = Some 0, rn_trigger_type = ''motion'', rn_camera = None,
      rn_tool_call_count = 0, rn_outcome = ''pending'', rn_severity = None, rn_incident = None,
      rn_started_at = None, rn_completed_at = None, rn_manual_prompt = None, rn_summary = None,
      rn_tool_trace = None, rn_updated_at = 0\<rparr>"

text \<open>Two claims of one run that both read it waiting: the first wins, the second is told it did not.\<close>

lemma sample_trace:
  defines "r \<equiv> sample_run ''a'' ''o''" and "any_agent \<equiv> \<lparr>ap_org = None, ap_scoped = False\<rparr>"
  defines "t2 \<equiv> claim_update 5 ''a'' [r]"
  shows "run_trace ([], []) ([] @ [Queued ''a''] @ [Claim ''a'' True] @ [Claim ''a'' False]) ([t2, [r], []], t2)"
proof -
  have "run_step ([], []) (Queued (rn_id r)) ([[]], [] @ [r])"
    by (rule run_step.queue) (simp_all add: r_def sample_run_def)
  then have s1: "run_step ([], []) (Queued ''a'') ([[]], [r])" by (simp add: r_def sample_run_def)
  define r' where "r' = r\<lparr>rn_outcome := ''running'', rn_started_at := Some 5, rn_updated_at := 5\<rparr>"
  have t2: "t2 = [r']" by (simp add: t2_def claim_update_def r_def sample_run_def r'_def)
  have "post_run_start any_agent ''a'' 5 [r] [r] = (Inr (r', True), t2)"
    by (simp add: post_run_start_def path_segment_def agent_visible_run_def find_run_def claim_count_def t2_def
        claim_update_def r_def r'_def sample_run_def any_agent_def)
  then have "run_step ([[]], [r]) (Claim (rn_id r') True) ([r] # [[]], t2)"
    by (intro run_step.start) auto
  then have s2: "run_step ([[]], [r]) (Claim ''a'' True) ([[r], []], t2)" by (simp add: r'_def r_def sample_run_def)
  have "post_run_start any_agent ''a'' 6 [r] t2 = (Inr (r', False), t2)"
    by (simp add: post_run_start_def path_segment_def agent_visible_run_def find_run_def claim_count_def t2
        claim_update_def r_def r'_def sample_run_def any_agent_def)
  then have "run_step ([[r], []], t2) (Claim (rn_id r') False) (t2 # [[r], []], t2)"
    by (intro run_step.start) auto
  then have s3: "run_step ([[r], []], t2) (Claim ''a'' False) ([t2, [r], []], t2)" by (simp add: r'_def r_def sample_run_def)
  have "run_trace ([], []) [] ([], [])" by (rule run_trace.none)
  from run_trace.more [OF run_trace.more [OF run_trace.more [OF this s1] s2] s3] show ?thesis by simp
qed

theorem run_lifecycle_witness:
  "runs_ok (claim_update 5 ''a'' [sample_run ''a'' ''o''])"
  using run_lifecycle [OF sample_trace] by simp

text \<open>
  C20. Tenants: whatever an agent with an organisation's key requests, and whatever it read, a
  claim or a completion leaves every run of every other organisation as it was, it is never
  shown such a run, and the queue it is handed has only its own.
\<close>

theorem scoped_agent_confined:
  assumes "run_trace ([], []) ls (h, t)" "saw \<in> set (t # h)"
    and "agent = \<lparr>ap_org = Some org, ap_scoped = True\<rparr>" "r \<in> set t" "rn_org r \<noteq> org"
  shows "r \<in> set (snd (post_run_start agent i now saw t)) \<and>
    r \<in> set (snd (post_run_complete fl incidents agent i body now saw t)) \<and>
    r \<notin> set (pending_rows agent limit t) \<and>
    (\<forall>row. agent_visible_run agent (rn_id r) saw \<noteq> Inr row)"
proof -
  note inv = run_trace_invariant [OF assms(1) refl]
  then have ok: "runs_ok t" and adv: "advances saw t" using assms(2) by auto
  have vis: "row \<in> set saw \<and> rn_org row = org" if "agent_visible_run agent j saw = Inr row" for j row
    using visible_org [OF that] assms(3) by simp
  have "r \<in> set (snd (post_run_start agent i now saw t))"
    using post_run_start_table [of agent i now saw t] assms(4) vis foreign_rows_kept(1) [OF ok adv _ _ assms(4,5)] by auto
  moreover have "r \<in> set (snd (post_run_complete fl incidents agent i body now saw t))"
    using post_run_complete_table [of fl incidents agent i body now saw t] assms(4) vis
      foreign_rows_kept(2) [OF ok adv _ _ assms(4,5)] by auto
  moreover have "r \<notin> set (pending_rows agent limit t)"
    using assms(3,5) by (auto simp: pending_rows_def dest: in_set_takeD)
  moreover have "agent_visible_run agent (rn_id r) saw \<noteq> Inr row" for row
  proof
    assume v: "agent_visible_run agent (rn_id r) saw = Inr row"
    then have "rn_id row = rn_id r" by (auto simp: agent_visible_run_def split: option.splits if_splits dest: find_run_Some)
    moreover obtain r' where "r' \<in> set t" "later row r'" using advances_row [OF adv] vis [OF v] by blast
    ultimately have "r' = r" "rn_org r' = org"
      using assms(4) ok vis [OF v] by (auto simp: runs_ok_def distinct_map inj_on_def later_def)
    then show False using assms(5) by simp
  qed
  ultimately show ?thesis by blast
qed

theorem scoped_agent_confined_witness:
  "\<forall>row. agent_visible_run \<lparr>ap_org = Some ''p'', ap_scoped = True\<rparr> ''a'' [sample_run ''a'' ''o''] \<noteq> Inr row"
proof -
  define t where "t = claim_update 5 ''a'' [sample_run ''a'' ''o'']"
  have m: "[sample_run ''a'' ''o''] \<in> set (t # [t, [sample_run ''a'' ''o''], []])" by simp
  obtain r where r: "t = [r]" "rn_id r = ''a''" "rn_org r = ''o''"
    by (auto simp: t_def claim_update_def sample_run_def)
  have "r \<in> set t" "rn_org r \<noteq> ''p''" using r by simp_all
  from scoped_agent_confined [OF sample_trace [folded t_def] m refl this] r show ?thesis by simp
qed

end
