(* ===== verification/Sentinel_Config.thy ===== *)
theory Sentinel_Config
  imports Sentinel_Runs License
begin

text \<open>
  \<^verbatim>\<open>backend-rs/src/api/sentinel_config.rs\<close>: the per-organisation configuration of the agent, the
  two gates of access to it, and the operator's "Run now". The table \<open>sentinel_config\<close> is an
  association list by organisation, which its unique index allows. A request asks for the plan,
  the licence and the clock more than once; each asking is a \<open>reading\<close> of its own. \<open>from_str\<close>
  and \<open>fl\<close> are \<open>serde_json\<close>'s parser and its text of a double, \<open>month_start\<close> is \<open>start_of_month\<close>
  at a given clock: the calendar is \<open>chrono\<close>'s. A database error ends a request with the opaque
  500 of \<open>internal\<close> before anything of it is written, and is not written out.
\<close>

section \<open>Plans\<close>

definition cap_for_plan :: "string \<Rightarrow> int" where
  "cap_for_plan plan =
     (if plan = ''pro'' then 100 else if plan = ''pro_plus'' \<or> plan = ''self_host'' then 500 else 0)"

definition plan_has_sentinel :: "string \<Rightarrow> bool" where
  "plan_has_sentinel plan \<longleftrightarrow> plan \<in> set [''pro'', ''pro_plus'', ''self_host'']"

definition VALID_SCHEDULE_MODES :: "string list" where
  "VALID_SCHEDULE_MODES = [''always'', ''scheduled'', ''off'']"

definition VALID_DAY_KEYS :: "string list" where
  "VALID_DAY_KEYS = [''mon'', ''tue'', ''wed'', ''thu'', ''fri'', ''sat'', ''sun'']"

definition DEFAULT_DAYS :: "string list" where
  "DEFAULT_DAYS = [''mon'', ''tue'', ''wed'', ''thu'', ''fri'', ''sat'', ''sun'']"

section \<open>The configuration row\<close>

record config_row =
  cf_enabled :: bool
  cf_motion_enabled :: bool
  cf_incident_opened_enabled :: bool
  cf_motion_cooldown_min :: int
  cf_schedule_mode :: string
  cf_schedule_start :: string
  cf_schedule_end :: string
  cf_active_days :: "string option"
  cf_camera_scope :: "string option"
  cf_created_at :: "int option"
  cf_updated_at :: "int option"

type_synonym configs = "(string \<times> config_row) list"

definition strings_json :: "string list \<Rightarrow> json" where
  "strings_json ss = Array (map String ss)"

definition active_days :: "(string \<Rightarrow> json option) \<Rightarrow> (rat \<Rightarrow> string) \<Rightarrow> config_row \<Rightarrow> json" where
  "active_days from_str fl cfg =
     (case cf_active_days cfg of
        None \<Rightarrow> strings_json DEFAULT_DAYS
      | Some raw \<Rightarrow>
          if raw = [] then strings_json DEFAULT_DAYS
          else case from_str raw of
              Some (Array items) \<Rightarrow> strings_json (map (str_value fl) items)
            | _ \<Rightarrow> strings_json DEFAULT_DAYS)"

definition truthy_members :: "(string \<times> json) list \<Rightarrow> json" where
  "truthy_members m = Object (map (\<lambda>(k, v). (k, Bool (json_truthy v))) m)"

definition camera_scope :: "(string \<Rightarrow> json option) \<Rightarrow> config_row \<Rightarrow> json" where
  "camera_scope from_str cfg =
     (case cf_camera_scope cfg of
        None \<Rightarrow> Object []
      | Some raw \<Rightarrow>
          if raw = [] then Object []
          else case from_str raw of Some (Object m) \<Rightarrow> truthy_members m | _ \<Rightarrow> Object [])"

definition config_json ::
  "(int \<Rightarrow> string) \<Rightarrow> (string \<Rightarrow> json option) \<Rightarrow> (rat \<Rightarrow> string) \<Rightarrow> config_row \<Rightarrow> json" where
  "config_json iso_fmt from_str fl cfg =
     Object
       [(''enabled'', Bool (cf_enabled cfg)), (''motion_enabled'', Bool (cf_motion_enabled cfg)),
        (''incident_opened_enabled'', Bool (cf_incident_opened_enabled cfg)),
        (''motion_cooldown_min'', IntNum (cf_motion_cooldown_min cfg)),
        (''schedule_mode'', String (cf_schedule_mode cfg)), (''schedule_start'', String (cf_schedule_start cfg)),
        (''schedule_end'', String (cf_schedule_end cfg)), (''active_days'', active_days from_str fl cfg),
        (''camera_scope'', camera_scope from_str cfg), (''created_at'', opt_time iso_fmt (cf_created_at cfg)),
        (''updated_at'', opt_time iso_fmt (cf_updated_at cfg))]"

definition default_config :: "int \<Rightarrow> config_row" where
  "default_config now =
     \<lparr>cf_enabled = False, cf_motion_enabled = True, cf_incident_opened_enabled = True,
      cf_motion_cooldown_min = 5, cf_schedule_mode = ''always'', cf_schedule_start = ''22:00'',
      cf_schedule_end = ''06:00'', cf_active_days = None, cf_camera_scope = None,
      cf_created_at = Some now, cf_updated_at = Some now\<rparr>"

definition fetch_config :: "configs \<Rightarrow> string \<Rightarrow> config_row option" where
  "fetch_config cs org = map_of cs org"

text \<open>
  Get or create: the table is read as it was \<open>saw\<close>, and the insert meets the table as it is,
  where the unique index refuses a second row; the row answered is the one there then.
\<close>

definition ensure_config_row :: "int \<Rightarrow> string \<Rightarrow> configs \<Rightarrow> configs \<Rightarrow> config_row \<times> configs" where
  "ensure_config_row now org saw cs =
     (case fetch_config saw org of
        Some row \<Rightarrow> (row, cs)
      | None \<Rightarrow>
          (case fetch_config cs org of
             Some row \<Rightarrow> (row, cs)
           | None \<Rightarrow> (default_config now, cs @ [(org, default_config now)])))"

section \<open>Access\<close>

text \<open>
  What one asking for the plan, the licence settings and the clock found: \<open>rd_plan\<close> is what
  \<open>effective_plan_for_caps\<close> answers, \<open>rd_db\<close> the settings of the local organisation.
\<close>

record reading =
  rd_plan :: string
  rd_db :: db_get
  rd_now :: int

record sentinel_app =
  sa_rfc3339 :: "string \<Rightarrow> int option"
  sa_naive :: "string \<Rightarrow> int option"
  sa_license :: license_ctx
  sa_dispatch_enabled :: bool
  sa_global_monthly_run_cap :: int

definition blocked :: "sentinel_app \<Rightarrow> reading \<Rightarrow> bool" where
  "blocked app rd = sentinel_blocked_by_license (sa_rfc3339 app) (sa_naive app) (sa_license app) (rd_db rd) (rd_now rd) (rd_plan rd)"

definition plan_required :: json where
  "plan_required = Object [(''error'', String ''plan_required''), (''plan'', String ''pro'')]"

definition license_required :: json where
  "license_required = Object [(''error'', String ''license_required'')]"

definition resolve_sentinel_access :: "sentinel_app \<Rightarrow> reading \<Rightarrow> bool \<times> json" where
  "resolve_sentinel_access app rd =
     (if \<not> plan_has_sentinel (rd_plan rd) then (False, plan_required)
      else if blocked app rd then (False, license_required)
      else (True, Object []))"

definition get_config ::
  "(int \<Rightarrow> string) \<Rightarrow> (string \<Rightarrow> json option) \<Rightarrow> (rat \<Rightarrow> string) \<Rightarrow> sentinel_app \<Rightarrow> string \<Rightarrow> reading \<Rightarrow> reading \<Rightarrow>
   int \<Rightarrow> configs \<Rightarrow> configs \<Rightarrow> json \<times> configs" where
  "get_config iso_fmt from_str fl app org rd1 rd2 now saw cs =
     (let (cfg, cs') = ensure_config_row now org saw cs;
          plan = rd_plan rd1;
          (has_access, denial) = resolve_sentinel_access app rd2
      in (Object
            [(''config'', config_json iso_fmt from_str fl cfg), (''plan_gated'', Bool (\<not> has_access)),
             (''plan_gated_reason'',
                if has_access then Null else (case json_get ''error'' denial of Some e \<Rightarrow> e | None \<Rightarrow> Null)),
             (''plan_required'', String ''pro''), (''plan_current'', String (get_plan_display_name plan)),
             (''monthly_cap'', IntNum (if has_access then cap_for_plan plan else 0))], cs'))"

section \<open>Times of day\<close>

text \<open>\<open>int()\<close>: whitespace and the separators U+001C to U+001F trimmed, a sign, decimal digits.\<close>

definition python_space :: "string list" where
  "python_space = whitespace @ [[CHR 0x1C], [CHR 0x1D], [CHR 0x1E], [CHR 0x1F]]"

definition trim_python :: "string \<Rightarrow> string" where
  "trim_python s = rev (trim_with (map rev python_space) (rev (trim_with python_space s)))"

definition python_int :: "string \<Rightarrow> int option" where
  "python_int s =
     (let t = trim_python s;
          (neg, digits) =
            (case strip_prefix ''-'' t of
               Some rest \<Rightarrow> (True, rest)
             | None \<Rightarrow> (False, case strip_prefix ''+'' t of Some rest \<Rightarrow> rest | None \<Rightarrow> t))
      in if digits = [] \<or> \<not> list_all is_ascii_digit digits then None
         else if int (digits_value digits) \<le> i64_max
         then Some (if neg then - int (digits_value digits) else int (digits_value digits))
         else None)"

definition hhmm_error :: "string \<Rightarrow> string \<Rightarrow> api_error" where
  "hhmm_error field why = bad_request (String (field @ why))"

definition validate_hhmm :: "string \<Rightarrow> string \<Rightarrow> api_error + unit" where
  "validate_hhmm value field =
     (let cs = chars value
      in if length cs \<noteq> 5 \<or> cs ! 2 \<noteq> 0x3A then Inl (hhmm_error field '' must be HH:MM'')
         else
           (case (python_int (encode_utf8 (take 2 cs)), python_int (encode_utf8 (drop 3 cs))) of
              (Some h, Some m) \<Rightarrow>
                if \<not> (0 \<le> h \<and> h \<le> 23) \<or> \<not> (0 \<le> m \<and> m \<le> 59) then Inl (hhmm_error field '' out of range'')
                else Inr ()
            | _ \<Rightarrow> Inl (hhmm_error field '' must be HH:MM'')))"

section \<open>Changing the configuration\<close>

record config_patch =
  pa_enabled :: "bool option"
  pa_motion :: "bool option"
  pa_incident :: "bool option"
  pa_cooldown :: "int option"
  pa_mode :: "string option"
  pa_start :: "string option"
  pa_end :: "string option"
  pa_days :: "string list option"
  pa_scope :: "(string \<times> json) list option"

definition patch_fields :: "json \<Rightarrow> api_error + config_patch" where
  "patch_fields body =
     (let (enabled, e1) = optional_bool body ''enabled'' be_new;
          (motion, e2) = optional_bool body ''motion_enabled'' e1;
          (incident, e3) = optional_bool body ''incident_opened_enabled'' e2;
          (cooldown, e4) = optional_int_in_range body ''motion_cooldown_min'' 1 60 e3;
          (mode, e5) = optional_string body ''schedule_mode'' usize_max e4;
          (start, e6) = optional_string body ''schedule_start'' usize_max e5;
          (end', e7) = optional_string body ''schedule_end'' usize_max e6;
          (ds, e8) = optional_list_of_strings body ''active_days'' e7;
          (scope, e9) = optional_object body ''camera_scope'' e8
      in case be_finish e9 of
           Inl e \<Rightarrow> Inl e
         | Inr _ \<Rightarrow>
             Inr \<lparr>pa_enabled = enabled, pa_motion = motion, pa_incident = incident, pa_cooldown = cooldown,
                  pa_mode = mode, pa_start = start, pa_end = end', pa_days = ds, pa_scope = scope\<rparr>)"

text \<open>The refusals of the handler itself, in the order it meets them.\<close>

definition check_times :: "config_patch \<Rightarrow> api_error + unit" where
  "check_times p =
     (let check_end = (case pa_end p of Some v \<Rightarrow> validate_hhmm v ''schedule_end'' | None \<Rightarrow> Inr ())
      in case pa_start p of
           None \<Rightarrow> check_end
         | Some v \<Rightarrow> (case validate_hhmm v ''schedule_start'' of Inl e \<Rightarrow> Inl e | Inr _ \<Rightarrow> check_end))"

definition check_patch :: "config_patch \<Rightarrow> api_error + unit" where
  "check_patch p =
     (case pa_mode p of
        Some v \<Rightarrow>
          if v \<notin> set VALID_SCHEDULE_MODES
          then Inl (bad_request (String (''invalid schedule_mode: '' @ repr_str v)))
          else check_times p
      | None \<Rightarrow> check_times p)"

definition change :: "string \<Rightarrow> ('a \<Rightarrow> string) \<Rightarrow> 'a option \<Rightarrow> string list" where
  "change field text_of v = (case v of Some x \<Rightarrow> [field @ ''='' @ text_of x] | None \<Rightarrow> [])"

definition patch_changes :: "(rat \<Rightarrow> string) \<Rightarrow> config_patch \<Rightarrow> string list" where
  "patch_changes fl p =
     change ''enabled'' (\<lambda>b. str_value fl (Bool b)) (pa_enabled p) @
     change ''motion_enabled'' (\<lambda>b. str_value fl (Bool b)) (pa_motion p) @
     change ''incident_opened_enabled'' (\<lambda>b. str_value fl (Bool b)) (pa_incident p) @
     change ''motion_cooldown_min'' show_int (pa_cooldown p) @
     change ''schedule_mode'' (\<lambda>s. s) (pa_mode p) @
     change ''schedule_start'' (\<lambda>s. s) (pa_start p) @
     change ''schedule_end'' (\<lambda>s. s) (pa_end p) @
     change ''active_days'' (\<lambda>ds. str_value fl (strings_json ds)) (pa_days p) @
     change ''camera_scope'' (\<lambda>m. str_value fl (Object m)) (pa_scope p)"

text \<open>The \<open>UPDATE\<close>: an absent field binds null and keeps what is there.\<close>

definition patch_row :: "(rat \<Rightarrow> string) \<Rightarrow> config_patch \<Rightarrow> int \<Rightarrow> config_row \<Rightarrow> config_row" where
  "patch_row fl p now r =
     \<lparr>cf_enabled = (case pa_enabled p of Some v \<Rightarrow> v | None \<Rightarrow> cf_enabled r),
      cf_motion_enabled = (case pa_motion p of Some v \<Rightarrow> v | None \<Rightarrow> cf_motion_enabled r),
      cf_incident_opened_enabled = (case pa_incident p of Some v \<Rightarrow> v | None \<Rightarrow> cf_incident_opened_enabled r),
      cf_motion_cooldown_min = (case pa_cooldown p of Some v \<Rightarrow> v | None \<Rightarrow> cf_motion_cooldown_min r),
      cf_schedule_mode = (case pa_mode p of Some v \<Rightarrow> v | None \<Rightarrow> cf_schedule_mode r),
      cf_schedule_start = (case pa_start p of Some v \<Rightarrow> v | None \<Rightarrow> cf_schedule_start r),
      cf_schedule_end = (case pa_end p of Some v \<Rightarrow> v | None \<Rightarrow> cf_schedule_end r),
      cf_active_days =
        coalesce (map_option (\<lambda>ds. python_json_value fl (strings_json (filter (\<lambda>d. d \<in> set VALID_DAY_KEYS) ds))) (pa_days p))
          (cf_active_days r),
      cf_camera_scope = coalesce (map_option (\<lambda>m. python_json_value fl (truthy_members m)) (pa_scope p)) (cf_camera_scope r),
      cf_created_at = cf_created_at r, cf_updated_at = Some now\<rparr>"

definition python_or :: "string \<Rightarrow> string \<Rightarrow> string" where
  "python_or a b = (if a = [] then b else a)"

definition payment_required :: "json \<Rightarrow> api_error" where
  "payment_required = api_error_new 402"

text \<open>
  The answer, the configurations and the audit trail. \<open>write\<close> is \<open>write_audit\<close> for this caller:
  the event, the text of the details, and the trail.
\<close>

definition patch_config ::
  "(int \<Rightarrow> string) \<Rightarrow> (string \<Rightarrow> json option) \<Rightarrow> (rat \<Rightarrow> string) \<Rightarrow> sentinel_app \<Rightarrow> string \<Rightarrow> audit_actor \<Rightarrow>
   (string \<Rightarrow> string \<Rightarrow> string \<Rightarrow> string option \<Rightarrow> audit_row list \<Rightarrow> audit_row list) \<Rightarrow>
   json \<Rightarrow> reading \<Rightarrow> int \<Rightarrow> configs \<Rightarrow> configs \<times> audit_row list \<Rightarrow>
   (api_error + json) \<times> configs \<times> audit_row list" where
  "patch_config iso_fmt from_str fl app org user write body rd now saw = (\<lambda>(cs, trail).
     case patch_fields body of
       Inl e \<Rightarrow> (Inl e, cs, trail)
     | Inr p \<Rightarrow>
         (let (has_access, denial) = resolve_sentinel_access app rd
          in if \<not> has_access then (Inl (payment_required denial), cs, trail)
             else
               (let cs1 = snd (ensure_config_row now org saw cs)
                in case check_patch p of
                     Inl e \<Rightarrow> (Inl e, cs1, trail)
                   | Inr _ \<Rightarrow>
                       (let changes = patch_changes fl p;
                            cs2 = (if changes = [] then cs1
                                   else map (\<lambda>(o', r). (o', if o' = org then patch_row fl p now r else r)) cs1);
                            trail2 = (if changes = [] then trail
                                      else write ''sentinel_config_updated'' (actor_user_id user)
                                        (python_or (actor_email user) (actor_username user))
                                        (Some (python_json fl [(''changes'', strings_json changes)])) trail);
                            (cfg, cs3) = ensure_config_row now org cs2 cs2
                        in (Inr (Object [(''config'', config_json iso_fmt from_str fl cfg)]), cs3, trail2)))))"

section \<open>Run now\<close>

definition runs_since :: "string \<Rightarrow> int \<Rightarrow> runs \<Rightarrow> int" where
  "runs_since org since t =
     int (length (filter (\<lambda>r. rn_org r = org \<and> (case rn_triggered_at r of Some s \<Rightarrow> s \<ge> since | None \<Rightarrow> False)) t))"

definition runs_used_this_month :: "(int \<Rightarrow> int) \<Rightarrow> int \<Rightarrow> string \<Rightarrow> runs \<Rightarrow> int" where
  "runs_used_this_month month_start now org t = runs_since org (month_start now) t"

definition global_runs_this_month :: "(int \<Rightarrow> int) \<Rightarrow> int \<Rightarrow> runs \<Rightarrow> int" where
  "global_runs_this_month month_start now t =
     int (length (filter (\<lambda>r. case rn_triggered_at r of Some s \<Rightarrow> s \<ge> month_start now | None \<Rightarrow> False) t))"

definition cap_reached :: "(int \<Rightarrow> int) \<Rightarrow> int \<Rightarrow> string \<Rightarrow> int \<Rightarrow> runs \<Rightarrow> api_error" where
  "cap_reached month_start now org cap t =
     api_error_new 429
       (Object [(''error'', String ''monthly_cap_reached''), (''cap'', IntNum cap),
                (''used'', IntNum (runs_used_this_month month_start now org t))])"

definition pending_run ::
  "string \<Rightarrow> string \<Rightarrow> int \<Rightarrow> string \<Rightarrow> string option \<Rightarrow> string option \<Rightarrow> run_row" where
  "pending_run run_id org triggered_at trigger_type camera prompt =
     \<lparr>rn_id = run_id, rn_org = org, rn_triggered_at = Some triggered_at, rn_trigger_type = trigger_type,
      rn_camera = camera, rn_tool_call_count = 0, rn_outcome = ''pending'', rn_severity = None,
      rn_incident = None, rn_started_at = None, rn_completed_at = None, rn_manual_prompt = prompt,
      rn_summary = Some [], rn_tool_trace = None, rn_updated_at = triggered_at\<rparr>"

text \<open>
  The transaction under the organisation's lock: insert, recount with the own row, roll back
  above the cap. \<open>now\<close> is the clock of the recount.
\<close>

definition insert_capped :: "(int \<Rightarrow> int) \<Rightarrow> int \<Rightarrow> int \<Rightarrow> run_row \<Rightarrow> runs \<Rightarrow> bool \<times> runs" where
  "insert_capped month_start now cap row t =
     (if runs_since (rn_org row) (month_start now) (t @ [row]) > cap then (False, t) else (True, t @ [row]))"

definition dispatch_disabled :: api_error where
  "dispatch_disabled = api_error_new 503 (Object [(''error'', String ''sentinel_dispatch_disabled'')])"

definition sentinel_off :: api_error where
  "sentinel_off =
     api_error_new 409 (Object [(''error'', String ''sentinel_off''),
                                (''message'', String ''Turn Sentinel on before running it.'')])"

definition manual_fields :: "json \<Rightarrow> api_error + string \<times> string option" where
  "manual_fields body =
     (let (prompt, e1) = string_with_default body ''prompt'' 2000 be_new;
          (camera, e2) = optional_string body ''camera_id'' usize_max e1
      in case be_finish e2 of Inl e \<Rightarrow> Inl e | Inr _ \<Rightarrow> Inr (prompt, camera))"

text \<open>The checks before the insert; \<open>seen\<close> is the run table as they read it.\<close>

definition manual_gates ::
  "(int \<Rightarrow> int) \<Rightarrow> sentinel_app \<Rightarrow> string \<Rightarrow> reading \<Rightarrow> int \<Rightarrow> config_row \<Rightarrow> runs \<Rightarrow> api_error + int" where
  "manual_gates month_start app org rd now cfg seen =
     (if \<not> cf_enabled cfg then Inl sentinel_off
      else if \<not> plan_has_sentinel (rd_plan rd) then Inl (payment_required plan_required)
      else if blocked app rd then Inl (payment_required license_required)
      else
        (let cap = cap_for_plan (rd_plan rd)
         in if cap - runs_used_this_month month_start now org seen \<le> 0
            then Inl (cap_reached month_start now org cap seen)
            else Inr cap))"

definition global_gate :: "(int \<Rightarrow> int) \<Rightarrow> sentinel_app \<Rightarrow> int \<Rightarrow> runs \<Rightarrow> bool" where
  "global_gate month_start app now seen \<longleftrightarrow>
     sa_dispatch_enabled app \<and>
     (sa_global_monthly_run_cap app > 0 \<longrightarrow> global_runs_this_month month_start now seen < sa_global_monthly_run_cap app)"

record sentinel_state =
  ss_configs :: configs
  ss_runs :: runs
  ss_trail :: "audit_row list"

definition manual_details :: "(rat \<Rightarrow> string) \<Rightarrow> string \<Rightarrow> string option \<Rightarrow> string \<Rightarrow> string" where
  "manual_details fl run_id camera prompt =
     python_json fl [(''run_id'', String run_id), (''camera_id'', opt_string camera),
                     (''prompt_len'', IntNum (int (length (chars prompt))))]"

text \<open>
  \<open>run_id\<close> is the fresh uuid, \<open>triggered_at\<close> the clock before the transaction and \<open>now\<close> the clock
  of the recount; the counts before it are taken at \<open>checked_at\<close>. The row answered is the one
  inserted, read back at once.
\<close>

definition post_manual_run ::
  "(int \<Rightarrow> int) \<Rightarrow> (rat \<Rightarrow> string) \<Rightarrow> sentinel_app \<Rightarrow> string \<Rightarrow> audit_actor \<Rightarrow>
   (string \<Rightarrow> string \<Rightarrow> string \<Rightarrow> string option \<Rightarrow> audit_row list \<Rightarrow> audit_row list) \<Rightarrow>
   json \<Rightarrow> reading \<Rightarrow> reading \<Rightarrow> string \<Rightarrow> int \<Rightarrow> int \<Rightarrow> int \<Rightarrow> sentinel_state \<Rightarrow> sentinel_state \<Rightarrow>
   (api_error + run_row) \<times> sentinel_state" where
  "post_manual_run month_start fl app org user write body rd1 rd2 run_id checked_at triggered_at now saw s =
     (case manual_fields body of
        Inl e \<Rightarrow> (Inl e, s)
      | Inr (prompt, camera) \<Rightarrow>
          (let (has_access, denial) = resolve_sentinel_access app rd1
           in if \<not> has_access then (Inl (payment_required denial), s)
              else if \<not> global_gate month_start app checked_at (ss_runs saw) then (Inl dispatch_disabled, s)
              else
                (let (cfg, cs) = ensure_config_row checked_at org (ss_configs saw) (ss_configs s);
                     s1 = s\<lparr>ss_configs := cs\<rparr>
                 in case manual_gates month_start app org rd2 checked_at cfg (ss_runs saw) of
                      Inl e \<Rightarrow> (Inl e, s1)
                    | Inr cap \<Rightarrow>
                        (let row = pending_run run_id org triggered_at ''manual'' camera (Some (truncate_chars prompt 2000));
                             (landed, t') = insert_capped month_start now cap row (ss_runs s1)
                         in if \<not> landed then (Inl (cap_reached month_start now org cap (ss_runs s1)), s1)
                            else
                              (Inr row,
                               s1\<lparr>ss_runs := t',
                                  ss_trail := write ''sentinel_manual_run'' (actor_user_id user)
                                    (python_or (actor_email user) (actor_username user))
                                    (Some (manual_details fl run_id camera prompt)) (ss_trail s1)\<rparr>)))))"

section \<open>The wakeup\<close>

definition wakeup_payload :: "int \<Rightarrow> string" where
  "wakeup_payload ts = ''{'' @ [CHR 0x22] @ ''ts'' @ [CHR 0x22] @ '': '' @ show_int ts @ ''}''"

definition wakeup_signature :: "(bytes \<Rightarrow> bytes) \<Rightarrow> string \<Rightarrow> string \<Rightarrow> string" where
  "wakeup_signature sha body secret = ''sha256='' @ hex (hmac_sha256 sha (to_bytes secret) (to_bytes body))"

text \<open>The request sent, if any: the address, the signature header and the body.\<close>

definition fire_wakeup_webhook ::
  "(bytes \<Rightarrow> bytes) \<Rightarrow> string option \<Rightarrow> string option \<Rightarrow> int \<Rightarrow> (string \<times> string \<times> string) option" where
  "fire_wakeup_webhook sha url secret ts =
     (case (url, secret) of
        (Some u, Some k) \<Rightarrow> (let body = wakeup_payload ts in Some (u, wakeup_signature sha body k, body))
      | _ \<Rightarrow> None)"

end
