(* ===== verification/Sentinel_Dispatch.thy ===== *)
theory Sentinel_Dispatch
  imports Sentinel_Config
begin

text \<open>
  \<^verbatim>\<open>backend-rs/src/sentinel_dispatch.rs\<close>: whether a notification wakes the agent. Every query is
  an argument that is \<open>None\<close> when it fails, since the dispatcher swallows each failure in its own
  way; the zone data is the \<open>jiff\<close> crate's, so the lookup of a zone name (\<open>load\<close>) and the weekday,
  hour and minute of an instant in a zone (\<open>to_zoned\<close>) are arguments. Instants are microseconds
  of a clock that is nowhere near the ends of \<open>chrono\<close>'s calendar, where the cutoff of the
  cooldown would not exist.
\<close>

section \<open>Triggers and refusals\<close>

definition KIND_TO_TRIGGER_FIELD :: "(string \<times> string) list" where
  "KIND_TO_TRIGGER_FIELD =
     [(''motion'', ''motion_enabled''), (''incident_created'', ''incident_opened_enabled'')]"

definition trigger_type_for :: "string \<Rightarrow> string" where
  "trigger_type_for field =
     (if field = ''motion_enabled'' then ''motion''
      else if field = ''incident_opened_enabled'' then ''incident_opened'' else field)"

definition DAY_KEYS :: "string list" where
  "DAY_KEYS = [''mon'', ''tue'', ''wed'', ''thu'', ''fri'', ''sat'', ''sun'']"

datatype refusal =
    SentinelDisabled
  | PlanNotEligible
  | LicenseRequired
  | KindNotATrigger
  | TriggerOff string
  | CameraOutOfScope
  | OutsideScheduleWindow
  | MotionCooldownActive
  | MonthlyCapReached
  | LookupFailed

fun refusal_str :: "refusal \<Rightarrow> string" where
  "refusal_str SentinelDisabled = ''sentinel_disabled''"
| "refusal_str PlanNotEligible = ''plan_not_eligible''"
| "refusal_str LicenseRequired = ''license_required''"
| "refusal_str KindNotATrigger = ''kind_not_a_sentinel_trigger''"
| "refusal_str (TriggerOff field) = ''trigger_'' @ field @ ''_off''"
| "refusal_str CameraOutOfScope = ''camera_out_of_scope''"
| "refusal_str OutsideScheduleWindow = ''outside_schedule_window''"
| "refusal_str MotionCooldownActive = ''motion_cooldown_active''"
| "refusal_str MonthlyCapReached = ''monthly_cap_reached''"
| "refusal_str LookupFailed = ''lookup_failed''"

definition named_camera :: "string option \<Rightarrow> string option" where
  "named_camera c = (case c of Some i \<Rightarrow> if i = [] then None else Some i | None \<Rightarrow> None)"

definition is_camera_in_scope :: "json \<Rightarrow> string option \<Rightarrow> bool" where
  "is_camera_in_scope scope camera =
     (case named_camera camera of
        None \<Rightarrow> True
      | Some i \<Rightarrow> json_get i scope \<noteq> Some (Bool False))"

section \<open>The schedule\<close>

definition clamp :: "int \<Rightarrow> int \<Rightarrow> int \<Rightarrow> int" where
  "clamp lo hi n = max lo (min hi n)"

definition parse_hhmm_to_minutes :: "string \<Rightarrow> int \<Rightarrow> int" where
  "parse_hhmm_to_minutes value dflt =
     (case split_on (CHR '':'') value of
        [] \<Rightarrow> dflt
      | p # rest \<Rightarrow>
          (case python_int p of
             None \<Rightarrow> dflt
           | Some hrs \<Rightarrow>
               (case (case rest of [] \<Rightarrow> Some 0 | raw # _ \<Rightarrow> python_int raw) of
                  None \<Rightarrow> dflt
                | Some mins \<Rightarrow> clamp 0 (24 * 60) (saturate_i64 (saturate_i64 (hrs * 60) + mins)))))"

definition window_contains :: "int \<Rightarrow> int \<Rightarrow> int \<Rightarrow> bool" where
  "window_contains start end' current =
     (if start < end' then start \<le> current \<and> current < end' else current \<ge> start \<or> current < end')"

text \<open>The name of the organisation's zone: a failed read, no row, a null or an empty value are UTC.\<close>

definition zone_name :: "db_get \<Rightarrow> string" where
  "zone_name db =
     (case db ''timezone'' of
        Some (Some (Some v)) \<Rightarrow> if v = [] then ''UTC'' else v
      | _ \<Rightarrow> ''UTC'')"

record 'z zones =
  zn_load :: "string \<Rightarrow> 'z option"
  zn_utc :: 'z
  zn_to_zoned :: "int \<Rightarrow> 'z \<Rightarrow> nat \<times> int \<times> int"

definition schedule_allows_now ::
  "'z zones \<Rightarrow> (string \<Rightarrow> json option) \<Rightarrow> (rat \<Rightarrow> string) \<Rightarrow> db_get \<Rightarrow> config_row \<Rightarrow> int \<Rightarrow> bool" where
  "schedule_allows_now z from_str fl db cfg now =
     (if cf_schedule_mode cfg = ''off'' then False
      else if cf_schedule_mode cfg \<noteq> ''scheduled'' then True
      else
        (let zone = (case zn_load z (zone_name db) of Some zone \<Rightarrow> zone | None \<Rightarrow> zn_utc z);
             (weekday, hour, minute) = zn_to_zoned z now zone;
             today = DAY_KEYS ! weekday;
             listed = (case active_days from_str fl cfg of Array ds \<Rightarrow> String today \<in> set ds | _ \<Rightarrow> False)
         in if \<not> listed then False
            else
              (let start = parse_hhmm_to_minutes (python_or (cf_schedule_start cfg) ''00:00'') 0;
                   end' = parse_hhmm_to_minutes (python_or (cf_schedule_end cfg) ''24:00'') (24 * 60);
                   current = hour * 60 + minute
               in window_contains start end' current)))"

section \<open>The gates\<close>

text \<open>\<open>looked\<close> is the run table the cooldown's query sees.\<close>

definition motion_cooldown_allows ::
  "runs option \<Rightarrow> string \<Rightarrow> config_row \<Rightarrow> string \<Rightarrow> string option \<Rightarrow> int \<Rightarrow> bool" where
  "motion_cooldown_allows looked org cfg kind camera now =
     (if kind \<noteq> ''motion'' then True
      else case named_camera camera of
          None \<Rightarrow> True
        | Some i \<Rightarrow>
            (let cooldown = cf_motion_cooldown_min cfg
             in if cooldown \<le> 0 then True
                else
                  (let cutoff = now - minutes_us cooldown
                   in case looked of
                        None \<Rightarrow> False
                      | Some t \<Rightarrow>
                          find (\<lambda>r. rn_org r = org \<and> rn_camera r = Some i \<and> rn_trigger_type r = ''motion'' \<and>
                            (case rn_triggered_at r of Some s \<Rightarrow> s \<ge> cutoff | None \<Rightarrow> False)) t = None)))"

text \<open>\<open>None\<close> is the failed count.\<close>

definition global_dispatch_allowed :: "(int \<Rightarrow> int) \<Rightarrow> sentinel_app \<Rightarrow> int \<Rightarrow> runs option \<Rightarrow> bool option" where
  "global_dispatch_allowed month_start app now looked =
     (if \<not> sa_dispatch_enabled app then Some False
      else if sa_global_monthly_run_cap app \<le> 0 then Some True
      else map_option (\<lambda>t. global_runs_this_month month_start now t < sa_global_monthly_run_cap app) looked)"

text \<open>What a dispatch reads on its way, beside the organisation's configuration.\<close>

record 'z dispatch_reads =
  dr_zones :: "'z zones"
  dr_from_str :: "string \<Rightarrow> json option"
  dr_fl :: "rat \<Rightarrow> string"
  dr_db :: db_get
  dr_gate :: reading
  dr_now :: int
  dr_cooldown_runs :: "runs option"
  dr_count_runs :: "runs option"

definition trigger_on :: "config_row \<Rightarrow> string \<Rightarrow> bool" where
  "trigger_on cfg field =
     (if field = ''motion_enabled'' then cf_motion_enabled cfg
      else if field = ''incident_opened_enabled'' then cf_incident_opened_enabled cfg else False)"

definition can_dispatch_for_kind ::
  "(int \<Rightarrow> int) \<Rightarrow> sentinel_app \<Rightarrow> 'z dispatch_reads \<Rightarrow> string \<Rightarrow> config_row \<Rightarrow> string \<Rightarrow> string option \<Rightarrow>
   refusal + unit" where
  "can_dispatch_for_kind month_start app d org cfg kind camera =
     (if \<not> cf_enabled cfg then Inl SentinelDisabled
      else if \<not> plan_has_sentinel (rd_plan (dr_gate d)) then Inl PlanNotEligible
      else if blocked app (dr_gate d) then Inl LicenseRequired
      else case map_of KIND_TO_TRIGGER_FIELD kind of
          None \<Rightarrow> Inl KindNotATrigger
        | Some field \<Rightarrow>
            if \<not> trigger_on cfg field then Inl (TriggerOff field)
            else if \<not> is_camera_in_scope (camera_scope (dr_from_str d) cfg) camera then Inl CameraOutOfScope
            else if \<not> schedule_allows_now (dr_zones d) (dr_from_str d) (dr_fl d) (dr_db d) cfg (dr_now d)
            then Inl OutsideScheduleWindow
            else if \<not> motion_cooldown_allows (dr_cooldown_runs d) org cfg kind camera (dr_now d)
            then Inl MotionCooldownActive
            else
              (let cap = cap_for_plan (rd_plan (dr_gate d))
               in case dr_count_runs d of
                    None \<Rightarrow> Inl LookupFailed
                  | Some t \<Rightarrow>
                      if saturate_i64 (cap - runs_used_this_month month_start (dr_now d) org t) \<le> 0
                      then Inl MonthlyCapReached else Inr ()))"

definition is_agent_authored :: "(rat \<Rightarrow> string) \<Rightarrow> string \<Rightarrow> json option \<Rightarrow> bool" where
  "is_agent_authored fl kind meta =
     (if kind \<noteq> ''incident_created'' then False
      else case meta of
          None \<Rightarrow> False
        | Some m \<Rightarrow>
            (let created_by = (case json_get ''created_by'' m of Some v \<Rightarrow> str_value fl v | None \<Rightarrow> [])
             in starts_with ''mcp'' created_by \<or> starts_with ''sentinel'' created_by))"

section \<open>The dispatch\<close>

definition run_cap_lock_key :: "string \<Rightarrow> string" where
  "run_cap_lock_key org = ''sentinel-run-cap:'' @ org"

text \<open>
  The transaction that inserts the run, under the lock of \<open>run_cap_lock_key\<close>; \<open>None\<close> is its failure.
\<close>

definition insert_run ::
  "(int \<Rightarrow> int) \<Rightarrow> bool \<Rightarrow> string \<Rightarrow> string \<Rightarrow> string \<Rightarrow> string option \<Rightarrow> int \<Rightarrow> int \<Rightarrow> int \<Rightarrow> runs \<Rightarrow>
   bool option \<times> runs" where
  "insert_run month_start works run_id org trigger_type camera cap triggered_at now t =
     (if \<not> works then (None, t)
      else
        (let (landed, t') = insert_capped month_start now cap (pending_run run_id org triggered_at trigger_type camera None) t
         in (Some landed, t')))"

text \<open>
  The id of the run queued, if one was (and then the wakeup is fired), and the table. \<open>plan\<close> is
  the plan as asked for the second time, \<open>cs\<close> the configurations, \<open>None\<close> where the read fails.
\<close>

definition maybe_dispatch_for_notification ::
  "(int \<Rightarrow> int) \<Rightarrow> sentinel_app \<Rightarrow> 'z dispatch_reads \<Rightarrow> runs option \<Rightarrow> configs option \<Rightarrow> string \<Rightarrow>
   string \<Rightarrow> string \<Rightarrow> string option \<Rightarrow> json option \<Rightarrow> string \<Rightarrow> bool \<Rightarrow> int \<Rightarrow> int \<Rightarrow> runs \<Rightarrow> string option \<times> runs" where
  "maybe_dispatch_for_notification month_start app d looked cs plan org kind camera meta run_id works triggered_at now t =
     (case global_dispatch_allowed month_start app (dr_now d) looked of
        None \<Rightarrow> (None, t)
      | Some False \<Rightarrow> (None, t)
      | Some True \<Rightarrow>
          if is_agent_authored (dr_fl d) kind meta then (None, t)
          else case cs of
              None \<Rightarrow> (None, t)
            | Some configs \<Rightarrow>
                (case fetch_config configs org of
                   None \<Rightarrow> (None, t)
                 | Some cfg \<Rightarrow>
                     (case can_dispatch_for_kind month_start app d org cfg kind camera of
                        Inl _ \<Rightarrow> (None, t)
                      | Inr _ \<Rightarrow>
                          (let field = (case map_of KIND_TO_TRIGGER_FIELD kind of Some f \<Rightarrow> f | None \<Rightarrow> kind);
                               trigger_type = trigger_type_for field;
                               cap = cap_for_plan plan
                           in case insert_run month_start works run_id org trigger_type camera cap triggered_at now t of
                                (Some True, t') \<Rightarrow> (Some run_id, t')
                              | (_, t') \<Rightarrow> (None, t')))))"

section \<open>The schedule as a clock face\<close>

lemma trim_with_keeps: "c \<in> set s \<Longrightarrow> \<forall>w \<in> set ws. c \<notin> set w \<Longrightarrow> c \<in> set (trim_with ws s)"
proof (induction ws s rule: trim_with.induct)
  case (1 ws s)
  have kept: "c \<in> set r" if "strip_one ws s = Some r" for r
    using 1(2,3) that
    by (induction ws) (auto simp: strip_prefix_Some split: option.splits)
  show ?case
  proof (cases "strip_one ws s")
    case None
    then show ?thesis using 1(2) by (simp add: trim_with_stop)
  next
    case (Some r)
    then show ?thesis using 1(1) [OF Some _ kept [OF Some] 1(3)] kept [OF Some]
      by (subst trim_with.simps) auto
  qed
qed

lemma python_space_no_colon: "\<forall>w \<in> set python_space. CHR '':'' \<notin> set w"
  by (simp add: python_space_def whitespace_def)

lemma trim_python_keeps: "CHR '':'' \<in> set s \<Longrightarrow> CHR '':'' \<in> set (trim_python s)"
  unfolding trim_python_def using python_space_no_colon by (auto intro!: trim_with_keeps)

lemma python_int_no_colon:
  assumes "python_int s = Some n"
  shows "CHR '':'' \<notin> set s"
proof
  assume "CHR '':'' \<in> set s"
  then have "CHR '':'' \<in> set (trim_python s)" by (rule trim_python_keeps)
  moreover have "\<not> is_ascii_digit (CHR '':'')" by (simp add: is_ascii_digit_code)
  ultimately show False
    using assms
    by (auto simp: python_int_def Let_def list_all_iff strip_prefix_Some strip_prefix_None
        split: option.splits if_splits prod.splits)
qed

lemma split_on_none: "c \<notin> set b \<Longrightarrow> split_on c b = [b]"
  by (induction b) auto

lemma split_on_first: "c \<notin> set a \<Longrightarrow> split_on c (a @ c # b) = a # split_on c b"
  by (induction a) auto

lemma python_space_not_plain:
  "w \<in> set python_space \<Longrightarrow> \<exists>c u. w = c # u \<and> \<not> plain_char c \<and> \<not> plain_char (last w)"
proof -
  assume "w \<in> set python_space"
  then consider "w \<in> set whitespace" | "w \<in> set [[CHR 0x1C], [CHR 0x1D], [CHR 0x1E], [CHR 0x1F]]"
    by (auto simp: python_space_def)
  then show ?thesis
  proof cases
    case 1
    then show ?thesis by (rule whitespace_not_plain)
  next
    case 2
    then show ?thesis by (simp add: plain_char_def) (elim disjE; simp)
  qed
qed

lemma trim_python_plain:
  assumes "s \<noteq> []" "\<forall>c \<in> set s. plain_char c"
  shows "trim_python s = s"
proof -
  have "strip_prefix w s = None" "strip_prefix (rev w) (rev s) = None" if ws: "w \<in> set python_space" for w
  proof -
    obtain c u where w: "w = c # u" "\<not> plain_char c" "\<not> plain_char (last w)"
      using python_space_not_plain [OF ws] by blast
    show "strip_prefix w s = None" using w assms by (cases s) (auto simp: strip_prefix_None)
    have "rev w \<noteq> []" "hd (rev w) = last w" "hd (rev s) = last s" using w(1) assms(1) by (simp_all add: hd_rev)
    then show "strip_prefix (rev w) (rev s) = None"
      using assms w(3) by (auto simp: strip_prefix_None)
  qed
  then have "strip_one python_space s = None" "strip_one (map rev python_space) (rev s) = None"
    by (auto intro!: strip_one_None)
  then show ?thesis by (simp add: trim_python_def trim_with_stop)
qed

lemma python_int_digits:
  assumes "s \<noteq> []" "\<forall>c \<in> set s. is_ascii_digit c" "int (digits_value s) \<le> i64_max"
  shows "python_int s = Some (int (digits_value s))"
proof -
  have "\<forall>c \<in> set s. plain_char c" using assms(2) by (auto simp: plain_char_def is_ascii_digit_code)
  then have "trim_python s = s" by (rule trim_python_plain [OF assms(1)])
  moreover have "strip_prefix ''-'' s = None" "strip_prefix ''+'' s = None"
    using assms(1,2) by (cases s; force simp: strip_prefix_None is_ascii_digit_code)+
  ultimately show ?thesis using assms by (simp add: python_int_def list_all_iff)
qed

text \<open>The instant \<open>h:m\<close> a schedule bound names, in minutes since midnight.\<close>

definition names_minute :: "nat list \<Rightarrow> int \<Rightarrow> bool" where
  "names_minute cps n \<longleftrightarrow>
     (\<exists>h m. python_int (encode_utf8 (take 2 cps)) = Some h \<and> python_int (encode_utf8 (drop 3 cps)) = Some m \<and>
        0 \<le> h \<and> h \<le> 23 \<and> 0 \<le> m \<and> m \<le> 59 \<and> n = 60 * h + m)"

lemma colon_code: "char_of (58 :: nat) = CHR '':''"
  by code_simp

lemma validated_parses:
  assumes sc: "\<forall>n \<in> set cps. scalar n" and ok: "validate_hhmm (encode_utf8 cps) field = Inr ()"
  obtains n where "names_minute cps n" "0 \<le> n" "n < 1440" "parse_hhmm_to_minutes (encode_utf8 cps) dflt = n"
    "encode_utf8 cps \<noteq> []"
proof -
  have ch: "chars (encode_utf8 cps) = cps" using sc by (rule chars_encode)
  have len: "length cps = 5" "cps ! 2 = 0x3A"
    using ok by (auto simp: validate_hhmm_def Let_def ch split: if_splits)
  obtain h m where hm: "python_int (encode_utf8 (take 2 cps)) = Some h" "python_int (encode_utf8 (drop 3 cps)) = Some m"
    and b: "0 \<le> h" "h \<le> 23" "0 \<le> m" "m \<le> 59"
    using ok by (auto simp: validate_hhmm_def Let_def ch split: if_splits option.splits)
  have "encode_utf8 cps = encode_utf8 (take 2 cps @ cps ! 2 # drop 3 cps)"
    using id_take_nth_drop [of 2 cps] len(1) by simp
  then have v: "encode_utf8 cps = encode_utf8 (take 2 cps) @ CHR '':'' # encode_utf8 (drop 3 cps)"
    by (simp add: len(2) utf8_ascii colon_code)
  have "split_on (CHR '':'') (encode_utf8 cps) = [encode_utf8 (take 2 cps), encode_utf8 (drop 3 cps)]"
    unfolding v using python_int_no_colon [OF hm(1)] python_int_no_colon [OF hm(2)]
    by (simp add: split_on_first split_on_none)
  then have p: "parse_hhmm_to_minutes (encode_utf8 cps) dflt = 60 * h + m"
    using b hm by (simp add: parse_hhmm_to_minutes_def saturate_i64_def clamp_def i64_min_def i64_max_def)
  show thesis
    by (rule that [of "60 * h + m"]) (use b hm p v in \<open>auto simp: names_minute_def\<close>)
qed

text \<open>From \<open>a\<close> clockwise up to \<open>b\<close>, the whole day when they are the same minute.\<close>

definition on_clock :: "int \<Rightarrow> int \<Rightarrow> int \<Rightarrow> bool" where
  "on_clock a b c \<longleftrightarrow> a = b \<or> (c - a) mod 1440 < (b - a) mod 1440"

lemma clock_mod: "- 1440 < (n :: int) \<Longrightarrow> n < 1440 \<Longrightarrow> n mod 1440 = (if n < 0 then n + 1440 else n)"
  using mod_add_self2 [of n 1440] by (auto simp del: mod_add_self2)

lemma window_clock:
  assumes "0 \<le> a" "a < 1440" "0 \<le> b" "b < 1440" "0 \<le> c" "c < 1440"
  shows "window_contains a b c \<longleftrightarrow> on_clock a b c"
  using assms by (auto simp: window_contains_def on_clock_def clock_mod)

lemma check_patch_times:
  assumes "check_patch p = Inr ()"
  shows "\<And>v. pa_start p = Some v \<Longrightarrow> validate_hhmm v ''schedule_start'' = Inr ()"
    "\<And>v. pa_end p = Some v \<Longrightarrow> validate_hhmm v ''schedule_end'' = Inr ()"
    "\<And>v. pa_mode p = Some v \<Longrightarrow> v \<in> set VALID_SCHEDULE_MODES"
  using assms by (auto simp: check_patch_def check_times_def Let_def split: option.splits if_splits sum.splits)

text \<open>
  C35. A schedule the settings page saved means what it says. When a patch with both bounds passes
  the checks, the row it leaves is read back by the dispatcher with the bounds exactly as
  validated, to the minute (no bound falls back to a default or is clamped), and in scheduled
  mode the agent is awake at an instant exactly when the local day is one of the active days and
  the local minute lies on the clock face from the start clockwise to the end: a window that
  wraps past midnight is the night, and equal bounds are the whole day.
\<close>

theorem schedule_window:
  assumes "check_patch p = Inr ()" "pa_start p = Some (encode_utf8 ss)" "pa_end p = Some (encode_utf8 es)"
    and "\<forall>n \<in> set ss \<union> set es. scalar n"
    and "cfg = patch_row fl p written r" "cf_schedule_mode cfg = ''scheduled''"
    and "zone = (case zn_load z (zone_name db) of Some zone \<Rightarrow> zone | None \<Rightarrow> zn_utc z)"
    and "zn_to_zoned z now zone = (weekday, hour, minute)" "0 \<le> hour" "hour < 24" "0 \<le> minute" "minute < 60"
    and "active_days from_str fl cfg = strings_json ds"
  shows "\<exists>a b. names_minute ss a \<and> names_minute es b \<and>
    (schedule_allows_now z from_str fl db cfg now \<longleftrightarrow>
       DAY_KEYS ! weekday \<in> set ds \<and> on_clock a b (60 * hour + minute))"
proof -
  note ok = check_patch_times [OF assms(1)]
  obtain a where a: "names_minute ss a" "0 \<le> a" "a < 1440" "parse_hhmm_to_minutes (encode_utf8 ss) 0 = a" "encode_utf8 ss \<noteq> []"
    using validated_parses [of ss "''schedule_start''" 0] assms(4) ok(1) [OF assms(2)] by auto
  obtain b where b: "names_minute es b" "0 \<le> b" "b < 1440" "parse_hhmm_to_minutes (encode_utf8 es) 1440 = b" "encode_utf8 es \<noteq> []"
    using validated_parses [of es "''schedule_end''" 1440] assms(4) ok(2) [OF assms(3)] by auto
  have row: "cf_schedule_start cfg = encode_utf8 ss" "cf_schedule_end cfg = encode_utf8 es"
    using assms(2,3,5) by (simp_all add: patch_row_def)
  have "schedule_allows_now z from_str fl db cfg now \<longleftrightarrow>
      DAY_KEYS ! weekday \<in> set ds \<and> window_contains a b (hour * 60 + minute)"
    using assms(6-13) a(4,5) b(4,5)
    by (auto simp: schedule_allows_now_def row python_or_def strings_json_def Let_def)
  moreover have "window_contains a b (hour * 60 + minute) \<longleftrightarrow> on_clock a b (60 * hour + minute)"
    using window_clock [of a b "hour * 60 + minute"] a b assms(9-12) by (simp add: mult.commute)
  ultimately show ?thesis using a(1) b(1) by blast
qed


text \<open>Half past ten at night to a quarter past six, at eleven on a Friday night.\<close>

lemma sample_bounds:
  "encode_utf8 [50, 50, 58, 51, 48] = ''22:30''" "encode_utf8 [48, 54, 58, 49, 53] = ''06:15''"
  "validate_hhmm ''22:30'' field = Inr ()" "validate_hhmm ''06:15'' field = Inr ()"
proof -
  show e: "encode_utf8 [50, 50, 58, 51, 48] = ''22:30''" "encode_utf8 [48, 54, 58, 49, 53] = ''06:15''"
    by code_simp+
  have p: "python_int ''22'' = Some 22" "python_int ''30'' = Some 30" "python_int ''06'' = Some 6" "python_int ''15'' = Some 15"
    by (simp_all add: python_int_digits is_ascii_digit_code digits_value.simps digit_value_def i64_max_def)
  have c: "chars ''22:30'' = [50, 50, 58, 51, 48]" "chars ''06:15'' = [48, 54, 58, 49, 53]"
    using chars_encode [of "[50, 50, 58, 51, 48]"] chars_encode [of "[48, 54, 58, 49, 53]"] by (simp_all only: e) (simp_all add: scalar_def)
  have s: "encode_utf8 [50, 50] = ''22''" "encode_utf8 [51, 48] = ''30''" "encode_utf8 [48, 54] = ''06''" "encode_utf8 [49, 53] = ''15''"
    by code_simp+
  show "validate_hhmm ''22:30'' field = Inr ()" "validate_hhmm ''06:15'' field = Inr ()"
    by (simp_all add: validate_hhmm_def c p s del: encode_utf8_Cons)
qed

definition sample_patch :: config_patch where
  "sample_patch =
     \<lparr>pa_enabled = None, pa_motion = None, pa_incident = None, pa_cooldown = None, pa_mode = Some ''scheduled'',
      pa_start = Some ''22:30'', pa_end = Some ''06:15'', pa_days = None, pa_scope = None\<rparr>"

definition sample_zones :: "unit zones" where
  "sample_zones = \<lparr>zn_load = (\<lambda>_. None), zn_utc = (), zn_to_zoned = (\<lambda>_ _. (4, 23, 0))\<rparr>"

theorem schedule_window_witness:
  "\<exists>a b. names_minute [50, 50, 58, 51, 48] a \<and> names_minute [48, 54, 58, 49, 53] b \<and>
    (schedule_allows_now sample_zones (\<lambda>_. None) (\<lambda>_. []) (\<lambda>_. None)
       (patch_row (\<lambda>_. []) sample_patch 1 (default_config 0)) 2 \<longleftrightarrow>
     DAY_KEYS ! 4 \<in> set DEFAULT_DAYS \<and> on_clock a b (60 * 23 + 0))"
  by (rule schedule_window [of sample_patch _ _ _ "\<lambda>_. []" 1 "default_config 0"])
    (simp_all add: sample_patch_def sample_bounds sample_zones_def check_patch_def check_times_def
       VALID_SCHEDULE_MODES_def scalar_def patch_row_def active_days_def default_config_def coalesce_def
       del: encode_utf8_Cons)

section \<open>When a notification queues a run\<close>

text \<open>
  What has to hold for a run to be queued, stated of the settings and the rows and not of the
  order the gates are tried in.
\<close>


definition fleet_open :: "(int \<Rightarrow> int) \<Rightarrow> sentinel_app \<Rightarrow> int \<Rightarrow> runs option \<Rightarrow> bool" where
  "fleet_open month_start app now looked \<longleftrightarrow>
     sa_dispatch_enabled app \<and>
     (sa_global_monthly_run_cap app > 0 \<longrightarrow>
       (\<exists>t. looked = Some t \<and> global_runs_this_month month_start now t < sa_global_monthly_run_cap app))"

definition entitled :: "sentinel_app \<Rightarrow> reading \<Rightarrow> bool" where
  "entitled app rd \<longleftrightarrow> rd_plan rd \<in> {''pro'', ''pro_plus'', ''self_host''} \<and> \<not> blocked app rd"

definition switched_on :: "(string \<Rightarrow> json option) \<Rightarrow> config_row \<Rightarrow> string \<Rightarrow> string option \<Rightarrow> bool" where
  "switched_on from_str cfg kind camera \<longleftrightarrow>
     cf_enabled cfg \<and>
     (kind = ''motion'' \<and> cf_motion_enabled cfg \<or> kind = ''incident_created'' \<and> cf_incident_opened_enabled cfg) \<and>
     (\<forall>i. camera = Some i \<and> i \<noteq> [] \<longrightarrow> json_get i (camera_scope from_str cfg) \<noteq> Some (Bool False))"

definition cooled_down :: "runs option \<Rightarrow> string \<Rightarrow> config_row \<Rightarrow> string \<Rightarrow> string option \<Rightarrow> int \<Rightarrow> bool" where
  "cooled_down looked org cfg kind camera now \<longleftrightarrow>
     (\<forall>i. kind = ''motion'' \<and> camera = Some i \<and> i \<noteq> [] \<and> cf_motion_cooldown_min cfg > 0 \<longrightarrow>
       (\<exists>t. looked = Some t \<and>
         (\<forall>r \<in> set t. rn_org r = org \<and> rn_camera r = Some i \<and> rn_trigger_type r = ''motion'' \<longrightarrow>
           (\<forall>s. rn_triggered_at r = Some s \<longrightarrow> s + minutes_us (cf_motion_cooldown_min cfg) < now))))"

definition human_made :: "(rat \<Rightarrow> string) \<Rightarrow> string \<Rightarrow> json option \<Rightarrow> bool" where
  "human_made fl kind meta \<longleftrightarrow>
     (\<forall>m v. kind = ''incident_created'' \<and> meta = Some m \<and> json_get ''created_by'' m = Some v \<longrightarrow>
       \<not> starts_with ''mcp'' (str_value fl v) \<and> \<not> starts_with ''sentinel'' (str_value fl v))"

lemma fleet_open_iff: "global_dispatch_allowed month_start app now looked = Some True \<longleftrightarrow> fleet_open month_start app now looked"
  by (auto simp: global_dispatch_allowed_def fleet_open_def)

lemma scope_iff:
  "is_camera_in_scope scope camera \<longleftrightarrow> (\<forall>i. camera = Some i \<and> i \<noteq> [] \<longrightarrow> json_get i scope \<noteq> Some (Bool False))"
  by (auto simp: is_camera_in_scope_def named_camera_def split: option.splits if_splits)

lemma cooled_down_iff:
  "motion_cooldown_allows looked org cfg kind camera now \<longleftrightarrow> cooled_down looked org cfg kind camera now"
proof -
  have "(case x of Some s \<Rightarrow> now - m \<le> s | None \<Rightarrow> False) \<longleftrightarrow> \<not> (\<forall>s. x = Some s \<longrightarrow> s + m < now)" for x m
    by (auto split: option.splits)
  then show ?thesis
    unfolding motion_cooldown_allows_def cooled_down_def Let_def
    by (cases camera; cases looked) (auto simp: named_camera_def find_None_iff)
qed

lemma human_made_iff: "\<not> is_agent_authored fl kind meta \<longleftrightarrow> human_made fl kind meta"
  by (auto simp: is_agent_authored_def human_made_def starts_with_def Let_def split: option.splits)

lemma cap_bounds: "0 \<le> cap_for_plan plan \<and> cap_for_plan plan \<le> 500"
  by (simp add: cap_for_plan_def)

lemma saturated_room: "0 \<le> n \<Longrightarrow> saturate_i64 (cap_for_plan plan - n) \<le> 0 \<longleftrightarrow> cap_for_plan plan \<le> n"
  using cap_bounds [of plan] by (auto simp: saturate_i64_def i64_min_def i64_max_def)

lemma gates_iff:
  "can_dispatch_for_kind month_start app d org cfg kind camera = Inr () \<longleftrightarrow>
     entitled app (dr_gate d) \<and> switched_on (dr_from_str d) cfg kind camera \<and>
     schedule_allows_now (dr_zones d) (dr_from_str d) (dr_fl d) (dr_db d) cfg (dr_now d) \<and>
     cooled_down (dr_cooldown_runs d) org cfg kind camera (dr_now d) \<and>
     (\<exists>t. dr_count_runs d = Some t \<and>
        runs_since org (month_start (dr_now d)) t < cap_for_plan (rd_plan (dr_gate d)))"
proof -
  have n: "0 \<le> runs_since org m t" for m t by (simp add: runs_since_def)
  have on: "switched_on (dr_from_str d) cfg kind camera \<longleftrightarrow>
      cf_enabled cfg \<and> (\<exists>field. map_of KIND_TO_TRIGGER_FIELD kind = Some field \<and> trigger_on cfg field) \<and>
      is_camera_in_scope (camera_scope (dr_from_str d) cfg) camera"
    by (auto simp: switched_on_def KIND_TO_TRIGGER_FIELD_def trigger_on_def scope_iff)
  have en: "entitled app (dr_gate d) \<longleftrightarrow> plan_has_sentinel (rd_plan (dr_gate d)) \<and> \<not> blocked app (dr_gate d)"
    by (simp add: entitled_def plan_has_sentinel_def)
  show ?thesis
    unfolding on en can_dispatch_for_kind_def cooled_down_iff runs_used_this_month_def Let_def
    by (cases "map_of KIND_TO_TRIGGER_FIELD kind"; cases "dr_count_runs d") (simp_all add: saturated_room [OF n] not_le)
qed

definition trigger_of :: "string \<Rightarrow> string" where
  "trigger_of kind = (if kind = ''motion'' then ''motion'' else ''incident_opened'')"

lemma dispatch_iff:
  "maybe_dispatch_for_notification month_start app d looked cs plan org kind camera meta run_id works triggered_at now t =
     (if fleet_open month_start app (dr_now d) looked \<and> human_made (dr_fl d) kind meta \<and>
         (\<exists>configs cfg. cs = Some configs \<and> map_of configs org = Some cfg \<and>
            entitled app (dr_gate d) \<and> switched_on (dr_from_str d) cfg kind camera \<and>
            schedule_allows_now (dr_zones d) (dr_from_str d) (dr_fl d) (dr_db d) cfg (dr_now d) \<and>
            cooled_down (dr_cooldown_runs d) org cfg kind camera (dr_now d)) \<and>
         (\<exists>counted. dr_count_runs d = Some counted \<and>
            runs_since org (month_start (dr_now d)) counted < cap_for_plan (rd_plan (dr_gate d))) \<and>
         works \<and>
         runs_since org (month_start now) (t @ [pending_run run_id org triggered_at (trigger_of kind) camera None]) \<le> cap_for_plan plan
      then (Some run_id, t @ [pending_run run_id org triggered_at (trigger_of kind) camera None])
      else (None, t))"
proof -
  have tt: "trigger_type_for (case map_of KIND_TO_TRIGGER_FIELD kind of Some f \<Rightarrow> f | None \<Rightarrow> kind) = trigger_of kind"
    if "switched_on (dr_from_str d) cfg kind camera" for cfg
    using that by (auto simp: switched_on_def KIND_TO_TRIGGER_FIELD_def trigger_type_for_def trigger_of_def)
  have o: "rn_org (pending_run run_id org triggered_at (trigger_of kind) camera None) = org"
    by (simp add: pending_run_def)
  note unfold = maybe_dispatch_for_notification_def [of month_start app d looked cs plan org kind camera meta run_id
      works triggered_at now t]
  show ?thesis
  proof (cases "fleet_open month_start app (dr_now d) looked \<and> human_made (dr_fl d) kind meta")
    case False
    then have "global_dispatch_allowed month_start app (dr_now d) looked \<noteq> Some True \<or> is_agent_authored (dr_fl d) kind meta"
      by (simp add: fleet_open_iff flip: human_made_iff)
    then have "maybe_dispatch_for_notification month_start app d looked cs plan org kind camera meta run_id works triggered_at now t = (None, t)"
      by (auto simp: unfold split: option.splits bool.splits)
    then show ?thesis using False by auto
  next
    case True
    then have open': "global_dispatch_allowed month_start app (dr_now d) looked = Some True" "\<not> is_agent_authored (dr_fl d) kind meta"
      by (simp_all add: fleet_open_iff human_made_iff)
    show ?thesis
    proof (cases "\<exists>configs cfg. cs = Some configs \<and> map_of configs org = Some cfg")
      case False
      then show ?thesis by (auto simp: unfold open' fetch_config_def split: option.splits)
    next
      case True
      then obtain configs cfg where cfg: "cs = Some configs" "map_of configs org = Some cfg" by blast
      show ?thesis
      proof (cases "can_dispatch_for_kind month_start app d org cfg kind camera")
        case (Inl x)
        then have "can_dispatch_for_kind month_start app d org cfg kind camera \<noteq> Inr ()" by simp
        moreover have "maybe_dispatch_for_notification month_start app d looked cs plan org kind camera meta run_id works triggered_at now t = (None, t)"
          unfolding unfold using Inl by (simp add: open' cfg fetch_config_def)
        ultimately show ?thesis using cfg by (auto simp: gates_iff)
      next
        case (Inr u)
        then have g: "can_dispatch_for_kind month_start app d org cfg kind camera = Inr ()" by simp
        note gates = g [unfolded gates_iff]
        then have tr: "trigger_type_for (case map_of KIND_TO_TRIGGER_FIELD kind of Some f \<Rightarrow> f | None \<Rightarrow> kind) = trigger_of kind"
          using tt by blast
        have "maybe_dispatch_for_notification month_start app d looked cs plan org kind camera meta run_id works triggered_at now t =
            (if works \<and> runs_since org (month_start now)
                (t @ [pending_run run_id org triggered_at (trigger_of kind) camera None]) \<le> cap_for_plan plan
             then (Some run_id, t @ [pending_run run_id org triggered_at (trigger_of kind) camera None]) else (None, t))"
          unfolding unfold by (simp add: open' cfg fetch_config_def g tr insert_run_def insert_capped_def o Let_def)
        then show ?thesis using gates True \<open>fleet_open _ _ _ _ \<and> _\<close> cfg by auto
      qed
    qed
  qed
qed

text \<open>
  C15. A notification queues a run exactly when all of this holds, whatever order the gates are
  tried in: the fleet is open; the incident behind it was not filed by an agent (so an agent's
  own incident never wakes it again); the organisation has a configuration, switched on, with
  the trigger of this kind on and the camera not switched off; the plan and the licence entitle
  it; the schedule is open; no motion run of that camera is within the cooldown; the month's
  count is below the cap, before the insert and again under the lock. The run queued is
  waiting, of that trigger and camera; otherwise the table is untouched. A read that fails
  closes its gate.
\<close>

theorem dispatch_gates:
  "maybe_dispatch_for_notification month_start app d looked cs plan org kind camera meta run_id works triggered_at now t =
     (if fleet_open month_start app (dr_now d) looked \<and> human_made (dr_fl d) kind meta \<and>
         (\<exists>configs cfg. cs = Some configs \<and> map_of configs org = Some cfg \<and>
            entitled app (dr_gate d) \<and> switched_on (dr_from_str d) cfg kind camera \<and>
            schedule_allows_now (dr_zones d) (dr_from_str d) (dr_fl d) (dr_db d) cfg (dr_now d) \<and>
            cooled_down (dr_cooldown_runs d) org cfg kind camera (dr_now d)) \<and>
         (\<exists>counted. dr_count_runs d = Some counted \<and>
            runs_since org (month_start (dr_now d)) counted < cap_for_plan (rd_plan (dr_gate d))) \<and>
         works \<and>
         runs_since org (month_start now) (t @ [pending_run run_id org triggered_at (trigger_of kind) camera None]) \<le> cap_for_plan plan
      then (Some run_id, t @ [pending_run run_id org triggered_at (trigger_of kind) camera None])
      else (None, t))"
  by (rule dispatch_iff)

section \<open>The month's cap\<close>

text \<open>
  The whole queue: notifications and "Run now" put runs in, the agent and the reaper move them
  on. \<open>plans org\<close> has the plans the organisation was ever seen on. Of the clock and the
  calendar a step asks that the run's own time and its recount fall in the same month, and of
  the uuid that it is fresh.
\<close>

inductive sentinel_step ::
  "(int \<Rightarrow> int) \<Rightarrow> (string \<Rightarrow> string set) \<Rightarrow> runs list \<times> runs \<Rightarrow> runs list \<times> runs \<Rightarrow> bool"
  for month_start :: "int \<Rightarrow> int" and plans :: "string \<Rightarrow> string set" where
  notified: "maybe_dispatch_for_notification month_start app (d :: unit dispatch_reads) looked cs plan org kind camera meta
      run_id works triggered_at now t = (Some i, t') \<Longrightarrow> run_id \<notin> rn_id ` set t \<Longrightarrow> plan \<in> plans org \<Longrightarrow>
    month_start triggered_at = month_start now \<Longrightarrow> sentinel_step month_start plans (h, t) (t # h, t')"
| manual: "post_manual_run month_start fl app org user write body rd1 rd2 run_id checked_at triggered_at now saw s = (Inr row, s') \<Longrightarrow>
    run_id \<notin> rn_id ` set (ss_runs s) \<Longrightarrow> rd_plan rd2 \<in> plans org \<Longrightarrow>
    month_start triggered_at = month_start now \<Longrightarrow>
    sentinel_step month_start plans (h, ss_runs s) (ss_runs s # h, ss_runs s')"
| moved: "run_step (h, t) l (h', t') \<Longrightarrow> (\<And>i. l \<noteq> Queued i) \<Longrightarrow> sentinel_step month_start plans (h, t) (h', t')"

definition queued_in :: "(int \<Rightarrow> int) \<Rightarrow> string \<Rightarrow> int \<Rightarrow> run_row \<Rightarrow> bool" where
  "queued_in month_start org m r \<longleftrightarrow> rn_org r = org \<and> (case rn_triggered_at r of Some s \<Rightarrow> month_start s = m | None \<Rightarrow> False)"

definition month_count :: "(int \<Rightarrow> int) \<Rightarrow> string \<Rightarrow> int \<Rightarrow> runs \<Rightarrow> int" where
  "month_count month_start org m t = int (length (filter (queued_in month_start org m) t))"

lemma month_count_snoc:
  "month_count month_start org m (t @ [r]) = month_count month_start org m t + (if queued_in month_start org m r then 1 else 0)"
  by (simp add: month_count_def)

text \<open>A month's rows are among those counted from its first instant on.\<close>

lemma month_count_since:
  assumes "\<And>s. month_start s \<le> s"
  shows "month_count month_start org m t \<le> runs_since org m t"
proof -
  let ?Q = "\<lambda>r. rn_org r = org \<and> (case rn_triggered_at r of Some s \<Rightarrow> s \<ge> m | None \<Rightarrow> False)"
  have "?Q r" if "queued_in month_start org m r" for r
    using that assms by (auto simp: queued_in_def split: option.splits)
  then have "filter (queued_in month_start org m) t = filter (queued_in month_start org m) (filter ?Q t)"
    by (simp add: filter_filter cong: filter_cong) (metis (mono_tags, lifting) filter_cong)
  then show ?thesis
    unfolding month_count_def runs_since_def by (simp only: of_nat_le_iff length_filter_le)
qed

text \<open>The one way a row gets in, whoever asks.\<close>

definition admits :: "(int \<Rightarrow> int) \<Rightarrow> (string \<Rightarrow> string set) \<Rightarrow> runs \<Rightarrow> run_row \<Rightarrow> bool" where
  "admits month_start plans t r \<longleftrightarrow>
     (\<exists>triggered_at now plan. rn_triggered_at r = Some triggered_at \<and> month_start triggered_at = month_start now \<and>
        plan \<in> plans (rn_org r) \<and> rn_id r \<notin> rn_id ` set t \<and> rn_outcome r = ''pending'' \<and>
        runs_since (rn_org r) (month_start now) (t @ [r]) \<le> cap_for_plan plan)"

lemma manual_run_table:
  assumes "post_manual_run month_start fl app org user write body rd1 rd2 run_id checked_at triggered_at now saw s = (Inr row, s')"
  obtains camera prompt where "row = pending_run run_id org triggered_at ''manual'' camera prompt" "ss_runs s' = ss_runs s @ [row]"
    "runs_since org (month_start now) (ss_runs s @ [row]) \<le> cap_for_plan (rd_plan rd2)"
proof -
  have "\<exists>camera prompt. row = pending_run run_id org triggered_at ''manual'' camera prompt \<and> ss_runs s' = ss_runs s @ [row] \<and>
    runs_since org (month_start now) (ss_runs s @ [row]) \<le> cap_for_plan (rd_plan rd2)"
    using assms
    by (auto simp: post_manual_run_def manual_gates_def insert_capped_def Let_def pending_run_def
        split: sum.splits prod.splits if_splits)
  then show thesis using that by blast
qed

lemma step_admits:
  assumes "sentinel_step month_start plans (h, t) (h', t')"
  shows "(\<exists>r. admits month_start plans t r \<and> t' = t @ [r] \<and> h' = t # h) \<or>
    (\<exists>l. run_step (h, t) l (h', t') \<and> (\<forall>i. l \<noteq> Queued i))"
  using assms
proof (cases rule: sentinel_step.cases)
  case (notified app d looked cs plan org kind camera meta run_id works triggered_at now i)
  define r where "r = pending_run run_id org triggered_at (trigger_of kind) camera None"
  have "t' = t @ [r]" "runs_since org (month_start now) (t @ [r]) \<le> cap_for_plan plan"
    using notified(2) unfolding dispatch_iff r_def by (auto split: if_splits)
  then have "admits month_start plans t r" "t' = t @ [r]" "h' = t # h"
    using notified by (auto simp: admits_def r_def pending_run_def)
  then show ?thesis by blast
next
  case (manual fl app org user wr body rd1 rd2 run_id checked_at triggered_at now saw s row s')
  from manual_run_table [OF manual(4)] obtain camera prompt
    where r: "row = pending_run run_id org triggered_at ''manual'' camera prompt" "ss_runs s' = ss_runs s @ [row]"
      "runs_since org (month_start now) (ss_runs s @ [row]) \<le> cap_for_plan (rd_plan rd2)" by metis
  then have "admits month_start plans t row" using manual by (auto simp: admits_def pending_run_def)
  then show ?thesis using r manual by blast
qed blast

lemma run_step_length:
  assumes "run_step (h, t) l (h', t')" "\<forall>i. l \<noteq> Queued i"
  shows "length t' = length t"
  using assms(1)
proof (cases rule: run_step.cases)
  case (start saw agent i now row won)
  then show ?thesis using post_run_start_table [of agent i now saw t] by (auto simp: claim_update_def)
next
  case (complete saw fl incidents agent i body now row)
  then show ?thesis using post_run_complete_table [of fl incidents agent i body now saw t] by (auto simp: complete_update_def)
next
  case (reap saw now sm wake)
  then show ?thesis
    using reap_table [of now saw t] by (auto simp: Let_def abandon_update_def reap_update_def)
qed (use assms(2) in blast)

lemma month_count_later:
  "list_all2 later t t' \<Longrightarrow> month_count month_start org m t' = month_count month_start org m t"
  unfolding month_count_def
  by (induction t t' rule: list_all2_induct) (auto simp: queued_in_def later_def)

lemma admits_month:
  assumes ms: "\<And>s. month_start s \<le> s" and ad: "admits month_start plans t r"
    and caps: "\<forall>p \<in> plans org. cap_for_plan p \<le> k" and old: "month_count month_start org m t \<le> k"
  shows "month_count month_start org m (t @ [r]) \<le> k"
proof (cases "queued_in month_start org m r")
  case True
  obtain ta now plan where r: "rn_triggered_at r = Some ta" "month_start ta = month_start now" "plan \<in> plans (rn_org r)"
    "runs_since (rn_org r) (month_start now) (t @ [r]) \<le> cap_for_plan plan"
    using ad by (auto simp: admits_def)
  have "rn_org r = org" "month_start now = m" using True r by (auto simp: queued_in_def)
  then show ?thesis using month_count_since [of month_start org m "t @ [r]", OF ms] r caps by fastforce
next
  case False
  then show ?thesis using old by (simp add: month_count_snoc)
qed

lemma sentinel_invariant:
  assumes ms: "\<And>s. month_start s \<le> s" and caps: "\<forall>p \<in> plans org. cap_for_plan p \<le> k" "0 \<le> k"
    and st: "(sentinel_step month_start plans)\<^sup>*\<^sup>* ([], []) s"
  shows "(\<exists>ls. run_trace ([], []) ls s) \<and> (\<forall>m. month_count month_start org m (snd s) \<le> k)"
  using st
proof (induction rule: rtranclp_induct)
  case base
  show ?case using caps by (auto simp: month_count_def intro: run_trace.none)
next
  case (step s s')
  obtain h t where s: "s = (h, t)" by (cases s)
  obtain h' t' where s': "s' = (h', t')" by (cases s')
  obtain ls where ls: "run_trace ([], []) ls (h, t)" and k: "\<And>m. month_count month_start org m t \<le> k"
    using step.IH s by auto
  from step_admits [OF step.hyps(2) [unfolded s s']] show ?case
  proof (elim disjE exE conjE)
    fix r assume r: "admits month_start plans t r" "t' = t @ [r]" "h' = t # h"
    have "run_step (h, t) (Queued (rn_id r)) (t # h, t @ [r])"
      using r(1) by (intro run_step.queue) (auto simp: admits_def)
    then have "run_trace ([], []) (ls @ [Queued (rn_id r)]) s'" using run_trace.more [OF ls] r s' by simp
    then show ?thesis using admits_month [OF ms r(1) caps(1) k] r(2) s' by auto
  next
    fix l assume l: "run_step (h, t) l (h', t')" "\<forall>i. l \<noteq> Queued i"
    have "runs_ok t" using run_trace_invariant [OF ls refl] by simp
    then have "list_all2 later t t'"
      using run_step_advances [OF l(1)] run_step_length [OF l] by (simp add: advances_def)
    then show ?thesis using month_count_later k run_trace.more [OF ls l(1)] s' by auto
  qed
qed


definition sample_app :: sentinel_app where
  "sample_app =
     \<lparr>sa_rfc3339 = (\<lambda>_. None), sa_naive = (\<lambda>_. None), sa_license = \<lparr>lic_local_auth = False, license_key = None\<rparr>,
      sa_dispatch_enabled = True, sa_global_monthly_run_cap = 0\<rparr>"

definition sample_reads :: "unit dispatch_reads" where
  "sample_reads =
     \<lparr>dr_zones = sample_zones, dr_from_str = (\<lambda>_. None), dr_fl = (\<lambda>_. []), dr_db = (\<lambda>_. None),
      dr_gate = \<lparr>rd_plan = ''pro'', rd_db = (\<lambda>_. None), rd_now = 0\<rparr>, dr_now = 250,
      dr_cooldown_runs = Some [], dr_count_runs = Some []\<rparr>"

definition hundreds :: "int \<Rightarrow> int" where
  "hundreds s = s - s mod 100"

lemma sample_dispatch:
  "maybe_dispatch_for_notification hundreds sample_app sample_reads None
     (Some [(''o'', (default_config 0)\<lparr>cf_enabled := True\<rparr>)]) ''pro'' ''o'' ''motion'' (Some ''cam'') None ''r1'' True 251 252 [] =
   (Some ''r1'', [pending_run ''r1'' ''o'' 251 ''motion'' (Some ''cam'') None])"
  by (simp add: maybe_dispatch_for_notification_def global_dispatch_allowed_def sample_app_def is_agent_authored_def
      fetch_config_def can_dispatch_for_kind_def plan_has_sentinel_def blocked_def sentinel_blocked_by_license_def
      LICENSE_GATED_PLAN_def sample_reads_def KIND_TO_TRIGGER_FIELD_def trigger_on_def default_config_def
      is_camera_in_scope_def named_camera_def camera_scope_def schedule_allows_now_def motion_cooldown_allows_def
      cap_for_plan_def runs_used_this_month_def runs_since_def saturate_i64_def i64_min_def i64_max_def
      trigger_type_for_def insert_run_def insert_capped_def pending_run_def hundreds_def)


text \<open>
  The one gap: the run's time is read before the lock is waited for and the month's start after.
  A run that waits across the end of a month is counted in neither, and the old month ends one
  above its cap.
\<close>

lemma month_boundary_overshoot:
  assumes "cap = int n"
  shows "\<exists>t t'. month_count hundreds ''o'' 0 t = cap \<and>
    insert_run hundreds True ''late'' ''o'' ''motion'' None cap 99 100 t = (Some True, t') \<and>
    month_count hundreds ''o'' 0 t' = cap + 1"
proof -
  let ?r = "pending_run ''a'' ''o'' 50 ''motion'' None None"
  have "month_count hundreds ''o'' 0 (replicate n ?r) = cap"
    by (simp add: month_count_def filter_replicate queued_in_def pending_run_def hundreds_def assms)
  moreover have "insert_run hundreds True ''late'' ''o'' ''motion'' None cap 99 100 (replicate n ?r) =
      (Some True, replicate n ?r @ [pending_run ''late'' ''o'' 99 ''motion'' None None])"
    by (simp add: insert_run_def insert_capped_def runs_since_def filter_replicate pending_run_def hundreds_def assms)
  moreover have "month_count hundreds ''o'' 0 (replicate n ?r @ [pending_run ''late'' ''o'' 99 ''motion'' None None]) = cap + 1"
    by (simp add: month_count_def filter_replicate queued_in_def pending_run_def hundreds_def assms)
  ultimately show ?thesis by blast
qed

end
