(* ===== verification/Mail.thy ===== *)
theory Mail
  imports PyRepr "HOL-Library.Product_Lexorder"
begin

text \<open>
  \<^verbatim>\<open>backend-rs/src/email.rs\<close> and \<^verbatim>\<open>backend-rs/src/email_worker.rs\<close>: the transport and the drain of
  the outbox. The HTTP client is an argument, a function from the request to what came back, and so is
  \<open>serde_json::from_slice\<close>. The table \<open>email_outbox\<close> is the list of its rows; a tick is given
  the statements of it that fail, so that a tick cut short (an error, or the end of the process)
  leaves the tables as they were at that point. The requests that left the process are kept in
  \<open>ml_posted\<close>. The clock is read once for a tick, in microseconds; \<open>mc_lower\<close> is
  \<open>str::to_lowercase\<close> with its Unicode tables.
\<close>

section \<open>The transport\<close>

record mail_config =
  mc_enabled :: bool
  mc_api_key :: string
  mc_from_address :: string
  mc_from_name :: string
  mc_api_url :: string
  mc_sqlite :: bool
  mc_batch :: int
  mc_max_attempts :: int
  mc_lower :: "string \<Rightarrow> string"

definition is_email_configured :: "mail_config \<Rightarrow> bool" where
  "is_email_configured cfg \<longleftrightarrow> mc_api_key cfg \<noteq> [] \<and> mc_from_address cfg \<noteq> []"

record send_result =
  sr_ok :: bool
  sr_skipped :: bool
  sr_message_id :: "string option"
  sr_error :: "string option"

definition send_failed :: "string \<Rightarrow> send_result" where
  "send_failed e = \<lparr>sr_ok = False, sr_skipped = False, sr_message_id = None, sr_error = Some e\<rparr>"

definition resend_error_class :: "int \<Rightarrow> string \<Rightarrow> string" where
  "resend_error_class code t =
     (if code = 400 \<and> t = ''validation_error'' then ''ValidationError''
      else if code = 422 \<and> t \<in> {''missing_required_field'', ''missing_required_fields''} then ''MissingRequiredFieldsError''
      else if code = 422 \<and> t = ''validation_error'' then ''ValidationError''
      else if code = 401 \<and> t = ''missing_api_key'' then ''MissingApiKeyError''
      else if code = 403 \<and> t = ''invalid_api_key'' then ''InvalidApiKeyError''
      else if code = 429 \<and> t \<in> {''rate_limit_exceeded'', ''daily_quota_exceeded'', ''monthly_quota_exceeded''}
      then ''RateLimitError''
      else if code = 500 \<and> t = ''application_error'' then ''ApplicationError''
      else ''ResendError'')"

definition sdk_error :: "int \<Rightarrow> string \<Rightarrow> string \<Rightarrow> string" where
  "sdk_error code t message = resend_error_class code t @ '': '' @ message"

definition split_at_sign :: "string \<Rightarrow> (string \<times> string) option" where
  "split_at_sign s =
     (if CHR ''@'' \<in> set s
      then Some (takeWhile (\<lambda>c. c \<noteq> CHR ''@'') s, tl (dropWhile (\<lambda>c. c \<noteq> CHR ''@'') s)) else None)"

definition redact :: "string \<Rightarrow> string" where
  "redact address =
     (case split_at_sign address of
        None \<Rightarrow> ''***''
      | Some (l, domain) \<Rightarrow>
          (case chars l of [] \<Rightarrow> ''***@'' @ domain | first # _ \<Rightarrow> utf8 first @ ''***@'' @ domain))"

record outgoing_email =
  oe_to :: string
  oe_subject :: string
  oe_text :: string
  oe_html :: string
  oe_kind :: string
  oe_key :: string

record http_request =
  rq_url :: string
  rq_bearer :: string
  rq_idempotency_key :: string
  rq_json :: json

text \<open>A response is its status, its content type and its body.\<close>

datatype http_result = TransportError string | Response int "string option" string

definition trim_end_slashes :: "string \<Rightarrow> string" where
  "trim_end_slashes s = rev (dropWhile (\<lambda>c. c = CHR ''/'') (rev s))"

definition resend_request :: "mail_config \<Rightarrow> outgoing_email \<Rightarrow> http_request" where
  "resend_request cfg m =
     (let from_field =
            (if mc_from_name cfg = [] then mc_from_address cfg
             else mc_from_name cfg @ '' <'' @ mc_from_address cfg @ ''>'')
      in \<lparr>rq_url = trim_end_slashes (mc_api_url cfg) @ ''/emails'',
          rq_bearer = mc_api_key cfg,
          rq_idempotency_key = oe_key m,
          rq_json = Object
            [(''from'', String from_field), (''to'', Array [String (oe_to m)]), (''subject'', String (oe_subject m)),
             (''text'', String (oe_text m)), (''html'', String (oe_html m)),
             (''tags'', Array
               [Object [(''name'', String ''event''), (''value'', String (oe_kind m))],
                Object [(''name'', String ''source''), (''value'', String ''command_center'')]])]\<rparr>)"

definition str_or :: "string \<Rightarrow> json \<Rightarrow> string \<Rightarrow> string" where
  "str_or k j dflt = (case Option.bind (json_get k j) as_str of Some s \<Rightarrow> s | None \<Rightarrow> dflt)"

fun as_i64 :: "json \<Rightarrow> int option" where
  "as_i64 (IntNum n) = (if - (2 ^ 63) \<le> n \<and> n < 2 ^ 63 then Some n else None)"
| "as_i64 _ = None"

definition read_response :: "(string \<Rightarrow> json option) \<Rightarrow> int \<Rightarrow> string option \<Rightarrow> string \<Rightarrow> send_result" where
  "read_response from_slice status ctype body =
     (let content_type = (case ctype of Some t \<Rightarrow> t | None \<Rightarrow> []);
          error_code = (if status \<ge> 400 then status else 500)
      in if \<not> is_substring ''application/json'' content_type then
           send_failed (sdk_error error_code ''application_error'' (''Expected JSON response but got: '' @ content_type))
         else case from_slice body of
             None \<Rightarrow> send_failed (sdk_error error_code ''application_error'' ''Failed to decode JSON response'')
           | Some doc \<Rightarrow>
               (let body_status = Option.bind (json_get ''statusCode'' doc) as_i64;
                    effective = (if status \<ge> 400 then Some status else body_status)
                in case (case effective of Some c \<Rightarrow> if c \<noteq> 200 then Some c else None | None \<Rightarrow> None) of
                     Some code \<Rightarrow>
                       send_failed (sdk_error code (str_or ''name'' doc ''InternalServerError'')
                         (str_or ''message'' doc ''Unknown error''))
                   | None \<Rightarrow>
                       (let message_id =
                              (case Option.bind (json_get ''id'' doc) as_str of
                                 Some i \<Rightarrow> i | None \<Rightarrow> str_or ''message_id'' doc [])
                        in if message_id = [] then send_failed ''resend_no_message_id''
                           else \<lparr>sr_ok = True, sr_skipped = False, sr_message_id = Some message_id, sr_error = None\<rparr>)))"

text \<open>The request posted, if one is, and the result.\<close>

definition send_email ::
  "mail_config \<Rightarrow> (string \<Rightarrow> json option) \<Rightarrow> (http_request \<Rightarrow> http_result) \<Rightarrow> outgoing_email \<Rightarrow>
   http_request option \<times> send_result" where
  "send_email cfg from_slice post m =
     (if \<not> mc_enabled cfg then
        (None, \<lparr>sr_ok = True, sr_skipped = True, sr_message_id = None, sr_error = None\<rparr>)
      else if \<not> is_email_configured cfg then
        (None, send_failed ''resend_unconfigured: RESEND_API_KEY or EMAIL_FROM_ADDRESS missing'')
      else
        (let request = resend_request cfg m
         in (Some request,
             case post request of
               TransportError err \<Rightarrow> send_failed (''ResendError: '' @ err)
             | Response status ctype body \<Rightarrow> read_response from_slice status ctype body)))"

section \<open>The tables\<close>

record outbox_row =
  ob_id :: int
  ob_org :: string
  ob_recipient :: string
  ob_subject :: string
  ob_text :: string
  ob_html :: string
  ob_kind :: string
  ob_notification :: "int option"
  ob_status :: string
  ob_attempts :: int
  ob_error :: "string option"
  ob_message_id :: "string option"
  ob_created_at :: "int option"
  ob_last_attempt_at :: "int option"
  ob_sent_at :: "int option"

record log_row =
  lg_org :: string
  lg_recipient :: string
  lg_kind :: string
  lg_status :: string
  lg_message_id :: "string option"
  lg_error :: "string option"
  lg_timestamp :: int

record suppression_row =
  sp_address :: string
  sp_reason :: string
  sp_source :: string
  sp_created_at :: int

record mail =
  ml_outbox :: "outbox_row list"
  ml_log :: "log_row list"
  ml_suppression :: "suppression_row list"
  ml_posted :: "http_request list"

section \<open>The worker\<close>

definition SENDING_RECLAIM_AGE_SECONDS :: int where "SENDING_RECLAIM_AGE_SECONDS = 60"

record tick_summary =
  ts_sent :: int
  ts_failed :: int
  ts_suppressed :: int
  ts_reclaimed :: int

text \<open>The statements of a tick, by the row they are about.\<close>

datatype statement = ReclaimRows | SelectPending | MarkSending | LookSuppressed int | FinalizeRow int | WriteLog int

record tick_env =
  te_fails :: "statement \<Rightarrow> bool"
  te_now :: int
  te_from_slice :: "string \<Rightarrow> json option"
  te_post :: "int \<Rightarrow> http_request \<Rightarrow> http_result"

definition wedged :: "int \<Rightarrow> outbox_row \<Rightarrow> bool" where
  "wedged cutoff r \<longleftrightarrow>
     ob_status r = ''sending'' \<and> (case ob_last_attempt_at r of Some t \<Rightarrow> t < cutoff | None \<Rightarrow> False)"

definition reclaim :: "int \<Rightarrow> outbox_row list \<Rightarrow> outbox_row list" where
  "reclaim cutoff t = map (\<lambda>r. if wedged cutoff r then r\<lparr>ob_status := ''pending''\<rparr> else r) t"

definition created_key :: "outbox_row \<Rightarrow> bool \<times> int \<times> int" where
  "created_key r = (ob_created_at r = None, case ob_created_at r of Some c \<Rightarrow> c | None \<Rightarrow> 0, ob_id r)"

text \<open>\<open>LIMIT\<close>: SQLite reads a negative one as none, PostgreSQL refuses it.\<close>

definition limit_rows :: "bool \<Rightarrow> int \<Rightarrow> 'a list \<Rightarrow> 'a list option" where
  "limit_rows sqlite n xs = (if 0 \<le> n then Some (take (nat n) xs) else if sqlite then Some xs else None)"

definition pending_batch :: "mail_config \<Rightarrow> outbox_row list \<Rightarrow> outbox_row list option" where
  "pending_batch cfg t =
     limit_rows (mc_sqlite cfg) (mc_batch cfg) (sort_key created_key (filter (\<lambda>r. ob_status r = ''pending'') t))"

definition mark_sending :: "int \<Rightarrow> int list \<Rightarrow> outbox_row list \<Rightarrow> outbox_row list" where
  "mark_sending now ids t =
     map (\<lambda>r. if ob_id r \<in> set ids then r\<lparr>ob_status := ''sending'', ob_last_attempt_at := Some now\<rparr> else r) t"

definition find_suppression :: "string \<Rightarrow> suppression_row list \<Rightarrow> suppression_row option" where
  "find_suppression address t = find (\<lambda>s. sp_address s = address) t"

definition process_row ::
  "mail_config \<Rightarrow> tick_env \<Rightarrow> suppression_row list \<Rightarrow> outbox_row \<Rightarrow>
   http_request option \<times> string \<times> string option \<times> string option" where
  "process_row cfg te supp row =
     (case (if te_fails te (LookSuppressed (ob_id row)) then None
            else find_suppression (mc_lower cfg (ob_recipient row)) supp) of
        Some s \<Rightarrow> (None, ''suppressed'', None, Some (''address_suppressed: reason='' @ sp_reason s))
      | None \<Rightarrow>
          (let (posted, result) = send_email cfg (te_from_slice te) (te_post te (ob_id row))
                 \<lparr>oe_to = ob_recipient row, oe_subject = ob_subject row, oe_text = ob_text row,
                  oe_html = ob_html row, oe_kind = ob_kind row, oe_key = ''outbox-'' @ show_int (ob_id row)\<rparr>
           in if sr_skipped result then (posted, ''sent'', None, None)
              else if sr_ok result then (posted, ''sent'', sr_message_id result, None)
              else (posted, ''failed'', None, sr_error result)))"

definition set_row :: "int \<Rightarrow> (outbox_row \<Rightarrow> outbox_row) \<Rightarrow> outbox_row list \<Rightarrow> outbox_row list" where
  "set_row i f t = map (\<lambda>r. if ob_id r = i then f r else r) t"

text \<open>The state the row ended in, and the table.\<close>

definition finalize_row ::
  "mail_config \<Rightarrow> int \<Rightarrow> outbox_row \<Rightarrow> string \<Rightarrow> string option \<Rightarrow> string option \<Rightarrow> outbox_row list \<Rightarrow>
   string \<times> outbox_row list" where
  "finalize_row cfg now row status message_id err t =
     (let attempts = ob_attempts row + 1
      in if status = ''sent'' then
           (''sent'', set_row (ob_id row) (\<lambda>r. r\<lparr>ob_attempts := attempts, ob_status := ''sent'', ob_sent_at := Some now,
              ob_message_id := message_id, ob_error := None\<rparr>) t)
         else if status = ''suppressed'' then
           (''suppressed'', set_row (ob_id row) (\<lambda>r. r\<lparr>ob_attempts := attempts, ob_status := ''suppressed'', ob_error := err\<rparr>) t)
         else
           (let next = (if attempts \<ge> mc_max_attempts cfg then ''failed'' else ''pending'')
            in (next, set_row (ob_id row) (\<lambda>r. r\<lparr>ob_attempts := attempts, ob_status := next, ob_error := err\<rparr>) t)))"

definition write_log ::
  "bool \<Rightarrow> int \<Rightarrow> outbox_row \<Rightarrow> string \<Rightarrow> string option \<Rightarrow> string option \<Rightarrow> string \<Rightarrow> log_row list \<Rightarrow> log_row list" where
  "write_log fails now row status message_id err terminal t =
     (if status = ''failed'' \<and> terminal = ''pending'' then t
      else if fails then t
      else t @ [\<lparr>lg_org = ob_org row, lg_recipient = ob_recipient row, lg_kind = ob_kind row, lg_status = status,
                 lg_message_id = message_id, lg_error = err, lg_timestamp = now\<rparr>])"

definition count_terminal :: "string \<Rightarrow> tick_summary \<Rightarrow> tick_summary" where
  "count_terminal terminal s =
     (if terminal = ''sent'' then s\<lparr>ts_sent := ts_sent s + 1\<rparr>
      else if terminal = ''failed'' then s\<lparr>ts_failed := ts_failed s + 1\<rparr>
      else if terminal = ''suppressed'' then s\<lparr>ts_suppressed := ts_suppressed s + 1\<rparr>
      else s)"

definition log_posted :: "http_request option \<Rightarrow> mail \<Rightarrow> mail" where
  "log_posted posted m = m\<lparr>ml_posted := ml_posted m @ (case posted of Some q \<Rightarrow> [q] | None \<Rightarrow> [])\<rparr>"

text \<open>The loop over the rows of the batch; \<open>None\<close> where a statement failed.\<close>

fun drain :: "mail_config \<Rightarrow> tick_env \<Rightarrow> outbox_row list \<Rightarrow> tick_summary \<Rightarrow> mail \<Rightarrow> tick_summary option \<times> mail" where
  "drain cfg te [] s m = (Some s, m)"
| "drain cfg te (row # rows) s m =
     (let (posted, status, message_id, err) = process_row cfg te (ml_suppression m) row;
          m = log_posted posted m
      in if te_fails te (FinalizeRow (ob_id row)) then (None, m)
         else
           (let (terminal, t) = finalize_row cfg (te_now te) row status message_id err (ml_outbox m);
                logs = write_log (te_fails te (WriteLog (ob_id row))) (te_now te) row status message_id err terminal (ml_log m)
            in drain cfg te rows (count_terminal terminal s) (m\<lparr>ml_outbox := t, ml_log := logs\<rparr>)))"

definition run_one_tick :: "mail_config \<Rightarrow> tick_env \<Rightarrow> mail \<Rightarrow> tick_summary option \<times> mail" where
  "run_one_tick cfg te m =
     (let cutoff = te_now te - SENDING_RECLAIM_AGE_SECONDS * 1000000
      in if te_fails te ReclaimRows then (None, m)
         else
           (let reclaimed = int (length (filter (wedged cutoff) (ml_outbox m)));
                s = \<lparr>ts_sent = 0, ts_failed = 0, ts_suppressed = 0, ts_reclaimed = reclaimed\<rparr>;
                m = m\<lparr>ml_outbox := reclaim cutoff (ml_outbox m)\<rparr>
            in case (if te_fails te SelectPending then None else pending_batch cfg (ml_outbox m)) of
                 None \<Rightarrow> (None, m)
               | Some pending \<Rightarrow>
                   if pending = [] then (Some s, m)
                   else if te_fails te MarkSending then (None, m)
                   else drain cfg te pending s
                     (m\<lparr>ml_outbox := mark_sending (te_now te) (map ob_id pending) (ml_outbox m)\<rparr>)))"

section \<open>The sign of life\<close>

text \<open>\<open>LAST_TICK_MILLIS\<close>, 0 for never; the clock is in milliseconds since the start of the process.\<close>

definition stamp_tick :: "nat \<Rightarrow> nat" where
  "stamp_tick elapsed = max elapsed 1"

definition seconds_since_last_tick :: "nat \<Rightarrow> nat \<Rightarrow> rat option" where
  "seconds_since_last_tick stamped elapsed =
     (if stamped = 0 then None else Some (of_nat (elapsed - stamped) / 1000))"

section \<open>A tick moves each row on its own\<close>

definition attempt :: "mail_config \<Rightarrow> tick_env \<Rightarrow> suppression_row list \<Rightarrow> outbox_row \<Rightarrow> string" where
  "attempt cfg te supp row = fst (snd (process_row cfg te supp row))"

definition terminal_of :: "mail_config \<Rightarrow> outbox_row \<Rightarrow> string \<Rightarrow> string" where
  "terminal_of cfg row status =
     (if status = ''sent'' \<or> status = ''suppressed'' then status
      else if ob_attempts row + 1 \<ge> mc_max_attempts cfg then ''failed'' else ''pending'')"

definition finish :: "mail_config \<Rightarrow> tick_env \<Rightarrow> suppression_row list \<Rightarrow> outbox_row \<Rightarrow> outbox_row \<Rightarrow> outbox_row" where
  "finish cfg te supp row r =
     (let (_, status, message_id, err) = process_row cfg te supp row
      in if status = ''sent''
         then r\<lparr>ob_attempts := ob_attempts row + 1, ob_status := ''sent'', ob_sent_at := Some (te_now te),
                ob_message_id := message_id, ob_error := None\<rparr>
         else r\<lparr>ob_attempts := ob_attempts row + 1, ob_status := terminal_of cfg row status, ob_error := err\<rparr>)"

definition logged :: "mail_config \<Rightarrow> tick_env \<Rightarrow> suppression_row list \<Rightarrow> outbox_row \<Rightarrow> log_row list" where
  "logged cfg te supp row =
     (let (_, status, message_id, err) = process_row cfg te supp row
      in write_log (te_fails te (WriteLog (ob_id row))) (te_now te) row status message_id err
           (terminal_of cfg row status) [])"

definition requests :: "mail_config \<Rightarrow> tick_env \<Rightarrow> suppression_row list \<Rightarrow> outbox_row \<Rightarrow> http_request list" where
  "requests cfg te supp row = (case fst (process_row cfg te supp row) of Some q \<Rightarrow> [q] | None \<Rightarrow> [])"

definition saved :: "tick_env \<Rightarrow> outbox_row list \<Rightarrow> outbox_row list" where
  "saved te rows = takeWhile (\<lambda>r. \<not> te_fails te (FinalizeRow (ob_id r))) rows"

lemma attempt_cases: "attempt cfg te supp row \<in> {''sent'', ''suppressed'', ''failed''}"
  by (auto simp: attempt_def process_row_def Let_def split: option.splits prod.splits)

lemma finalize_finish:
  assumes "process_row cfg te supp row = (posted, status, message_id, err)"
  shows "finalize_row cfg (te_now te) row status message_id err t =
    (terminal_of cfg row status, set_row (ob_id row) (finish cfg te supp row) t)"
  using assms by (simp add: finalize_row_def finish_def [abs_def] terminal_of_def Let_def)

lemma write_log_append: "write_log f now row status i e z t = t @ write_log f now row status i e z []"
  by (simp add: write_log_def)

lemma drain_step:
  "drain cfg te (row # rows) s m =
     (let m1 = m\<lparr>ml_posted := ml_posted m @ requests cfg te (ml_suppression m) row\<rparr>
      in if te_fails te (FinalizeRow (ob_id row)) then (None, m1)
         else drain cfg te rows (count_terminal (terminal_of cfg row (attempt cfg te (ml_suppression m) row)) s)
           (m1\<lparr>ml_outbox := set_row (ob_id row) (finish cfg te (ml_suppression m) row) (ml_outbox m),
               ml_log := ml_log m @ logged cfg te (ml_suppression m) row\<rparr>))"
proof -
  obtain posted status i e where p: "process_row cfg te (ml_suppression m) row = (posted, status, i, e)"
    by (metis prod_cases4)
  note f = finalize_finish [OF p]
  note w = write_log_append [of "te_fails te (WriteLog (ob_id row))" "te_now te" row status i e
      "terminal_of cfg row status" "ml_log m"]
  show ?thesis
    unfolding drain.simps p Let_def prod.case f attempt_def requests_def logged_def
    by (simp add: p log_posted_def w [symmetric])
qed

declare drain.simps(2) [simp del]

lemma drain_result:
  assumes "drain cfg te rows s m = (res, m')"
  shows "ml_suppression m' = ml_suppression m"
    and "ml_outbox m' =
      fold (\<lambda>x. set_row (ob_id x) (finish cfg te (ml_suppression m) x)) (saved te rows) (ml_outbox m)"
    and "ml_log m' = ml_log m @ concat (map (logged cfg te (ml_suppression m)) (saved te rows))"
    and "ml_posted m' = ml_posted m @
      concat (map (requests cfg te (ml_suppression m)) (take (Suc (length (saved te rows))) rows))"
    and "res = (if saved te rows = rows
      then Some (fold (\<lambda>x. count_terminal (terminal_of cfg x (attempt cfg te (ml_suppression m) x))) rows s) else None)"
  using assms
proof (induction rows arbitrary: s m)
  case Nil
  {
    case 1 then show ?case by simp
  next
    case 2 then show ?case by (simp add: saved_def)
  next
    case 3 then show ?case by (simp add: saved_def)
  next
    case 4 then show ?case by simp
  next
    case 5 then show ?case by (simp add: saved_def)
  }
next
  case (Cons row rows)
  {
    case 1 then show ?case using Cons.IH(1) by (fastforce simp: drain_step Let_def split: if_splits)
  next
    case 2 then show ?case using Cons.IH(2) by (fastforce simp: drain_step Let_def saved_def split: if_splits)
  next
    case 3 then show ?case using Cons.IH(3) by (fastforce simp: drain_step Let_def saved_def split: if_splits)
  next
    case 4 then show ?case using Cons.IH(4) by (fastforce simp: drain_step Let_def saved_def split: if_splits)
  next
    case 5 then show ?case using Cons.IH(5) by (fastforce simp: drain_step Let_def saved_def split: if_splits)
  }
qed

lemma finish_id [simp]: "ob_id (finish cfg te supp x r) = ob_id r"
  by (simp add: finish_def Let_def split: prod.splits)

lemma fold_set_row:
  assumes "distinct (map ob_id xs)" "\<And>x r. ob_id (f x r) = ob_id r"
  shows "fold (\<lambda>x. set_row (ob_id x) (f x)) xs t =
    map (\<lambda>r. case find (\<lambda>x. ob_id x = ob_id r) xs of Some x \<Rightarrow> f x r | None \<Rightarrow> r) t"
  using assms(1)
proof (induction xs arbitrary: t)
  case (Cons x xs)
  have none: "find (\<lambda>y. ob_id y = ob_id x) xs = None" using Cons.prems by (simp add: find_None_iff) (metis image_eqI)
  show ?case
    using Cons none assms(2) by (auto simp: set_row_def)
qed simp

definition reclaimed :: "tick_env \<Rightarrow> outbox_row \<Rightarrow> outbox_row" where
  "reclaimed te r =
     (if \<not> te_fails te ReclaimRows \<and> wedged (te_now te - SENDING_RECLAIM_AGE_SECONDS * 1000000) r
      then r\<lparr>ob_status := ''pending''\<rparr> else r)"

definition marked :: "tick_env \<Rightarrow> outbox_row \<Rightarrow> outbox_row" where
  "marked te r = r\<lparr>ob_status := ''sending'', ob_last_attempt_at := Some (te_now te)\<rparr>"

text \<open>The rows a tick goes through.\<close>

definition chosen :: "mail_config \<Rightarrow> tick_env \<Rightarrow> mail \<Rightarrow> outbox_row list" where
  "chosen cfg te m =
     (if te_fails te ReclaimRows \<or> te_fails te SelectPending \<or> te_fails te MarkSending then []
      else case pending_batch cfg (map (reclaimed te) (ml_outbox m)) of Some bs \<Rightarrow> bs | None \<Rightarrow> [])"

text \<open>What a tick that has chosen the rows \<open>bs\<close> and saved the first of them, \<open>ds\<close>, does to a row.\<close>

definition tick_row ::
  "mail_config \<Rightarrow> tick_env \<Rightarrow> suppression_row list \<Rightarrow> outbox_row list \<Rightarrow> outbox_row list \<Rightarrow> outbox_row \<Rightarrow> outbox_row" where
  "tick_row cfg te supp bs ds r =
     (let r1 = reclaimed te r
      in if r1 \<in> set ds then finish cfg te supp r1 (marked te r1)
         else if r1 \<in> set bs then marked te r1 else r1)"

definition outbox_distinct :: "outbox_row list \<Rightarrow> bool" where
  "outbox_distinct t \<longleftrightarrow> distinct (map ob_id t)"

lemma tick_row_id [simp]: "ob_id (tick_row cfg te supp bs ds r) = ob_id r"
  by (simp add: tick_row_def reclaimed_def marked_def Let_def)

lemma reclaim_map: "\<not> te_fails te ReclaimRows \<Longrightarrow> reclaim (te_now te - SENDING_RECLAIM_AGE_SECONDS * 1000000) t = map (reclaimed te) t"
  by (simp add: reclaim_def reclaimed_def [abs_def])

lemma reclaimed_ids [simp]: "map ob_id (map (reclaimed te) t) = map ob_id t"
  by (simp add: reclaimed_def)

lemma pending_batch_props:
  assumes "pending_batch cfg t = Some bs" "distinct (map ob_id t)"
  shows "set bs \<subseteq> {r \<in> set t. ob_status r = ''pending''}" "distinct (map ob_id bs)"
proof -
  let ?s = "sort_key created_key (filter (\<lambda>r. ob_status r = ''pending'') t)"
  obtain n where bs: "bs = take n ?s"
    using assms(1) by (auto simp: pending_batch_def limit_rows_def split: if_splits intro: take_all [symmetric])
  have "distinct ?s" "inj_on ob_id (set t)" using assms(2) by (simp_all add: distinct_map distinct_filter)
  moreover have sub: "set bs \<subseteq> set ?s" unfolding bs by (rule set_take_subset)
  ultimately show "distinct (map ob_id bs)"
    unfolding distinct_map by (auto simp: bs intro: inj_on_subset)
  show "set bs \<subseteq> {r \<in> set t. ob_status r = ''pending''}" using sub by auto
qed

lemma saved_prefix: "\<exists>zs. rows = saved te rows @ zs"
  by (metis saved_def takeWhile_dropWhile_id)

lemma saved_subset: "set (saved te rows) \<subseteq> set rows"
  using set_takeWhileD by (fastforce simp: saved_def)

lemma find_by_id:
  assumes "distinct (map ob_id t)" "set xs \<subseteq> set t" "r \<in> set t"
  shows "find (\<lambda>x. ob_id x = ob_id r) xs = (if r \<in> set xs then Some r else None)"
proof -
  have same: "x = r" if "x \<in> set xs" "ob_id x = ob_id r" for x
    using assms that by (auto simp: distinct_map inj_on_def)
  show ?thesis
  proof (cases "find (\<lambda>x. ob_id x = ob_id r) xs")
    case None
    then have "r \<notin> set xs" by (auto simp: find_None_iff)
    then show ?thesis using None by simp
  next
    case (Some x)
    then have "x \<in> set xs" "ob_id x = ob_id r" by (auto simp: find_Some_iff)
    then show ?thesis using Some same by auto
  qed
qed

lemma drain_map:
  assumes "distinct (map ob_id t)" "set bs \<subseteq> set t" "distinct (map ob_id bs)"
  shows "fold (\<lambda>x. set_row (ob_id x) (finish cfg te supp x)) (saved te bs) (mark_sending (te_now te) (map ob_id bs) t) =
    map (\<lambda>r. if r \<in> set (saved te bs) then finish cfg te supp r (marked te r)
        else if r \<in> set bs then marked te r else r) t"
proof -
  have d: "distinct (map ob_id (saved te bs))"
    using assms(3) saved_prefix [of bs te] by (metis distinct_append map_append)
  have i: "ob_id r \<in> set (map ob_id bs) \<longleftrightarrow> r \<in> set bs" if "r \<in> set t" for r
    using assms that by (auto simp: distinct_map inj_on_def)
  have f: "find (\<lambda>x. ob_id x = ob_id r) (saved te bs) = (if r \<in> set (saved te bs) then Some r else None)"
    if "r \<in> set t" for r
    using find_by_id [OF assms(1) _ that, of "saved te bs"] saved_subset assms(2) by blast
  show ?thesis
    unfolding fold_set_row [OF d finish_id] mark_sending_def map_map
  proof (rule map_cong [OF refl])
    fix r assume r: "r \<in> set t"
    have "r \<in> set (saved te bs) \<Longrightarrow> r \<in> set bs" using saved_subset by blast
    then show "((\<lambda>r. case find (\<lambda>x. ob_id x = ob_id r) (saved te bs) of None \<Rightarrow> r | Some x \<Rightarrow> finish cfg te supp x r) \<circ>
        (\<lambda>r. if ob_id r \<in> set (map ob_id bs) then r\<lparr>ob_status := ''sending'', ob_last_attempt_at := Some (te_now te)\<rparr>
          else r)) r =
      (if r \<in> set (saved te bs) then finish cfg te supp r (marked te r) else if r \<in> set bs then marked te r else r)"
      using i [OF r] f [OF r] by (simp add: marked_def)
  qed
qed

lemma tick_row_none: "map (tick_row cfg te supp [] []) t = map (reclaimed te) t"
  by (simp add: tick_row_def Let_def)

lemma chosen_props:
  assumes "outbox_distinct (ml_outbox m)"
  shows "set (chosen cfg te m) \<subseteq> {r \<in> reclaimed te ` set (ml_outbox m). ob_status r = ''pending''}"
    and "distinct (map ob_id (chosen cfg te m))"
proof -
  have d: "distinct (map ob_id (map (reclaimed te) (ml_outbox m)))" using assms by (simp add: outbox_distinct_def del: map_map)
  note b = pending_batch_props [OF _ d, of cfg]
  show "set (chosen cfg te m) \<subseteq> {r \<in> reclaimed te ` set (ml_outbox m). ob_status r = ''pending''}"
    using b(1) by (cases "pending_batch cfg (map (reclaimed te) (ml_outbox m))") (auto simp: chosen_def)
  show "distinct (map ob_id (chosen cfg te m))"
    using b(2) by (cases "pending_batch cfg (map (reclaimed te) (ml_outbox m))") (auto simp: chosen_def)
qed

lemma tick_is_map:
  assumes "run_one_tick cfg te m = (res, m')" "outbox_distinct (ml_outbox m)"
  defines "bs \<equiv> chosen cfg te m"
  shows "ml_outbox m' = map (tick_row cfg te (ml_suppression m) bs (saved te bs)) (ml_outbox m)"
    and "ml_suppression m' = ml_suppression m"
    and "ml_log m' = ml_log m @ concat (map (logged cfg te (ml_suppression m)) (saved te bs))"
    and "ml_posted m' = ml_posted m @ concat (map (requests cfg te (ml_suppression m)) (take (Suc (length (saved te bs))) bs))"
    and "res = Some s \<Longrightarrow> saved te bs = bs \<and>
      s = fold (\<lambda>x. count_terminal (terminal_of cfg x (attempt cfg te (ml_suppression m) x))) bs
        \<lparr>ts_sent = 0, ts_failed = 0, ts_suppressed = 0,
         ts_reclaimed = int (length (filter (wedged (te_now te - SENDING_RECLAIM_AGE_SECONDS * 1000000)) (ml_outbox m)))\<rparr>"
proof -
  let ?cut = "te_now te - SENDING_RECLAIM_AGE_SECONDS * 1000000"
  let ?s = "\<lparr>ts_sent = 0, ts_failed = 0, ts_suppressed = 0, ts_reclaimed = int (length (filter (wedged ?cut) (ml_outbox m)))\<rparr>"
  define t where "t = map (reclaimed te) (ml_outbox m)"
  define m1 where "m1 = m\<lparr>ml_outbox := t\<rparr>"
  have d: "distinct (map ob_id t)" using assms(2) by (simp add: outbox_distinct_def t_def del: map_map)
  consider (early) "bs = []" "m' = m1" "\<And>s. res = Some s \<Longrightarrow> s = ?s"
    | (drained) "set bs \<subseteq> set t" "distinct (map ob_id bs)"
        "drain cfg te bs ?s (m\<lparr>ml_outbox := mark_sending (te_now te) (map ob_id bs) t\<rparr>) = (res, m')"
  proof (cases "te_fails te ReclaimRows")
    case True
    then have "m' = m" "res = None" "reclaimed te = (\<lambda>r. r)"
      using assms(1) by (auto simp: run_one_tick_def reclaimed_def)
    then show thesis using early True by (simp add: bs_def chosen_def m1_def t_def)
  next
    case False
    have rc: "reclaim ?cut (ml_outbox m) = t" using reclaim_map [OF False] by (simp add: t_def)
    have run: "run_one_tick cfg te m =
      (case (if te_fails te SelectPending then None else pending_batch cfg t) of
         None \<Rightarrow> (None, m1)
       | Some pending \<Rightarrow>
           if pending = [] then (Some ?s, m1) else if te_fails te MarkSending then (None, m1)
           else drain cfg te pending ?s (m\<lparr>ml_outbox := mark_sending (te_now te) (map ob_id pending) t\<rparr>))"
      unfolding run_one_tick_def Let_def rc using False
      by (cases "pending_batch cfg t") (simp_all add: m1_def)
    show thesis
    proof (cases "te_fails te SelectPending \<or> te_fails te MarkSending \<or> bs = [] \<or> pending_batch cfg t = None")
      case True
      then have "bs = []" "m' = m1" "\<And>s. res = Some s \<Longrightarrow> s = ?s"
        using assms(1) False unfolding run bs_def chosen_def t_def [symmetric]
        by (auto split: if_splits option.splits)
      then show thesis by (rule early)
    next
      case 2: False
      then obtain "pending_batch cfg t = Some bs" "bs \<noteq> []"
        using False by (auto simp: bs_def chosen_def t_def [symmetric] split: option.splits)
      then show thesis
        using drained pending_batch_props [OF _ d] 2 assms(1) unfolding run by auto
    qed
  qed
  note cs = this
  note r = tick_row_none
  show "ml_outbox m' = map (tick_row cfg te (ml_suppression m) bs (saved te bs)) (ml_outbox m)"
    using cs
  proof cases
    case early
    then show ?thesis by (simp add: saved_def r m1_def t_def)
  next
    case drained
    show ?thesis
      using drain_result(2) [OF drained(3)] drain_map [OF d drained(1,2), of cfg te "ml_suppression m"]
      by (simp add: t_def tick_row_def Let_def)
  qed
  show "ml_suppression m' = ml_suppression m"
    using cs
  proof cases
    case drained
    then show ?thesis using drain_result(1) [OF drained(3)] by simp
  qed (simp add: m1_def)
  show "ml_log m' = ml_log m @ concat (map (logged cfg te (ml_suppression m)) (saved te bs))"
    using cs
  proof cases
    case drained
    then show ?thesis using drain_result(3) [OF drained(3)] by simp
  qed (simp add: m1_def saved_def)
  show "ml_posted m' = ml_posted m @ concat (map (requests cfg te (ml_suppression m)) (take (Suc (length (saved te bs))) bs))"
    using cs
  proof cases
    case drained
    then show ?thesis using drain_result(4) [OF drained(3)] by simp
  qed (simp add: m1_def saved_def)
  assume res: "res = Some s"
  show "saved te bs = bs \<and>
      s = fold (\<lambda>x. count_terminal (terminal_of cfg x (attempt cfg te (ml_suppression m) x))) bs ?s"
    using cs
  proof cases
    case early
    then show ?thesis using res by (simp add: saved_def)
  next
    case drained
    show ?thesis using drain_result(5) [OF drained(3)] res by (simp split: if_splits)
  qed
qed

section \<open>The rows stay well formed\<close>

definition settled :: "outbox_row \<Rightarrow> bool" where
  "settled r \<longleftrightarrow> ob_status r \<in> {''sent'', ''failed'', ''suppressed''}"

definition outbox_row_ok :: "mail_config \<Rightarrow> outbox_row \<Rightarrow> bool" where
  "outbox_row_ok cfg r \<longleftrightarrow>
     (settled r \<or> ob_status r = ''pending'' \<or> ob_status r = ''sending'' \<and> ob_last_attempt_at r \<noteq> None) \<and>
     0 \<le> ob_attempts r \<and> ob_attempts r \<le> max 1 (mc_max_attempts cfg) \<and>
     (\<not> settled r \<longrightarrow> ob_attempts r = 0 \<or> ob_attempts r < mc_max_attempts cfg)"

definition outbox_ok :: "mail_config \<Rightarrow> outbox_row list \<Rightarrow> bool" where
  "outbox_ok cfg t \<longleftrightarrow> outbox_distinct t \<and> (\<forall>r \<in> set t. outbox_row_ok cfg r)"

lemma attempt_outcome:
  obtains posted i e where "process_row cfg te supp x = (posted, attempt cfg te supp x, i, e)"
  by (metis attempt_def prod.collapse)

lemma finish_fields [simp]:
  "ob_attempts (finish cfg te supp x r) = ob_attempts x + 1"
  "ob_status (finish cfg te supp x r) = terminal_of cfg x (attempt cfg te supp x)"
  "ob_last_attempt_at (finish cfg te supp x r) = ob_last_attempt_at r"
  "ob_recipient (finish cfg te supp x r) = ob_recipient r"
  by (simp_all add: finish_def attempt_def terminal_of_def Let_def split: prod.splits)

lemma terminal_cases: "terminal_of cfg x (attempt cfg te supp x) \<in> {''sent'', ''suppressed'', ''failed'', ''pending''}"
  by (simp add: terminal_of_def)

lemma terminal_pending:
  "terminal_of cfg x (attempt cfg te supp x) = ''pending'' \<Longrightarrow> ob_attempts x + 1 < mc_max_attempts cfg"
  using attempt_cases [of cfg te supp x] by (auto simp: terminal_of_def split: if_splits)

lemma reclaimed_fields [simp]:
  "ob_attempts (reclaimed te r) = ob_attempts r" "ob_last_attempt_at (reclaimed te r) = ob_last_attempt_at r"
  "ob_id (reclaimed te r) = ob_id r" "ob_recipient (reclaimed te r) = ob_recipient r"
  "settled (reclaimed te r) = settled r"
  by (auto simp: reclaimed_def settled_def wedged_def)

lemma marked_fields [simp]:
  "ob_attempts (marked te r) = ob_attempts r" "ob_last_attempt_at (marked te r) = Some (te_now te)"
  "ob_status (marked te r) = ''sending''" "\<not> settled (marked te r)" "ob_recipient (marked te r) = ob_recipient r"
  by (simp_all add: marked_def settled_def)

lemma reclaimed_ok: "outbox_row_ok cfg r \<Longrightarrow> outbox_row_ok cfg (reclaimed te r)"
  by (auto simp: outbox_row_ok_def reclaimed_def settled_def wedged_def)

lemma finish_ok:
  assumes "outbox_row_ok cfg x" "\<not> settled x"
  shows "outbox_row_ok cfg (finish cfg te supp x (marked te x))"
proof -
  have a: "0 \<le> ob_attempts x" "ob_attempts x = 0 \<or> ob_attempts x < mc_max_attempts cfg"
    using assms by (simp_all add: outbox_row_ok_def)
  have f: "ob_status (finish cfg te supp x (marked te x)) = terminal_of cfg x (attempt cfg te supp x)" by simp
  show ?thesis
    using a terminal_cases [of cfg x te supp] terminal_pending [of cfg x te supp]
    by (auto simp: outbox_row_ok_def settled_def)
qed

lemma tick_row_ok:
  assumes "outbox_row_ok cfg r" "\<forall>x \<in> set bs. ob_status x = ''pending''" "set ds \<subseteq> set bs"
  shows "outbox_row_ok cfg (tick_row cfg te supp bs ds r)"
proof -
  let ?r = "reclaimed te r"
  have ok: "outbox_row_ok cfg ?r" using assms(1) by (rule reclaimed_ok)
  have "outbox_row_ok cfg (marked te ?r)" if "?r \<in> set bs"
    using ok assms(2) that by (auto simp: outbox_row_ok_def settled_def)
  moreover have "outbox_row_ok cfg (finish cfg te supp ?r (marked te ?r))" if "?r \<in> set ds"
    using assms that by (intro finish_ok ok) (auto simp: settled_def)
  ultimately show ?thesis using ok by (simp add: tick_row_def Let_def)
qed

lemma tick_ok:
  assumes "outbox_ok cfg (ml_outbox m)"
  shows "outbox_ok cfg (ml_outbox (snd (run_one_tick cfg te m)))"
proof -
  obtain res m' where run: "run_one_tick cfg te m = (res, m')" by force
  have d: "outbox_distinct (ml_outbox m)" using assms by (simp add: outbox_ok_def)
  have "map ob_id (ml_outbox m') = map ob_id (ml_outbox m)" unfolding tick_is_map(1) [OF run d] by simp
  moreover have "\<forall>r \<in> set (ml_outbox m'). outbox_row_ok cfg r"
    unfolding tick_is_map(1) [OF run d]
    using assms chosen_props(1) [OF d, of cfg te] saved_subset [of te "chosen cfg te m"]
    by (auto simp: outbox_ok_def intro!: tick_row_ok)
  ultimately show ?thesis using d run by (simp add: outbox_ok_def outbox_distinct_def)
qed

lemma tick_row_settled:
  assumes "settled r" "\<forall>x \<in> set bs. ob_status x = ''pending''" "set ds \<subseteq> set bs"
  shows "tick_row cfg te supp bs ds r = r"
proof -
  have "reclaimed te r = r" using assms(1) by (auto simp: reclaimed_def settled_def wedged_def)
  moreover have "r \<notin> set bs" using assms(1,2) by (auto simp: settled_def)
  ultimately show ?thesis using assms(3) by (auto simp: tick_row_def)
qed

lemma tick_keeps_settled:
  assumes "outbox_distinct (ml_outbox m)" "r \<in> set (ml_outbox m)" "settled r"
  shows "r \<in> set (ml_outbox (snd (run_one_tick cfg te m)))"
proof -
  obtain res m' where run: "run_one_tick cfg te m = (res, m')" by force
  have "tick_row cfg te (ml_suppression m) (chosen cfg te m) (saved te (chosen cfg te m)) r = r"
    using assms chosen_props(1) [OF assms(1), of cfg te] saved_subset [of te "chosen cfg te m"]
    by (intro tick_row_settled) auto
  then show ?thesis using assms(2) run tick_is_map(1) [OF run assms(1)] by (metis image_eqI list.set_map snd_conv)
qed

section \<open>The outbox drains\<close>

definition remaining :: "mail_config \<Rightarrow> outbox_row \<Rightarrow> nat" where
  "remaining cfg r = (if settled r then 0 else nat (max 1 (mc_max_attempts cfg - ob_attempts r)))"

definition outstanding :: "mail_config \<Rightarrow> outbox_row list \<Rightarrow> nat" where
  "outstanding cfg t = sum_list (map (remaining cfg) t)"

definition healthy :: "tick_env \<Rightarrow> bool" where
  "healthy te \<longleftrightarrow>
     \<not> te_fails te ReclaimRows \<and> \<not> te_fails te SelectPending \<and> \<not> te_fails te MarkSending \<and>
     (\<forall>i. \<not> te_fails te (FinalizeRow i))"

definition run_ticks :: "mail_config \<Rightarrow> tick_env list \<Rightarrow> mail \<Rightarrow> mail" where
  "run_ticks cfg tes m = fold (\<lambda>te m. snd (run_one_tick cfg te m)) tes m"

definition reclaimable :: "tick_env \<Rightarrow> outbox_row \<Rightarrow> bool" where
  "reclaimable te r \<longleftrightarrow>
     (ob_status r = ''sending'' \<longrightarrow> wedged (te_now te - SENDING_RECLAIM_AGE_SECONDS * 1000000) r)"

lemma healthy_saved: "healthy te \<Longrightarrow> saved te bs = bs"
  by (simp add: healthy_def saved_def)

lemma finish_less:
  "\<not> settled x \<Longrightarrow> remaining cfg (finish cfg te supp x r) < remaining cfg x"
  using terminal_cases [of cfg x te supp] terminal_pending [of cfg x te supp]
  by (auto simp: remaining_def settled_def)

lemma tick_row_remaining:
  assumes "\<forall>x \<in> set bs. ob_status x = ''pending''"
  shows "remaining cfg (tick_row cfg te supp bs bs r) \<le> remaining cfg r"
    and "reclaimed te r \<in> set bs \<Longrightarrow> remaining cfg (tick_row cfg te supp bs bs r) < remaining cfg r"
proof -
  have "remaining cfg (reclaimed te r) = remaining cfg r" by (simp add: remaining_def)
  moreover have "\<not> settled (reclaimed te r)" if "reclaimed te r \<in> set bs" using assms that by (auto simp: settled_def)
  ultimately show "reclaimed te r \<in> set bs \<Longrightarrow> remaining cfg (tick_row cfg te supp bs bs r) < remaining cfg r"
    using finish_less [of "reclaimed te r" cfg te supp] by (auto simp: tick_row_def Let_def)
  then show "remaining cfg (tick_row cfg te supp bs bs r) \<le> remaining cfg r"
    by (cases "reclaimed te r \<in> set bs") (auto simp: tick_row_def remaining_def)
qed

lemma sum_list_less:
  assumes "\<And>x. x \<in> set xs \<Longrightarrow> f x \<le> (g x :: nat)" "y \<in> set xs" "f y < g y"
  shows "sum_list (map f xs) < sum_list (map g xs)"
  using assms
proof (induction xs)
  case (Cons x xs)
  have le: "sum_list (map f xs) \<le> sum_list (map g xs)" using Cons.prems(1) by (intro sum_list_mono) simp
  show ?case
  proof (cases "y = x")
    case True
    then show ?thesis using le Cons.prems(3) by simp
  next
    case False
    then show ?thesis using Cons by (simp add: add_le_less_mono)
  qed
qed simp

lemma tick_progress:
  assumes "outbox_ok cfg (ml_outbox m)" "1 \<le> mc_batch cfg" "healthy te" "\<forall>r \<in> set (ml_outbox m). reclaimable te r"
  defines "m' \<equiv> snd (run_one_tick cfg te m)"
  shows "\<forall>r \<in> set (ml_outbox m'). ob_status r \<noteq> ''sending''"
    and "outstanding cfg (ml_outbox m') < outstanding cfg (ml_outbox m) \<or>
      outstanding cfg (ml_outbox m') = 0"
proof -
  let ?bs = "chosen cfg te m"
  let ?step = "tick_row cfg te (ml_suppression m) ?bs ?bs"
  have d: "outbox_distinct (ml_outbox m)" using assms(1) by (simp add: outbox_ok_def)
  obtain res where run: "run_one_tick cfg te m = (res, m')" by (metis m'_def prod.collapse)
  have t: "ml_outbox m' = map ?step (ml_outbox m)"
    using tick_is_map(1) [OF run d] by (simp add: healthy_saved [OF assms(3)])
  have p: "\<forall>x \<in> set ?bs. ob_status x = ''pending''" using chosen_props(1) [OF d] by auto
  have pend: "ob_status (reclaimed te r) \<noteq> ''sending''" if "r \<in> set (ml_outbox m)" for r
    using assms(3,4) that by (auto simp: reclaimed_def healthy_def reclaimable_def)
  show "\<forall>r \<in> set (ml_outbox m'). ob_status r \<noteq> ''sending''"
  proof
    fix r' assume "r' \<in> set (ml_outbox m')"
    then obtain r where r: "r \<in> set (ml_outbox m)" "r' = ?step r" by (auto simp: t)
    show "ob_status r' \<noteq> ''sending''"
      using pend [OF r(1)] terminal_cases [of cfg "reclaimed te r" te "ml_suppression m"]
      by (auto simp: r(2) tick_row_def Let_def)
  qed
  show "outstanding cfg (ml_outbox m') < outstanding cfg (ml_outbox m) \<or> outstanding cfg (ml_outbox m') = 0"
  proof (cases "\<forall>r \<in> set (ml_outbox m). settled r")
    case True
    then have "remaining cfg (?step r) = 0" if "r \<in> set (ml_outbox m)" for r
      using tick_row_remaining(1) [OF p, of cfg te "ml_suppression m" r] that by (simp add: remaining_def)
    then show ?thesis by (simp add: t outstanding_def)
  next
    case False
    then obtain r where r: "r \<in> set (ml_outbox m)" "\<not> settled r" by blast
    then have "ob_status (reclaimed te r) = ''pending''"
      using assms(1) pend [OF r(1)] reclaimed_ok [of cfg r te]
      by (auto simp: outbox_ok_def outbox_row_ok_def)
    then have "filter (\<lambda>r. ob_status r = ''pending'') (map (reclaimed te) (ml_outbox m)) \<noteq> []"
      using r(1) by (auto simp: filter_empty_conv)
    then have "0 < length (sort_key created_key (filter (\<lambda>r. ob_status r = ''pending'') (map (reclaimed te) (ml_outbox m))))"
      unfolding length_sort length_greater_0_conv .
    moreover define q where "q = sort_key created_key (filter (\<lambda>r. ob_status r = ''pending'') (map (reclaimed te) (ml_outbox m)))"
    ultimately have "q \<noteq> []" unfolding q_def [symmetric] by simp
    moreover have "?bs = take (nat (mc_batch cfg)) q"
      using assms(2,3) by (simp add: chosen_def healthy_def pending_batch_def limit_rows_def q_def)
    ultimately have "?bs \<noteq> []" using assms(2) by simp
    then obtain x where x: "x \<in> set ?bs" by (cases ?bs) auto
    then obtain r0 where r0: "r0 \<in> set (ml_outbox m)" "reclaimed te r0 \<in> set ?bs"
      using chosen_props(1) [OF d, of cfg te] by blast
    have "sum_list (map (\<lambda>r. remaining cfg (?step r)) (ml_outbox m)) < sum_list (map (remaining cfg) (ml_outbox m))"
      by (rule sum_list_less [OF _ r0(1)]) (use tick_row_remaining [OF p] r0(2) in blast)+
    then show ?thesis by (simp add: t outstanding_def comp_def)
  qed
qed

lemma remaining_zero: "remaining cfg r = 0 \<longleftrightarrow> settled r"
  by (simp add: remaining_def)

lemma outstanding_zero: "outstanding cfg t = 0 \<longleftrightarrow> (\<forall>r \<in> set t. settled r)"
  by (simp add: outstanding_def remaining_zero)

lemma run_ticks_Cons [simp]: "run_ticks cfg (te # tes) m = run_ticks cfg tes (snd (run_one_tick cfg te m))"
  and run_ticks_Nil [simp]: "run_ticks cfg [] m = m"
  by (simp_all add: run_ticks_def)

lemma drains:
  assumes "outbox_ok cfg (ml_outbox m)" "1 \<le> mc_batch cfg" "\<forall>te \<in> set tes. healthy te"
    and "\<forall>te \<in> set tes. \<forall>r \<in> set (ml_outbox m). reclaimable te r"
    and "outstanding cfg (ml_outbox m) \<le> length tes"
  shows "\<forall>r \<in> set (ml_outbox (run_ticks cfg tes m)). settled r"
  using assms
proof (induction tes arbitrary: m)
  case Nil
  then show ?case by (simp add: outstanding_zero)
next
  case (Cons te tes)
  let ?m = "snd (run_one_tick cfg te m)"
  have p: "\<forall>r \<in> set (ml_outbox ?m). ob_status r \<noteq> ''sending''"
    "outstanding cfg (ml_outbox ?m) < outstanding cfg (ml_outbox m) \<or> outstanding cfg (ml_outbox ?m) = 0"
    using tick_progress [of cfg m te] Cons.prems by simp_all
  have "\<forall>te \<in> set tes. \<forall>r \<in> set (ml_outbox ?m). reclaimable te r"
    using p(1) by (simp add: reclaimable_def)
  moreover have "outstanding cfg (ml_outbox ?m) \<le> length tes" using p(2) Cons.prems(5) by auto
  ultimately show ?case using Cons.IH [of ?m] Cons.prems tick_ok by simp
qed

section \<open>What a tick counts, logs and posts\<close>

definition with_status :: "string \<Rightarrow> outbox_row list \<Rightarrow> nat" where
  "with_status st t = length (filter (\<lambda>r. ob_status r = st) t)"

definition ending :: "mail_config \<Rightarrow> tick_env \<Rightarrow> suppression_row list \<Rightarrow> outbox_row \<Rightarrow> string" where
  "ending cfg te supp x = terminal_of cfg x (attempt cfg te supp x)"

lemma count_fold:
  "ts_sent (fold (\<lambda>x. count_terminal (f x)) bs s) = ts_sent s + int (length (filter (\<lambda>x. f x = ''sent'') bs))"
  "ts_failed (fold (\<lambda>x. count_terminal (f x)) bs s) = ts_failed s + int (length (filter (\<lambda>x. f x = ''failed'') bs))"
  "ts_suppressed (fold (\<lambda>x. count_terminal (f x)) bs s) =
     ts_suppressed s + int (length (filter (\<lambda>x. f x = ''suppressed'') bs))"
  by (induction bs arbitrary: s) (auto simp: count_terminal_def)

text \<open>A table in which some rows, given once each, leave other states for \<open>st\<close>.\<close>

lemma with_status_map:
  assumes "distinct (map ob_id t)" "distinct bs" "set bs \<subseteq> g ` set t"
    and "\<And>r. ob_id (g r) = ob_id r"
    and "\<And>r. r \<in> set t \<Longrightarrow> g r \<notin> set bs \<Longrightarrow> (ob_status (f r) = st) = (ob_status r = st)"
    and "\<And>r. r \<in> set t \<Longrightarrow> g r \<in> set bs \<Longrightarrow> ob_status r \<noteq> st \<and> (ob_status (f r) = st) = P (g r)"
  shows "with_status st (map f t) = with_status st t + length (filter P bs)"
proof -
  have inj: "inj_on g (set t)"
    using assms(1,4) by (auto simp: distinct_map inj_on_def) metis
  have d: "distinct t" using assms(1) by (simp add: distinct_map)
  let ?A = "{r \<in> set t. ob_status r = st}" and ?B = "{r \<in> set t. ob_status (f r) = st}"
  let ?C = "{r \<in> set t. g r \<in> set bs \<and> P (g r)}"
  have "?B = ?A \<union> ?C" "?A \<inter> ?C = {}" using assms(5,6) by auto
  then have "card ?B = card ?A + card ?C" by (simp add: card_Un_disjoint)
  moreover have "g ` ?C = set (filter P bs)" using assms(3) by auto
  then have "card ?C = length (filter P bs)"
    using inj assms(2) by (metis (no_types, lifting) card_image distinct_card distinct_filter inj_on_subset mem_Collect_eq subsetI)
  moreover have "with_status st t = card ?A" "with_status st (map f t) = card ?B"
    using d by (simp_all add: with_status_def distinct_length_filter filter_map comp_def Int_def conj_commute)
  ultimately show ?thesis by simp
qed

lemma tick_status_count:
  assumes "run_one_tick cfg te m = (Some s, m')" "outbox_distinct (ml_outbox m)"
    and "st \<in> {''sent'', ''failed'', ''suppressed''}"
  shows "with_status st (ml_outbox m') = with_status st (ml_outbox m) +
    length (filter (\<lambda>x. ending cfg te (ml_suppression m) x = st) (chosen cfg te m))"
proof -
  let ?bs = "chosen cfg te m"
  have t: "ml_outbox m' = map (tick_row cfg te (ml_suppression m) ?bs ?bs) (ml_outbox m)"
    using tick_is_map(1) [OF assms(1,2)] tick_is_map(5) [OF assms(1,2)] by simp
  note c = chosen_props [OF assms(2), of cfg te]
  have st: "ob_status r \<noteq> st" if "reclaimed te r \<in> set ?bs" for r
  proof -
    have "\<not> settled (reclaimed te r)" using c(1) that by (auto simp: settled_def)
    then have "\<not> settled r" by simp
    then show ?thesis using assms(3) by (auto simp: settled_def)
  qed
  show ?thesis unfolding t
  proof (rule with_status_map [where g = "reclaimed te"])
    show "distinct (map ob_id (ml_outbox m))" using assms(2) by (simp add: outbox_distinct_def)
    show "distinct ?bs" using c(2) by (simp add: distinct_map)
    show "set ?bs \<subseteq> reclaimed te ` set (ml_outbox m)" using c(1) by blast
    fix r assume "r \<in> set (ml_outbox m)"
    show "reclaimed te r \<notin> set ?bs \<Longrightarrow>
        (ob_status (tick_row cfg te (ml_suppression m) ?bs ?bs r) = st) = (ob_status r = st)"
      using assms(3) by (auto simp: tick_row_def reclaimed_def wedged_def)
    show "reclaimed te r \<in> set ?bs \<Longrightarrow> ob_status r \<noteq> st \<and>
        (ob_status (tick_row cfg te (ml_suppression m) ?bs ?bs r) = st) = (ending cfg te (ml_suppression m) (reclaimed te r) = st)"
      using st by (simp add: tick_row_def ending_def Let_def)
  qed simp
qed

lemma logged_length:
  assumes "\<And>i. \<not> te_fails te (WriteLog i)"
  shows "length (logged cfg te supp x) = (if ending cfg te supp x = ''pending'' then 0 else 1)"
proof -
  obtain posted i e where p: "process_row cfg te supp x = (posted, attempt cfg te supp x, i, e)"
    by (rule attempt_outcome)
  show ?thesis
    using attempt_cases [of cfg te supp x] assms
    by (auto simp: logged_def p ending_def write_log_def terminal_of_def)
qed

lemma length_concat_logged:
  assumes "\<And>i. \<not> te_fails te (WriteLog i)"
  shows "length (concat (map (logged cfg te supp) bs)) =
    length (filter (\<lambda>x. ending cfg te supp x = ''sent'') bs) +
    length (filter (\<lambda>x. ending cfg te supp x = ''failed'') bs) +
    length (filter (\<lambda>x. ending cfg te supp x = ''suppressed'') bs)"
proof (induction bs)
  case (Cons x bs)
  then show ?case
    using logged_length [OF assms, of cfg supp x] terminal_cases [of cfg x te supp]
    by (auto simp: ending_def)
qed simp

lemma tick_accounts:
  assumes "run_one_tick cfg te m = (Some s, m')" "outbox_distinct (ml_outbox m)"
  shows "int (with_status ''sent'' (ml_outbox m')) = int (with_status ''sent'' (ml_outbox m)) + ts_sent s"
    and "int (with_status ''failed'' (ml_outbox m')) = int (with_status ''failed'' (ml_outbox m)) + ts_failed s"
    and "int (with_status ''suppressed'' (ml_outbox m')) = int (with_status ''suppressed'' (ml_outbox m)) + ts_suppressed s"
    and "(\<And>i. \<not> te_fails te (WriteLog i)) \<Longrightarrow>
      int (length (ml_log m')) = int (length (ml_log m)) + ts_sent s + ts_failed s + ts_suppressed s"
proof -
  note r = tick_is_map(5) [OF assms refl]
  note c = tick_status_count [OF assms] and n = count_fold [where f = "ending cfg te (ml_suppression m)"]
  have s: "s = fold (\<lambda>x. count_terminal (ending cfg te (ml_suppression m) x)) (chosen cfg te m)
        \<lparr>ts_sent = 0, ts_failed = 0, ts_suppressed = 0,
         ts_reclaimed = int (length (filter (wedged (te_now te - SENDING_RECLAIM_AGE_SECONDS * 1000000)) (ml_outbox m)))\<rparr>"
    using r by (simp add: ending_def)
  show "int (with_status ''sent'' (ml_outbox m')) = int (with_status ''sent'' (ml_outbox m)) + ts_sent s"
    "int (with_status ''failed'' (ml_outbox m')) = int (with_status ''failed'' (ml_outbox m)) + ts_failed s"
    "int (with_status ''suppressed'' (ml_outbox m')) = int (with_status ''suppressed'' (ml_outbox m)) + ts_suppressed s"
    by (simp_all add: c s n)
  assume "\<And>i. \<not> te_fails te (WriteLog i)"
  then show "int (length (ml_log m')) = int (length (ml_log m)) + ts_sent s + ts_failed s + ts_suppressed s"
    using tick_is_map(3) [OF assms] r [THEN conjunct1] length_concat_logged [of te cfg "ml_suppression m" "chosen cfg te m"]
    by (simp add: s n)
qed


text \<open>The request for a row: its recipient, and the key every attempt of it shares.\<close>

definition request_for :: "mail_config \<Rightarrow> outbox_row \<Rightarrow> http_request" where
  "request_for cfg r = resend_request cfg
     \<lparr>oe_to = ob_recipient r, oe_subject = ob_subject r, oe_text = ob_text r, oe_html = ob_html r,
      oe_kind = ob_kind r, oe_key = ''outbox-'' @ show_int (ob_id r)\<rparr>"

lemma requests_sound:
  assumes "q \<in> set (requests cfg te supp x)"
  shows "mc_enabled cfg" "q = request_for cfg x"
    and "te_fails te (LookSuppressed (ob_id x)) \<or> find_suppression (mc_lower cfg (ob_recipient x)) supp = None"
  using assms
  by (auto simp: requests_def process_row_def send_email_def request_for_def Let_def split: option.splits if_splits prod.splits)

lemma request_for_reclaimed [simp]: "request_for cfg (reclaimed te r) = request_for cfg r"
  by (simp add: request_for_def reclaimed_def)

lemma requests_length: "length (requests cfg te supp x) \<le> 1"
  by (simp add: requests_def split: option.split)

definition waiting :: "tick_env \<Rightarrow> outbox_row \<Rightarrow> bool" where
  "waiting te r \<longleftrightarrow> ob_status r = ''pending'' \<or> wedged (te_now te - SENDING_RECLAIM_AGE_SECONDS * 1000000) r"

lemma tick_requests:
  assumes "run_one_tick cfg te m = (res, m')" "outbox_distinct (ml_outbox m)"
  obtains bs where "\<forall>r \<in> set bs. r \<in> set (ml_outbox m) \<and> waiting te r \<and> mc_enabled cfg \<and>
      (te_fails te (LookSuppressed (ob_id r)) \<or> find_suppression (mc_lower cfg (ob_recipient r)) (ml_suppression m) = None)"
    "distinct bs" "ml_posted m' = ml_posted m @ map (request_for cfg) bs"
proof -
  define xs where "xs = take (Suc (length (saved te (chosen cfg te m)))) (chosen cfg te m)"
  define ys where "ys = filter (\<lambda>x. requests cfg te (ml_suppression m) x \<noteq> []) xs"
  note c = chosen_props [OF assms(2), of cfg te]
  have one: "requests cfg te (ml_suppression m) x =
      (if requests cfg te (ml_suppression m) x \<noteq> [] then [request_for cfg x] else [])" for x
    using requests_length [of cfg te "ml_suppression m" x] requests_sound(2) [of _ cfg te "ml_suppression m" x]
    by (cases "requests cfg te (ml_suppression m) x") auto
  have "concat (map (requests cfg te (ml_suppression m)) zs) =
      map (request_for cfg) (filter (\<lambda>x. requests cfg te (ml_suppression m) x \<noteq> []) zs)" for zs
  proof (induction zs)
    case (Cons z zs)
    then show ?case using one [of z] by (cases "requests cfg te (ml_suppression m) z = []") simp_all
  qed simp
  then have posted: "ml_posted m' = ml_posted m @ map (request_for cfg) ys"
    using tick_is_map(4) [OF assms] by (simp add: xs_def ys_def)
  have ys: "set ys \<subseteq> set (chosen cfg te m)" by (auto simp: ys_def xs_def dest: in_set_takeD)
  then have "\<forall>x \<in> set ys. \<exists>r. r \<in> set (ml_outbox m) \<and> reclaimed te r = x" using c(1) by blast
  then obtain h where h: "\<forall>x \<in> set ys. h x \<in> set (ml_outbox m) \<and> reclaimed te (h x) = x" by metis
  have "distinct ys" using c(2) by (simp add: ys_def xs_def distinct_map)
  then have "distinct (map h ys)" using h by (auto simp: distinct_map inj_on_def) metis
  moreover have "map (request_for cfg) (map h ys) = map (request_for cfg) ys"
  proof -
    have "request_for cfg (h x) = request_for cfg x" if "x \<in> set ys" for x
      using h that request_for_reclaimed [of cfg te "h x"] by simp
    then show ?thesis by simp
  qed
  then have "ml_posted m' = ml_posted m @ map (request_for cfg) (map h ys)" using posted by (simp only:)
  moreover have "\<forall>r \<in> set (map h ys). r \<in> set (ml_outbox m) \<and> waiting te r \<and> mc_enabled cfg \<and>
      (te_fails te (LookSuppressed (ob_id r)) \<or> find_suppression (mc_lower cfg (ob_recipient r)) (ml_suppression m) = None)"
  proof
    fix r assume "r \<in> set (map h ys)"
    then obtain x where x: "x \<in> set ys" "r = h x" by auto
    then have r: "r \<in> set (ml_outbox m)" "reclaimed te r = x" using h by auto
    obtain q where q: "q \<in> set (requests cfg te (ml_suppression m) x)"
      using x(1) by (cases "requests cfg te (ml_suppression m) x") (auto simp: ys_def)
    have "ob_status x = ''pending''" using x(1) ys c(1) by blast
    then have "waiting te r" using r(2) by (auto simp: waiting_def reclaimed_def split: if_splits)
    then show "r \<in> set (ml_outbox m) \<and> waiting te r \<and> mc_enabled cfg \<and>
      (te_fails te (LookSuppressed (ob_id r)) \<or> find_suppression (mc_lower cfg (ob_recipient r)) (ml_suppression m) = None)"
      using requests_sound [OF q] r by auto
  qed
  ultimately show thesis using that by blast
qed

section \<open>Properties\<close>

text \<open>
  C8. A tick posts at most one request for a row, only for rows that were pending or wedged in
  \<open>sending\<close> for over a minute when it began, only while mail is switched on, and never to an
  address on the suppression list (unless the lookup itself failed). The request carries the
  row's recipient and the key of the row, which does not depend on the attempt.
\<close>

theorem tick_posts:
  assumes "run_one_tick cfg te m = (res, m')" "outbox_distinct (ml_outbox m)"
  shows "\<exists>bs. ml_posted m' = ml_posted m @ map (request_for cfg) bs \<and> distinct bs \<and>
    (\<forall>r \<in> set bs. r \<in> set (ml_outbox m) \<and> waiting te r \<and> mc_enabled cfg \<and>
      (te_fails te (LookSuppressed (ob_id r)) \<or> find_suppression (mc_lower cfg (ob_recipient r)) (ml_suppression m) = None))"
  using tick_requests [OF assms] by metis

definition sample_mail_config :: mail_config where
  "sample_mail_config =
     \<lparr>mc_enabled = True, mc_api_key = ''k'', mc_from_address = ''a@b.c'', mc_from_name = [], mc_api_url = ''u'',
      mc_sqlite = False, mc_batch = 20, mc_max_attempts = 3, mc_lower = to_lowercase\<rparr>"

definition sample_outbox_row :: outbox_row where
  "sample_outbox_row =
     \<lparr>ob_id = 7, ob_org = ''o'', ob_recipient = ''x@y.z'', ob_subject = ''s'', ob_text = ''t'', ob_html = ''h'',
      ob_kind = ''welcome'', ob_notification = None, ob_status = ''pending'', ob_attempts = 0, ob_error = None,
      ob_message_id = None, ob_created_at = Some 0, ob_last_attempt_at = None, ob_sent_at = None\<rparr>"

definition sample_mail :: mail where
  "sample_mail = \<lparr>ml_outbox = [sample_outbox_row], ml_log = [], ml_suppression = [], ml_posted = []\<rparr>"

definition sample_tick :: tick_env where
  "sample_tick =
     \<lparr>te_fails = \<lambda>_. False, te_now = 1, te_from_slice = \<lambda>_. None, te_post = \<lambda>_ _. TransportError ''refused''\<rparr>"

lemmas sample_defs = sample_mail_config_def sample_outbox_row_def sample_mail_def sample_tick_def

lemma sample_distinct: "outbox_distinct (ml_outbox sample_mail)"
  by (simp add: outbox_distinct_def sample_defs)

lemma sample_run:
  "run_one_tick sample_mail_config sample_tick sample_mail =
    (Some \<lparr>ts_sent = 0, ts_failed = 0, ts_suppressed = 0, ts_reclaimed = 0\<rparr>,
     sample_mail\<lparr>ml_outbox := [sample_outbox_row\<lparr>ob_status := ''pending'', ob_attempts := 1,
         ob_last_attempt_at := Some 1, ob_error := Some ''ResendError: refused''\<rparr>],
       ml_posted := [request_for sample_mail_config sample_outbox_row]\<rparr>)"
  by (simp add: run_one_tick_def sample_defs wedged_def reclaim_def pending_batch_def limit_rows_def mark_sending_def
      drain.simps process_row_def find_suppression_def send_email_def is_email_configured_def send_failed_def
      log_posted_def finalize_row_def set_row_def write_log_def count_terminal_def request_for_def Let_def)

lemma tick_posts_witness:
  "\<exists>bs. [request_for sample_mail_config sample_outbox_row] = map (request_for sample_mail_config) bs \<and> distinct bs \<and>
    (\<forall>r \<in> set bs. r = sample_outbox_row)"
proof -
  have "ml_posted sample_mail = []" "ml_outbox sample_mail = [sample_outbox_row]" by (simp_all add: sample_mail_def)
  moreover obtain bs where "[request_for sample_mail_config sample_outbox_row] =
      ml_posted sample_mail @ map (request_for sample_mail_config) bs" "distinct bs" "set bs \<subseteq> set (ml_outbox sample_mail)"
    using tick_posts [OF sample_run sample_distinct] by auto
  ultimately show ?thesis by (intro exI [of _ bs]) auto
qed

text \<open>
  The summary of a tick that ran to its end is exact: \<open>sent\<close>, \<open>failed\<close> and \<open>suppressed\<close> are
  the numbers of rows that entered those states, a row that goes back to \<open>pending\<close> is counted
  in none, and when the log can be written it has one line more for each settled row.
\<close>

theorem tick_accounting:
  assumes "run_one_tick cfg te m = (Some s, m')" "outbox_distinct (ml_outbox m)" "\<And>i. \<not> te_fails te (WriteLog i)"
  shows "int (with_status ''sent'' (ml_outbox m')) = int (with_status ''sent'' (ml_outbox m)) + ts_sent s \<and>
    int (with_status ''failed'' (ml_outbox m')) = int (with_status ''failed'' (ml_outbox m)) + ts_failed s \<and>
    int (with_status ''suppressed'' (ml_outbox m')) = int (with_status ''suppressed'' (ml_outbox m)) + ts_suppressed s \<and>
    int (length (ml_log m')) = int (length (ml_log m)) + ts_sent s + ts_failed s + ts_suppressed s"
  using tick_accounts [OF assms(1,2)] assms(3) by blast

lemma tick_accounting_witness:
  "int (with_status ''failed'' (ml_outbox (snd (run_one_tick sample_mail_config sample_tick sample_mail)))) = 0"
  using tick_accounting [OF sample_run sample_distinct] by (simp add: sample_run) (simp add: sample_defs with_status_def)

text \<open>
  C9. Every mail is settled after finitely many ticks, whatever the mail service answers: once the
  statements succeed and rows stuck in \<open>sending\<close> are old enough to be reclaimed, as many ticks
  as there are attempts left leave every row \<open>sent\<close>, \<open>failed\<close> or \<open>suppressed\<close>.
\<close>

theorem outbox_drains:
  assumes "outbox_ok cfg (ml_outbox m)" "1 \<le> mc_batch cfg" "\<forall>te \<in> set tes. healthy te"
    and "\<forall>te \<in> set tes. \<forall>r \<in> set (ml_outbox m). reclaimable te r"
    and "outstanding cfg (ml_outbox m) \<le> length tes"
  shows "\<forall>r \<in> set (ml_outbox (run_ticks cfg tes m)). settled r"
  using assms by (rule drains)

lemma outbox_drains_witness:
  "list_all settled (ml_outbox (run_ticks sample_mail_config (replicate 3 sample_tick) sample_mail))"
  unfolding list_all_iff
  by (rule outbox_drains)
    (simp_all add: sample_defs outbox_ok_def outbox_distinct_def outbox_row_ok_def healthy_def reclaimable_def
      outstanding_def remaining_def settled_def)

text \<open>A row met while the transport is not configured is tried again like any other.\<close>

lemma unconfigured_is_retried:
  assumes "mc_enabled cfg" "\<not> is_email_configured cfg" "ob_attempts row + 1 < mc_max_attempts cfg"
    "find_suppression (mc_lower cfg (ob_recipient row)) supp = None"
  shows "ending cfg te supp row = ''pending''"
  using assms
  by (simp add: ending_def attempt_def process_row_def send_email_def send_failed_def terminal_of_def)

end
