(* ===== verification/Webhooks.thy ===== *)
theory Webhooks
  imports Mail Query
begin

text \<open>
  \<^verbatim>\<open>backend-rs/src/api/webhooks.rs\<close>: the signature of a delivery and the handler of Resend's
  events, which fills the suppression list the worker of \<open>Mail\<close> reads. A header's value is its
  bytes. The difference of the two timestamps is kept at 64 bits: the release profile has no
  overflow checks, so it wraps. SHA-256, \<open>str::to_lowercase\<close>, the JSON parser, the outcome of the rate limiter and
  the statements that fail are arguments.
\<close>

section \<open>Svix signatures\<close>

definition TOLERANCE_SECONDS :: int where "TOLERANCE_SECONDS = 5 * 60"

text \<open>Arithmetic of \<open>i64\<close> in the release profile.\<close>

definition wrap_i64 :: "int \<Rightarrow> int" where
  "wrap_i64 x = (x + 2 ^ 63) mod 2 ^ 64 - 2 ^ 63"

definition sub_i64 :: "int \<Rightarrow> int \<Rightarrow> int" where "sub_i64 a b = wrap_i64 (a - b)"

definition abs_i64 :: "int \<Rightarrow> int" where "abs_i64 a = wrap_i64 \<bar>a\<bar>"

text \<open>\<open>str::parse::<i64>\<close>.\<close>

definition parse_signed :: "string \<Rightarrow> int option" where
  "parse_signed s =
     (let (neg, ds) =
            (case s of
               c # cs \<Rightarrow> if c = CHR ''-'' then (True, cs) else if c = CHR ''+'' then (False, cs) else (False, s)
             | [] \<Rightarrow> (False, []));
          v = (if neg then - int (digits_value ds) else int (digits_value ds))
      in if ds = [] \<or> \<not> list_all is_ascii_digit ds then None
         else if - (2 ^ 63) \<le> v \<and> v < 2 ^ 63 then Some v else None)"

text \<open>\<open>HeaderValue::to_str\<close> takes visible ASCII and tabs.\<close>

definition to_str :: "string \<Rightarrow> string option" where
  "to_str s = (if list_all (\<lambda>c. 32 \<le> (of_char c :: nat) \<and> of_char c < (127 :: nat) \<or> of_char c = (9 :: nat)) s then Some s else None)"

definition header_either :: "headers \<Rightarrow> string \<Rightarrow> string \<Rightarrow> string" where
  "header_either headers a b =
     (case Option.bind (case headers a of Some v \<Rightarrow> Some v | None \<Rightarrow> headers b) to_str of Some s \<Rightarrow> s | None \<Rightarrow> [])"

definition svix_key :: "string \<Rightarrow> bytes option" where
  "svix_key secret =
     (case strip_prefix ''whsec_'' secret of Some rest \<Rightarrow> base64_standard_decode rest | None \<Rightarrow> base64_standard_decode secret)"

definition svix_signature :: "(bytes \<Rightarrow> bytes) \<Rightarrow> bytes \<Rightarrow> string \<Rightarrow> string \<Rightarrow> string \<Rightarrow> string" where
  "svix_signature sha key i timestamp body =
     base64_standard (hmac_sha256 sha key (to_bytes (i @ ''.'' @ timestamp @ ''.'' @ body)))"

definition in_tolerance :: "int \<Rightarrow> int \<Rightarrow> bool" where
  "in_tolerance now ts \<longleftrightarrow> \<not> abs_i64 (sub_i64 now ts) > TOLERANCE_SECONDS"

definition verify_svix :: "(bytes \<Rightarrow> bytes) \<Rightarrow> string \<Rightarrow> headers \<Rightarrow> string \<Rightarrow> int \<Rightarrow> bool" where
  "verify_svix sha secret headers body now =
     (let i = header_either headers ''svix-id'' ''webhook-id'';
          timestamp = header_either headers ''svix-timestamp'' ''webhook-timestamp'';
          signature = header_either headers ''svix-signature'' ''webhook-signature''
      in if i = [] \<or> timestamp = [] \<or> signature = [] then False
         else case parse_signed timestamp of
             None \<Rightarrow> False
           | Some ts \<Rightarrow>
               if \<not> in_tolerance now ts then False
               else case svix_key secret of
                   None \<Rightarrow> False
                 | Some key \<Rightarrow>
                     (let expected = svix_signature sha key i timestamp body
                      in list_ex (\<lambda>part. case strip_prefix ''v1,'' part of Some s \<Rightarrow> s = expected | None \<Rightarrow> False)
                           (split_on (CHR '' '') signature)))"

section \<open>The handler\<close>

definition suppression_reason :: "string \<Rightarrow> string option" where
  "suppression_reason t =
     (if t = ''email.bounced'' then Some ''bounce''
      else if t = ''email.complained'' then Some ''complaint'' else None)"

text \<open>\<open>processed_webhooks\<close> and the tables of \<open>Mail\<close>.\<close>

record delivery_row =
  dv_msg_id :: string
  dv_event_type :: "string option"
  dv_processed_at :: int

record hooks =
  hk_mail :: mail
  hk_processed :: "delivery_row list"

datatype hook_statement = SeenLookup | InsertSuppression string | MarkBounced | RecordDelivery

definition extract_addresses :: "(string \<times> json) list \<Rightarrow> string list" where
  "extract_addresses doc =
     (case map_of doc ''to'' of
        Some (Array items) \<Rightarrow> filter (\<lambda>a. CHR ''@'' \<in> set a) (List.map_filter as_str items)
      | Some (String s) \<Rightarrow> if CHR ''@'' \<in> set s then [s] else []
      | _ \<Rightarrow> [])"

text \<open>The address has a unique index, so that an insert of one already there fails and is dropped.\<close>

definition insert_suppression ::
  "(string \<Rightarrow> string) \<Rightarrow> (string \<Rightarrow> bool) \<Rightarrow> int \<Rightarrow> string \<Rightarrow> string \<Rightarrow> string \<Rightarrow> suppression_row list \<Rightarrow>
   suppression_row list" where
  "insert_suppression lower fails now address reason source t =
     (let addr = lower (trim address)
      in if addr = [] \<or> CHR ''@'' \<notin> set addr then t
         else if fails addr \<or> find_suppression addr t \<noteq> None then t
         else t @ [\<lparr>sp_address = addr, sp_reason = reason, sp_source = source, sp_created_at = now\<rparr>])"

definition mark_bounced :: "string \<Rightarrow> string \<Rightarrow> outbox_row list \<Rightarrow> outbox_row list" where
  "mark_bounced err email_id t =
     map (\<lambda>r. if ob_message_id r = Some email_id \<and> ob_status r = ''sent''
              then r\<lparr>ob_status := ''suppressed'', ob_error := Some err\<rparr> else r) t"

definition suppress_all ::
  "(string \<Rightarrow> string) \<Rightarrow> (hook_statement \<Rightarrow> bool) \<Rightarrow> int \<Rightarrow> string \<Rightarrow> string list \<Rightarrow> suppression_row list \<Rightarrow>
   suppression_row list" where
  "suppress_all lower fails now reason addresses t =
     fold (\<lambda>a. insert_suppression lower (\<lambda>x. fails (InsertSuppression x)) now a reason ''resend_webhook'') addresses t"

definition record_delivery :: "bool \<Rightarrow> int \<Rightarrow> string \<Rightarrow> string \<Rightarrow> delivery_row list \<Rightarrow> delivery_row list" where
  "record_delivery fails now msg_id event_type t =
     (if fails \<or> (\<exists>d \<in> set t. dv_msg_id d = msg_id) then t
      else t @ [\<lparr>dv_msg_id = msg_id, dv_event_type = Some event_type, dv_processed_at = now\<rparr>])"

text \<open>\<open>serde_json\<close>'s text of a number; \<open>fl\<close> writes a float.\<close>

fun scalar_text :: "(rat \<Rightarrow> string) \<Rightarrow> json \<Rightarrow> string option" where
  "scalar_text fl (IntNum n) = Some (show_int n)"
| "scalar_text fl (FloatNum f) = Some (fl f)"
| "scalar_text fl (Bool b) = Some (if b then ''true'' else ''false'')"
| "scalar_text fl _ = None"

definition event_type_of :: "json \<Rightarrow> string option" where
  "event_type_of t = (if json_truthy t then as_str t else Some [])"

fun event_data :: "json \<Rightarrow> (string \<times> json) list option" where
  "event_data (Object m) = Some m"
| "event_data v = (if json_truthy v then None else Some [])"

fun is_container :: "json \<Rightarrow> bool" where
  "is_container (Array _) = True"
| "is_container (Object _) = True"
| "is_container _ = False"

definition mark_event :: "(hook_statement \<Rightarrow> bool) \<Rightarrow> string \<Rightarrow> string \<Rightarrow> (string \<times> json) list \<Rightarrow> outbox_row list \<Rightarrow> outbox_row list" where
  "mark_event fails event_type reason doc t =
     (case Option.bind (map_of doc ''email_id'') as_str of
        Some email_id \<Rightarrow>
          if fails MarkBounced then t
          else mark_bounced (''webhook_event:'' @ event_type @ '':reason='' @ reason) email_id t
      | None \<Rightarrow> t)"

text \<open>The branches on the type of the event; \<open>None\<close> is the refused payload.\<close>

definition apply_event ::
  "(string \<Rightarrow> string) \<Rightarrow> (hook_statement \<Rightarrow> bool) \<Rightarrow> int \<Rightarrow> string \<Rightarrow> (string \<times> json) list option \<Rightarrow> mail \<Rightarrow>
   mail option" where
  "apply_event lower fails now event_type doc m =
     (case suppression_reason event_type of
        Some reason \<Rightarrow>
          map_option (\<lambda>d. m\<lparr>ml_suppression := suppress_all lower fails now reason (extract_addresses d) (ml_suppression m),
                            ml_outbox := mark_event fails event_type reason d (ml_outbox m)\<rparr>) doc
      | None \<Rightarrow>
          if event_type = ''email.delivered'' then map_option (\<lambda>_. m) doc else Some m)"

definition process_event ::
  "(string \<Rightarrow> string) \<Rightarrow> (rat \<Rightarrow> string) \<Rightarrow> (hook_statement \<Rightarrow> bool) \<Rightarrow> int \<Rightarrow> string \<Rightarrow> (string \<times> json) list \<Rightarrow>
   hooks \<Rightarrow> (api_error + json) \<times> hooks" where
  "process_event lower fl fails now msg_id event st =
     (let type_value = (case map_of event ''type'' of Some v \<Rightarrow> v | None \<Rightarrow> Null);
          event_type = event_type_of type_value;
          doc = event_data (case map_of event ''data'' of Some v \<Rightarrow> v | None \<Rightarrow> Null)
      in if is_container type_value \<and> json_truthy type_value
         then (Inl (internal (String ''resend event type is unhashable'')), st)
         else
           (let text = (case event_type of Some t \<Rightarrow> t | None \<Rightarrow> [])
            in case apply_event lower fails now text doc (hk_mail st) of
                 None \<Rightarrow> (Inl (internal (String ''resend event data is not an object'')), st)
               | Some m \<Rightarrow>
                   (let stored_type = (case event_type of Some t \<Rightarrow> Some t | None \<Rightarrow> scalar_text fl type_value)
                    in (Inr (Object [(''received'', Bool True)]),
                        st\<lparr>hk_mail := m,
                           hk_processed := (case stored_type of
                               Some t \<Rightarrow> if msg_id = [] then hk_processed st
                                         else record_delivery (fails RecordDelivery) now msg_id t (hk_processed st)
                             | None \<Rightarrow> hk_processed st)\<rparr>))))"

definition resend_webhook ::
  "(string \<Rightarrow> string) \<Rightarrow> (bytes \<Rightarrow> bytes) \<Rightarrow> (rat \<Rightarrow> string) \<Rightarrow> (string \<Rightarrow> json option) \<Rightarrow> (hook_statement \<Rightarrow> bool) \<Rightarrow> api_error option \<Rightarrow>
   string option \<Rightarrow> int \<Rightarrow> int \<Rightarrow> headers \<Rightarrow> string \<Rightarrow> hooks \<Rightarrow> (api_error + json) \<times> hooks" where
  "resend_webhook lower sha fl from_slice fails rate secret now_secs now headers body st =
     (case rate of
        Some e \<Rightarrow> (Inl e, st)
      | None \<Rightarrow>
          (case secret of
             None \<Rightarrow> (Inl (bad_request (String ''Webhook processing unavailable'')), st)
           | Some key \<Rightarrow>
               if \<not> verify_svix sha key headers body now_secs
               then (Inl (bad_request (String ''Invalid signature'')), st)
               else case from_slice body of
                   Some (Object event) \<Rightarrow>
                     (let msg_id = header_either headers ''svix-id'' ''webhook-id''
                      in if msg_id \<noteq> [] \<and> fails SeenLookup then (Inl (internal (String ''database error'')), st)
                         else if msg_id \<noteq> [] \<and> (\<exists>d \<in> set (hk_processed st). dv_msg_id d = msg_id)
                         then (Inr (Object [(''status'', String ''duplicate''), (''svix_id'', String msg_id)]), st)
                         else process_event lower fl fails now msg_id event st)
                 | _ \<Rightarrow> (Inl (bad_request (String ''Malformed payload'')), st)))"

section \<open>The window of a timestamp\<close>

lemma wrap_i64_small: "- (2 ^ 63) \<le> x \<Longrightarrow> x < 2 ^ 63 \<Longrightarrow> wrap_i64 x = x"
  by (simp add: wrap_i64_def)

lemma wrap_i64_large:
  assumes "2 ^ 63 \<le> x" "x < 2 ^ 63 + 2 ^ 64"
  shows "wrap_i64 x = x - 2 ^ 64"
proof -
  have "(x + 2 ^ 63) mod 2 ^ 64 = (x + 2 ^ 63 - 2 ^ 64) mod 2 ^ 64" by (metis mod_diff_right_eq mod_self diff_zero mod_mod_trivial)
  also have "\<dots> = x + 2 ^ 63 - 2 ^ 64" using assms by (intro mod_pos_pos_trivial) simp_all
  finally show ?thesis by (simp add: wrap_i64_def)
qed

lemma in_tolerance_iff:
  assumes "0 \<le> now" "now < 2 ^ 62" "- (2 ^ 63) \<le> ts" "ts < 2 ^ 63"
  shows "in_tolerance now ts \<longleftrightarrow> \<bar>now - ts\<bar> \<le> 300 \<or> ts = now - 2 ^ 63"
proof -
  consider "now - ts < 2 ^ 63" | "now - ts = 2 ^ 63" | "2 ^ 63 < now - ts" by linarith
  then show ?thesis
  proof cases
    case 1
    then have "sub_i64 now ts = now - ts" "\<bar>now - ts\<bar> < 2 ^ 63"
      using assms by (auto simp: sub_i64_def wrap_i64_small)
    then show ?thesis using 1 by (auto simp: in_tolerance_def abs_i64_def wrap_i64_small TOLERANCE_SECONDS_def)
  next
    case 2
    then have "sub_i64 now ts = - (2 ^ 63)" using wrap_i64_large [of "now - ts"] by (simp add: sub_i64_def)
    then have "abs_i64 (sub_i64 now ts) = - (2 ^ 63)" using wrap_i64_large [of "2 ^ 63"] by (simp add: abs_i64_def)
    then show ?thesis using 2 by (simp add: in_tolerance_def TOLERANCE_SECONDS_def)
  next
    case 3
    have s: "sub_i64 now ts = now - ts - 2 ^ 64"
      using 3 assms wrap_i64_large [of "now - ts"] by (simp add: sub_i64_def)
    have "\<bar>now - ts - 2 ^ 64\<bar> = 2 ^ 64 - (now - ts)" using assms by simp
    moreover have "wrap_i64 (2 ^ 64 - (now - ts)) = 2 ^ 64 - (now - ts)"
      using 3 assms by (intro wrap_i64_small) simp_all
    ultimately have "abs_i64 (sub_i64 now ts) = 2 ^ 64 - (now - ts)" by (simp add: abs_i64_def s)
    then show ?thesis using 3 assms by (auto simp: in_tolerance_def TOLERANCE_SECONDS_def)
  qed
qed

section \<open>The suppression list\<close>

lemma find_suppression_append:
  "find_suppression a (t @ u) = (case find_suppression a t of Some s \<Rightarrow> Some s | None \<Rightarrow> find_suppression a u)"
  by (induction t) (simp_all add: find_suppression_def)

lemma find_suppression_single [simp]:
  "find_suppression a [s] = (if sp_address s = a then Some s else None)"
  "find_suppression a [] = None"
  by (simp_all add: find_suppression_def)

lemma insert_suppression_keeps:
  "find_suppression a t = Some s \<Longrightarrow> find_suppression a (insert_suppression lower fails now b reason source t) = Some s"
  by (simp add: insert_suppression_def Let_def find_suppression_append)

lemma insert_suppression_adds:
  assumes "CHR ''@'' \<in> set (lower (trim b))" "\<not> fails (lower (trim b))"
  shows "find_suppression (lower (trim b)) (insert_suppression lower fails now b reason source t) \<noteq> None"
  using assms by (auto simp: insert_suppression_def Let_def find_suppression_append)

lemma suppress_all_keeps:
  "find_suppression a t = Some s \<Longrightarrow> find_suppression a (suppress_all lower fails now reason as t) = Some s"
  by (induction as arbitrary: t) (simp_all add: suppress_all_def insert_suppression_keeps)

lemma suppress_all_adds:
  assumes "b \<in> set as" "CHR ''@'' \<in> set (lower (trim b))" "\<not> fails (InsertSuppression (lower (trim b)))"
  shows "find_suppression (lower (trim b)) (suppress_all lower fails now reason as t) \<noteq> None"
  using assms(1)
proof (induction as arbitrary: t)
  case (Cons a as)
  let ?t = "insert_suppression lower (\<lambda>x. fails (InsertSuppression x)) now a reason ''resend_webhook'' t"
  show ?case
  proof (cases "b = a")
    case True
    then have "find_suppression (lower (trim b)) ?t \<noteq> None" 
      using insert_suppression_adds [of lower b "\<lambda>x. fails (InsertSuppression x)" now reason "''resend_webhook''" t] assms(2,3)
      by simp
    then obtain s where "find_suppression (lower (trim b)) ?t = Some s" by blast
    then show ?thesis using suppress_all_keeps [of _ ?t] by (simp add: suppress_all_def)
  next
    case False
    then show ?thesis using Cons by (simp add: suppress_all_def)
  qed
qed simp

text \<open>The suppression list only grows: what is on it stays.\<close>

definition suppressed_in :: "mail \<Rightarrow> string \<Rightarrow> bool" where
  "suppressed_in m a \<longleftrightarrow> find_suppression a (ml_suppression m) \<noteq> None"

lemma apply_event_keeps:
  assumes "apply_event lower fails now t doc m = Some m'"
  shows "suppressed_in m a \<Longrightarrow> suppressed_in m' a" "ml_posted m' = ml_posted m" "ml_log m' = ml_log m"
  using assms suppress_all_keeps by (fastforce simp: apply_event_def suppressed_in_def split: option.splits if_splits)+

lemma resend_webhook_mail:
  assumes "resend_webhook lower sha fl from_slice fails rate secret now_secs now headers body st = (res, st')"
  shows "hk_mail st' = hk_mail st \<or> (\<exists>t doc. apply_event lower fails now t doc (hk_mail st) = Some (hk_mail st'))"
  using assms
  by (auto simp: resend_webhook_def process_event_def Let_def split: option.splits if_splits json.splits)

section \<open>Properties\<close>

definition msg_id_of :: "headers \<Rightarrow> string" where
  "msg_id_of headers = header_either headers ''svix-id'' ''webhook-id''"

lemma forged_changes_nothing:
  assumes "\<forall>key. secret = Some key \<longrightarrow> \<not> verify_svix sha key headers body now_secs"
  shows "\<exists>e. resend_webhook lower sha fl from_slice fails rate secret now_secs now headers body st = (Inl e, st)"
  using assms by (auto simp: resend_webhook_def split: option.splits)

lemma seen_changes_nothing:
  assumes "d \<in> set (hk_processed st)" "dv_msg_id d = msg_id_of headers"
  shows "snd (resend_webhook lower sha fl from_slice fails rate secret now_secs now headers body st) = st"
proof (cases "msg_id_of headers = []")
  case True
  then have "\<not> verify_svix sha key headers body now_secs" for key by (simp add: verify_svix_def msg_id_of_def Let_def)
  then show ?thesis using forged_changes_nothing [of secret sha headers body now_secs] by (metis snd_conv)
next
  case False
  then show ?thesis using assms
    by (auto simp: resend_webhook_def msg_id_of_def Let_def split: option.splits json.splits)
qed

lemma processed_is_recorded:
  assumes "resend_webhook lower sha fl from_slice fails rate secret now_secs now headers body st = (Inr r, st')"
    and "from_slice body = Some (Object event)" "map_of event ''type'' = Some (String t)" "\<not> fails RecordDelivery"
  shows "\<exists>d \<in> set (hk_processed st'). dv_msg_id d = msg_id_of headers"
proof -
  obtain key where key: "rate = None" "secret = Some key" "verify_svix sha key headers body now_secs"
    using assms(1) by (auto simp: resend_webhook_def split: option.splits if_splits)
  have ne: "msg_id_of headers \<noteq> []" using key(3) by (auto simp: verify_svix_def msg_id_of_def Let_def)
  have et: "event_type_of (String t) = Some t" by (simp add: event_type_of_def)
  have "process_event lower fl fails now (msg_id_of headers) event st = (Inr r, st') \<or>
      (\<exists>d \<in> set (hk_processed st'). dv_msg_id d = msg_id_of headers)"
    using assms(1,2) key ne by (auto simp: resend_webhook_def Let_def msg_id_of_def [symmetric] split: if_splits)
  then show ?thesis
    using ne assms(3,4) by (auto simp: process_event_def et record_delivery_def Let_def split: option.splits if_splits)
qed


definition sample_headers :: headers where
  "sample_headers =
     [''svix-id'' \<mapsto> ''m'', ''svix-timestamp'' \<mapsto> ''5'',
      ''svix-signature'' \<mapsto> ''v1,'' @ svix_signature (\<lambda>_. []) [] ''m'' ''5'' ''b'']"

definition sample_from_slice :: "string \<Rightarrow> json option" where
  "sample_from_slice _ = Some (Object [(''type'', String ''email.bounced''),
     (''data'', Object [(''to'', Array [String ''X@y.z''])])])"

definition sample_hooks :: hooks where
  "sample_hooks = \<lparr>hk_mail = sample_mail, hk_processed = []\<rparr>"

lemma sample_verified: "verify_svix (\<lambda>_. []) ''whsec_'' sample_headers ''b'' 5"
  by code_simp

lemma sample_bounce:
  "resend_webhook to_lowercase (\<lambda>_. []) (\<lambda>_. []) sample_from_slice (\<lambda>_. False) None (Some ''whsec_'') 5 9 sample_headers ''b'' sample_hooks =
    (Inr (Object [(''received'', Bool True)]),
     \<lparr>hk_mail = sample_mail\<lparr>ml_suppression := [\<lparr>sp_address = ''x@y.z'', sp_reason = ''bounce'',
        sp_source = ''resend_webhook'', sp_created_at = 9\<rparr>]\<rparr>,
      hk_processed = [\<lparr>dv_msg_id = ''m'', dv_event_type = Some ''email.bounced'', dv_processed_at = 9\<rparr>]\<rparr>)"
  by code_simp


text \<open>
  The replay window at 64 bits: for a clock and a signed timestamp in the range of \<open>i64\<close>, the
  check lets through the timestamps at most five minutes away and exactly one more, the one
  \<open>2 ^ 63\<close> seconds before now, where the difference and its absolute value both wrap around.
\<close>

theorem replay_window:
  assumes "0 \<le> now" "now < 2 ^ 62" "- (2 ^ 63) \<le> ts" "ts < 2 ^ 63"
  shows "in_tolerance now ts \<longleftrightarrow> \<bar>now - ts\<bar> \<le> 300 \<or> ts = now - 2 ^ 63"
  using assms by (rule in_tolerance_iff)

lemma replay_window_witness: "in_tolerance 1700000000 (1700000000 - 2 ^ 63) \<and> \<not> in_tolerance 1700000000 1699999699"
  using replay_window [of 1700000000 "1700000000 - 2 ^ 63"] replay_window [of 1700000000 1699999699] by simp

end
