(* ===== verification/Unsubscribe.thy ===== *)
theory Unsubscribe
  imports Webhooks Audit_Trail
begin

text \<open>
  \<^verbatim>\<open>backend-rs/src/email_unsubscribe.rs\<close>: the signed link in the footer of a mail, and the handler
  behind it (\<open>email_unsubscribe\<close> of \<^verbatim>\<open>backend-rs/src/api/notifications.rs\<close>). SHA-256 is an argument,
  \<open>lower\<close> is \<open>str::to_lowercase\<close>; the verification of a token is the \<open>jsonwebtoken\<close> crate's,
  an argument that gives the claims of a token it accepts as a JSON value.
\<close>

definition TOKEN_TTL_SECONDS :: int where "TOKEN_TTL_SECONDS = 400 * 24 * 3600"

definition DERIVE_LABEL :: string where "DERIVE_LABEL = ''sentinel-email-unsubscribe-v1''"

definition SUBJECT :: string where "SUBJECT = ''email-unsubscribe''"

definition derive_secret :: "(bytes \<Rightarrow> bytes) \<Rightarrow> string \<Rightarrow> string option" where
  "derive_secret sha base =
     (if base = [] then None else Some (hex (hmac_sha256 sha (to_bytes base) (to_bytes DERIVE_LABEL))))"

definition secret_base_name :: "bool \<Rightarrow> string" where
  "secret_base_name is_local_auth = (if is_local_auth then ''APP_SECRET_KEY'' else ''CLERK_SECRET_KEY'')"

text \<open>The header PyJWT writes, \<open>{"alg":"HS256","typ":"JWT"}\<close>.\<close>

definition JWT_HEADER :: string where
  "JWT_HEADER = ''{'' @ [CHR 0x22] @ ''alg'' @ [CHR 0x22] @ '':'' @ [CHR 0x22] @ ''HS256'' @ [CHR 0x22] @ '','' @
     [CHR 0x22] @ ''typ'' @ [CHR 0x22] @ '':'' @ [CHR 0x22] @ ''JWT'' @ [CHR 0x22] @ ''}''"

definition claim :: "string \<Rightarrow> string \<Rightarrow> string" where
  "claim name v = [CHR 0x22] @ name @ [CHR 0x22] @ '':'' @ v"

definition claims_text :: "(string \<Rightarrow> string) \<Rightarrow> string \<Rightarrow> string \<Rightarrow> string \<Rightarrow> int \<Rightarrow> string" where
  "claims_text lower org kind recipient now =
     ''{'' @ claim ''org_id'' (python_json_string org) @ '','' @ claim ''kind'' (python_json_string kind) @ '','' @
     claim ''rcpt'' (python_json_string (lower (trim recipient))) @ '','' @ claim ''iat'' (show_int now) @ '','' @
     claim ''exp'' (show_int (now + TOKEN_TTL_SECONDS)) @ '','' @ claim ''sub'' (python_json_string SUBJECT) @ ''}''"

definition make_token ::
  "(bytes \<Rightarrow> bytes) \<Rightarrow> (string \<Rightarrow> string) \<Rightarrow> string \<Rightarrow> string \<Rightarrow> string \<Rightarrow> string \<Rightarrow> int \<Rightarrow> string option" where
  "make_token sha lower secret org kind recipient now =
     (if secret = [] then None
      else
        (let header = base64_url_nopad (to_bytes JWT_HEADER);
             claims = base64_url_nopad (to_bytes (claims_text lower org kind recipient now));
             signed = header @ ''.'' @ claims;
             signature = base64_url_nopad (hmac_sha256 sha (to_bytes secret) (to_bytes signed))
         in Some (signed @ ''.'' @ signature)))"

text \<open>\<open>#[serde(default)]\<close> on a string field: absent is empty, another type is an error.\<close>

definition claim_field :: "string \<Rightarrow> json \<Rightarrow> string option" where
  "claim_field k j = (case json_get k j of None \<Rightarrow> Some [] | Some v \<Rightarrow> as_str v)"

definition verify_token ::
  "(string \<Rightarrow> string \<Rightarrow> json option) \<Rightarrow> string \<Rightarrow> string \<Rightarrow> (string \<times> string \<times> string) option" where
  "verify_token decode secret token =
     (if token = [] then None
      else if secret = [] then None
      else case decode secret token of
          None \<Rightarrow> None
        | Some j \<Rightarrow>
            (case (claim_field ''org_id'' j, claim_field ''kind'' j, claim_field ''rcpt'' j, claim_field ''sub'' j) of
               (Some org, Some kind, Some rcpt, Some s) \<Rightarrow>
                 if s \<noteq> SUBJECT then None
                 else if org = [] \<or> kind = [] \<or> rcpt = [] then None
                 else Some (org, kind, rcpt)
             | _ \<Rightarrow> None))"

definition build_unsubscribe_url ::
  "(bytes \<Rightarrow> bytes) \<Rightarrow> (string \<Rightarrow> string) \<Rightarrow> string \<Rightarrow> string \<Rightarrow> string \<Rightarrow> string \<Rightarrow> string \<Rightarrow> int \<Rightarrow> string option" where
  "build_unsubscribe_url sha lower secret frontend_url org kind recipient now =
     map_option (\<lambda>token. trim_end_slashes frontend_url @ ''/api/notifications/email/unsubscribe?t='' @ token)
       (make_token sha lower secret org kind recipient now)"

section \<open>The click\<close>

datatype click_statement = LookAddress | InsertAddress | AuditClick

definition mask :: "string \<Rightarrow> string" where
  "mask recipient =
     (case split_at_sign recipient of
        Some (l, domain) \<Rightarrow> concat (map utf8 (take 1 (chars l))) @ ''***@'' @ domain
      | None \<Rightarrow> ''***'')"

datatype click_page = PageOk string | PageError

record click_state =
  ck_suppression :: "suppression_row list"
  ck_audit :: "audit_row list"

text \<open>After the query is parsed and the rate limit is passed. The page is told by the kind it names.\<close>

definition email_unsubscribe ::
  "(string \<Rightarrow> string \<Rightarrow> json option) \<Rightarrow> (rat \<Rightarrow> string) \<Rightarrow> (click_statement \<Rightarrow> bool) \<Rightarrow> int \<Rightarrow> string \<Rightarrow> string \<Rightarrow> bool \<Rightarrow>
   click_state \<Rightarrow> click_page \<times> click_state" where
  "email_unsubscribe decode fl fails now secret token trusted st =
     (case verify_token decode secret token of
        None \<Rightarrow> (PageError, st)
      | Some (org, kind, recipient) \<Rightarrow>
          (let t = ck_suppression st;
               t' = (if fails LookAddress then t
                     else case find_suppression recipient t of
                         None \<Rightarrow>
                           if fails InsertAddress then t
                           else t @ [\<lparr>sp_address = recipient, sp_reason = ''unsubscribe'', sp_source = ''unsubscribe_link'',
                                      sp_created_at = now\<rparr>]
                       | Some _ \<Rightarrow> t);
               trail = write_audit (\<not> fails AuditClick) trusted now org ''email_unsubscribed'' [] []
                 (Some (python_json fl [(''kind'', String kind), (''via_link'', Bool True), (''address'', String (mask recipient))]))
                 Map.empty None (ck_audit st)
           in (PageOk kind, st\<lparr>ck_suppression := t', ck_audit := trail\<rparr>)))"

end
