(* ===== verification/Recipients.thy ===== *)
theory Recipients
  imports Mail
begin

text \<open>
  \<^verbatim>\<open>backend-rs/src/recipients.rs\<close> and \<^verbatim>\<open>backend-rs/src/clerk_api.rs\<close>: from an organisation and an
  audience to addresses, by Clerk's list of members behind a cache of five minutes. The URL
  builder of \<open>reqwest\<close>, the HTTP client and the body's parser are arguments; \<open>lower\<close> is
  \<open>str::to_lowercase\<close>.
\<close>

definition CACHE_TTL :: duration where "CACHE_TTL = from_secs 300"

definition ADMIN_ROLES :: "string list" where "ADMIN_ROLES = [''org:admin'', ''admin'']"

definition PAGE_LIMIT :: nat where "PAGE_LIMIT = 100"

type_synonym recipient_cache = "string \<times> string \<Rightarrow> (instant \<times> string list) option"

definition clear_cache :: "recipient_cache \<Rightarrow> recipient_cache" where
  "clear_cache c = Map.empty"

definition invalidate_org :: "string \<Rightarrow> recipient_cache \<Rightarrow> recipient_cache" where
  "invalidate_org org c = (\<lambda>k. if fst k = org then None else c k)"

text \<open>\<open>clerk_api::url\<close>: a segment that is empty or made of dots is refused before the path is built.\<close>

definition clerk_url :: "(string list \<Rightarrow> string option) \<Rightarrow> string list \<Rightarrow> string option" where
  "clerk_url build segments =
     (if list_ex (\<lambda>s. s = [] \<or> s = ''.'' \<or> s = ''..'') segments then None else build segments)"

record lookup =
  lk_build :: "string list \<Rightarrow> string option"
  lk_get :: "string \<Rightarrow> (string \<times> string) list \<Rightarrow> string \<Rightarrow> http_result"
  lk_json :: "string \<Rightarrow> json option"
  lk_clerk_secret :: string
  lk_local_admin_email :: "string option"
  lk_lower :: "string \<Rightarrow> string"

definition client_get :: "lookup \<Rightarrow> string \<Rightarrow> string option" where
  "client_get lk url =
     (case lk_get lk url [(''limit'', show_nat PAGE_LIMIT)] (lk_clerk_secret lk) of
        Response status _ body \<Rightarrow> if 200 \<le> status \<and> status < 300 then Some body else None
      | TransportError _ \<Rightarrow> None)"

definition extract_email :: "json \<Rightarrow> string option" where
  "extract_email membership =
     (case Option.bind (Option.bind (json_get ''public_user_data'' membership) (json_get ''identifier'')) as_str of
        Some i \<Rightarrow> if CHR ''@'' \<in> set i then Some i else None
      | None \<Rightarrow> None)"

fun collect :: "(string \<Rightarrow> string) \<Rightarrow> string \<Rightarrow> json list \<Rightarrow> string list \<Rightarrow> string set \<Rightarrow> string list" where
  "collect lower audience [] addrs seen = addrs"
| "collect lower audience (member # members) addrs seen =
     (if audience = ''admin'' \<and>
         (case Option.bind (json_get ''role'' member) as_str of Some r \<Rightarrow> r | None \<Rightarrow> []) \<notin> set ADMIN_ROLES
      then collect lower audience members addrs seen
      else case extract_email member of
          None \<Rightarrow> collect lower audience members addrs seen
        | Some addr \<Rightarrow>
            if lower addr \<in> seen then collect lower audience members addrs seen
            else collect lower audience members (addrs @ [addr]) (insert (lower addr) seen))"

text \<open>\<open>None\<close> is a failed lookup.\<close>

definition fetch_from_clerk :: "lookup \<Rightarrow> string \<Rightarrow> string \<Rightarrow> string list option" where
  "fetch_from_clerk lk org audience =
     (case clerk_url (lk_build lk) [''organizations'', org, ''memberships''] of
        None \<Rightarrow> None
      | Some url \<Rightarrow>
          (case client_get lk url of
             None \<Rightarrow> None
           | Some text \<Rightarrow>
               (case lk_json lk text of
                  None \<Rightarrow> None
                | Some body \<Rightarrow>
                    (let members = (case Option.bind (json_get ''data'' body) as_array of Some ms \<Rightarrow> ms | None \<Rightarrow> [])
                     in Some (if members = [] then [] else collect (lk_lower lk) audience members [] {})))))"

text \<open>\<open>now\<close> is the clock when the cache is read, \<open>now'\<close> when the answer is stored.\<close>

definition recipient_emails ::
  "lookup \<Rightarrow> instant \<Rightarrow> instant \<Rightarrow> string \<Rightarrow> string \<Rightarrow> recipient_cache \<Rightarrow> string list \<times> recipient_cache" where
  "recipient_emails lk now now' org audience0 c =
     (let audience = (if audience0 = ''admin'' then ''admin'' else ''all'')
      in case lk_local_admin_email lk of
           Some admin \<Rightarrow> (if admin = [] then [] else [admin], c)
         | None \<Rightarrow>
             (let key = (org, audience)
              in case (case c key of Some (expires_at, addrs) \<Rightarrow> if expires_at > now then Some addrs else None | None \<Rightarrow> None) of
                   Some addrs \<Rightarrow> (addrs, c)
                 | None \<Rightarrow>
                     (case fetch_from_clerk lk org audience of
                        None \<Rightarrow> ([], c)
                      | Some addrs \<Rightarrow> (addrs, c(key \<mapsto> (now' + CACHE_TTL, addrs))))))"

section \<open>What a list of recipients is\<close>

definition members_of :: "json \<Rightarrow> json list" where
  "members_of body = (case Option.bind (json_get ''data'' body) as_array of Some ms \<Rightarrow> ms | None \<Rightarrow> [])"

definition eligible :: "string \<Rightarrow> json \<Rightarrow> bool" where
  "eligible audience member \<longleftrightarrow>
     audience \<noteq> ''admin'' \<or> (\<exists>r \<in> set ADMIN_ROLES. json_get ''role'' member = Some (String r))"

definition addresses_of :: "string \<Rightarrow> json list \<Rightarrow> string list" where
  "addresses_of audience members = List.map_filter extract_email (filter (eligible audience) members)"

text \<open>Each address once, case folded, in the order of its first occurrence.\<close>

fun first_occurrences :: "(string \<Rightarrow> string) \<Rightarrow> string set \<Rightarrow> string list \<Rightarrow> string list" where
  "first_occurrences lower seen [] = []"
| "first_occurrences lower seen (a # as) =
     (if lower a \<in> seen then first_occurrences lower seen as
      else a # first_occurrences lower (insert (lower a) seen) as)"

lemma role_eligible:
  "(case Option.bind (json_get ''role'' member) as_str of Some r \<Rightarrow> r | None \<Rightarrow> []) \<notin> set ADMIN_ROLES \<longleftrightarrow>
     \<not> (\<exists>r \<in> set ADMIN_ROLES. json_get ''role'' member = Some (String r))"
  by (cases "json_get ''role'' member") (auto simp: ADMIN_ROLES_def split: option.split)

lemma collect_first_occurrences:
  "collect lower audience members addrs seen = addrs @ first_occurrences lower seen (addresses_of audience members)"
proof (induction members arbitrary: addrs seen)
  case (Cons m ms)
  then show ?case
    unfolding collect.simps role_eligible
    by (auto simp: addresses_of_def eligible_def List.map_filter_def split: option.splits)
qed (simp add: addresses_of_def List.map_filter_def)

lemma first_occurrences_set:
  "lower ` set (first_occurrences lower seen as) = lower ` set as - seen"
  by (induction as arbitrary: seen) auto

lemma first_occurrences_from:
  "a \<in> set (first_occurrences lower seen as) \<Longrightarrow> a \<in> set as \<and> lower a \<notin> seen"
proof (induction as arbitrary: seen)
  case (Cons x xs)
  then show ?case using Cons.IH [of seen] Cons.IH [of "insert (lower x) seen"] by (auto split: if_splits)
qed simp

lemma first_occurrences_distinct: "distinct (map lower (first_occurrences lower seen as))"
  by (induction as arbitrary: seen) (auto dest: first_occurrences_from)

lemma fetch_from_clerk_Some:
  assumes "fetch_from_clerk lk org audience = Some addrs"
  shows "\<exists>url text body. clerk_url (lk_build lk) [''organizations'', org, ''memberships''] = Some url \<and>
    client_get lk url = Some text \<and> lk_json lk text = Some body \<and>
    addrs = first_occurrences (lk_lower lk) {} (addresses_of audience (members_of body))"
  using assms
  by (auto simp: fetch_from_clerk_def members_of_def collect_first_occurrences addresses_of_def List.map_filter_def Let_def
      split: option.splits if_splits)

section \<open>The cache over time\<close>

text \<open>The lists Clerk gave, with the time each was stored.\<close>

record recipient_sys =
  rs_cache :: recipient_cache
  rs_given :: "(instant \<times> (string \<times> string) \<times> string list) list"

definition audience_key :: "string \<Rightarrow> string" where
  "audience_key audience = (if audience = ''admin'' then ''admin'' else ''all'')"

text \<open>The list a call stores, if it asks Clerk and is answered.\<close>

definition asked :: "lookup \<Rightarrow> instant \<Rightarrow> string \<Rightarrow> string \<Rightarrow> recipient_cache \<Rightarrow> string list option" where
  "asked lk now org audience c =
     (if lk_local_admin_email lk \<noteq> None then None
      else if (\<exists>x addrs. c (org, audience_key audience) = Some (x, addrs) \<and> x > now) then None
      else fetch_from_clerk lk org (audience_key audience))"

inductive recipient_step :: "recipient_sys \<Rightarrow> recipient_sys \<Rightarrow> bool" where
  Ask: "recipient_step s
      \<lparr>rs_cache = snd (recipient_emails lk now now' org audience (rs_cache s)),
       rs_given = rs_given s @ (case asked lk now org audience (rs_cache s) of
         Some addrs \<Rightarrow> [(now', (org, audience_key audience), addrs)] | None \<Rightarrow> [])\<rparr>"
| Invalidate: "recipient_step s (s\<lparr>rs_cache := invalidate_org org (rs_cache s)\<rparr>)"
| Clear: "recipient_step s (s\<lparr>rs_cache := clear_cache (rs_cache s)\<rparr>)"

inductive_cases recipient_stepE: "recipient_step s s'"

definition cache_explained :: "recipient_sys \<Rightarrow> bool" where
  "cache_explained s \<longleftrightarrow>
     (\<forall>k x addrs. rs_cache s k = Some (x, addrs) \<longrightarrow> (x - CACHE_TTL, k, addrs) \<in> set (rs_given s))"

lemma recipient_emails_cases:
  assumes "lk_local_admin_email lk = None"
  shows "recipient_emails lk now now' org audience c =
    (case c (org, audience_key audience) of
       Some (x, addrs) \<Rightarrow>
         if x > now then (addrs, c)
         else (case asked lk now org audience c of
             Some addrs \<Rightarrow> (addrs, c((org, audience_key audience) \<mapsto> (now' + CACHE_TTL, addrs))) | None \<Rightarrow> ([], c))
     | None \<Rightarrow> (case asked lk now org audience c of
         Some addrs \<Rightarrow> (addrs, c((org, audience_key audience) \<mapsto> (now' + CACHE_TTL, addrs))) | None \<Rightarrow> ([], c)))"
  using assms by (auto simp: recipient_emails_def asked_def audience_key_def Let_def split: option.splits)

lemma cache_explained_step:
  assumes "recipient_step s s'" "cache_explained s"
  shows "cache_explained s'"
  using assms(1)
proof cases
  case (Ask lk now now' org audience)
  show ?thesis
  proof (cases "lk_local_admin_email lk")
    case None
    show ?thesis
      using assms(2) unfolding Ask cache_explained_def recipient_emails_cases [OF None]
      by (auto split: option.splits if_splits)
  next
    case (Some e)
    then show ?thesis using assms(2) by (auto simp: Ask cache_explained_def recipient_emails_def asked_def)
  qed
next
  case (Invalidate org)
  then show ?thesis using assms(2) by (auto simp: cache_explained_def invalidate_org_def split: if_splits)
next
  case Clear
  then show ?thesis by (auto simp: cache_explained_def clear_cache_def)
qed

lemma cache_explained_reach:
  assumes "recipient_step\<^sup>*\<^sup>* \<lparr>rs_cache = Map.empty, rs_given = []\<rparr> s"
  shows "cache_explained s"
  using assms by (induction rule: rtranclp_induct) (auto simp: cache_explained_def [of "\<lparr>rs_cache = Map.empty, rs_given = []\<rparr>"] intro: cache_explained_step)

section \<open>Properties\<close>

text \<open>
  What Clerk's answer becomes: every eligible member with an address is mailed (admins only for
  the audience \<open>admin\<close>), no address twice whatever its case, and nobody else.
\<close>

theorem recipients_of_members:
  assumes "fetch_from_clerk lk org audience = Some addrs"
  shows "\<exists>body. (\<exists>url text. client_get lk url = Some text \<and> lk_json lk text = Some body) \<and>
    lk_lower lk ` set addrs =
      {lk_lower lk e |e m. m \<in> set (members_of body) \<and> eligible audience m \<and> extract_email m = Some e} \<and>
    (\<forall>a \<in> set addrs. \<exists>m \<in> set (members_of body). eligible audience m \<and> extract_email m = Some a) \<and>
    distinct (map (lk_lower lk) addrs)"
proof -
  obtain url raw body where b: "client_get lk url = Some raw" "lk_json lk raw = Some body"
    "addrs = first_occurrences (lk_lower lk) {} (addresses_of audience (members_of body))"
    using fetch_from_clerk_Some [OF assms] by blast
  have s: "set (addresses_of audience (members_of body)) =
      {e. \<exists>m \<in> set (members_of body). eligible audience m \<and> extract_email m = Some e}"
    by (auto simp: addresses_of_def List.map_filter_def) force
  show ?thesis
    using b first_occurrences_set [of "lk_lower lk" "{}" "addresses_of audience (members_of body)"]
      first_occurrences_distinct [of "lk_lower lk" "{}" "addresses_of audience (members_of body)"]
      first_occurrences_from [of _ "lk_lower lk" "{}" "addresses_of audience (members_of body)"]
    by (intro exI [of _ body]) (auto simp: s)
qed


definition sample_lookup :: lookup where
  "sample_lookup =
     \<lparr>lk_build = \<lambda>ss. Some (concat ss), lk_get = \<lambda>_ _ _. Response 200 None ''b'',
      lk_json = \<lambda>_. Some (Object [(''data'', Array
        [Object [(''role'', String ''org:admin''), (''public_user_data'', Object [(''identifier'', String ''A@x.y'')])],
         Object [(''role'', String ''admin''), (''public_user_data'', Object [(''identifier'', String ''a@x.y'')])],
         Object [(''role'', String ''org:member''), (''public_user_data'', Object [(''identifier'', String ''m@x.y'')])]])]),
      lk_clerk_secret = [], lk_local_admin_email = None, lk_lower = to_lowercase\<rparr>"

lemma sample_fetch: "fetch_from_clerk sample_lookup ''o'' ''admin'' = Some [''A@x.y'']"
  by code_simp

lemma recipients_of_members_witness: "distinct (map to_lowercase [''A@x.y''])"
  using recipients_of_members [OF sample_fetch] by (auto simp: sample_lookup_def)


text \<open>
  A lookup in flight while its organisation is invalidated stores its older answer afterwards, and it
  is served until it expires.
\<close>

lemma late_answer_survives_invalidation:
  assumes "lk_local_admin_email lk = None" "now < stored + CACHE_TTL"
  shows "fst (recipient_emails lk now now' org ''all''
    ((invalidate_org org c)((org, ''all'') \<mapsto> (stored + CACHE_TTL, addrs)))) = addrs"
  using assms by (simp add: recipient_emails_def Let_def)

end
