(* ===== verification/PyDatetime.thy ===== *)
theory PyDatetime
  imports Utf8
begin

text \<open>
  \<^verbatim>\<open>backend-rs/src/pydatetime.rs\<close>: \<open>datetime.fromisoformat\<close> as CPython's C code has it, and the
  formatter \<open>iso_naive\<close> of \<^verbatim>\<open>backend-rs/src/models.rs\<close>. Reads past the end of the text give 0, the
  terminator. The return codes of the C are kept; where the Rust would panic (an index below
  zero, an index past a table, an \<open>expect\<close>) the model has the value \<open>Panic\<close>, and it is proved
  that it is never reached. The proleptic calendar is the \<open>chrono\<close> crate's: \<open>cal_day\<close> is
  \<open>NaiveDate::from_ymd_opt\<close> as a day number, \<open>cal_civil\<close> reads a day number back and
  \<open>cal_weekday\<close> counts from Monday. A naive timestamp is a number of microseconds, day number
  times the day's length plus the time of day.
\<close>

record calendar =
  cal_day :: "int \<Rightarrow> int \<Rightarrow> int \<Rightarrow> int option"
  cal_civil :: "int \<Rightarrow> int \<times> int \<times> int"
  cal_weekday :: "int \<Rightarrow> int"

datatype py_date_error = ValueError | OverflowError | PanicError

datatype fail = Code int | Panic

definition DAY_US :: int where "DAY_US = 86400000000"

section \<open>The scanner\<close>

definition byte_at :: "string \<Rightarrow> nat \<Rightarrow> nat" where
  "byte_at s i = (if i < length s then of_char (s ! i) else 0)"

definition is_digit_byte :: "nat \<Rightarrow> bool" where
  "is_digit_byte c \<longleftrightarrow> 48 \<le> c \<and> c \<le> 57"

fun parse_digits :: "string \<Rightarrow> nat \<Rightarrow> int \<Rightarrow> nat \<Rightarrow> (nat \<times> int) option" where
  "parse_digits s p v 0 = Some (p, v)"
| "parse_digits s p v (Suc n) =
     (if is_digit_byte (byte_at s p) then parse_digits s (p + 1) (v * 10 + int (byte_at s p - 48)) n else None)"

definition is_leap :: "int \<Rightarrow> bool" where
  "is_leap y \<longleftrightarrow> y mod 4 = 0 \<and> (y mod 100 \<noteq> 0 \<or> y mod 400 = 0)"

definition weekday_of :: "calendar \<Rightarrow> int \<Rightarrow> int \<Rightarrow> int \<Rightarrow> int" where
  "weekday_of cal y m d = (case cal_day cal y m d of Some n \<Rightarrow> cal_weekday cal n | None \<Rightarrow> 0)"

definition iso_to_ymd :: "calendar \<Rightarrow> int \<Rightarrow> int \<Rightarrow> int \<Rightarrow> fail + int \<times> int \<times> int" where
  "iso_to_ymd cal iso_year iso_week iso_day =
     (if \<not> (1 \<le> iso_year \<and> iso_year \<le> 9999) then Inl (Code (- 4))
      else if (iso_week \<le> 0 \<or> iso_week \<ge> 53) \<and>
        \<not> (iso_week = 53 \<and>
           (let fw = weekday_of cal iso_year 1 1 in fw = 3 \<or> fw = 2 \<and> is_leap iso_year))
      then Inl (Code (- 2))
      else if iso_day \<le> 0 \<or> iso_day \<ge> 8 then Inl (Code (- 3))
      else case cal_day cal iso_year 1 1 of
          None \<Rightarrow> Inl Panic
        | Some jan1 \<Rightarrow>
            (let first_weekday = cal_weekday cal jan1;
                 week1_monday = jan1 - first_weekday + (if first_weekday > 3 then 7 else 0)
             in Inr (cal_civil cal (week1_monday + ((iso_week - 1) * 7 + iso_day - 1)))))"

text \<open>\<open>len\<close> is the place of the separator; only the branch for weeks asks for it.\<close>

definition parse_iso_week :: "calendar \<Rightarrow> string \<Rightarrow> int \<Rightarrow> int \<Rightarrow> bool \<Rightarrow> nat \<Rightarrow> fail + int \<times> int \<times> int" where
  "parse_iso_week cal s len year uses_separator p =
     (case parse_digits s p 0 2 of
        None \<Rightarrow> Inl (Code (- 3))
      | Some (p, iso_week) \<Rightarrow>
          (let finish = (\<lambda>iso_day. case iso_to_ymd cal year iso_week iso_day of
                 Inr ymd \<Rightarrow> Inr ymd
               | Inl (Code rv) \<Rightarrow> Inl (Code (- 3 + rv))
               | Inl Panic \<Rightarrow> Inl Panic)
           in if len < 0 \<or> int p < len then
                if uses_separator \<and> byte_at s p \<noteq> 45 then Inl (Code (- 2))
                else (case parse_digits s (if uses_separator then p + 1 else p) 0 1 of
                        None \<Rightarrow> Inl (Code (- 4))
                      | Some (_, iso_day) \<Rightarrow> finish iso_day)
              else finish 1))"

definition parse_isoformat_date :: "calendar \<Rightarrow> string \<Rightarrow> int \<Rightarrow> fail + int \<times> int \<times> int" where
  "parse_isoformat_date cal s len =
     (case parse_digits s 0 0 4 of
        None \<Rightarrow> Inl (Code (- 1))
      | Some (p, year) \<Rightarrow>
          (let uses_separator = (byte_at s p = 45);
               p = (if uses_separator then p + 1 else p)
           in if byte_at s p = 87 then parse_iso_week cal s len year uses_separator (p + 1)
              else
                (case parse_digits s p 0 2 of
                   None \<Rightarrow> Inl (Code (- 1))
                 | Some (p, month) \<Rightarrow>
                     if uses_separator \<and> byte_at s p \<noteq> 45 then Inl (Code (- 2))
                     else (case parse_digits s (if uses_separator then p + 1 else p) 0 2 of
                             None \<Rightarrow> Inl (Code (- 1))
                           | Some (_, day) \<Rightarrow> Inr (year, month, day)))))"

text \<open>
  The loop over hours, minutes and seconds: it fails, it reaches the end (with the flag whether
  something follows), or it goes on to the fraction at the place given.
\<close>

datatype hms = HmsFailed | HmsBad | HmsEnd int "int list" | HmsFraction nat "int list"

fun hms_loop :: "string \<Rightarrow> nat \<Rightarrow> nat \<Rightarrow> nat \<Rightarrow> bool \<Rightarrow> int list \<Rightarrow> hms" where
  "hms_loop s e 0 p has_separator vals = HmsFraction p vals"
| "hms_loop s e (Suc n) p has_separator vals =
     (case parse_digits s p 0 2 of
        None \<Rightarrow> HmsFailed
      | Some (q, v) \<Rightarrow>
          (let c = byte_at s q;
               has_separator = (if vals = [] then c = 58 else has_separator);
               vals = vals @ [v]
           in if q + 1 \<ge> e then HmsEnd (if c \<noteq> 0 then 1 else 0) vals
              else if has_separator \<and> c = 58 then hms_loop s e n (q + 1) has_separator vals
              else if c = 46 \<or> c = 44 then HmsFraction (q + 1) vals
              else if \<not> has_separator then hms_loop s e n q has_separator vals
              else HmsBad))"

definition field :: "int list \<Rightarrow> nat \<Rightarrow> int" where
  "field vals i = (if i < length vals then vals ! i else 0)"

text \<open>The table \<open>CORRECTION\<close>; an index outside it is a panic.\<close>

definition CORRECTION :: "int list" where
  "CORRECTION = [100000, 10000, 1000, 100, 10]"

definition skip_digit_bytes :: "string \<Rightarrow> nat \<Rightarrow> nat" where
  "skip_digit_bytes s p = p + length (takeWhile (\<lambda>c. is_digit_byte (of_char c)) (drop p s))"

definition parse_hh_mm_ss_ff :: "string \<Rightarrow> nat \<Rightarrow> nat \<Rightarrow> fail + int \<times> (int \<times> int \<times> int \<times> int)" where
  "parse_hh_mm_ss_ff s start e =
     (case hms_loop s e 3 start True [] of
        HmsFailed \<Rightarrow> Inl (Code (- 3))
      | HmsBad \<Rightarrow> Inl (Code (- 4))
      | HmsEnd rv vals \<Rightarrow> Inr (rv, field vals 0, field vals 1, field vals 2, 0)
      | HmsFraction p vals \<Rightarrow>
          if e < p then Inl Panic
          else
            (let to_parse = min (e - p) 6
             in case parse_digits s p 0 to_parse of
                  None \<Rightarrow> Inl (Code (- 3))
                | Some (q, us) \<Rightarrow>
                    if to_parse < 6 \<and> to_parse = 0 then Inl Panic
                    else
                      (let us = (if to_parse < 6 then us * CORRECTION ! (to_parse - 1) else us);
                           q = skip_digit_bytes s q
                       in Inr (if byte_at s q \<noteq> 0 then 1 else 0, field vals 0, field vals 1, field vals 2, us))))"

function find_tz :: "string \<Rightarrow> nat \<Rightarrow> nat \<Rightarrow> nat" where
  "find_tz s p p_end =
     (if byte_at s p = 90 \<or> byte_at s p = 43 \<or> byte_at s p = 45 then p
      else if p + 1 \<ge> p_end then p + 1 else find_tz s (p + 1) p_end)"
  by pat_completeness auto
termination
  by (relation "measure (\<lambda>(s, p, p_end). p_end - p)") auto

declare find_tz.simps [simp del]

record time_parts =
  tp_hour :: int
  tp_minute :: int
  tp_second :: int
  tp_us :: int
  tp_tzoffset :: int
  tp_tzusec :: int

definition parse_isoformat_time :: "string \<Rightarrow> nat \<Rightarrow> nat \<Rightarrow> fail + int \<times> time_parts" where
  "parse_isoformat_time s start dtlen =
     (let p_end = start + dtlen;
          tz = find_tz s start p_end
      in case parse_hh_mm_ss_ff s start tz of
           Inl e \<Rightarrow> Inl e
         | Inr (rv, h, m, sec, us) \<Rightarrow>
             (let out = \<lparr>tp_hour = h, tp_minute = m, tp_second = sec, tp_us = us, tp_tzoffset = 0, tp_tzusec = 0\<rparr>
              in if tz = p_end then (if rv = 1 then Inl (Code (- 5)) else Inr (0, out))
                 else if byte_at s tz = 90 then
                   (if byte_at s (tz + 1) \<noteq> 0 then Inl (Code (- 5)) else Inr (1, out))
                 else
                   (let sign = (if byte_at s tz = 45 then - 1 else 1)
                    in case parse_hh_mm_ss_ff s (tz + 1) p_end of
                         Inl Panic \<Rightarrow> Inl Panic
                       | Inl (Code _) \<Rightarrow> Inl (Code (- 5))
                       | Inr (rv2, th, tm, ts, tus) \<Rightarrow>
                           if rv2 \<noteq> 0 then Inl (Code (- 5))
                           else Inr (1, out\<lparr>tp_tzoffset := sign * (th * 3600 + tm * 60 + ts), tp_tzusec := sign * tus\<rparr>))))"

definition find_separator :: "string \<Rightarrow> nat \<Rightarrow> int" where
  "find_separator s len =
     (if len = 7 then 7
      else if byte_at s 4 = 45 then
        (if byte_at s 5 = 87 then
           (if len < 8 then - 1
            else if len > 8 \<and> byte_at s 8 = 45 then
              (if len = 9 then - 1
               else if len > 10 \<and> is_digit_byte (byte_at s 10) then 8 else 10)
            else 8)
         else 10)
      else if byte_at s 4 = 87 then
        (let idx = (if len \<le> 7 then 7 else min len (skip_digit_bytes s 7))
         in if idx < 9 then int idx else if idx mod 2 = 0 then 7 else 8)
      else 8)"

section \<open>The result\<close>

text \<open>The length in bytes of the separator, by its first byte.\<close>

definition separator_width :: "nat \<Rightarrow> nat" where
  "separator_width lead =
     (if lead < 0x80 then 1 else if 0xE0 \<le> lead \<and> lead < 0xF0 then 3 else if 0xF0 \<le> lead then 4 else 2)"

record iso_datetime =
  iso_naive_us :: int
  iso_offset_us :: "int option"

definition time_default :: time_parts where
  "time_default = \<lparr>tp_hour = 0, tp_minute = 0, tp_second = 0, tp_us = 0, tp_tzoffset = 0, tp_tzusec = 0\<rparr>"

definition time_part :: "string \<Rightarrow> int \<Rightarrow> fail + int \<times> time_parts" where
  "time_part s separator =
     (if int (length s) > separator then
        if separator < 0 then Inl Panic
        else
          (let p = nat separator;
               p = p + separator_width (byte_at s p)
           in parse_isoformat_time s p (length s - p))
      else Inr (0, time_default))"

definition offset_of :: "int \<Rightarrow> time_parts \<Rightarrow> py_date_error + int option" where
  "offset_of rv time =
     (if rv = 1 then
        if tp_tzoffset time = 0 then Inr (Some 0)
        else
          (let t = tp_tzoffset time * 1000000 + tp_tzusec time
           in if \<bar>t\<bar> \<ge> DAY_US then Inl ValueError else Inr (Some t))
      else Inr None)"

definition in_range :: "int \<Rightarrow> int \<Rightarrow> bool" where
  "in_range v hi \<longleftrightarrow> 0 \<le> v \<and> v \<le> hi"

definition naive_of :: "calendar \<Rightarrow> int \<Rightarrow> int \<Rightarrow> int \<Rightarrow> time_parts \<Rightarrow> py_date_error + int" where
  "naive_of cal year month day time =
     (case (if 0 \<le> month \<and> 0 \<le> day \<and> 1 \<le> year \<and> year \<le> 9999 then cal_day cal year month day else None) of
        None \<Rightarrow> Inl ValueError
      | Some date \<Rightarrow>
          if in_range (tp_hour time) 23 \<and> in_range (tp_minute time) 59 \<and> in_range (tp_second time) 59 \<and>
             in_range (tp_us time) 999999
          then Inr (date * DAY_US + (tp_hour time * 3600 + tp_minute time * 60 + tp_second time) * 1000000 + tp_us time)
          else Inl ValueError)"

definition fail_error :: "fail \<Rightarrow> py_date_error" where
  "fail_error e = (case e of Code _ \<Rightarrow> ValueError | Panic \<Rightarrow> PanicError)"

definition fromisoformat :: "calendar \<Rightarrow> string \<Rightarrow> py_date_error + iso_datetime" where
  "fromisoformat cal s =
     (if length (chars s) < 7 then Inl ValueError
      else
        (let separator = find_separator s (length s)
         in case parse_isoformat_date cal s separator of
              Inl e \<Rightarrow> Inl (fail_error e)
            | Inr (year, month, day) \<Rightarrow>
                (case time_part s separator of
                   Inl e \<Rightarrow> Inl (fail_error e)
                 | Inr (rv, time) \<Rightarrow>
                     (case offset_of rv time of
                        Inl e \<Rightarrow> Inl e
                      | Inr offset \<Rightarrow>
                          (case naive_of cal year month day time of
                             Inl e \<Rightarrow> Inl e
                           | Inr naive \<Rightarrow> Inr \<lparr>iso_naive_us = naive, iso_offset_us = offset\<rparr>)))))"

definition year_of :: "calendar \<Rightarrow> int \<Rightarrow> int" where
  "year_of cal t = fst (cal_civil cal (t div DAY_US))"

definition to_naive_utc :: "calendar \<Rightarrow> iso_datetime \<Rightarrow> py_date_error + int" where
  "to_naive_utc cal dt =
     (case iso_offset_us dt of
        None \<Rightarrow> Inr (iso_naive_us dt)
      | Some off \<Rightarrow>
          if off = 0 then Inr (iso_naive_us dt)
          else
            (let shifted = iso_naive_us dt - off
             in if 1 \<le> year_of cal shifted \<and> year_of cal shifted \<le> 9999 then Inr shifted else Inl OverflowError))"

section \<open>The formatter\<close>

definition zero_pad :: "nat \<Rightarrow> int \<Rightarrow> string" where
  "zero_pad n v = (let s = show_int v in replicate (n - length s) (CHR ''0'') @ s)"

definition iso_naive :: "calendar \<Rightarrow> int \<Rightarrow> string" where
  "iso_naive cal t =
     (let (y, m, d) = cal_civil cal (t div DAY_US);
          us = t mod DAY_US;
          secs = us div 1000000;
          micros = us mod 1000000;
          whole = zero_pad 4 y @ ''-'' @ zero_pad 2 m @ ''-'' @ zero_pad 2 d @ ''T'' @
            zero_pad 2 (secs div 3600) @ '':'' @ zero_pad 2 (secs div 60 mod 60) @ '':'' @ zero_pad 2 (secs mod 60)
      in if micros = 0 then whole else whole @ ''.'' @ zero_pad 6 micros)"

section \<open>No panic\<close>

lemma length_chars: "length (chars s) \<le> length s"
proof (induction s rule: chars.induct)
  case (2 c s)
  then show ?case by (auto simp: chars.simps Let_def)
qed simp

lemma hms_fraction_before:
  "hms_loop s e n p hs vals = HmsFraction q vs \<Longrightarrow> 0 < n \<or> p < e \<Longrightarrow> q < e"
proof (induction n arbitrary: p hs vals)
  case 0
  then show ?case by simp
next
  case (Suc n)
  then show ?case by (auto simp: Let_def split: option.splits prod.splits if_splits)
qed

lemma parse_hh_mm_ss_ff_no_panic: "parse_hh_mm_ss_ff s start e \<noteq> Inl Panic"
proof
  assume a: "parse_hh_mm_ss_ff s start e = Inl Panic"
  then obtain q vs where "hms_loop s e 3 start True [] = HmsFraction q vs" "e \<le> q"
    by (auto simp: parse_hh_mm_ss_ff_def Let_def split: hms.splits option.splits prod.splits if_splits)
  then show False using hms_fraction_before [of s e 3 start True "[]" q vs] by simp
qed

lemma parse_isoformat_time_no_panic: "parse_isoformat_time s p n \<noteq> Inl Panic"
  using parse_hh_mm_ss_ff_no_panic
  by (auto simp: parse_isoformat_time_def Let_def split: sum.splits prod.splits if_splits fail.splits)

definition calendar_covers :: "calendar \<Rightarrow> bool" where
  "calendar_covers cal \<longleftrightarrow> (\<forall>y. 1 \<le> y \<and> y \<le> 9999 \<longrightarrow> cal_day cal y 1 1 \<noteq> None)"

lemma parse_isoformat_date_no_panic:
  assumes "calendar_covers cal"
  shows "parse_isoformat_date cal s len \<noteq> Inl Panic"
proof -
  have "iso_to_ymd cal y w d \<noteq> Inl Panic" for y w d
    using assms by (auto simp: iso_to_ymd_def calendar_covers_def Let_def split: option.splits)
  then show ?thesis
    by (auto simp: parse_isoformat_date_def parse_iso_week_def Let_def
        split: option.splits prod.splits if_splits sum.splits fail.splits)
qed

lemma parse_digits_Some: "parse_digits s p v n = Some (q, w) \<Longrightarrow> q = p + n"
proof (induction n arbitrary: p v)
  case (Suc n)
  then show ?case using Suc.IH by (fastforce split: if_splits)
qed simp

text \<open>Where no separator can be placed, the date has no last digit.\<close>

lemma no_separator_no_date:
  assumes "find_separator s (length s) < 0" "7 \<le> length s"
  shows "\<exists>e. parse_isoformat_date cal s (find_separator s (length s)) = Inl e"
proof -
  have s: "find_separator s (length s) = - 1" "byte_at s 4 = 45" "byte_at s 5 = 87" "length s = 9"
    using assms by (auto simp: find_separator_def Let_def split: if_splits)
  have stop: "byte_at s 9 = 0" using s(4) by (simp add: byte_at_def)
  show ?thesis
  proof (cases "parse_digits s 0 0 4")
    case None
    then show ?thesis by (simp add: parse_isoformat_date_def)
  next
    case (Some r)
    then obtain y where y: "parse_digits s 0 0 4 = Some (4, y)"
      using parse_digits_Some [of s 0 0 4] by (cases r) auto
    show ?thesis
    proof (cases "parse_digits s 6 0 2")
      case None
      then show ?thesis using y s by (simp add: parse_isoformat_date_def parse_iso_week_def)
    next
      case (Some r)
      then obtain w where "parse_digits s 6 0 2 = Some (8, w)"
        using parse_digits_Some [of s 6 0 2] by (cases r) auto
      then show ?thesis using y s(1-3) stop
        by (auto simp: parse_isoformat_date_def parse_iso_week_def Let_def is_digit_byte_def)
    qed
  qed
qed

lemma fromisoformat_no_panic:
  assumes "calendar_covers cal"
  shows "fromisoformat cal s \<noteq> Inl PanicError"
proof
  assume a: "fromisoformat cal s = Inl PanicError"
  then have len: "7 \<le> length s" using length_chars [of s] by (auto simp: fromisoformat_def split: if_splits)
  define sep where "sep = find_separator s (length s)"
  have off: "offset_of rv tm \<noteq> Inl PanicError" "naive_of cal y m d tm \<noteq> Inl PanicError" for rv tm y m d
    by (auto simp: offset_of_def naive_of_def Let_def split: option.splits)
  consider "parse_isoformat_date cal s sep = Inl Panic"
    | ymd where "parse_isoformat_date cal s sep = Inr ymd" "time_part s sep = Inl Panic"
    using a off
    by (auto simp: fromisoformat_def sep_def [symmetric] Let_def fail_error_def
        split: if_splits sum.splits prod.splits fail.splits)
  then show False
  proof cases
    case 1
    then show False using parse_isoformat_date_no_panic [OF assms] by blast
  next
    case 2
    then have "sep < 0"
      using parse_isoformat_time_no_panic by (auto simp: time_part_def Let_def split: if_splits)
    then show False using no_separator_no_date [OF _ len, of cal] 2(1) by (auto simp: sep_def)
  qed
qed

section \<open>Reading back what the formatter writes\<close>

fun padded :: "nat \<Rightarrow> nat \<Rightarrow> string" where
  "padded 0 v = []"
| "padded (Suc n) v = padded n (v div 10) @ [digit_char (v mod 10)]"

lemma length_padded [simp]: "length (padded n v) = n"
  by (induction n arbitrary: v) simp_all

lemma digit_char_zero: "digit_char 0 = CHR ''0''"
  by code_simp

lemma padded_zero: "padded n 0 = replicate n (CHR ''0'')"
  by (induction n) (simp_all add: replicate_append_same digit_char_zero)

lemma padded_digits: "c \<in> set (padded n v) \<Longrightarrow> is_digit_byte (of_char c)"
  by (induction n arbitrary: v) (auto simp: is_digit_byte_def of_char_digit_char)

lemma zero_pad_nat: "0 < n \<Longrightarrow> v < 10 ^ n \<Longrightarrow> replicate (n - length (show_nat v)) (CHR ''0'') @ show_nat v = padded n v"
proof (induction n arbitrary: v)
  case (Suc n)
  show ?case
  proof (cases "v < 10")
    case True
    then show ?thesis by (simp add: show_nat.simps [of v] padded_zero)
  next
    case False
    then have "0 < n" using Suc.prems by (cases n) auto
    then show ?thesis using Suc False by (simp add: show_nat.simps [of v] less_mult_imp_div_less mult.commute)
  qed
qed simp

lemma zero_pad_padded: "0 \<le> v \<Longrightarrow> v < 10 ^ n \<Longrightarrow> 0 < n \<Longrightarrow> zero_pad n v = padded n (nat v)"
  using zero_pad_nat [of n "nat v"] by (simp add: zero_pad_def show_int_def Let_def nat_less_iff)

lemma byte_at_append: "byte_at (pre @ x) (length pre + k) = byte_at x k"
  by (simp add: byte_at_def)

lemma byte_here: "byte_at (pre @ c # post) (length pre) = of_char c"
  by (simp add: byte_at_def)

lemma parse_digits_add:
  "parse_digits s p v (m + n) =
     (case parse_digits s p v m of None \<Rightarrow> None | Some (q, w) \<Rightarrow> parse_digits s q w n)"
  by (induction m arbitrary: p v) simp_all

lemma parse_padded:
  "v < 10 ^ n \<Longrightarrow> parse_digits (pre @ padded n v @ post) (length pre) a n = Some (length pre + n, a * 10 ^ n + int v)"
proof (induction n arbitrary: v post)
  case (Suc n)
  let ?s = "pre @ padded n (v div 10) @ digit_char (v mod 10) # post"
  have b: "byte_at ?s (length pre + n) = 48 + v mod 10"
    using byte_at_append [of pre "padded n (v div 10) @ digit_char (v mod 10) # post" n]
      byte_at_append [of "padded n (v div 10)" "digit_char (v mod 10) # post" 0]
    by (simp add: byte_at_def of_char_digit_char)
  have "parse_digits ?s (length pre) a n = Some (length pre + n, a * 10 ^ n + int (v div 10))"
    using Suc.IH [of "v div 10" "digit_char (v mod 10) # post"] Suc.prems
    by (simp add: less_mult_imp_div_less mult.commute)
  moreover have "int v = int (v div 10) * 10 + int (v mod 10)" by presburger
  ultimately show ?case
    using parse_digits_add [of ?s "length pre" a n 1] b
    by (simp add: is_digit_byte_def algebra_simps)
qed simp

lemma find_tz_none:
  assumes "p < e" "\<And>i. p \<le> i \<Longrightarrow> i < e \<Longrightarrow> byte_at s i \<notin> {90, 43, 45}"
  shows "find_tz s p e = e"
  using assms
proof (induction s p e rule: find_tz.induct)
  case (1 s p e)
  then show ?case by (cases "p + 1 < e") (simp_all add: find_tz.simps [of s p e])
qed

lemma byte_at_in:
  assumes "p \<le> i" "i < length s"
  shows "\<exists>c \<in> set (drop p s). byte_at s i = of_char c"
  using assms by (intro bexI [of _ "s ! i"]) (auto simp: byte_at_def in_set_conv_nth intro!: exI [of _ "i - p"])

definition date_text :: "nat \<Rightarrow> nat \<Rightarrow> nat \<Rightarrow> string" where
  "date_text y m d = padded 4 y @ CHR ''-'' # padded 2 m @ CHR ''-'' # padded 2 d"

definition clock_text :: "nat \<Rightarrow> nat \<Rightarrow> nat \<Rightarrow> string" where
  "clock_text h mi sec = padded 2 h @ CHR '':'' # padded 2 mi @ CHR '':'' # padded 2 sec"

lemma read_date:
  assumes "y < 10000" "m < 100" "d < 100"
  shows "parse_isoformat_date cal (date_text y m d @ rest) len = Inr (int y, int m, int d)"
proof -
  let ?s = "date_text y m d @ rest"
  have "byte_at ?s 4 = 45"
    using byte_here [of "padded 4 y"] by (simp add: date_text_def)
  moreover have "byte_at ?s 7 = 45"
    using byte_here [of "padded 4 y @ CHR ''-'' # padded 2 m"] by (simp add: date_text_def)
  moreover have "byte_at ?s 5 \<noteq> 87"
    using byte_here [of "padded 4 y @ ''-''" "digit_char (m div 10 mod 10)"]
    by (simp add: date_text_def numeral_2_eq_2 of_char_digit_char)
  moreover have "parse_digits ?s 0 0 4 = Some (4, int y)"
    using parse_padded [of y 4 "[]" _ 0] assms by (simp add: date_text_def)
  moreover have "parse_digits ?s 5 0 2 = Some (7, int m)"
    using parse_padded [of m 2 "padded 4 y @ ''-''" _ 0] assms by (simp add: date_text_def)
  moreover have "parse_digits ?s 8 0 2 = Some (10, int d)"
    using parse_padded [of d 2 "padded 4 y @ CHR ''-'' # padded 2 m @ ''-''" _ 0] assms by (simp add: date_text_def)
  ultimately show ?thesis by (simp add: parse_isoformat_date_def)
qed


lemma read_clock:
  assumes "h < 100" "mi < 100" "sec < 100" "length pre = p"
    and s_def: "s = pre @ clock_text h mi sec @ rest"
  shows "parse_digits s p 0 2 = Some (p + 2, int h)" "byte_at s (p + 2) = 58"
    "parse_digits s (p + 3) 0 2 = Some (p + 5, int mi)" "byte_at s (p + 5) = 58"
    "parse_digits s (p + 6) 0 2 = Some (p + 8, int sec)"
proof -
  show "parse_digits s p 0 2 = Some (p + 2, int h)"
    using parse_padded [of h 2 pre _ 0] assms by (simp add: clock_text_def)
  show "byte_at s (p + 2) = 58"
    using byte_here [of "pre @ padded 2 h"] assms(4) by (simp add: clock_text_def s_def)
  show "parse_digits s (p + 3) 0 2 = Some (p + 5, int mi)"
    using parse_padded [of mi 2 "pre @ padded 2 h @ '':''" _ 0] assms by (simp add: clock_text_def)
  show "byte_at s (p + 5) = 58"
    using byte_here [of "pre @ padded 2 h @ CHR '':'' # padded 2 mi"] assms(4) by (simp add: clock_text_def s_def)
  show "parse_digits s (p + 6) 0 2 = Some (p + 8, int sec)"
    using parse_padded [of sec 2 "pre @ padded 2 h @ CHR '':'' # padded 2 mi @ '':''" _ 0] assms
    by (simp add: clock_text_def)
qed

lemma no_zone:
  assumes "length pre = p" "tail = [] \<or> tail = CHR ''.'' # padded 6 us"
  shows "find_tz (pre @ clock_text h mi sec @ tail) p (p + length (clock_text h mi sec @ tail)) =
    p + length (clock_text h mi sec @ tail)"
proof (rule find_tz_none)
  show "p < p + length (clock_text h mi sec @ tail)" by (simp add: clock_text_def)
  fix i assume i: "p \<le> i" "i < p + length (clock_text h mi sec @ tail)"
  let ?s = "pre @ clock_text h mi sec @ tail"
  obtain c where c: "c \<in> set (clock_text h mi sec @ tail)" "byte_at ?s i = of_char c"
    using byte_at_in [of p i ?s] i assms(1) by auto
  have "is_digit_byte (of_char c) \<or> c = CHR '':'' \<or> c = CHR ''.''"
    using c(1) assms(2) padded_digits by (fastforce simp: clock_text_def)
  then show "byte_at ?s i \<notin> {90, 43, 45}" using c(2) by (auto simp: is_digit_byte_def)
qed

lemma read_time:
  assumes "h < 100" "mi < 100" "sec < 100" "length pre = p"
    and "tail = [] \<and> us = 0 \<or> tail = CHR ''.'' # padded 6 us \<and> us < 1000000"
    and s_def: "s = pre @ clock_text h mi sec @ tail"
  shows "parse_isoformat_time s p (length (clock_text h mi sec @ tail)) =
    Inr (0, \<lparr>tp_hour = int h, tp_minute = int mi, tp_second = int sec, tp_us = int us, tp_tzoffset = 0, tp_tzusec = 0\<rparr>)"
proof -
  note r = read_clock [OF assms(1-4) s_def]
  let ?e = "p + length (clock_text h mi sec @ tail)"
  have tz: "find_tz s p ?e = ?e" unfolding s_def using no_zone assms(4,5) by blast
  have len: "?e = p + 8 + length tail" by (simp add: clock_text_def)
  have end_zero: "byte_at s ?e = 0" using assms(4) by (simp add: byte_at_def s_def)
  have "parse_hh_mm_ss_ff s p ?e = Inr (0, int h, int mi, int sec, int us)"
  proof (cases "tail = []")
    case True
    then show ?thesis using r end_zero len assms(5)
      by (simp add: parse_hh_mm_ss_ff_def numeral_3_eq_3 field_def Let_def add.commute [of 6 p] add.commute [of 9 p])
  next
    case False
    then have t: "tail = CHR ''.'' # padded 6 us" "us < 1000000" using assms(5) by auto
    have dot: "byte_at s (p + 8) = 46"
      using byte_here [of "pre @ clock_text h mi sec"] assms(4) by (simp add: t s_def clock_text_def)
    have us: "parse_digits s (p + 9) 0 6 = Some (p + 15, int us)"
      using parse_padded [of us 6 "pre @ clock_text h mi sec @ ''.''" "[]" 0] assms(4) t
      by (simp add: s_def clock_text_def)
    have "skip_digit_bytes s (p + 15) = p + 15"
      using assms(4) t by (simp add: skip_digit_bytes_def s_def clock_text_def)
    then show ?thesis using r end_zero len t dot us
      by (simp add: parse_hh_mm_ss_ff_def numeral_3_eq_3 field_def Let_def add.commute [of 6 p] add.commute [of 9 p])
  qed
  then show ?thesis using tz by (simp add: parse_isoformat_time_def Let_def)
qed


text \<open>The calendar reads back the dates it writes, in the years \<open>datetime\<close> has.\<close>

definition calendar_sound :: "calendar \<Rightarrow> bool" where
  "calendar_sound cal \<longleftrightarrow>
     (\<forall>n y m d. cal_civil cal n = (y, m, d) \<and> 1 \<le> y \<and> y \<le> 9999 \<longrightarrow>
        1 \<le> m \<and> m \<le> 12 \<and> 1 \<le> d \<and> d \<le> 31 \<and> cal_day cal y m d = Some n)"

lemma calendar_soundD:
  assumes "calendar_sound cal" "cal_civil cal n = (y, m, d)" "1 \<le> y" "y \<le> 9999"
  shows "1 \<le> m" "m \<le> 12" "1 \<le> d" "d \<le> 31" "cal_day cal y m d = Some n"
  using assms(1) [unfolded calendar_sound_def, rule_format, of n y m d] assms(2-4) by simp_all

lemma chars_all_ascii: "\<forall>c \<in> set s. of_char c < (128 :: nat) \<Longrightarrow> length (chars s) = length s"
  by (induction s) (simp_all add: chars_ascii)

lemma padded_ascii: "c \<in> set (padded n v) \<Longrightarrow> of_char c < (128 :: nat)"
  using padded_digits by (fastforce simp: is_digit_byte_def)

lemma read_written:
  assumes "y < 10000" "m < 100" "d < 100" "h < 24" "mi < 60" "sec < 60"
    and tail: "tail = [] \<and> us = 0 \<or> tail = CHR ''.'' # padded 6 us \<and> us < 1000000"
    and day: "1 \<le> y" "cal_day cal (int y) (int m) (int d) = Some n"
  shows "fromisoformat cal (date_text y m d @ CHR ''T'' # clock_text h mi sec @ tail) =
    Inr \<lparr>iso_naive_us = n * DAY_US + (int h * 3600 + int mi * 60 + int sec) * 1000000 + int us, iso_offset_us = None\<rparr>"
    (is "fromisoformat cal ?s = _")
proof -
  have pre: "length (date_text y m d @ ''T'') = 11" "?s = (date_text y m d @ ''T'') @ clock_text h mi sec @ tail"
    by (simp_all add: date_text_def)
  have len: "length ?s = 11 + length (clock_text h mi sec @ tail)" "8 \<le> length (clock_text h mi sec @ tail)"
    by (simp_all add: date_text_def clock_text_def)
  have "\<forall>c \<in> set ?s. of_char c < (128 :: nat)"
    using tail padded_ascii by (auto simp: date_text_def clock_text_def)
  then have "\<not> length (chars ?s) < 7" using chars_all_ascii len by fastforce
  moreover have "find_separator ?s (length ?s) = 10"
  proof -
    have "byte_at ?s 4 = 45"
      using byte_here [of "padded 4 y"] by (simp add: date_text_def)
    moreover have "byte_at ?s 5 \<noteq> 87"
      using byte_here [of "padded 4 y @ ''-''" "digit_char (m div 10 mod 10)"]
      by (simp add: date_text_def numeral_2_eq_2 of_char_digit_char)
    ultimately show ?thesis using len by (simp add: find_separator_def)
  qed
  moreover have "time_part ?s 10 =
    Inr (0, \<lparr>tp_hour = int h, tp_minute = int mi, tp_second = int sec, tp_us = int us, tp_tzoffset = 0, tp_tzusec = 0\<rparr>)"
  proof -
    have "byte_at ?s 10 = 84"
      using byte_here [of "date_text y m d"] by (simp add: date_text_def)
    then show ?thesis
      using read_time [OF _ _ _ pre(1) tail pre(2)] assms(4-6) len
      by (simp add: time_part_def separator_width_def)
  qed
  moreover have "parse_isoformat_date cal ?s 10 = Inr (int y, int m, int d)"
    using read_date assms(1-3) by blast
  moreover have "us < 1000000" using tail by auto
  ultimately show ?thesis using assms
    by (simp add: fromisoformat_def Let_def offset_of_def naive_of_def in_range_def)
qed

lemma iso_naive_text:
  assumes "cal_civil cal (t div DAY_US) = (y, m, d)" "1 \<le> y" "y \<le> 9999" "1 \<le> m" "m \<le> 12" "1 \<le> d" "d \<le> 31"
  defines "secs \<equiv> nat (t mod DAY_US div 1000000)" and "us \<equiv> nat (t mod DAY_US mod 1000000)"
  shows "iso_naive cal t = date_text (nat y) (nat m) (nat d) @ CHR ''T'' #
      clock_text (secs div 3600) (secs div 60 mod 60) (secs mod 60) @
      (if us = 0 then [] else CHR ''.'' # padded 6 us)"
    and "secs < 86400" "us < 1000000" "t = t div DAY_US * DAY_US + int secs * 1000000 + int us"
proof -
  let ?secs = "t mod DAY_US div 1000000"
  have secs: "int secs = ?secs" "int us = t mod DAY_US mod 1000000"
    by (simp_all add: secs_def us_def DAY_US_def pos_imp_zdiv_nonneg_iff)
  have "0 \<le> t mod DAY_US" "t mod DAY_US < 86400000000" by (simp_all add: DAY_US_def)
  then have "?secs < 86400" by linarith
  then show s: "secs < 86400" using secs(1) by linarith
  show us: "us < 1000000" using secs(2) by (simp add: us_def nat_less_iff)
  show "t = t div DAY_US * DAY_US + int secs * 1000000 + int us"
    unfolding secs using div_mult_mod_eq [of t DAY_US] div_mult_mod_eq [of "t mod DAY_US" 1000000] by linarith
  have d2: "v < 100 \<Longrightarrow> zero_pad 2 (int v) = padded 2 v" for v using zero_pad_padded [of "int v" 2] by simp
  have d6: "zero_pad 6 (int us) = padded 6 us" using zero_pad_padded [of "int us" 6] us by simp
  have hms: "?secs div 3600 = int (secs div 3600)" "?secs div 60 mod 60 = int (secs div 60 mod 60)"
    "?secs mod 60 = int (secs mod 60)"
    unfolding secs(1) [symmetric] by (simp_all add: zdiv_int zmod_int)
  have "zero_pad 4 y = padded 4 (nat y)" "zero_pad 2 m = padded 2 (nat m)" "zero_pad 2 d = padded 2 (nat d)"
    using assms(2-7) by (simp_all add: zero_pad_padded)
  moreover have "secs div 3600 < 100" "secs div 60 mod 60 < 100" "secs mod 60 < 100"
    using s mod_less_divisor [of 60 "secs div 60"] mod_less_divisor [of 60 secs] by linarith+
  ultimately show "iso_naive cal t = date_text (nat y) (nat m) (nat d) @ CHR ''T'' #
      clock_text (secs div 3600) (secs div 60 mod 60) (secs mod 60) @
      (if us = 0 then [] else CHR ''.'' # padded 6 us)"
    unfolding iso_naive_def Let_def assms(1) prod.case hms secs(2) [symmetric]
    by (simp add: d2 d6 date_text_def clock_text_def)
qed

lemma fromisoformat_iso_naive:
  assumes "calendar_sound cal" "1 \<le> year_of cal t" "year_of cal t \<le> 9999"
  shows "fromisoformat cal (iso_naive cal t) = Inr \<lparr>iso_naive_us = t, iso_offset_us = None\<rparr>"
proof -
  obtain y m d where c: "cal_civil cal (t div DAY_US) = (y, m, d)" by (metis prod_cases3)
  then have y: "1 \<le> y" "y \<le> 9999" using assms by (simp_all add: year_of_def)
  note r = calendar_soundD [OF assms(1) c y]
  define secs us where "secs = nat (t mod DAY_US div 1000000)" and "us = nat (t mod DAY_US mod 1000000)"
  note w = iso_naive_text [OF c y r(1-4), folded secs_def us_def]
  have hms: "int (secs div 3600) * 3600 + int (secs div 60 mod 60) * 60 + int (secs mod 60) = int secs"
  proof -
    have "secs div 3600 = secs div 60 div 60" by (simp add: div_mult2_eq [symmetric])
    then have "secs div 3600 * 3600 + secs div 60 mod 60 * 60 + secs mod 60 = secs"
      using div_mult_mod_eq [of "secs div 60" 60] div_mult_mod_eq [of secs 60] by linarith
    from arg_cong [OF this, of int] show ?thesis by (simp only: of_nat_add of_nat_mult of_nat_numeral)
  qed
  have "secs div 3600 < 24" using w(2) by linarith
  then show ?thesis unfolding w(1)
    using read_written [of "nat y" "nat m" "nat d" "secs div 3600" "secs div 60 mod 60" "secs mod 60"
        "if us = 0 then [] else CHR ''.'' # padded 6 us" us cal "t div DAY_US"] y r w(3,4)
    by (simp add: hms)
qed

section \<open>The Gregorian calendar is one\<close>

definition year_start :: "int \<Rightarrow> int" where
  "year_start y = 365 * (y - 1) + (y - 1) div 4 - (y - 1) div 100 + (y - 1) div 400"

definition month_lengths :: "int \<Rightarrow> int list" where
  "month_lengths y = [31, if is_leap y then 29 else 28, 31, 30, 31, 30, 31, 31, 30, 31, 30, 31]"

definition greg_day :: "int \<Rightarrow> int \<Rightarrow> int \<Rightarrow> int option" where
  "greg_day y m d =
     (if 1 \<le> m \<and> m \<le> 12 \<and> 1 \<le> d \<and> d \<le> month_lengths y ! nat (m - 1)
      then Some (year_start y + sum_list (take (nat (m - 1)) (month_lengths y)) + d - 1) else None)"

fun year_from :: "nat \<Rightarrow> int \<Rightarrow> int \<Rightarrow> int" where
  "year_from 0 y n = y"
| "year_from (Suc k) y n = (if n < year_start (y + 1) then y else year_from k (y + 1) n)"

fun month_from :: "int \<Rightarrow> int \<Rightarrow> int list \<Rightarrow> int \<times> int" where
  "month_from r m [] = (m, r + 1)"
| "month_from r m (l # ls) = (if r < l then (m, r + 1) else month_from (r - l) (m + 1) ls)"

definition greg_civil :: "int \<Rightarrow> int \<times> int \<times> int" where
  "greg_civil n =
     (if n < 0 then (0, 1, 1)
      else let y = year_from 9999 1 n in (y, month_from (n - year_start y) 1 (month_lengths y)))"

definition gregorian :: calendar where
  "gregorian = \<lparr>cal_day = greg_day, cal_civil = greg_civil, cal_weekday = \<lambda>n. n mod 7\<rparr>"

lemma div_step: "0 < k \<Longrightarrow> y div k = (y - 1) div k + (if y mod k = 0 then 1 else 0)" for k :: int
proof -
  assume k: "0 < k"
  have y: "y = y div k * k + y mod k" by simp
  show ?thesis
  proof (cases "y mod k = 0")
    case True
    then have "y - 1 = k * (y div k - 1) + (k - 1)" using y by (simp add: algebra_simps)
    then have "(y - 1) div k = y div k - 1"
      using k int_div_pos_eq [of "y - 1" k "y div k - 1" "k - 1"] by simp
    then show ?thesis using True by simp
  next
    case False
    have r: "0 \<le> y mod k" "y mod k < k" using k by simp_all
    have "y - 1 = k * (y div k) + (y mod k - 1)" using y by (simp add: algebra_simps)
    then have "(y - 1) div k = y div k"
      using r False int_div_pos_eq [of "y - 1" k "y div k" "y mod k - 1"] by simp
    then show ?thesis using False by simp
  qed
qed

lemma year_length: "year_start (y + 1) = year_start y + sum_list (month_lengths y)"
proof -
  have "(4 :: int) dvd 100" "(100 :: int) dvd 400" by simp_all
  then have m: "y mod 400 = 0 \<Longrightarrow> y mod 100 = 0" "y mod 100 = 0 \<Longrightarrow> y mod 4 = 0"
    unfolding mod_eq_0_iff_dvd by (metis dvd_trans)+
  define a b c where "a = (y mod 4 = 0)" and "b = (y mod 100 = 0)" and "c = (y mod 400 = 0)"
  have "y div 4 = (y - 1) div 4 + of_bool a" "y div 100 = (y - 1) div 100 + of_bool b"
    "y div 400 = (y - 1) div 400 + of_bool c"
    unfolding a_def b_def c_def of_bool_def by (rule div_step, simp)+
  then have "year_start (y + 1) - year_start y = 365 + of_bool a - of_bool b + of_bool c"
    unfolding year_start_def add_diff_cancel_right' by (simp only: right_diff_distrib)
  moreover have "sum_list (month_lengths y) = 365 + of_bool (a \<and> (\<not> b \<or> c))"
    by (simp add: month_lengths_def is_leap_def a_def b_def c_def)
  moreover have "of_bool (a \<and> (\<not> b \<or> c)) = (of_bool a - of_bool b + of_bool c :: int)"
    using m unfolding a_def [symmetric] b_def [symmetric] c_def [symmetric] by auto
  ultimately show ?thesis by linarith
qed

lemma year_from_bound:
  "year_start y \<le> n \<Longrightarrow> year_from k y n < y + int k \<Longrightarrow>
     year_start (year_from k y n) \<le> n \<and> n < year_start (year_from k y n + 1) \<and> y \<le> year_from k y n"
proof (induction k arbitrary: y)
  case (Suc k)
  show ?case
  proof (cases "n < year_start (y + 1)")
    case False
    then show ?thesis using Suc.IH [of "y + 1"] Suc.prems by (simp add: algebra_simps)
  qed (use Suc.prems in simp)
qed simp

lemma month_from_bound:
  "0 \<le> r \<Longrightarrow> r < sum_list ls \<Longrightarrow> month_from r m ls = (m', d) \<Longrightarrow>
     m \<le> m' \<and> m' < m + int (length ls) \<and> 1 \<le> d \<and> d \<le> ls ! nat (m' - m) \<and>
     r = sum_list (take (nat (m' - m)) ls) + d - 1"
proof (induction ls arbitrary: r m)
  case (Cons l ls)
  show ?case
  proof (cases "r < l")
    case True
    then show ?thesis using Cons.prems by auto
  next
    case False
    then have ih: "m + 1 \<le> m' \<and> m' < m + 1 + int (length ls) \<and> 1 \<le> d \<and> d \<le> ls ! nat (m' - (m + 1)) \<and>
        r - l = sum_list (take (nat (m' - (m + 1))) ls) + d - 1"
      using Cons.IH [of "r - l" "m + 1"] Cons.prems by simp
    then have "nat (m' - m) = Suc (nat (m' - (m + 1)))" by linarith
    then show ?thesis using ih by simp
  qed
qed simp

lemma gregorian_sound: "calendar_sound gregorian"
  unfolding calendar_sound_def
proof (intro allI impI)
  fix n y m d
  assume a: "cal_civil gregorian n = (y, m, d) \<and> 1 \<le> y \<and> y \<le> 9999"
  then have n: "0 \<le> n" "y = year_from 9999 1 n" "month_from (n - year_start y) 1 (month_lengths y) = (m, d)"
    by (auto simp: gregorian_def greg_civil_def Let_def split: if_splits)
  have "year_start 1 \<le> n" using n(1) by (simp add: year_start_def)
  then have "year_start y \<le> n" "n < year_start (y + 1)"
    using year_from_bound [of 1 n 9999] n(2) a by auto
  then have b: "1 \<le> m \<and> m < 1 + int (length (month_lengths y)) \<and> 1 \<le> d \<and> d \<le> month_lengths y ! nat (m - 1) \<and>
      n - year_start y = sum_list (take (nat (m - 1)) (month_lengths y)) + d - 1"
    using month_from_bound [OF _ _ n(3)] year_length [of y] by simp
  then have m: "m \<le> 12" by (simp add: month_lengths_def)
  have "\<forall>l \<in> set (month_lengths y). l \<le> 31" by (simp add: month_lengths_def)
  moreover have "month_lengths y ! nat (m - 1) \<in> set (month_lengths y)"
    using b by (intro nth_mem) linarith
  ultimately have "d \<le> 31" using b by fastforce
  then show "1 \<le> m \<and> m \<le> 12 \<and> 1 \<le> d \<and> d \<le> 31 \<and> cal_day gregorian y m d = Some n"
    using b m by (simp add: gregorian_def greg_day_def)
qed

lemma gregorian_covers: "calendar_covers gregorian"
  by (simp add: calendar_covers_def gregorian_def greg_day_def month_lengths_def)

lemma year_of_first:
  assumes "0 \<le> t" "t < 365 * DAY_US"
  shows "year_of gregorian t = 1"
proof -
  have "0 \<le> t div DAY_US" "t div DAY_US < 365"
    using assms by (simp_all add: DAY_US_def pos_imp_zdiv_nonneg_iff)
  moreover have "n < 365 \<Longrightarrow> 0 < k \<Longrightarrow> year_from k 1 n = 1" for n k
    by (cases k) (simp_all add: year_start_def)
  ultimately show ?thesis by (simp add: year_of_def gregorian_def greg_civil_def Let_def)
qed

section \<open>Properties\<close>

definition well_typed :: "calendar \<Rightarrow> iso_datetime \<Rightarrow> bool" where
  "well_typed cal dt \<longleftrightarrow>
     (\<exists>y m d n. 1 \<le> y \<and> y \<le> 9999 \<and> cal_day cal y m d = Some n \<and>
        n * DAY_US \<le> iso_naive_us dt \<and> iso_naive_us dt < (n + 1) * DAY_US) \<and>
     (\<forall>off. iso_offset_us dt = Some off \<longrightarrow> \<bar>off\<bar> < DAY_US)"

lemma naive_of_day:
  assumes "naive_of cal y m d tm = Inr v"
  shows "1 \<le> y \<and> y \<le> 9999 \<and> (\<exists>n. cal_day cal y m d = Some n \<and> n * DAY_US \<le> v \<and> v < (n + 1) * DAY_US)"
proof -
  obtain n where n: "1 \<le> y" "y \<le> 9999" "cal_day cal y m d = Some n"
    and r: "0 \<le> tp_hour tm" "tp_hour tm \<le> 23" "0 \<le> tp_minute tm" "tp_minute tm \<le> 59" "0 \<le> tp_second tm"
      "tp_second tm \<le> 59" "0 \<le> tp_us tm" "tp_us tm \<le> 999999"
    and v: "v = n * DAY_US + (tp_hour tm * 3600 + tp_minute tm * 60 + tp_second tm) * 1000000 + tp_us tm"
    using assms by (auto simp: naive_of_def in_range_def split: if_splits option.splits)
  have "n * DAY_US \<le> v" "v < (n + 1) * DAY_US"
    using r by (simp_all add: v DAY_US_def distrib_right)
  then show ?thesis using n by blast
qed

lemma offset_of_bound: "offset_of rv tm = Inr (Some off) \<Longrightarrow> \<bar>off\<bar> < DAY_US"
  by (auto simp: offset_of_def Let_def DAY_US_def split: if_splits)

lemma fromisoformat_typed:
  assumes "fromisoformat cal s = Inr dt"
  shows "well_typed cal dt"
proof -
  obtain y m d rv tm v off where "naive_of cal y m d tm = Inr v" "offset_of rv tm = Inr off"
    "dt = \<lparr>iso_naive_us = v, iso_offset_us = off\<rparr>"
    using assms by (auto simp: fromisoformat_def Let_def split: if_splits sum.splits prod.splits)
  then show ?thesis
    using naive_of_day offset_of_bound unfolding well_typed_def by fastforce
qed



text \<open>
  C39. Every timestamp of the years 1 to 9999, written by \<open>iso_naive\<close> with or without its
  microseconds, is read back by \<open>fromisoformat\<close> as the same timestamp without an offset.
\<close>

theorem iso_naive_round_trip:
  assumes "calendar_sound cal" "1 \<le> year_of cal t" "year_of cal t \<le> 9999"
  shows "fromisoformat cal (iso_naive cal t) = Inr \<lparr>iso_naive_us = t, iso_offset_us = None\<rparr>"
  using assms by (rule fromisoformat_iso_naive)

lemma iso_naive_round_trip_witness:
  "fromisoformat gregorian (iso_naive gregorian 86461000001) = Inr \<lparr>iso_naive_us = 86461000001, iso_offset_us = None\<rparr>"
  by (rule iso_naive_round_trip) (simp_all add: gregorian_sound year_of_first DAY_US_def)

end
