(* ===== verification/Notifications.thy ===== *)
theory Notifications
  imports Unsubscribe Recipients PyDatetime Settings PyInt Sse Sentinel_Dispatch
begin

text \<open>
  \<^verbatim>\<open>backend-rs/src/notifications.rs\<close>: the inbox row, the mail beside it and the dispatch of the agent,
  behind their gates, and the announcements of cameras and nodes. The world a call works on is one
  record of the tables and in-memory maps; the statements that fail, the clock, the templates
  (\<open>email_templates::render\<close>) and the text parsers are arguments. Timestamps are microseconds.
\<close>

section \<open>The gates\<close>

definition INBOX_KIND_TO_SETTING :: "(string \<times> string \<times> bool) list" where
  "INBOX_KIND_TO_SETTING =
     [(''motion'', ''motion_notifications'', True),
      (''motion_digest'', ''motion_notifications'', True),
      (''camera_online'', ''camera_transition_notifications'', True),
      (''camera_offline'', ''camera_transition_notifications'', True),
      (''node_online'', ''node_transition_notifications'', True),
      (''node_offline'', ''node_transition_notifications'', True),
      (''mcp_key_created'', ''mcp_key_audit_notifications'', True),
      (''mcp_key_revoked'', ''mcp_key_audit_notifications'', True),
      (''sentinel_agent_key_created'', ''sentinel_agent_key_audit_notifications'', True),
      (''sentinel_agent_key_revoked'', ''sentinel_agent_key_audit_notifications'', True),
      (''cameranode_disk_low'', ''cameranode_disk_notifications'', True),
      (''member_added'', ''member_audit_notifications'', True),
      (''member_role_changed'', ''member_audit_notifications'', True),
      (''member_removed'', ''member_audit_notifications'', True),
      (''member_promotion_requested'', ''member_audit_notifications'', True),
      (''welcome'', ''welcome_notifications'', True)]"

definition EMAIL_KIND_TO_SETTING :: "(string \<times> string \<times> bool) list" where
  "EMAIL_KIND_TO_SETTING =
     [(''camera_offline'', ''email_camera_offline'', True),
      (''camera_online'', ''email_camera_offline'', True),
      (''node_offline'', ''email_node_offline'', True),
      (''node_online'', ''email_node_offline'', True),
      (''incident_created'', ''email_incident_created'', True),
      (''mcp_key_created'', ''email_mcp_key_audit'', True),
      (''mcp_key_revoked'', ''email_mcp_key_audit'', True),
      (''cameranode_disk_low'', ''email_cameranode_disk_low'', True),
      (''member_added'', ''email_member_audit'', True),
      (''member_role_changed'', ''email_member_audit'', True),
      (''member_removed'', ''email_member_audit'', True),
      (''member_promotion_requested'', ''email_member_audit'', True),
      (''motion'', ''email_motion'', False),
      (''motion_digest'', ''email_motion'', False),
      (''welcome'', ''email_welcome'', True)]"

definition email_pref_keys :: "(string \<times> bool) list" where
  "email_pref_keys =
     fold (\<lambda>(_, key, dflt) distinct. if key \<in> fst ` set distinct then distinct else distinct @ [(key, dflt)])
       EMAIL_KIND_TO_SETTING []"

definition TRANSITION_DEBOUNCE_SECONDS :: int where "TRANSITION_DEBOUNCE_SECONDS = 60"

definition UNSUB_PLACEHOLDER :: string where "UNSUB_PLACEHOLDER = ''UNSUB-URL-PLACEHOLDER-7f3a''"

text \<open>The statements of a call; a setting is named by its key.\<close>

datatype note_statement =
  GetSetting string | SetSetting string | InsertNotification | BeginOutbox | InsertOutbox string | CommitOutbox

definition setting_is_true :: "(note_statement \<Rightarrow> bool) \<Rightarrow> setting_row list \<Rightarrow> string \<Rightarrow> string \<Rightarrow> bool \<Rightarrow> bool" where
  "setting_is_true fails rows org key dflt =
     (if fails (GetSetting key) then dflt
      else case settings_get rows org key None of Some v \<Rightarrow> v = ''true'' | None \<Rightarrow> dflt)"

definition inbox_enabled :: "(note_statement \<Rightarrow> bool) \<Rightarrow> setting_row list \<Rightarrow> string \<Rightarrow> string \<Rightarrow> bool" where
  "inbox_enabled fails rows org kind =
     (case find (\<lambda>(k, _). k = kind) INBOX_KIND_TO_SETTING of
        None \<Rightarrow> True
      | Some (_, key, dflt) \<Rightarrow> setting_is_true fails rows org key dflt)"

definition email_enabled :: "bool \<Rightarrow> (note_statement \<Rightarrow> bool) \<Rightarrow> setting_row list \<Rightarrow> string \<Rightarrow> string \<Rightarrow> bool" where
  "email_enabled switch fails rows org kind =
     (if \<not> switch then False
      else case find (\<lambda>(k, _). k = kind) EMAIL_KIND_TO_SETTING of
          None \<Rightarrow> False
        | Some (_, key, dflt) \<Rightarrow> setting_is_true fails rows org key dflt)"

section \<open>The motion cooldown\<close>

definition motion_cooldown_anchor_key :: "string \<Rightarrow> string" where
  "motion_cooldown_anchor_key camera = ''motion_email_cooldown_start:'' @ camera"

definition parse_cooldown_minutes :: "string \<Rightarrow> int" where
  "parse_cooldown_minutes raw =
     (case PyInt.python_int raw of
        Some (Small minutes) \<Rightarrow> max minutes 1
      | Some (Big neg) \<Rightarrow> if neg then 1 else i64_max
      | None \<Rightarrow> 15)"

definition motion_cooldown_minutes :: "(note_statement \<Rightarrow> bool) \<Rightarrow> setting_row list \<Rightarrow> string \<Rightarrow> int" where
  "motion_cooldown_minutes fails rows org =
     parse_cooldown_minutes
       (case (if fails (GetSetting ''email_motion_cooldown_minutes'') then None
              else settings_get rows org ''email_motion_cooldown_minutes'' (Some ''15'')) of
          Some raw \<Rightarrow> raw | None \<Rightarrow> ''15'')"

text \<open>\<open>TimeDelta::num_seconds\<close> rounds towards zero; \<open>saturating_mul\<close> of a positive number by 60.\<close>

definition num_seconds :: "int \<Rightarrow> int" where
  "num_seconds d = (if 0 \<le> d then d div 1000000 else - (- d div 1000000))"

definition saturating_minutes :: "int \<Rightarrow> int" where
  "saturating_minutes minutes = min (minutes * 60) i64_max"

text \<open>Whether an anchor keeps a mail back at \<open>now\<close>.\<close>

definition anchor_silences :: "calendar \<Rightarrow> int \<Rightarrow> int \<Rightarrow> string option \<Rightarrow> bool" where
  "anchor_silences cal minutes now existing =
     (case existing of
        None \<Rightarrow> False
      | Some text \<Rightarrow>
          if text = [] then False
          else case fromisoformat cal text of
              Inr anchor \<Rightarrow>
                iso_offset_us anchor \<noteq> None \<or> num_seconds (now - iso_naive_us anchor) < saturating_minutes minutes
            | Inl _ \<Rightarrow> False)"

definition claim_motion_cooldown_or_silence ::
  "calendar \<Rightarrow> (note_statement \<Rightarrow> bool) \<Rightarrow> int \<Rightarrow> string \<Rightarrow> string option \<Rightarrow> setting_row list \<Rightarrow> bool \<times> setting_row list" where
  "claim_motion_cooldown_or_silence cal fails now org camera rows =
     (case camera of
        None \<Rightarrow> (True, rows)
      | Some cam \<Rightarrow>
          (let key = motion_cooldown_anchor_key cam;
               existing = (if fails (GetSetting key) then None else settings_get rows org key (Some []))
           in if anchor_silences cal (motion_cooldown_minutes fails rows org) now existing then (False, rows)
              else (True, set_ignoring (\<lambda>k. \<not> fails (SetSetting k)) now org key (iso_naive cal now) rows)))"

section \<open>The rows\<close>

record new_notification =
  nn_kind :: string
  nn_title :: string
  nn_body :: string
  nn_severity :: string
  nn_audience :: string
  nn_link :: "string option"
  nn_camera :: "string option"
  nn_node :: "string option"
  nn_meta :: "json option"

definition notification_new :: "string \<Rightarrow> string \<Rightarrow> new_notification" where
  "notification_new kind title =
     \<lparr>nn_kind = kind, nn_title = title, nn_body = [], nn_severity = ''info'', nn_audience = ''all'',
      nn_link = None, nn_camera = None, nn_node = None, nn_meta = None\<rparr>"

record notification_row =
  nr_id :: int
  nr_org :: string
  nr_kind :: string
  nr_audience :: string
  nr_title :: string
  nr_body :: string
  nr_severity :: string
  nr_link :: "string option"
  nr_camera :: "string option"
  nr_node :: "string option"
  nr_meta_json :: "string option"
  nr_created_at :: "int option"

definition notification_json :: "(string \<Rightarrow> json option) \<Rightarrow> (int \<Rightarrow> string) \<Rightarrow> notification_row \<Rightarrow> (string \<times> json) list" where
  "notification_json from_str fmt r =
     [(''id'', IntNum (nr_id r)), (''kind'', String (nr_kind r)), (''audience'', String (nr_audience r)),
      (''title'', String (nr_title r)), (''body'', String (nr_body r)), (''severity'', String (nr_severity r)),
      (''link'', opt_string (nr_link r)), (''camera_id'', opt_string (nr_camera r)), (''node_id'', opt_string (nr_node r)),
      (''meta'', case nr_meta_json r of
          None \<Rightarrow> Null
        | Some t \<Rightarrow> if t = [] then Null else (case from_str t of Some j \<Rightarrow> j | None \<Rightarrow> Null)),
      (''created_at'', opt_time fmt (nr_created_at r))]"

definition normalise_audience :: "string \<Rightarrow> string" where
  "normalise_audience a = (if a = ''admin'' then ''admin'' else ''all'')"

definition normalise_severity :: "string \<Rightarrow> string" where
  "normalise_severity s = (if s \<in> {''warning'', ''error'', ''critical''} then s else ''info'')"

fun is_falsy :: "json \<Rightarrow> bool" where
  "is_falsy Null = True"
| "is_falsy (Bool b) = (\<not> b)"
| "is_falsy (IntNum n) = (n = 0)"
| "is_falsy (FloatNum f) = (f = 0)"
| "is_falsy (String s) = (s = [])"
| "is_falsy (Array items) = (items = [])"
| "is_falsy (Object m) = (m = [])"

definition broadcast_payload ::
  "(rat \<Rightarrow> string) \<Rightarrow> (string \<Rightarrow> json option) \<Rightarrow> (int \<Rightarrow> string) \<Rightarrow> notification_row \<Rightarrow> string" where
  "broadcast_payload fl from_str fmt r =
     python_json_value fl (Object (notification_json from_str fmt r @ [(''type'', String ''notification'')]))"

section \<open>Creating one\<close>

record note_world =
  nw_settings :: "setting_row list"
  nw_notifications :: "notification_row list"
  nw_broadcaster :: broadcaster
  nw_mail :: mail
  nw_cache :: recipient_cache
  nw_runs :: runs
  nw_debounce :: "string \<times> string \<times> string \<Rightarrow> instant option"

record notification_view =
  nv_title :: string
  nv_body :: string
  nv_severity :: string
  nv_link :: "string option"
  nv_camera :: "string option"
  nv_node :: "string option"
  nv_meta_json :: "string option"

text \<open>What the dispatch of the agent reads (see \<open>Sentinel_Dispatch\<close>).\<close>

record 'z dispatch_env =
  de_month_start :: "int \<Rightarrow> int"
  de_app :: sentinel_app
  de_reads :: "'z dispatch_reads"
  de_looked :: "runs option"
  de_configs :: "configs option"
  de_plan :: string
  de_run_id :: string
  de_works :: bool
  de_triggered_at :: int

record 'z note_env =
  ne_fails :: "note_statement \<Rightarrow> bool"
  ne_now :: int
  ne_instant :: instant
  ne_cal :: calendar
  ne_fl :: "rat \<Rightarrow> string"
  ne_from_str :: "string \<Rightarrow> json option"
  ne_sha :: "bytes \<Rightarrow> bytes"
  ne_lookup :: lookup
  ne_email_switch :: bool
  ne_frontend_url :: string
  ne_is_local_auth :: bool
  ne_app_secret :: string
  ne_clerk_secret :: string
  ne_render :: "string \<Rightarrow> notification_view \<Rightarrow> string \<Rightarrow> string \<Rightarrow> string \<times> string \<times> string"
  ne_dispatch :: "'z dispatch_env"

definition unsubscribe_secret :: "'z note_env \<Rightarrow> string option" where
  "unsubscribe_secret ne =
     derive_secret (ne_sha ne) (if ne_is_local_auth ne then ne_app_secret ne else ne_clerk_secret ne)"

text \<open>\<open>str::replace\<close> with a pattern that is not empty.\<close>

fun replace_str :: "string \<Rightarrow> string \<Rightarrow> string \<Rightarrow> string" where
  "replace_str pat rep [] = []"
| "replace_str pat rep (c # cs) =
     (if starts_with pat (c # cs) then rep @ replace_str pat rep (drop (length pat - 1) cs)
      else c # replace_str pat rep cs)"

definition next_outbox_id :: "outbox_row list \<Rightarrow> int" where
  "next_outbox_id t = 1 + foldr max (map ob_id t) 0"

definition outbox_insert ::
  "int \<Rightarrow> string \<Rightarrow> string \<Rightarrow> string \<Rightarrow> string \<Rightarrow> string \<Rightarrow> string \<Rightarrow> int option \<Rightarrow> outbox_row list \<Rightarrow> outbox_row list" where
  "outbox_insert now org address subject txt htm kind notification_id t =
     t @ [\<lparr>ob_id = next_outbox_id t, ob_org = org, ob_recipient = address, ob_subject = subject, ob_text = txt,
           ob_html = htm, ob_kind = kind, ob_notification = notification_id, ob_status = ''pending'', ob_attempts = 0,
           ob_error = None, ob_message_id = None, ob_created_at = Some now, ob_last_attempt_at = None, ob_sent_at = None\<rparr>]"

text \<open>The inserts of one transaction: \<open>None\<close> when one is refused, and nothing is kept.\<close>

fun enqueue_rows ::
  "'z note_env \<Rightarrow> string \<Rightarrow> string \<Rightarrow> string \<Rightarrow> string \<times> string \<times> string \<Rightarrow> int option \<Rightarrow> string list \<Rightarrow> outbox_row list \<Rightarrow>
   outbox_row list option" where
  "enqueue_rows ne secret org kind mail notification_id [] t = Some t"
| "enqueue_rows ne secret org kind mail notification_id (address # rest) t =
     (case build_unsubscribe_url (ne_sha ne) (lk_lower (ne_lookup ne)) secret (ne_frontend_url ne) org kind address
             (ne_now ne div 1000000) of
        None \<Rightarrow> enqueue_rows ne secret org kind mail notification_id rest t
      | Some unsub \<Rightarrow>
          if ne_fails ne (InsertOutbox address) then None
          else
            (case mail of (subject, body_text, body_html) \<Rightarrow>
               enqueue_rows ne secret org kind mail notification_id rest
                 (outbox_insert (ne_now ne) org address subject (replace_str UNSUB_PLACEHOLDER unsub body_text)
                   (replace_str UNSUB_PLACEHOLDER unsub body_html) kind notification_id t)))"

definition enqueue_email ::
  "'z note_env \<Rightarrow> string \<Rightarrow> notification_row \<Rightarrow> bool \<Rightarrow> string \<Rightarrow> note_world \<Rightarrow> note_world" where
  "enqueue_email ne org row persisted audience w =
     (let (recipients, c) = recipient_emails (ne_lookup ne) (ne_instant ne) (ne_instant ne) org audience (nw_cache w);
          w = w\<lparr>nw_cache := c\<rparr>
      in if recipients = [] then w
         else
           (let view = \<lparr>nv_title = nr_title row, nv_body = nr_body row, nv_severity = nr_severity row, nv_link = nr_link row,
                        nv_camera = nr_camera row, nv_node = nr_node row, nv_meta_json = nr_meta_json row\<rparr>;
                mail = ne_render ne (nr_kind row) view UNSUB_PLACEHOLDER (ne_frontend_url ne)
            in case unsubscribe_secret ne of
                 None \<Rightarrow> w
               | Some secret \<Rightarrow>
                   if ne_fails ne BeginOutbox then w
                   else case enqueue_rows ne secret org (nr_kind row) mail (if persisted then Some (nr_id row) else None)
                               recipients (ml_outbox (nw_mail w)) of
                       None \<Rightarrow> w
                     | Some t \<Rightarrow>
                         if ne_fails ne CommitOutbox then w else w\<lparr>nw_mail := (nw_mail w)\<lparr>ml_outbox := t\<rparr>\<rparr>))"

definition next_notification_id :: "notification_row list \<Rightarrow> int" where
  "next_notification_id t = 1 + foldr max (map nr_id t) 0"

text \<open>The side channel of the mail, after the inbox.\<close>

definition email_channel :: "'z note_env \<Rightarrow> string \<Rightarrow> notification_row \<Rightarrow> bool \<Rightarrow> note_world \<Rightarrow> note_world" where
  "email_channel ne org row persisted w =
     (if email_enabled (ne_email_switch ne) (ne_fails ne) (nw_settings w) org (nr_kind row) then
        (let (send, rows) =
               (if nr_kind row = ''motion''
                then claim_motion_cooldown_or_silence (ne_cal ne) (ne_fails ne) (ne_now ne) org (nr_camera row) (nw_settings w)
                else (True, nw_settings w));
             w = w\<lparr>nw_settings := rows\<rparr>
         in if send then enqueue_email ne org row persisted (nr_audience row) w else w)
      else w)"

definition dispatch_agent :: "'z note_env \<Rightarrow> string \<Rightarrow> notification_row \<Rightarrow> json option \<Rightarrow> note_world \<Rightarrow> note_world" where
  "dispatch_agent ne org row meta w =
     (let de = ne_dispatch ne
      in w\<lparr>nw_runs := snd (maybe_dispatch_for_notification (de_month_start de) (de_app de) (de_reads de) (de_looked de)
            (de_configs de) (de_plan de) org (nr_kind row) (nr_camera row) meta (de_run_id de) (de_works de)
            (de_triggered_at de) (ne_now ne) (nw_runs w))\<rparr>)"

definition row_of :: "'z note_env \<Rightarrow> string \<Rightarrow> new_notification \<Rightarrow> notification_row" where
  "row_of ne org n =
     \<lparr>nr_id = 0, nr_org = org, nr_kind = nn_kind n, nr_audience = normalise_audience (nn_audience n),
      nr_title = truncate_chars (nn_title n) 200, nr_body = nn_body n, nr_severity = normalise_severity (nn_severity n),
      nr_link = nn_link n, nr_camera = nn_camera n, nr_node = nn_node n,
      nr_meta_json = (case nn_meta n of
          Some j \<Rightarrow> if is_falsy j then None else Some (python_json_value (ne_fl ne) j) | None \<Rightarrow> None),
      nr_created_at = Some (ne_now ne)\<rparr>"

definition create_notification ::
  "'z note_env \<Rightarrow> string \<Rightarrow> new_notification \<Rightarrow> note_world \<Rightarrow> notification_row option \<times> note_world" where
  "create_notification ne org n w =
     (let row = row_of ne org n;
          inbox = inbox_enabled (ne_fails ne) (nw_settings w) org (nn_kind n)
      in if inbox \<and> ne_fails ne InsertNotification then (None, w)
         else
           (let row = (if inbox then row\<lparr>nr_id := next_notification_id (nw_notifications w)\<rparr> else row);
                w = (if inbox
                     then w\<lparr>nw_notifications := nw_notifications w @ [row],
                            nw_broadcaster := notify org (nr_audience row)
                              (broadcast_payload (ne_fl ne) (ne_from_str ne) (iso_naive (ne_cal ne)) row) (nw_broadcaster w)\<rparr>
                     else w);
                w = email_channel ne org row inbox w;
                w = dispatch_agent ne org row (nn_meta n) w
            in (if inbox then Some row else None, w)))"

section \<open>Announcements\<close>

definition should_emit_transition ::
  "string \<Rightarrow> string \<Rightarrow> string \<Rightarrow> instant \<Rightarrow> (string \<times> string \<times> string \<Rightarrow> instant option) \<Rightarrow>
   bool \<times> (string \<times> string \<times> string \<Rightarrow> instant option)" where
  "should_emit_transition kind entity direction now db =
     (let key = (kind, entity, direction)
      in case db key of
           Some prev \<Rightarrow>
             if duration_since now prev div from_secs 1 < TRANSITION_DEBOUNCE_SECONDS then (False, db)
             else (True, db(key \<mapsto> now))
         | None \<Rightarrow> (True, db(key \<mapsto> now)))"

definition clear_transition_debounce ::
  "(string \<times> string \<times> string \<Rightarrow> instant option) \<Rightarrow> (string \<times> string \<times> string \<Rightarrow> instant option)" where
  "clear_transition_debounce db = Map.empty"

definition camera_transition :: "string option \<Rightarrow> string \<Rightarrow> string option" where
  "camera_transition previous new =
     (if new = ''offline'' \<and> previous \<noteq> Some ''offline'' then Some ''offline''
      else if new \<in> {''online'', ''streaming''} \<and> previous = Some ''offline'' then Some ''online''
      else None)"

definition emit_transition ::
  "'z note_env \<Rightarrow> string \<Rightarrow> string \<Rightarrow> string \<Rightarrow> string \<Rightarrow> new_notification \<Rightarrow> note_world \<Rightarrow> notification_row option \<times> note_world" where
  "emit_transition ne org entity_kind entity new_status n w =
     (if new_status \<notin> {''online'', ''offline''} then (None, w)
      else
        (let (emit, db) = should_emit_transition entity_kind entity new_status (ne_instant ne) (nw_debounce w);
             w = w\<lparr>nw_debounce := db\<rparr>
         in if emit then create_notification ne org n w else (None, w)))"

definition emit_camera_transition ::
  "'z note_env \<Rightarrow> string \<Rightarrow> string \<Rightarrow> string \<Rightarrow> string \<Rightarrow> string option \<Rightarrow> note_world \<Rightarrow>
   notification_row option \<times> note_world" where
  "emit_camera_transition ne org camera display_name new_status node w =
     (let online = (new_status = ''online'');
          n = (notification_new (if online then ''camera_online'' else ''camera_offline'')
                 (if online then display_name @ '' is online'' else display_name @ '' went offline''))
              \<lparr>nn_body := (if online then ''Camera is streaming again.'' else ''No heartbeat received in over 90 seconds.''),
               nn_severity := (if online then ''info'' else ''warning''), nn_audience := ''all'',
               nn_link := Some (''/dashboard?camera='' @ camera), nn_camera := Some camera, nn_node := node\<rparr>
      in emit_transition ne org ''camera'' camera new_status n w)"

definition emit_node_transition ::
  "'z note_env \<Rightarrow> string \<Rightarrow> string \<Rightarrow> string \<Rightarrow> string \<Rightarrow> note_world \<Rightarrow> notification_row option \<times> note_world" where
  "emit_node_transition ne org node display_name new_status w =
     (let online = (new_status = ''online'');
          quote = [CHR 0x27];
          n = (notification_new (if online then ''node_online'' else ''node_offline'')
                 (''Node '' @ quote @ display_name @ quote @ (if online then '' is online'' else '' went offline'')))
              \<lparr>nn_body := (if online then ''CameraNode is connected and reporting.'' else ''No heartbeat received in over 90 seconds.''),
               nn_severity := (if online then ''info'' else ''warning''), nn_audience := ''admin'',
               nn_link := Some ''/admin'', nn_node := Some node\<rparr>
      in emit_transition ne org ''node'' node new_status n w)"

section \<open>The mails of a notification\<close>

definition fresh_mail :: "string \<Rightarrow> string \<Rightarrow> int option \<Rightarrow> outbox_row \<Rightarrow> bool" where
  "fresh_mail org kind notification_id r \<longleftrightarrow>
     ob_org r = org \<and> ob_kind r = kind \<and> ob_notification r = notification_id \<and> ob_status r = ''pending'' \<and>
     ob_attempts r = 0 \<and> ob_last_attempt_at r = None"

lemma next_outbox_id_fresh: "r \<in> set t \<Longrightarrow> ob_id r < next_outbox_id t"
  by (induction t) (auto simp: next_outbox_id_def)

lemma outbox_insert_distinct: "outbox_distinct t \<Longrightarrow> outbox_distinct (outbox_insert now org a s x h k i t)"
  using next_outbox_id_fresh [of _ t] by (fastforce simp: outbox_distinct_def outbox_insert_def)

lemma enqueue_rows_shape:
  assumes "enqueue_rows ne secret org kind mail i addrs t = Some t'" "secret \<noteq> []"
  shows "\<exists>new. t' = t @ new \<and> map ob_recipient new = addrs \<and> (\<forall>r \<in> set new. fresh_mail org kind i r)"
  using assms(1)
proof (induction addrs arbitrary: t)
  case (Cons a addrs)
  obtain unsub where u: "build_unsubscribe_url (ne_sha ne) (lk_lower (ne_lookup ne)) secret (ne_frontend_url ne) org kind a
      (ne_now ne div 1000000) = Some unsub"
    using assms(2) by (auto simp: build_unsubscribe_url_def make_token_def Let_def)
  obtain s x h where m: "mail = (s, x, h)" by (cases mail)
  define t1 where "t1 = outbox_insert (ne_now ne) org a s (replace_str UNSUB_PLACEHOLDER unsub x)
      (replace_str UNSUB_PLACEHOLDER unsub h) kind i t"
  have "enqueue_rows ne secret org kind mail i addrs t1 = Some t'"
    using Cons.prems u m by (simp add: t1_def split: if_splits)
  then obtain new where new: "t' = t1 @ new" "map ob_recipient new = addrs" "\<forall>r \<in> set new. fresh_mail org kind i r"
    using Cons.IH by blast
  obtain r where "t1 = t @ [r]" "ob_recipient r = a" "fresh_mail org kind i r"
    by (simp add: t1_def outbox_insert_def fresh_mail_def)
  then show ?case using new by (intro exI [of _ "r # new"]) simp
qed simp

lemma enqueue_rows_works:
  assumes "\<And>a. \<not> ne_fails ne (InsertOutbox a)"
  shows "\<exists>t'. enqueue_rows ne secret org kind mail i addrs t = Some t'"
  by (induction addrs arbitrary: t) (auto simp: assms split: option.splits prod.splits)

lemma enqueue_rows_distinct:
  assumes "enqueue_rows ne secret org kind mail i addrs t = Some t'" "outbox_distinct t"
  shows "outbox_distinct t'"
  using assms
proof (induction addrs arbitrary: t)
  case (Cons a addrs)
  then show ?case
    by (auto split: option.splits prod.splits if_splits dest: outbox_insert_distinct)
qed simp

definition outbox_of :: "note_world \<Rightarrow> outbox_row list" where
  "outbox_of w = ml_outbox (nw_mail w)"

definition mail_works :: "'z note_env \<Rightarrow> bool" where
  "mail_works ne \<longleftrightarrow>
     (\<exists>s. unsubscribe_secret ne = Some s \<and> s \<noteq> []) \<and> \<not> ne_fails ne BeginOutbox \<and> \<not> ne_fails ne CommitOutbox \<and>
     (\<forall>a. \<not> ne_fails ne (InsertOutbox a))"

definition recipients_for :: "'z note_env \<Rightarrow> string \<Rightarrow> string \<Rightarrow> note_world \<Rightarrow> string list" where
  "recipients_for ne org audience w =
     fst (recipient_emails (ne_lookup ne) (ne_instant ne) (ne_instant ne) org audience (nw_cache w))"

lemma enqueue_email_frame:
  "nw_notifications (enqueue_email ne org row p a w) = nw_notifications w"
  "nw_settings (enqueue_email ne org row p a w) = nw_settings w"
  "nw_runs (enqueue_email ne org row p a w) = nw_runs w"
  "ml_suppression (nw_mail (enqueue_email ne org row p a w)) = ml_suppression (nw_mail w)"
  "ml_posted (nw_mail (enqueue_email ne org row p a w)) = ml_posted (nw_mail w)"
  by (simp_all add: enqueue_email_def Let_def split: option.splits prod.splits)

lemma enqueue_email_outbox:
  assumes "mail_works ne"
  shows "\<exists>new. outbox_of (enqueue_email ne org row p a w) = outbox_of w @ new \<and>
    map ob_recipient new = recipients_for ne org a w \<and>
    (\<forall>r \<in> set new. fresh_mail org (nr_kind row) (if p then Some (nr_id row) else None) r)"
proof -
  obtain s where s: "unsubscribe_secret ne = Some s" "s \<noteq> []" and ok: "\<And>a. \<not> ne_fails ne (InsertOutbox a)"
    "\<not> ne_fails ne BeginOutbox" "\<not> ne_fails ne CommitOutbox"
    using assms by (auto simp: mail_works_def)
  obtain rec c where rc: "recipient_emails (ne_lookup ne) (ne_instant ne) (ne_instant ne) org a (nw_cache w) = (rec, c)"
    by force
  show ?thesis
  proof (cases "rec = []")
    case True
    then show ?thesis using rc by (simp add: enqueue_email_def outbox_of_def recipients_for_def)
  next
    case False
    define i where "i = (if p then Some (nr_id row) else None)"
    define mail where "mail = ne_render ne (nr_kind row)
      \<lparr>nv_title = nr_title row, nv_body = nr_body row, nv_severity = nr_severity row, nv_link = nr_link row,
       nv_camera = nr_camera row, nv_node = nr_node row, nv_meta_json = nr_meta_json row\<rparr> UNSUB_PLACEHOLDER (ne_frontend_url ne)"
    obtain t' where t': "enqueue_rows ne s org (nr_kind row) mail i rec (outbox_of w) = Some t'"
      using enqueue_rows_works [OF ok(1)] by blast
    have "outbox_of (enqueue_email ne org row p a w) = t'"
      unfolding enqueue_email_def rc Let_def prod.case mail_def [symmetric] i_def [symmetric]
      using False s ok t' by (simp add: outbox_of_def)
    then show ?thesis using enqueue_rows_shape [OF t' s(2)] rc by (simp add: recipients_for_def i_def)
  qed
qed

text \<open>Whether a notification is mailed: the switches, and for motion the cooldown.\<close>

definition mail_gate :: "'z note_env \<Rightarrow> string \<Rightarrow> new_notification \<Rightarrow> setting_row list \<Rightarrow> bool" where
  "mail_gate ne org n rows \<longleftrightarrow>
     email_enabled (ne_email_switch ne) (ne_fails ne) rows org (nn_kind n) \<and>
     (nn_kind n = ''motion'' \<longrightarrow>
        fst (claim_motion_cooldown_or_silence (ne_cal ne) (ne_fails ne) (ne_now ne) org (nn_camera n) rows))"

lemma row_of_fields [simp]:
  "nr_kind (row_of ne org n) = nn_kind n" "nr_camera (row_of ne org n) = nn_camera n"
  "nr_audience (row_of ne org n) = normalise_audience (nn_audience n)" "nr_org (row_of ne org n) = org"
  by (simp_all add: row_of_def)

lemma recipients_for_frame [simp]:
  "recipients_for ne org a (w\<lparr>nw_settings := s\<rparr>) = recipients_for ne org a w"
  "recipients_for ne org a (w\<lparr>nw_notifications := ns, nw_broadcaster := b\<rparr>) = recipients_for ne org a w"
  by (simp_all add: recipients_for_def)

lemma outbox_of_frame [simp]:
  "outbox_of (w\<lparr>nw_settings := s\<rparr>) = outbox_of w" "outbox_of (w\<lparr>nw_runs := r\<rparr>) = outbox_of w"
  "outbox_of (w\<lparr>nw_notifications := ns, nw_broadcaster := b\<rparr>) = outbox_of w"
  by (simp_all add: outbox_of_def)

lemma email_channel_cases:
  assumes "nr_kind row = nn_kind n" "nr_camera row = nn_camera n"
  obtains (closed) rows where "\<not> mail_gate ne org n (nw_settings w)" "email_channel ne org row p w = w\<lparr>nw_settings := rows\<rparr>"
  | (mailed) rows where "mail_gate ne org n (nw_settings w)"
      "email_channel ne org row p w = enqueue_email ne org row p (nr_audience row) (w\<lparr>nw_settings := rows\<rparr>)"
proof -
  let ?claim = "claim_motion_cooldown_or_silence (ne_cal ne) (ne_fails ne) (ne_now ne) org (nn_camera n) (nw_settings w)"
  let ?on = "email_enabled (ne_email_switch ne) (ne_fails ne) (nw_settings w) org (nn_kind n)"
  obtain send rows where c: "(if nn_kind n = ''motion'' then ?claim else (True, nw_settings w)) = (send, rows)" by force
  have gate: "mail_gate ne org n (nw_settings w) \<longleftrightarrow> ?on \<and> send"
    using c by (auto simp: mail_gate_def split: if_splits)
  have run: "email_channel ne org row p w =
    (if ?on then if send then enqueue_email ne org row p (nr_audience row) (w\<lparr>nw_settings := rows\<rparr>) else w\<lparr>nw_settings := rows\<rparr>
     else w\<lparr>nw_settings := nw_settings w\<rparr>)"
    unfolding email_channel_def assms c Let_def prod.case by simp
  show thesis
  proof (cases "?on \<and> send")
    case True
    then show thesis using mailed gate run by simp
  next
    case False
    then show thesis using closed gate run by (metis (full_types))
  qed
qed

lemma email_channel_outbox:
  assumes "nr_kind row = nn_kind n" "nr_camera row = nn_camera n" "mail_works ne"
  shows "\<exists>new. outbox_of (email_channel ne org row p w) = outbox_of w @ new \<and>
    map ob_recipient new = (if mail_gate ne org n (nw_settings w) then recipients_for ne org (nr_audience row) w else []) \<and>
    (\<forall>r \<in> set new. fresh_mail org (nn_kind n) (if p then Some (nr_id row) else None) r)"
proof (rule email_channel_cases [OF assms(1,2), of ne org w p])
  fix rows
  assume "mail_gate ne org n (nw_settings w)"
    "email_channel ne org row p w = enqueue_email ne org row p (nr_audience row) (w\<lparr>nw_settings := rows\<rparr>)"
  then show ?thesis using enqueue_email_outbox [OF assms(3), of org row p "nr_audience row" "w\<lparr>nw_settings := rows\<rparr>"] assms(1)
    by simp
qed simp

lemma email_channel_frame:
  "nw_notifications (email_channel ne org row p w) = nw_notifications w"
  by (simp add: email_channel_def enqueue_email_frame Let_def split: prod.splits)

lemma dispatch_agent_frame [simp]:
  "nw_notifications (dispatch_agent ne org row meta w) = nw_notifications w"
  "outbox_of (dispatch_agent ne org row meta w) = outbox_of w"
  by (simp_all add: dispatch_agent_def Let_def)

lemma create_notification_effect:
  assumes "mail_works ne" "\<not> ne_fails ne InsertNotification"
    and inbox_def: "inbox = inbox_enabled (ne_fails ne) (nw_settings w) org (nn_kind n)"
  shows "\<exists>new. outbox_of (snd (create_notification ne org n w)) = outbox_of w @ new \<and>
    map ob_recipient new =
      (if mail_gate ne org n (nw_settings w) then recipients_for ne org (normalise_audience (nn_audience n)) w else []) \<and>
    (\<forall>r \<in> set new. fresh_mail org (nn_kind n) (if inbox then Some (next_notification_id (nw_notifications w)) else None) r)"
    and "nw_notifications (snd (create_notification ne org n w)) =
      nw_notifications w @ (if inbox then [(row_of ne org n)\<lparr>nr_id := next_notification_id (nw_notifications w)\<rparr>] else [])"
proof -
  define row where "row = (if inbox then (row_of ne org n)\<lparr>nr_id := next_notification_id (nw_notifications w)\<rparr> else row_of ne org n)"
  define w1 where "w1 = (if inbox
      then w\<lparr>nw_notifications := nw_notifications w @ [row],
             nw_broadcaster := notify org (nr_audience row)
               (broadcast_payload (ne_fl ne) (ne_from_str ne) (iso_naive (ne_cal ne)) row) (nw_broadcaster w)\<rparr> else w)"
  have run: "snd (create_notification ne org n w) = dispatch_agent ne org row (nn_meta n) (email_channel ne org row inbox w1)"
    using assms(2) by (simp add: create_notification_def Let_def row_def w1_def inbox_def)
  have r: "nr_kind row = nn_kind n" "nr_camera row = nn_camera n" "nr_audience row = normalise_audience (nn_audience n)"
    "inbox \<Longrightarrow> nr_id row = next_notification_id (nw_notifications w)"
    by (simp_all add: row_def)
  have w1: "nw_settings w1 = nw_settings w" "outbox_of w1 = outbox_of w" "recipients_for ne org a w1 = recipients_for ne org a w" for a
    by (simp_all add: w1_def)
  show "\<exists>new. outbox_of (snd (create_notification ne org n w)) = outbox_of w @ new \<and>
    map ob_recipient new =
      (if mail_gate ne org n (nw_settings w) then recipients_for ne org (normalise_audience (nn_audience n)) w else []) \<and>
    (\<forall>r \<in> set new. fresh_mail org (nn_kind n) (if inbox then Some (next_notification_id (nw_notifications w)) else None) r)"
    using email_channel_outbox [OF r(1,2) assms(1), of org inbox w1] r(3,4) w1 by (simp add: run cong: if_cong)
  show "nw_notifications (snd (create_notification ne org n w)) =
      nw_notifications w @ (if inbox then [(row_of ne org n)\<lparr>nr_id := next_notification_id (nw_notifications w)\<rparr>] else [])"
    by (simp add: run email_channel_frame w1_def row_def)
qed

section \<open>The cooldown\<close>

lemma get_of_stored:
  "settings_get rows org key dflt = (case stored rows (org, key) of Some v \<Rightarrow> v | None \<Rightarrow> dflt)"
  by (simp add: settings_get_def stored_def split: option.splits)

lemma iso_naive_nonempty: "iso_naive cal t \<noteq> []"
  by (simp add: iso_naive_def Let_def split: prod.splits)

lemma claim_True:
  assumes "claim_motion_cooldown_or_silence cal fails now org (Some cam) rows = (True, rows')" "settings_ok rows"
    and "\<not> fails (SetSetting (motion_cooldown_anchor_key cam))"
  shows "stored rows' (org, motion_cooldown_anchor_key cam) = Some (Some (iso_naive cal now))"
  using assms
  by (auto simp: claim_motion_cooldown_or_silence_def Let_def set_ignoring_def settings_set_def stored_write split: if_splits)

lemma claim_spacing:
  assumes "calendar_sound cal" "1 \<le> year_of cal now" "year_of cal now \<le> 9999"
    and "stored rows (org, motion_cooldown_anchor_key cam) = Some (Some (iso_naive cal now))"
    and "\<not> fails (GetSetting (motion_cooldown_anchor_key cam))"
  shows "fst (claim_motion_cooldown_or_silence cal fails now2 org (Some cam) rows) \<longleftrightarrow>
    saturating_minutes (motion_cooldown_minutes fails rows org) \<le> num_seconds (now2 - now)"
  using assms fromisoformat_iso_naive [OF assms(1-3)] iso_naive_nonempty [of cal now]
  by (auto simp: claim_motion_cooldown_or_silence_def anchor_silences_def get_of_stored Let_def)

lemma minutes_positive: "1 \<le> parse_cooldown_minutes raw"
  by (auto simp: parse_cooldown_minutes_def i64_max_def split: option.splits py_int.splits)

section \<open>The debounce\<close>

lemma emit_spacing:
  assumes "should_emit_transition kind entity direction now db = (True, db')"
  shows "db' (kind, entity, direction) = Some now"
    and "db (kind, entity, direction) = Some prev \<Longrightarrow> from_secs 60 \<le> duration_since now prev"
proof -
  show "db' (kind, entity, direction) = Some now"
    using assms by (auto simp: should_emit_transition_def Let_def split: option.splits if_splits)
  assume "db (kind, entity, direction) = Some prev"
  then have "\<not> duration_since now prev div from_secs 1 < 60"
    using assms by (auto simp: should_emit_transition_def Let_def TRANSITION_DEBOUNCE_SECONDS_def split: if_splits)
  moreover have "from_secs 60 = 60 * from_secs 1" "0 < from_secs 1" by (simp_all add: from_secs_def)
  ultimately show "from_secs 60 \<le> duration_since now prev"
    by (simp add: from_secs_def)
qed

section \<open>Announcements over time\<close>

type_synonym debounce_call = "(string \<times> string \<times> string) \<times> instant"

text \<open>The calls of \<open>should_emit_transition\<close> that said yes, in order.\<close>

fun emitted :: "debounce_call list \<Rightarrow> (string \<times> string \<times> string \<Rightarrow> instant option) \<Rightarrow> debounce_call list" where
  "emitted [] db = []"
| "emitted (((kind, entity, direction), now) # calls) db =
     (let (emit, db') = should_emit_transition kind entity direction now db
      in if emit then ((kind, entity, direction), now) # emitted calls db' else emitted calls db')"

lemma should_emit_db:
  assumes "should_emit_transition kind entity direction now db = (b, db')"
  shows "db' = (if b then db((kind, entity, direction) \<mapsto> now) else db)"
  using assms by (auto simp: should_emit_transition_def Let_def split: option.splits if_splits)

lemma emitted_after:
  assumes "(k, t) \<in> set (emitted calls db)" "db k = Some prev"
  shows "prev + from_secs 60 \<le> t"
  using assms
proof (induction calls db arbitrary: prev rule: emitted.induct)
  case (2 kind entity direction now calls db)
  obtain b db' where s: "should_emit_transition kind entity direction now db = (b, db')" by force
  note db' = should_emit_db [OF s]
  let ?k = "(kind, entity, direction)"
  show ?case
  proof (cases "b \<and> k = ?k")
    case True
    then have gap: "from_secs 60 \<le> duration_since now prev" using emit_spacing(2) [of kind entity direction now db db' prev] s 2(4) by simp
    then have later: "prev + from_secs 60 \<le> now" by (auto simp: duration_since_def from_secs_def split: if_splits)
    have "db' k = Some now" using True db' by simp
    then have "t = now \<or> now + from_secs 60 \<le> t" using 2(1) [OF s [symmetric] refl] 2(3) True s by (auto split: if_splits)
    then show ?thesis using later by (auto simp: from_secs_def)
  next
    case False
    then have "db' k = Some prev" using db' 2(4) by auto
    moreover have "(k, t) \<in> set (emitted calls db')" using 2(3) s False by (auto split: if_splits)
    ultimately show ?thesis using 2(1,2) [OF s [symmetric] refl] by blast
  qed
qed simp

lemma emitted_spaced:
  "sorted_wrt (\<lambda>(k, t) (k', t'). k = k' \<longrightarrow> t + from_secs 60 \<le> t') (emitted calls db)"
proof (induction calls db rule: emitted.induct)
  case (2 kind entity direction now calls db)
  obtain b db' where s: "should_emit_transition kind entity direction now db = (b, db')" by force
  have "db' (kind, entity, direction) = Some now" if b using emit_spacing(1) [of kind entity direction now db db'] s that by simp
  then show ?case using 2(1,2) [OF s [symmetric] refl] emitted_after [of _ _ calls db'] s by auto
qed simp

section \<open>Properties\<close>

text \<open>
  C11. The two gates of a notification are independent. The inbox gets a row exactly when the inbox
  setting of its kind allows it; the outbox gets one pending mail for each recipient exactly when
  the mail switch, the mail setting of the kind and, for motion, the cooldown allow it, whatever
  the inbox decided. A mail beside a suppressed inbox row carries no notification id.
\<close>

theorem notification_gates:
  assumes "mail_works ne" "\<not> ne_fails ne InsertNotification"
  shows "\<exists>new. outbox_of (snd (create_notification ne org n w)) = outbox_of w @ new \<and>
    map ob_recipient new =
      (if mail_gate ne org n (nw_settings w) then recipients_for ne org (normalise_audience (nn_audience n)) w else []) \<and>
    (\<forall>r \<in> set new. fresh_mail org (nn_kind n)
      (if inbox_enabled (ne_fails ne) (nw_settings w) org (nn_kind n)
       then Some (next_notification_id (nw_notifications w)) else None) r) \<and>
    nw_notifications (snd (create_notification ne org n w)) = nw_notifications w @
      (if inbox_enabled (ne_fails ne) (nw_settings w) org (nn_kind n)
       then [(row_of ne org n)\<lparr>nr_id := next_notification_id (nw_notifications w)\<rparr>] else [])"
  using create_notification_effect(1) [OF assms refl, of org n w] create_notification_effect(2) [OF assms refl, of org n w]
  by blast

definition sample_note_env :: "unit note_env" where
  "sample_note_env =
     \<lparr>ne_fails = \<lambda>_. False, ne_now = 1000, ne_instant = 0, ne_cal = gregorian, ne_fl = \<lambda>_. [], ne_from_str = \<lambda>_. None,
      ne_sha = \<lambda>_. [7], ne_lookup = sample_lookup, ne_email_switch = True, ne_frontend_url = ''u'', ne_is_local_auth = False,
      ne_app_secret = [], ne_clerk_secret = ''s'', ne_render = \<lambda>_ _ _ _. (''s'', ''t'', ''h''),
      ne_dispatch = \<lparr>de_month_start = \<lambda>t. t, de_app = sample_app, de_reads = sample_reads, de_looked = None, de_configs = None,
        de_plan = ''free_org'', de_run_id = ''r'', de_works = False, de_triggered_at = 0\<rparr>\<rparr>"

definition sample_note_world :: note_world where
  "sample_note_world =
     \<lparr>nw_settings = [\<lparr>st_id = 1, st_org = ''o'', st_key = ''welcome_notifications'', st_value = Some ''false'', st_updated = 0\<rparr>],
      nw_notifications = [], nw_broadcaster = broadcaster_default, nw_mail = sample_mail, nw_cache = Map.empty,
      nw_runs = [], nw_debounce = Map.empty\<rparr>"

lemma sample_mail_works: "mail_works sample_note_env"
  by (simp add: mail_works_def unsubscribe_secret_def derive_secret_def sample_note_env_def hmac_sha256_def hex_def hex_byte_def Let_def)

lemma notification_gates_witness:
  "\<exists>new. outbox_of (snd (create_notification sample_note_env ''o'' (notification_new ''welcome'' ''t'') sample_note_world)) =
      outbox_of sample_note_world @ new \<and>
    map ob_recipient new = recipients_for sample_note_env ''o'' ''all'' sample_note_world \<and>
    nw_notifications (snd (create_notification sample_note_env ''o'' (notification_new ''welcome'' ''t'') sample_note_world)) = []"
proof -
  have "mail_gate sample_note_env ''o'' (notification_new ''welcome'' ''t'') (nw_settings sample_note_world)"
    by code_simp
  moreover have "\<not> inbox_enabled (ne_fails sample_note_env) (nw_settings sample_note_world) ''o''
      (nn_kind (notification_new ''welcome'' ''t''))" by code_simp
  moreover have "normalise_audience (nn_audience (notification_new ''welcome'' ''t'')) = ''all''"
    "nw_notifications sample_note_world = []" "\<not> ne_fails sample_note_env InsertNotification"
    by (simp_all add: notification_new_def normalise_audience_def sample_note_world_def sample_note_env_def)
  ultimately show ?thesis
    using notification_gates [OF sample_mail_works, of "''o''" "notification_new ''welcome'' ''t''" sample_note_world]
    by auto
qed



text \<open>
  The debounce: among all the announcements that pass it, in any sequence of calls on any clock,
  two of the same entity and direction are at least sixty seconds apart.
\<close>

theorem announcements_spaced:
  "sorted_wrt (\<lambda>(k, t) (k', t'). k = k' \<longrightarrow> t + from_secs (nat TRANSITION_DEBOUNCE_SECONDS) \<le> t') (emitted calls db)"
  using emitted_spaced by (simp add: TRANSITION_DEBOUNCE_SECONDS_def)

lemma announcements_spaced_witness:
  "sorted_wrt (\<lambda>(k, t) (k', t'). k = k' \<longrightarrow> t + from_secs (nat TRANSITION_DEBOUNCE_SECONDS) \<le> t')
     (emitted [((''camera'', ''c'', ''offline''), 0), ((''camera'', ''c'', ''offline''), from_secs 59),
       ((''camera'', ''c'', ''offline''), from_secs 61)] Map.empty)"
  by (rule announcements_spaced)

text \<open>
  A camera announced as offline that comes back through \<open>starting\<close> is not announced as online, and
  one that goes dark again from there is announced as offline a second time.
\<close>

lemma return_through_starting_is_silent:
  "camera_transition (Some ''offline'') ''starting'' = None"
  "camera_transition (Some ''starting'') ''streaming'' = None"
  "camera_transition (Some ''starting'') ''offline'' = Some ''offline''"
  by (simp_all add: camera_transition_def)

end
