(* ===== verification/Fleet.thy ===== *)
theory Fleet
  imports Notifications Plans Versions Hls_Cache
begin

text \<open>
  The tables of nodes and cameras, the row helpers of \<^verbatim>\<open>backend-rs/src/models.rs\<close>, the node keys and
  codec strings of \<^verbatim>\<open>backend-rs/src/api/node_writes.rs\<close> and the offline sweep of
  \<^verbatim>\<open>backend-rs/src/loops.rs\<close>. The tables, the HLS caches and the world of the notifications are one
  record, since the handlers of the nodes work on all of them. Timestamps are microseconds.
\<close>

section \<open>Rows\<close>

record node_row =
  nd_id :: int
  nd_node_id :: string
  nd_org :: string
  nd_name :: "string option"
  nd_hostname :: "string option"
  nd_key_hash :: string
  nd_local_ip :: "string option"
  nd_http_port :: "int option"
  nd_http_tls :: "bool option"
  nd_status :: "string option"
  nd_last_seen :: "int option"
  nd_version :: "string option"
  nd_version_checked_at :: "int option"
  nd_register_error :: "string option"
  nd_register_error_at :: "int option"
  nd_video_codec :: "string option"
  nd_audio_codec :: "string option"
  nd_codec_detected_at :: "int option"
  nd_storage :: "int option \<times> int option \<times> int option \<times> int option"
  nd_storage_reported_at :: "int option"
  nd_key_rotated_at :: "int option"
  nd_created_at :: "int option"
  nd_updated_at :: int

record fleet_camera =
  fc_id :: int
  fc_camera_id :: string
  fc_org :: string
  fc_node :: int
  fc_name :: "string option"
  fc_node_type :: string
  fc_capabilities :: "string option"
  fc_group :: "int option"
  fc_status :: "string option"
  fc_last_seen :: "int option"
  fc_last_error :: "string option"
  fc_video_codec :: "string option"
  fc_audio_codec :: "string option"
  fc_codec_detected_at :: "int option"
  fc_disabled_by_plan :: bool
  fc_continuous_24_7 :: bool
  fc_scheduled_recording :: bool
  fc_scheduled_start :: "string option"
  fc_scheduled_end :: "string option"
  fc_created_at :: int
  fc_updated_at :: int

record fleet =
  fl_nodes :: "node_row list"
  fl_cameras :: "fleet_camera list"
  fl_world :: note_world
  fl_hls :: hls_cache
  fl_auth_generation :: nat

section \<open>Helpers of the models\<close>

text \<open>On nanoseconds.\<close>

definition to_micros :: "int \<Rightarrow> int" where
  "to_micros t = t - t mod 1000"

definition window_overflow :: api_error where
  "window_overflow = api_error_new 422 (String ''time window is out of range'')"

definition python_window_start :: "int \<Rightarrow> py_int \<Rightarrow> int \<Rightarrow> api_error + int" where
  "python_window_start now n unit_seconds =
     (case small n of
        None \<Rightarrow> Inl window_overflow
      | Some k \<Rightarrow>
          (let start = now - k * unit_seconds * 1000000
           in if \<not> (- 62135596800000000 \<le> start \<and> start \<le> 253402300799999999) then Inl window_overflow else Inr start))"

definition HEARTBEAT_GRACE_SECONDS :: int where "HEARTBEAT_GRACE_SECONDS = 90"

definition camera_effective_status :: "int \<Rightarrow> string option \<Rightarrow> int option \<Rightarrow> string option" where
  "camera_effective_status now status last_seen =
     (case last_seen of
        None \<Rightarrow> Some ''offline''
      | Some seen \<Rightarrow>
          if status = Some ''offline'' then Some ''offline''
          else if num_seconds (now - seen) > HEARTBEAT_GRACE_SECONDS then Some ''offline''
          else status)"

text \<open>A camera joined to its node and group.\<close>

record camera_view =
  cv_camera :: fleet_camera
  cv_node_id :: "string option"
  cv_node_name :: "string option"
  cv_group_name :: "string option"

definition camera_json :: "(int \<Rightarrow> string) \<Rightarrow> int \<Rightarrow> camera_view \<Rightarrow> (string \<times> json) list" where
  "camera_json fmt now v =
     (let c = cv_camera v;
          eff = camera_effective_status now (fc_status c) (fc_last_seen c);
          err = (if eff \<in> {Some ''restarting'', Some ''failed'', Some ''error''} then fc_last_error c else None)
      in [(''camera_id'', String (fc_camera_id c)), (''name'', opt_string (fc_name c)),
          (''node_id'', opt_string (cv_node_id v)), (''node_name'', opt_string (cv_node_name v)),
          (''node_type'', String (fc_node_type c)),
          (''capabilities'', Array (case fc_capabilities c of
              None \<Rightarrow> [] | Some s \<Rightarrow> if s = [] then [] else map String (split_on (CHR '','') s))),
          (''group_id'', opt_int (fc_group c)), (''group'', opt_string (cv_group_name v)),
          (''status'', opt_string eff), (''last_error'', opt_string err),
          (''last_seen'', opt_time fmt (fc_last_seen c)), (''disabled_by_plan'', Bool (fc_disabled_by_plan c)),
          (''recording_policy'', Object
            [(''continuous_24_7'', Bool (fc_continuous_24_7 c)), (''scheduled_recording'', Bool (fc_scheduled_recording c)),
             (''scheduled_start'', opt_string (fc_scheduled_start c)), (''scheduled_end'', opt_string (fc_scheduled_end c))])])"

record camera_group =
  cg_id :: int
  cg_name :: string
  cg_color :: "string option"
  cg_icon :: "string option"
  cg_camera_count :: int

definition group_json :: "camera_group \<Rightarrow> (string \<times> json) list" where
  "group_json g =
     [(''id'', IntNum (cg_id g)), (''name'', String (cg_name g)), (''color'', opt_string (cg_color g)),
      (''icon'', opt_string (cg_icon g)), (''camera_count'', IntNum (cg_camera_count g))]"

section \<open>Node keys and codecs\<close>

text \<open>The header is decoded as Latin-1 and hashed as UTF-8.\<close>

definition latin1 :: "string \<Rightarrow> string" where
  "latin1 header = encode_utf8 (map of_char header)"

definition node_key_hash :: "(bytes \<Rightarrow> bytes) \<Rightarrow> string \<Rightarrow> string" where
  "node_key_hash sha header = hex (sha (to_bytes (latin1 header)))"

fun hex_value :: "char \<Rightarrow> int option" where
  "hex_value c =
     (let n = of_char c :: nat
      in if 48 \<le> n \<and> n \<le> 57 then Some (int n - 48)
         else if 97 \<le> n \<and> n \<le> 102 then Some (int n - 87)
         else if 65 \<le> n \<and> n \<le> 70 then Some (int n - 55) else None)"

fun hex_number :: "int \<Rightarrow> string \<Rightarrow> int option" where
  "hex_number acc [] = Some acc"
| "hex_number acc (c # cs) = (case hex_value c of Some v \<Rightarrow> hex_number (acc * 16 + v) cs | None \<Rightarrow> None)"

text \<open>Whitespace here has the separators \<open>U+001C\<close> to \<open>U+001F\<close> too.\<close>

definition py_spaces :: "string list" where
  "py_spaces = whitespace @ [[CHR 0x1C], [CHR 0x1D], [CHR 0x1E], [CHR 0x1F]]"

definition trim_py :: "string \<Rightarrow> string" where
  "trim_py s = rev (trim_with (map rev py_spaces) (rev (trim_with py_spaces s)))"

definition python_int_base16 :: "string \<Rightarrow> int option" where
  "python_int_base16 s =
     (let trimmed = trim_py s;
          (neg, digits) =
            (case strip_prefix ''-'' trimmed of
               Some rest \<Rightarrow> (True, rest)
             | None \<Rightarrow> (False, case strip_prefix ''+'' trimmed of Some rest \<Rightarrow> rest | None \<Rightarrow> trimmed))
      in if digits = [] then None
         else case hex_number 0 digits of
             None \<Rightarrow> None
           | Some v \<Rightarrow> if v < 2 ^ 63 then Some (if neg then - v else v) else None)"

definition sanitize_video_codec :: "string \<Rightarrow> string" where
  "sanitize_video_codec codec =
     (let cs = chars codec
      in if codec = [] \<or> \<not> starts_with ''avc1.'' codec \<or> length cs \<noteq> 11 then codec
         else case python_int_base16 (to_lowercase (encode_utf8 (drop 9 cs))) of
             None \<Rightarrow> codec
           | Some v \<Rightarrow> if v < 0x14 then encode_utf8 (take 9 cs) @ ''1e'' else codec)"

section \<open>The recording schedule\<close>

text \<open>\<open>hours * 60 + minutes\<close> in \<open>i64\<close>, which wraps in the release profile.\<close>

definition hhmm_minutes :: "string \<Rightarrow> int option" where
  "hhmm_minutes v =
     (case split_on (CHR '':'') v of
        [hh, mm] \<Rightarrow>
          (case (Option.bind (PyInt.python_int hh) small, Option.bind (PyInt.python_int mm) small) of
             (Some h, Some m) \<Rightarrow> Some (wrap_i64 (wrap_i64 (h * 60) + m))
           | _ \<Rightarrow> None)
      | _ \<Rightarrow> None)"

definition camera_should_record_now :: "bool \<Rightarrow> bool \<Rightarrow> string option \<Rightarrow> string option \<Rightarrow> int \<Rightarrow> bool" where
  "camera_should_record_now always scheduled start stop cur_minutes =
     (if always then True
      else if \<not> scheduled then False
      else case (start, stop) of
          (Some s, Some e) \<Rightarrow>
            if s = [] \<or> e = [] then False
            else (case (hhmm_minutes s, hhmm_minutes e) of
                    (Some a, Some b) \<Rightarrow>
                      if a \<le> b then a \<le> cur_minutes \<and> cur_minutes < b else cur_minutes \<ge> a \<or> cur_minutes < b
                  | _ \<Rightarrow> False)
        | _ \<Rightarrow> False)"

section \<open>The offline sweep\<close>

definition OFFLINE_HEARTBEAT_TIMEOUT_SECONDS :: int where "OFFLINE_HEARTBEAT_TIMEOUT_SECONDS = 90"

definition older :: "int \<Rightarrow> int option \<Rightarrow> bool" where
  "older cutoff seen = (case seen of Some t \<Rightarrow> t < cutoff | None \<Rightarrow> False)"

definition stale_node :: "int \<Rightarrow> node_row \<Rightarrow> bool" where
  "stale_node cutoff n \<longleftrightarrow> nd_status n = Some ''online'' \<and> older cutoff (nd_last_seen n)"

text \<open>\<open>status <> 'offline'\<close> is not true of a null.\<close>

definition stale_camera :: "int \<Rightarrow> fleet_camera \<Rightarrow> bool" where
  "stale_camera cutoff c \<longleftrightarrow> fc_status c \<noteq> None \<and> fc_status c \<noteq> Some ''offline'' \<and> older cutoff (fc_last_seen c)"

definition display_or :: "string option \<Rightarrow> string \<Rightarrow> string" where
  "display_or name ident = (case name of Some n \<Rightarrow> if n = [] then ident else n | None \<Rightarrow> ident)"

definition parent_node :: "node_row list \<Rightarrow> fleet_camera \<Rightarrow> string option" where
  "parent_node ns c = map_option nd_node_id (find (\<lambda>n. nd_id n = fc_node c) ns)"

record sweep_summary =
  ss_nodes_flipped :: nat
  ss_cameras_flipped :: nat

datatype sweep_statement = FlipNodes | FlipCameras

text \<open>\<open>None\<close> where a statement failed.\<close>

definition run_offline_sweep_with ::
  "'z note_env \<Rightarrow> (sweep_statement \<Rightarrow> bool) \<Rightarrow> int \<Rightarrow> int \<Rightarrow> fleet \<Rightarrow> sweep_summary option \<times> fleet" where
  "run_offline_sweep_with ne fails timeout_seconds now f =
     (let cutoff = now - timeout_seconds * 1000000
      in if fails FlipNodes then (None, f)
         else
           (let gone_nodes = filter (stale_node cutoff) (fl_nodes f);
                f = f\<lparr>fl_nodes := map (\<lambda>n. if stale_node cutoff n
                        then n\<lparr>nd_status := Some ''offline'', nd_updated_at := now\<rparr> else n) (fl_nodes f)\<rparr>
            in if fails FlipCameras then (None, f)
               else
                 (let gone = filter (stale_camera cutoff) (fl_cameras f);
                      f = f\<lparr>fl_cameras := map (\<lambda>c. if stale_camera cutoff c
                              then c\<lparr>fc_status := Some ''offline'', fc_updated_at := now\<rparr> else c) (fl_cameras f)\<rparr>;
                      w = fold (\<lambda>n w. snd (emit_node_transition ne (nd_org n) (nd_node_id n)
                              (display_or (nd_name n) (nd_node_id n)) ''offline'' w)) gone_nodes (fl_world f);
                      w = fold (\<lambda>c w. snd (emit_camera_transition ne (fc_org c) (fc_camera_id c)
                              (display_or (fc_name c) (fc_camera_id c)) ''offline'' (parent_node (fl_nodes f) c) w)) gone w
                  in (Some \<lparr>ss_nodes_flipped = length gone_nodes, ss_cameras_flipped = length gone\<rparr>, f\<lparr>fl_world := w\<rparr>))))"

definition run_offline_sweep ::
  "'z note_env \<Rightarrow> (sweep_statement \<Rightarrow> bool) \<Rightarrow> int \<Rightarrow> fleet \<Rightarrow> sweep_summary option \<times> fleet" where
  "run_offline_sweep ne fails now f = run_offline_sweep_with ne fails OFFLINE_HEARTBEAT_TIMEOUT_SECONDS now f"

section \<open>The sweep and the status a reader sees\<close>

definition reads_offline :: "int \<Rightarrow> fleet_camera \<Rightarrow> bool" where
  "reads_offline now c \<longleftrightarrow> camera_effective_status now (fc_status c) (fc_last_seen c) = Some ''offline''"

lemma num_seconds_floor: "0 \<le> d \<Longrightarrow> num_seconds d = d div 1000000"
  by (simp add: num_seconds_def)

lemma silent_is_older:
  assumes "num_seconds (now - seen) > 90"
  shows "seen < now - 90 * 1000000"
proof -
  have "0 \<le> now - seen" using assms by (auto simp: num_seconds_def split: if_splits)
  then have "90 < (now - seen) div 1000000" using assms by (simp add: num_seconds_floor)
  then have "91 * 1000000 \<le> now - seen" by linarith
  then show ?thesis by linarith
qed

lemma sweep_cameras:
  assumes "run_offline_sweep ne fails now f = (Some s, f')"
  shows "fl_cameras f' = map (\<lambda>c. if stale_camera (now - 90 * 1000000) c
      then c\<lparr>fc_status := Some ''offline'', fc_updated_at := now\<rparr> else c) (fl_cameras f)"
    and "fl_nodes f' = map (\<lambda>n. if stale_node (now - 90 * 1000000) n
      then n\<lparr>nd_status := Some ''offline'', nd_updated_at := now\<rparr> else n) (fl_nodes f)"
    and "s = \<lparr>ss_nodes_flipped = length (filter (stale_node (now - 90 * 1000000)) (fl_nodes f)),
      ss_cameras_flipped = length (filter (stale_camera (now - 90 * 1000000)) (fl_cameras f))\<rparr>"
  using assms
  by (auto simp: run_offline_sweep_def run_offline_sweep_with_def OFFLINE_HEARTBEAT_TIMEOUT_SECONDS_def Let_def split: if_splits)

text \<open>
  C30. After a sweep the column and the reader agree: every camera whose status is known and that has
  not been heard of for ninety seconds is stored as \<open>offline\<close>, so that a camera a reader computes
  as offline is stored so; no other camera is touched, and a second sweep at the same time finds
  nothing to do.
\<close>

theorem sweep_settles:
  assumes "run_offline_sweep ne fails now f = (Some s, f')"
  shows "(\<forall>c \<in> set (fl_cameras f'). reads_offline now c \<and> fc_last_seen c \<noteq> None \<and> fc_status c \<noteq> None \<longrightarrow>
      fc_status c = Some ''offline'') \<and>
    (\<forall>c \<in> set (fl_cameras f). \<not> stale_camera (now - 90 * 1000000) c \<longrightarrow> c \<in> set (fl_cameras f')) \<and>
    (\<forall>ne' fails' s' f''. run_offline_sweep ne' fails' now f' = (Some s', f'') \<longrightarrow>
      s' = \<lparr>ss_nodes_flipped = 0, ss_cameras_flipped = 0\<rparr> \<and> f'' = f')"
proof (intro conjI)
  note cams = sweep_cameras(1) [OF assms] and nds = sweep_cameras(2) [OF assms]
  let ?cut = "now - 90 * 1000000"
  have quiet: "\<not> stale_camera ?cut c" if "c \<in> set (fl_cameras f')" for c
    using that by (auto simp: cams stale_camera_def)
  have quiet_nodes: "\<not> stale_node ?cut n" if "n \<in> set (fl_nodes f')" for n
    using that by (auto simp: nds stale_node_def)
  show "\<forall>c \<in> set (fl_cameras f'). reads_offline now c \<and> fc_last_seen c \<noteq> None \<and> fc_status c \<noteq> None \<longrightarrow>
      fc_status c = Some ''offline''"
  proof (intro ballI impI)
    fix c assume c: "c \<in> set (fl_cameras f')" and r: "reads_offline now c \<and> fc_last_seen c \<noteq> None \<and> fc_status c \<noteq> None"
    then obtain seen where seen: "fc_last_seen c = Some seen" by blast
    show "fc_status c = Some ''offline''"
    proof (rule ccontr)
      assume n: "fc_status c \<noteq> Some ''offline''"
      then have "num_seconds (now - seen) > 90"
        using r seen by (auto simp: reads_offline_def camera_effective_status_def HEARTBEAT_GRACE_SECONDS_def split: if_splits)
      then have "stale_camera ?cut c"
        using silent_is_older n r seen by (simp add: stale_camera_def older_def)
      then show False using quiet [OF c] by blast
    qed
  qed
  show "\<forall>c \<in> set (fl_cameras f). \<not> stale_camera ?cut c \<longrightarrow> c \<in> set (fl_cameras f')"
    by (force simp: cams)
  show "\<forall>ne' fails' s' f''. run_offline_sweep ne' fails' now f' = (Some s', f'') \<longrightarrow>
      s' = \<lparr>ss_nodes_flipped = 0, ss_cameras_flipped = 0\<rparr> \<and> f'' = f'"
  proof (intro allI impI)
    fix ne' :: "'c note_env" and fails' s' f''
    assume again: "run_offline_sweep ne' fails' now f' = (Some s', f'')"
    have "filter (stale_camera ?cut) (fl_cameras f') = []" "filter (stale_node ?cut) (fl_nodes f') = []"
      using quiet quiet_nodes by (auto simp: filter_empty_conv)
    moreover have "map (\<lambda>c. if stale_camera ?cut c then c\<lparr>fc_status := Some ''offline'', fc_updated_at := now\<rparr> else c) (fl_cameras f') =
        fl_cameras f'"
      "map (\<lambda>n. if stale_node ?cut n then n\<lparr>nd_status := Some ''offline'', nd_updated_at := now\<rparr> else n) (fl_nodes f') = fl_nodes f'"
      using quiet quiet_nodes by (simp_all add: map_idI)
    ultimately show "s' = \<lparr>ss_nodes_flipped = 0, ss_cameras_flipped = 0\<rparr> \<and> f'' = f'"
      using again
      by (auto simp: run_offline_sweep_def run_offline_sweep_with_def OFFLINE_HEARTBEAT_TIMEOUT_SECONDS_def Let_def split: if_splits)
  qed
qed

definition sample_camera :: fleet_camera where
  "sample_camera =
     \<lparr>fc_id = 1, fc_camera_id = ''n_c'', fc_org = ''o'', fc_node = 1, fc_name = None, fc_node_type = ''usb'', fc_capabilities = None,
      fc_group = None, fc_status = Some ''streaming'', fc_last_seen = Some 0, fc_last_error = None, fc_video_codec = None,
      fc_audio_codec = None, fc_codec_detected_at = None, fc_disabled_by_plan = False, fc_continuous_24_7 = False,
      fc_scheduled_recording = False, fc_scheduled_start = None, fc_scheduled_end = None, fc_created_at = 0, fc_updated_at = 0\<rparr>"

definition sample_fleet :: fleet where
  "sample_fleet = \<lparr>fl_nodes = [], fl_cameras = [sample_camera], fl_world = sample_note_world, fl_hls = new_cache, fl_auth_generation = 0\<rparr>"

lemma sweep_runs:
  assumes "\<And>x. \<not> fails x"
  obtains s f' where "run_offline_sweep ne fails now f = (Some s, f')"
  using assms by (simp add: run_offline_sweep_def run_offline_sweep_with_def Let_def)

lemma sweep_settles_witness:
  "\<exists>s f'. run_offline_sweep sample_note_env (\<lambda>_. False) 200000000 sample_fleet = (Some s, f') \<and>
    fl_cameras f' \<noteq> [] \<and> (\<forall>c \<in> set (fl_cameras f'). fc_status c = Some ''offline'')"
proof -
  obtain s f' where run: "run_offline_sweep sample_note_env (\<lambda>_. False) 200000000 sample_fleet = (Some s, f')"
    by (rule sweep_runs [of "\<lambda>_. False"]) auto
  have c: "fl_cameras f' = [sample_camera\<lparr>fc_status := Some ''offline'', fc_updated_at := 200000000\<rparr>]"
    using sweep_cameras(1) [OF run] by (simp add: sample_fleet_def sample_camera_def stale_camera_def older_def)
  then have "reads_offline 200000000 (hd (fl_cameras f'))"
    by (simp add: reads_offline_def camera_effective_status_def sample_camera_def)
  then show ?thesis using sweep_settles [OF run] run c by (auto simp: sample_camera_def)
qed

end
