(* ===== verification/Node_Register.thy ===== *)
theory Node_Register
  imports Fleet Query
begin

text \<open>
  \<^verbatim>\<open>backend-rs/src/api/node_register.rs\<close>: the registration of a node, which reconciles its cameras with the
  plan's cap, and the heartbeat over HTTP. The body is validated with the definitions of
  \<open>Query\<close>; the plan is what \<open>Plans.resolve_org_plan\<close> and \<open>Plans.effective_plan_for_caps\<close> give
  and is an argument here, as are the statements that fail, the percentage of a disk in use and
  the time zone's reading of the clock. A failed statement ends the handler and leaves what was
  written before it.
\<close>

section \<open>Requests\<close>

record camera_report =
  cp_camera_id :: "string option"
  cp_device_path :: "string option"
  cp_name :: "string option"
  cp_node_type :: "string option"
  cp_capabilities :: "string list option"

definition parse_camera_report :: "json \<Rightarrow> body_errors \<Rightarrow> camera_report \<times> body_errors" where
  "parse_camera_report item e =
     (let (camera_id, e) = optional_string item ''camera_id'' 150 e;
          (device_path, e) = optional_string item ''device_path'' 255 e;
          (name, e) = optional_string item ''name'' 100 e;
          (node_type, e) = optional_string item ''node_type'' 20 e;
          (capabilities, e) = optional_list_of_strings item ''capabilities'' e
      in (\<lparr>cp_camera_id = camera_id, cp_device_path = device_path, cp_name = name, cp_node_type = node_type,
           cp_capabilities = capabilities\<rparr>, e))"

definition check_size :: "json \<Rightarrow> body_errors \<Rightarrow> unit \<times> body_errors" where
  "check_size item e =
     (let (_, e) = optional_int_in_range item ''width'' 1 7680 e;
          (_, e) = optional_int_in_range item ''height'' 1 4320 e
      in ((), e))"

fun is_object :: "json \<Rightarrow> bool" where
  "is_object (Object _) = True"
| "is_object _ = False"

fun report_items :: "nat \<Rightarrow> json list \<Rightarrow> body_errors \<Rightarrow> camera_report list \<times> body_errors" where
  "report_items i [] e = ([], e)"
| "report_items i (item # items) e =
     (let loc = [String ''cameras'', IntNum (int i)]
      in if \<not> is_object item then report_items (i + 1) items (model_attributes_type_at loc item e)
         else
           (let (report, e) = nested loc (parse_camera_report item) e;
                (_, e) = nested loc (check_size item) e;
                (rest, e) = report_items (i + 1) items e
            in (report # rest, e)))"

definition parse_camera_reports :: "json \<Rightarrow> body_errors \<Rightarrow> camera_report list \<times> body_errors" where
  "parse_camera_reports body e =
     (case json_get ''cameras'' body of
        None \<Rightarrow> ([], e)
      | Some Null \<Rightarrow> ([], e)
      | Some (Array items) \<Rightarrow> report_items 0 items e
      | Some v \<Rightarrow> ([], list_type ''cameras'' v e))"

record register_request =
  rr_node_id :: string
  rr_hostname :: "string option"
  rr_local_ip :: "string option"
  rr_http_port :: "int option"
  rr_lan_streaming :: "bool option"
  rr_http_tls :: "bool option"
  rr_cameras :: "camera_report list"
  rr_video_codec :: "string option"
  rr_audio_codec :: "string option"
  rr_node_version :: "string option"

definition parse_register :: "json \<Rightarrow> api_error + register_request" where
  "parse_register body =
     (let e = be_new;
          (node_id, e) = required_string body ''node_id'' 50 e;
          (_, e) = optional_string body ''name'' 100 e;
          (hostname, e) = optional_string body ''hostname'' 255 e;
          (local_ip, e) = optional_string body ''local_ip'' 45 e;
          (http_port, e) =
            (case json_get ''http_port'' body of
               None \<Rightarrow> (Some 8080, e)
             | Some Null \<Rightarrow> (None, e)
             | Some _ \<Rightarrow> optional_int_in_range body ''http_port'' 1 65535 e);
          (lan_streaming, e) = optional_bool body ''lan_streaming'' e;
          (http_tls, e) = optional_bool body ''http_tls'' e;
          (cameras, e) = parse_camera_reports body e;
          (video_codec, e) = optional_string body ''video_codec'' 50 e;
          (audio_codec, e) = optional_string body ''audio_codec'' 50 e;
          (node_version, e) = optional_string body ''node_version'' 50 e
      in case be_finish e of
           Inl err \<Rightarrow> Inl err
         | Inr _ \<Rightarrow>
             Inr \<lparr>rr_node_id = node_id, rr_hostname = hostname, rr_local_ip = local_ip, rr_http_port = http_port,
                  rr_lan_streaming = lan_streaming, rr_http_tls = http_tls, rr_cameras = cameras,
                  rr_video_codec = video_codec, rr_audio_codec = audio_codec, rr_node_version = node_version\<rparr>)"

section \<open>Shared by both handlers\<close>

datatype node_statement =
  FindNode | SaveVersion | SaveNode | SaveCodec | CountCameras | FindCamera string | SaveCamera string |
  SaveCameraCodec string | AddCamera string | ListCameras | DropCamera string | CapUpdate string | RecordError |
  SaveStorage | FindReported | SaveStatus string | ListPolicies

definition db_error :: api_error where "db_error = internal (String ''database error'')"

definition find_node :: "string \<Rightarrow> node_row list \<Rightarrow> node_row option" where
  "find_node node_id t = find (\<lambda>n. nd_node_id n = node_id) t"

definition set_node :: "int \<Rightarrow> (node_row \<Rightarrow> node_row) \<Rightarrow> fleet \<Rightarrow> fleet" where
  "set_node i g f = f\<lparr>fl_nodes := map (\<lambda>n. if nd_id n = i then g n else n) (fl_nodes f)\<rparr>"

definition record_bad_key_attempt :: "bool \<Rightarrow> int \<Rightarrow> int \<Rightarrow> string \<Rightarrow> fleet \<Rightarrow> fleet" where
  "record_bad_key_attempt works now i reason f =
     (if works
      then set_node i (\<lambda>n. if nd_last_seen n = None
             then n\<lparr>nd_register_error := Some (truncate_chars reason 500), nd_register_error_at := Some now, nd_updated_at := now\<rparr>
             else n) f
      else f)"

definition record_node_register_error :: "bool \<Rightarrow> int \<Rightarrow> int \<Rightarrow> string \<Rightarrow> fleet \<Rightarrow> fleet" where
  "record_node_register_error works now i reason f =
     (if works
      then set_node i (\<lambda>n. n\<lparr>nd_register_error := Some (truncate_chars reason 500), nd_register_error_at := Some now,
             nd_updated_at := now\<rparr>) f
      else f)"

definition node_came_online :: "string option \<Rightarrow> bool" where
  "node_came_online previous \<longleftrightarrow> previous \<noteq> Some ''online''"

definition emit_transitions ::
  "'z note_env \<Rightarrow> node_row \<Rightarrow> bool \<Rightarrow> (string \<times> string \<times> string) list \<Rightarrow> note_world \<Rightarrow> note_world" where
  "emit_transitions ne node node_online cams w =
     (let w = (if node_online
               then snd (emit_node_transition ne (nd_org node) (nd_node_id node) (display_or (nd_name node) (nd_node_id node)) ''online'' w)
               else w)
      in fold (\<lambda>(camera_id, display, direction) w.
           snd (emit_camera_transition ne (nd_org node) camera_id display direction (Some (nd_node_id node)) w)) cams w)"

text \<open>The plan's cap on the organisation's cameras, by \<open>Plans.enforce_camera_cap\<close>: \<open>False\<close> is a failure.\<close>

definition cap_row :: "fleet_camera \<Rightarrow> camera_row" where
  "cap_row c = \<lparr>row_id = fc_id c, camera_id = fc_camera_id c, created_at = Some (fc_created_at c),
     disabled_by_plan = Some (fc_disabled_by_plan c)\<rparr>"

definition flagged_by :: "camera_row list \<Rightarrow> fleet_camera \<Rightarrow> bool" where
  "flagged_by rows c =
     (case find (\<lambda>r. row_id r = fc_id c) rows of
        Some r \<Rightarrow> (case disabled_by_plan r of Some b \<Rightarrow> b | None \<Rightarrow> False) | None \<Rightarrow> fc_disabled_by_plan c)"

definition enforce_cap :: "(string \<Rightarrow> bool) \<Rightarrow> string \<Rightarrow> int \<Rightarrow> string \<Rightarrow> fleet \<Rightarrow> bool \<times> fleet" where
  "enforce_cap ok cap_plan now org f =
     (let (outcome, rows, invalidated) =
            enforce_camera_cap cap_plan ok (map cap_row (filter (\<lambda>c. fc_org c = org) (fl_cameras f)));
          cams = map (\<lambda>c. if fc_org c = org \<and> flagged_by rows c \<noteq> fc_disabled_by_plan c
                          then c\<lparr>fc_disabled_by_plan := flagged_by rows c, fc_updated_at := now\<rparr> else c) (fl_cameras f)
      in (outcome \<noteq> None,
          f\<lparr>fl_cameras := cams,
            fl_auth_generation := (if invalidated then invalidate_auth_cache (fl_auth_generation f) else fl_auth_generation f)\<rparr>))"

definition upgrade_required :: "json \<Rightarrow> api_error" where
  "upgrade_required check =
     (let parsed = str_or ''parsed'' check []; min_supported = str_or ''min_supported'' check [];
          latest = str_or ''latest'' check []
      in api_error_new 426 (Object
           [(''message'', String (''CameraNode '' @ parsed @ '' is no longer supported. Minimum: '' @ min_supported @
              '', latest: '' @ latest @ ''.'')),
            (''reported'', case json_get ''reported'' check of Some v \<Rightarrow> v | None \<Rightarrow> Null),
            (''min_supported'', String min_supported), (''latest'', String latest)]))"

definition is_supported :: "json \<Rightarrow> bool" where
  "is_supported check = (case json_get ''supported'' check of Some (Bool b) \<Rightarrow> b | _ \<Rightarrow> True)"

definition update_field :: "json \<Rightarrow> (string \<times> json) list" where
  "update_field check =
     (case json_get ''update_available'' check of
        None \<Rightarrow> [] | Some v \<Rightarrow> if is_null v then [] else [(''update_available'', v)])"

section \<open>Registration\<close>

definition device_path_of :: "camera_report \<Rightarrow> string" where
  "device_path_of cp =
     (case cp_device_path cp of
        Some p \<Rightarrow> if p \<noteq> [] then p else (case cp_camera_id cp of Some i \<Rightarrow> if i \<noteq> [] then i else ''unknown'' | None \<Rightarrow> ''unknown'')
      | None \<Rightarrow> (case cp_camera_id cp of Some i \<Rightarrow> if i \<noteq> [] then i else ''unknown'' | None \<Rightarrow> ''unknown''))"

definition sanitize_device :: "string \<Rightarrow> string" where
  "sanitize_device p =
     (let s = map (\<lambda>c. if c \<in> {CHR ''/'', CHR 0x5C, CHR '' ''} then CHR ''_'' else c) p;
          under = (\<lambda>c. c = CHR ''_'')
      in rev (dropWhile under (rev (dropWhile under s))))"

definition camera_id_for :: "string \<Rightarrow> camera_report \<Rightarrow> string" where
  "camera_id_for node_id cp = node_id @ ''_'' @ sanitize_device (device_path_of cp)"

definition some_text :: "string option \<Rightarrow> string option" where
  "some_text s = (if s = Some [] then None else s)"

record reg_acc =
  ra_mapping :: "(string \<times> json) list"
  ra_new :: int
  ra_skipped :: "string list"
  ra_transitions :: "(string \<times> string \<times> string) list"

record reg_ctx =
  rc_node :: node_row
  rc_now :: int
  rc_max_cameras :: int
  rc_current :: int
  rc_video_codec :: "string option"
  rc_audio_codec :: "string option"

definition next_camera_id :: "fleet_camera list \<Rightarrow> int" where
  "next_camera_id t = 1 + foldr max (map fc_id t) 0"

definition set_camera :: "int \<Rightarrow> (fleet_camera \<Rightarrow> fleet_camera) \<Rightarrow> fleet_camera list \<Rightarrow> fleet_camera list" where
  "set_camera i g t = map (\<lambda>c. if fc_id c = i then g c else c) t"

text \<open>A camera the table has already; \<open>None\<close> where a statement failed.\<close>

definition register_existing ::
  "(node_statement \<Rightarrow> bool) \<Rightarrow> reg_ctx \<Rightarrow> camera_report \<Rightarrow> string \<Rightarrow> fleet_camera \<Rightarrow> fleet \<Rightarrow> reg_acc \<Rightarrow>
   bool \<times> fleet \<times> reg_acc" where
  "register_existing fails rc cp cam_id row f acc =
     (let name = (case some_text (cp_name cp) of Some n \<Rightarrow> Some n | None \<Rightarrow> fc_name row);
          acc = (case camera_transition (fc_status row) ''online'' of
                   Some direction \<Rightarrow> acc\<lparr>ra_transitions := ra_transitions acc @ [(cam_id, display_or name cam_id, direction)]\<rparr>
                 | None \<Rightarrow> acc)
      in if fails (SaveCamera cam_id) then (False, f, acc)
         else
           (let f = f\<lparr>fl_cameras := set_camera (fc_id row)
                        (\<lambda>c. c\<lparr>fc_name := name, fc_last_seen := Some (rc_now rc), fc_status := Some ''online'',
                              fc_updated_at := rc_now rc\<rparr>) (fl_cameras f),
                     fl_auth_generation := invalidate_auth_cache (fl_auth_generation f)\<rparr>
            in if rc_video_codec rc = None then (True, f, acc)
               else if fails (SaveCameraCodec cam_id) then (False, f, acc)
               else (True, f\<lparr>fl_cameras := set_camera (fc_id row)
                        (\<lambda>c. c\<lparr>fc_video_codec := map_option sanitize_video_codec (rc_video_codec rc), fc_audio_codec := rc_audio_codec rc,
                              fc_updated_at := rc_now rc\<rparr>) (fl_cameras f)\<rparr>, acc)))"

definition new_camera :: "reg_ctx \<Rightarrow> camera_report \<Rightarrow> string \<Rightarrow> int \<Rightarrow> fleet_camera" where
  "new_camera rc cp cam_id i =
     \<lparr>fc_id = i, fc_camera_id = cam_id, fc_org = nd_org (rc_node rc), fc_node = nd_id (rc_node rc),
      fc_name = Some (case some_text (cp_name cp) of Some n \<Rightarrow> n | None \<Rightarrow> ''Camera '' @ sanitize_device (device_path_of cp)),
      fc_node_type = (case some_text (cp_node_type cp) of Some t \<Rightarrow> t | None \<Rightarrow> ''usb''),
      fc_capabilities = Some (case cp_capabilities cp of
        Some caps \<Rightarrow> if caps = [] then ''streaming'' else join '','' caps | None \<Rightarrow> ''streaming''),
      fc_group = None, fc_status = Some ''online'', fc_last_seen = Some (rc_now rc), fc_last_error = None,
      fc_video_codec = map_option sanitize_video_codec (rc_video_codec rc), fc_audio_codec = rc_audio_codec rc,
      fc_codec_detected_at = map_option (\<lambda>_. rc_now rc) (rc_video_codec rc), fc_disabled_by_plan = False,
      fc_continuous_24_7 = False, fc_scheduled_recording = False, fc_scheduled_start = None, fc_scheduled_end = None,
      fc_created_at = rc_now rc, fc_updated_at = rc_now rc\<rparr>"

definition register_camera ::
  "(node_statement \<Rightarrow> bool) \<Rightarrow> reg_ctx \<Rightarrow> camera_report \<Rightarrow> fleet \<Rightarrow> reg_acc \<Rightarrow> bool \<times> fleet \<times> reg_acc" where
  "register_camera fails rc cp f acc =
     (let cam_id = camera_id_for (nd_node_id (rc_node rc)) cp;
          acc = acc\<lparr>ra_mapping := AList.update (device_path_of cp) (String cam_id) (ra_mapping acc)\<rparr>
      in if fails (FindCamera cam_id) then (False, f, acc)
         else case find (\<lambda>c. fc_camera_id c = cam_id) (fl_cameras f) of
             Some row \<Rightarrow> register_existing fails rc cp cam_id row f acc
           | None \<Rightarrow>
               if rc_current rc + ra_new acc \<ge> rc_max_cameras rc
               then (True, f, acc\<lparr>ra_skipped := ra_skipped acc @
                       [case some_text (cp_name cp) of Some n \<Rightarrow> n | None \<Rightarrow> sanitize_device (device_path_of cp)]\<rparr>)
               else if fails (AddCamera cam_id) then (False, f, acc)
               else (True, f\<lparr>fl_cameras := fl_cameras f @ [new_camera rc cp cam_id (next_camera_id (fl_cameras f))]\<rparr>,
                     acc\<lparr>ra_new := ra_new acc + 1\<rparr>))"

fun register_cameras ::
  "(node_statement \<Rightarrow> bool) \<Rightarrow> reg_ctx \<Rightarrow> camera_report list \<Rightarrow> fleet \<Rightarrow> reg_acc \<Rightarrow> bool \<times> fleet \<times> reg_acc" where
  "register_cameras fails rc [] f acc = (True, f, acc)"
| "register_cameras fails rc (cp # cps) f acc =
     (case register_camera fails rc cp f acc of
        (False, f, acc) \<Rightarrow> (False, f, acc)
      | (True, f, acc) \<Rightarrow> register_cameras fails rc cps f acc)"

text \<open>The cameras the node no longer reports, in the order of their ids.\<close>

fun drop_stale :: "(node_statement \<Rightarrow> bool) \<Rightarrow> fleet_camera list \<Rightarrow> fleet \<Rightarrow> bool \<times> fleet" where
  "drop_stale fails [] f = (True, f)"
| "drop_stale fails (c # cs) f =
     (let f = f\<lparr>fl_hls := cleanup_camera (fc_camera_id c) (fl_hls f)\<rparr>
      in if fails (DropCamera (fc_camera_id c)) then (False, f)
         else drop_stale fails cs
           (f\<lparr>fl_cameras := filter (\<lambda>x. fc_id x \<noteq> fc_id c) (fl_cameras f),
              fl_auth_generation := invalidate_auth_cache (fl_auth_generation f)\<rparr>))"

definition stale_of :: "int \<Rightarrow> (string \<times> json) list \<Rightarrow> fleet_camera list \<Rightarrow> fleet_camera list" where
  "stale_of node_pk mapping t =
     (let reported = List.map_filter as_str (map snd mapping)
      in filter (\<lambda>c. fc_camera_id c \<notin> set reported) (sort_key fc_id (filter (\<lambda>c. fc_node c = node_pk) t)))"


section \<open>The handler of a registration\<close>

definition PLAN_LIMIT_THROTTLE_SECONDS :: int where "PLAN_LIMIT_THROTTLE_SECONDS = 3600"

text \<open>Whether the time stored under a setting is less than \<open>seconds\<close> ago; a malformed one is not.\<close>

definition emitted_within :: "'z note_env \<Rightarrow> string \<Rightarrow> int \<Rightarrow> bool" where
  "emitted_within ne stamp seconds \<longleftrightarrow>
     stamp \<noteq> [] \<and>
     (case fromisoformat (ne_cal ne) stamp of
        Inr parsed \<Rightarrow> num_seconds (ne_now ne - iso_naive_us parsed) < seconds
      | Inl _ \<Rightarrow> False)"

definition setting_or :: "'z note_env \<Rightarrow> setting_row list \<Rightarrow> string \<Rightarrow> string \<Rightarrow> string option \<Rightarrow> string" where
  "setting_or ne rows org key dflt =
     (if ne_fails ne (GetSetting key) then []
      else case settings_get rows org key dflt of Some v \<Rightarrow> v | None \<Rightarrow> [])"

definition put_setting :: "'z note_env \<Rightarrow> string \<Rightarrow> string \<Rightarrow> string \<Rightarrow> note_world \<Rightarrow> note_world" where
  "put_setting ne org key v w =
     w\<lparr>nw_settings := set_ignoring (\<lambda>k. \<not> ne_fails ne (SetSetting k)) (ne_now ne) org key v (nw_settings w)\<rparr>"

definition emit_plan_limit_notification ::
  "'z note_env \<Rightarrow> string \<Rightarrow> string \<Rightarrow> int \<Rightarrow> string list \<Rightarrow> note_world \<Rightarrow> note_world" where
  "emit_plan_limit_notification ne org plan max_cams skipped w =
     (let stamp = setting_or ne (nw_settings w) org ''plan_limit_notif_last_at'' None
      in if emitted_within ne stamp PLAN_LIMIT_THROTTLE_SECONDS then w
         else
           (let plan_name = get_plan_display_name plan;
                more = (if length skipped > 5 then '' (+'' @ show_nat (length skipped - 5) @ '' more)'' else []);
                n = (notification_new ''plan_limit_reached'' (''Camera limit reached on '' @ plan_name))
                    \<lparr>nn_body := ''Your node reported cameras beyond the '' @ show_int max_cams @ ''-camera limit. Skipped: '' @
                       join '', '' (take 5 skipped) @ more @ ''. Upgrade to add them.'',
                     nn_severity := ''warning'', nn_audience := ''admin'', nn_link := Some ''/settings'',
                     nn_meta := Some (Object [(''plan'', String plan_name), (''max_cameras'', IntNum max_cams),
                       (''skipped'', Array (map String skipped))])\<rparr>
            in put_setting ne org ''plan_limit_notif_last_at'' (iso_naive (ne_cal ne) (ne_now ne))
                 (snd (create_notification ne org n w))))"

record 'z register_env =
  re_note :: "'z note_env"
  re_fails :: "node_statement \<Rightarrow> bool"
  re_utf8_ok :: "string \<Rightarrow> bool"
  re_from_str :: "string \<Rightarrow> json option"
  re_min_supported :: string
  re_latest :: string
  re_releases :: release_cache
  re_plan :: string
  re_cap_plan :: string
  re_cap_ok :: "string \<Rightarrow> bool"

definition now_of :: "'z register_env \<Rightarrow> int" where "now_of re = ne_now (re_note re)"

definition version_check :: "'z register_env \<Rightarrow> string option \<Rightarrow> json" where
  "version_check re reported =
     check_node_version reported (re_min_supported re) (latest_node_version (re_releases re) (re_latest re))"

text \<open>An absent version clears the column.\<close>

definition save_version :: "'z register_env \<Rightarrow> int \<Rightarrow> json \<Rightarrow> string option \<Rightarrow> fleet \<Rightarrow> fleet" where
  "save_version re i check reported f =
     set_node i (\<lambda>n. n\<lparr>nd_version := map_option (\<lambda>_. str_or ''parsed'' check []) reported,
       nd_version_checked_at := Some (now_of re), nd_updated_at := now_of re\<rparr>) f"

definition local_ip_for :: "bool option \<Rightarrow> string option \<Rightarrow> string option \<Rightarrow> string option" where
  "local_ip_for lan_streaming reported kept_ip =
     (if lan_streaming = Some False then None
      else case some_text reported of Some ip \<Rightarrow> Some ip | None \<Rightarrow> kept_ip)"

definition save_node :: "'z register_env \<Rightarrow> node_row \<Rightarrow> register_request \<Rightarrow> fleet \<Rightarrow> fleet" where
  "save_node re node req f =
     set_node (nd_id node) (\<lambda>n. n\<lparr>
       nd_hostname := (case some_text (rr_hostname req) of Some h \<Rightarrow> Some h | None \<Rightarrow> nd_hostname node),
       nd_local_ip := local_ip_for (rr_lan_streaming req) (rr_local_ip req) (nd_local_ip node),
       nd_http_port := (case rr_http_port req of
         Some p \<Rightarrow> if p \<noteq> 0 then Some p else nd_http_port node | None \<Rightarrow> nd_http_port node),
       nd_status := Some ''online'', nd_last_seen := Some (now_of re), nd_register_error := None,
       nd_register_error_at := None, nd_updated_at := now_of re, nd_http_tls := rr_http_tls req\<rparr>) f"

definition save_codec :: "'z register_env \<Rightarrow> node_row \<Rightarrow> register_request \<Rightarrow> fleet \<Rightarrow> fleet" where
  "save_codec re node req f =
     set_node (nd_id node) (\<lambda>n. n\<lparr>nd_video_codec := map_option sanitize_video_codec (rr_video_codec req),
       nd_audio_codec := rr_audio_codec req, nd_codec_detected_at := Some (now_of re), nd_updated_at := now_of re\<rparr>) f"

definition register_response ::
  "'z register_env \<Rightarrow> node_row \<Rightarrow> string \<Rightarrow> json \<Rightarrow> reg_acc \<Rightarrow> json" where
  "register_response re node key check acc =
     (let plan_name = get_plan_display_name (re_plan re);
          cap = max_cameras (get_plan_limits (re_plan re))
      in Object
       ([(''success'', Bool True), (''node_id'', String (nd_node_id node)), (''node_secret'', String (latin1 key)),
         (''status'', String ''updated''), (''message'', String ''Node re-registered successfully''),
         (''cameras'', Object (ra_mapping acc)), (''plan'', String (wire_plan_slug (re_plan re)))] @
        (if ra_skipped acc = [] then [] else
          [(''plan_limit_hit'', Object
            [(''plan'', String plan_name), (''max_cameras'', IntNum cap),
             (''skipped'', Array (map String (ra_skipped acc))),
             (''detail'', String (''Plan limit reached ('' @ show_int cap @ '' on '' @ plan_name @ ''). Upgrade to add: '' @
                join '', '' (ra_skipped acc) @ ''.''))])]) @
        update_field check))"

text \<open>From the cameras on; the node has been authenticated and its row saved.\<close>

definition reconcile_cameras ::
  "'z register_env \<Rightarrow> node_row \<Rightarrow> register_request \<Rightarrow> string \<Rightarrow> json \<Rightarrow> fleet \<Rightarrow> (api_error + json) \<times> fleet" where
  "reconcile_cameras re node req key check f =
     (let ne = re_note re;
          org = nd_org node;
          cap = max_cameras (get_plan_limits (re_plan re))
      in if re_fails re CountCameras then (Inl db_error, f)
         else
           (let rc = \<lparr>rc_node = node, rc_now = now_of re, rc_max_cameras = cap,
                      rc_current = int (length (filter (\<lambda>c. fc_org c = org) (fl_cameras f))),
                      rc_video_codec = rr_video_codec req, rc_audio_codec = rr_audio_codec req\<rparr>;
                (ok, f, acc) = register_cameras (re_fails re) rc (rr_cameras req) f
                   \<lparr>ra_mapping = [], ra_new = 0, ra_skipped = [], ra_transitions = []\<rparr>
            in if \<not> ok \<or> re_fails re ListCameras then (Inl db_error, f)
               else
                 (let (ok, f) = drop_stale (re_fails re) (stale_of (nd_id node) (ra_mapping acc) (fl_cameras f)) f
                  in if \<not> ok then (Inl db_error, f)
                     else
                       (let (ok, f) = enforce_cap (re_cap_ok re) (re_cap_plan re) (now_of re) org f
                        in if \<not> ok then (Inl db_error, f)
                           else
                             (let w = (if ra_skipped acc = [] then fl_world f
                                       else emit_plan_limit_notification ne org (re_plan re) cap (ra_skipped acc) (fl_world f));
                                  w = emit_transitions ne node (node_came_online (nd_status node)) (ra_transitions acc) w
                              in (Inr (register_response re node key check acc), f\<lparr>fl_world := w\<rparr>))))))"

definition register_error :: "json \<Rightarrow> string" where
  "register_error check =
     ''CameraNode version '' @ str_or ''parsed'' check [] @ '' is below the minimum supported '' @
     str_or ''min_supported'' check [] @ ''. Update CameraNode to '' @ str_or ''latest'' check [] @ '' and re-register.''"

text \<open>An authenticated node: the version, the gate, the node's row, the cameras.\<close>

definition register_known ::
  "'z register_env \<Rightarrow> node_row \<Rightarrow> register_request \<Rightarrow> string \<Rightarrow> fleet \<Rightarrow> (api_error + json) \<times> fleet" where
  "register_known re node req key f =
     (let check = version_check re (rr_node_version req)
      in if re_fails re SaveVersion then (Inl db_error, f)
         else
           (let f = save_version re (nd_id node) check (rr_node_version req) f
            in if \<not> is_supported check then
                 (Inl (upgrade_required check),
                  record_node_register_error (\<not> re_fails re RecordError) (now_of re) (nd_id node) (register_error check) f)
               else if re_fails re SaveNode then (Inl db_error, f)
               else
                 (let f = save_node re node req f
                  in if rr_video_codec req = None then reconcile_cameras re node req key check f
                     else if re_fails re SaveCodec then (Inl db_error, f)
                     else reconcile_cameras re node req key check (save_codec re node req f))))"

definition register_node ::
  "'z register_env \<Rightarrow> api_error + unit \<Rightarrow> string \<Rightarrow> string \<Rightarrow> fleet \<Rightarrow> (api_error + json) \<times> fleet" where
  "register_node re rate key body f =
     (case rate of
        Inl e \<Rightarrow> (Inl e, f)
      | Inr _ \<Rightarrow>
         if length body > 2 * 1024 * 1024 then (Inl (bad_request (String ''could not read request body'')), f)
         else case parse_model_body (re_utf8_ok re) (re_from_str re) body of
           Inl e \<Rightarrow> (Inl e, f)
         | Inr v \<Rightarrow>
            (case parse_register v of
               Inl e \<Rightarrow> (Inl e, f)
             | Inr req \<Rightarrow>
                if key = [] then (Inl (unauthorized (String ''API key required'')), f)
                else if re_fails re FindNode then (Inl db_error, f)
                else case find_node (rr_node_id req) (fl_nodes f) of
                    None \<Rightarrow> (Inl (not_found (String ''Node not found. Create this node in the dashboard first.'')), f)
                  | Some node \<Rightarrow>
                      if nd_key_hash node \<noteq> node_key_hash (ne_sha (re_note re)) key
                      then (Inl (forbidden (String ''Invalid API key for this node'')),
                            record_bad_key_attempt (\<not> re_fails re RecordError) (now_of re) (nd_id node)
                              (''Invalid API key during registration '' @ em_dash @
                               '' rotate the key in Settings and re-run the installer.'') f)
                      else register_known re node req key f))"

end
