(* ===== verification/Node_Heartbeat.thy ===== *)
theory Node_Heartbeat
  imports Node_Register
begin

text \<open>
  \<^verbatim>\<open>backend-rs/src/api/node_register.rs\<close>: the heartbeat of a node over HTTP. The reading of the wall
  clock in a time zone is an argument, as is the rounding of a real to a double, from which the
  percentage and the sizes of the disk alert are computed.
\<close>

section \<open>Requests\<close>

record camera_status_report =
  cs_camera_id :: string
  cs_status :: string
  cs_last_error :: "string option"

definition parse_camera_status :: "json \<Rightarrow> body_errors \<Rightarrow> camera_status_report \<times> body_errors" where
  "parse_camera_status item e =
     (let (camera_id, e) = required_string item ''camera_id'' 150 e;
          (status, e) = required_string item ''status'' 20 e;
          (last_error, e) = optional_string item ''last_error'' 500 e
      in (\<lparr>cs_camera_id = camera_id, cs_status = status, cs_last_error = last_error\<rparr>, e))"

fun status_items :: "nat \<Rightarrow> json list \<Rightarrow> body_errors \<Rightarrow> camera_status_report list \<times> body_errors" where
  "status_items i [] e = ([], e)"
| "status_items i (item # items) e =
     (let loc = [String ''cameras'', IntNum (int i)]
      in if \<not> is_object item then status_items (i + 1) items (model_attributes_type_at loc item e)
         else
           (let (report, e) = nested loc (parse_camera_status item) e;
                (rest, e) = status_items (i + 1) items e
            in (report # rest, e)))"

definition parse_camera_statuses :: "json \<Rightarrow> body_errors \<Rightarrow> camera_status_report list \<times> body_errors" where
  "parse_camera_statuses body e =
     (case json_get ''cameras'' body of
        None \<Rightarrow> ([], e)
      | Some Null \<Rightarrow> ([], e)
      | Some (Array items) \<Rightarrow> status_items 0 items e
      | Some v \<Rightarrow> ([], list_type ''cameras'' v e))"

type_synonym storage_stats = "int option \<times> int option \<times> int option \<times> int option"

definition parse_storage_fields :: "json \<Rightarrow> body_errors \<Rightarrow> storage_stats \<times> body_errors" where
  "parse_storage_fields v e =
     (let (used_bytes, e) = optional_int_in_range v ''used_bytes'' 0 i64_max e;
          (max_bytes, e) = optional_int_in_range v ''max_bytes'' 0 i64_max e;
          (disk_free, e) = optional_int_in_range v ''disk_free_bytes'' 0 i64_max e;
          (disk_total, e) = optional_int_in_range v ''disk_total_bytes'' 0 i64_max e
      in ((used_bytes, max_bytes, disk_free, disk_total), e))"

definition parse_storage_stats :: "json \<Rightarrow> body_errors \<Rightarrow> storage_stats option \<times> body_errors" where
  "parse_storage_stats body e =
     (case json_get ''storage_stats'' body of
        None \<Rightarrow> (None, e)
      | Some Null \<Rightarrow> (None, e)
      | Some v \<Rightarrow>
          if \<not> is_object v then (None, model_attributes_type_at [String ''storage_stats''] v e)
          else (let (stats, e) = nested [String ''storage_stats''] (parse_storage_fields v) e in (Some stats, e)))"

record heartbeat_request =
  hb_node_id :: string
  hb_local_ip :: "string option"
  hb_lan_streaming :: "bool option"
  hb_cameras :: "camera_status_report list"
  hb_node_version :: "string option"
  hb_storage :: "storage_stats option"

definition parse_heartbeat :: "json \<Rightarrow> api_error + heartbeat_request" where
  "parse_heartbeat body =
     (let e = be_new;
          (node_id, e) = required_string body ''node_id'' 50 e;
          (local_ip, e) = optional_string body ''local_ip'' 45 e;
          (lan_streaming, e) = optional_bool body ''lan_streaming'' e;
          (cameras, e) = parse_camera_statuses body e;
          (node_version, e) = optional_string body ''node_version'' 50 e;
          (storage, e) = parse_storage_stats body e
      in case be_finish e of
           Inl err \<Rightarrow> Inl err
         | Inr _ \<Rightarrow>
             Inr \<lparr>hb_node_id = node_id, hb_local_ip = local_ip, hb_lan_streaming = lan_streaming, hb_cameras = cameras,
                  hb_node_version = node_version, hb_storage = storage\<rparr>)"

section \<open>The disk alert\<close>

definition DISK_LOW_THRESHOLD_PERCENT :: rat where "DISK_LOW_THRESHOLD_PERCENT = 90"
definition DISK_LOW_REEMIT_SECONDS :: int where "DISK_LOW_REEMIT_SECONDS = 6 * 60 * 60"

text \<open>\<open>dbl\<close> rounds to the nearest double; the decimal of \<open>round_to\<close> has ties to even.\<close>

definition half_even :: "rat \<Rightarrow> int" where
  "half_even x =
     (let n = floor x; d = x - of_int n
      in if d < 1 / 2 then n else if d > 1 / 2 then n + 1 else if even n then n else n + 1)"

definition round_to :: "(rat \<Rightarrow> rat) \<Rightarrow> rat \<Rightarrow> nat \<Rightarrow> rat" where
  "round_to dbl x digits = dbl (of_int (half_even (x * 10 ^ digits)) / 10 ^ digits)"

definition percent_used :: "(rat \<Rightarrow> rat) \<Rightarrow> int \<Rightarrow> int \<Rightarrow> rat" where
  "percent_used dbl free total_bytes = dbl (dbl (dbl (of_int (total_bytes - free)) / dbl (of_int total_bytes)) * 100)"

definition gigabytes :: "(rat \<Rightarrow> rat) \<Rightarrow> int \<Rightarrow> rat" where
  "gigabytes dbl n = round_to dbl (dbl (dbl (of_int n) / 1024 ^ 3)) 1"

definition disk_low_key :: "string \<Rightarrow> string" where
  "disk_low_key node_id = ''cameranode_disk_low_emit_at:'' @ node_id"

definition disk_low_notification :: "(rat \<Rightarrow> string) \<Rightarrow> (rat \<Rightarrow> rat) \<Rightarrow> node_row \<Rightarrow> int \<Rightarrow> int \<Rightarrow> new_notification" where
  "disk_low_notification fl dbl node free total_bytes =
     (let display = display_or (nd_name node) (nd_node_id node);
          pct = round_to dbl (percent_used dbl free total_bytes) 1
      in (notification_new ''cameranode_disk_low'' (''CameraNode disk low: '' @ display))
         \<lparr>nn_body := ''The host disk on CameraNode \"'' @ display @ ''\" is '' @ repr_float fl pct @ ''% full ('' @
            repr_float fl (gigabytes dbl free) @ '' GB free of '' @ repr_float fl (gigabytes dbl total_bytes) @
            '' GB). Local recordings will fail to write when the disk fills. Free up space (delete old recordings, '' @
            ''expand storage, or raise the recording retention cap on the node).'',
          nn_severity := ''warning'', nn_audience := ''admin'', nn_link := Some ''/settings'',
          nn_meta := Some (Object [(''node_id'', String (nd_node_id node)), (''percent_used'', FloatNum pct),
            (''disk_free_bytes'', IntNum free), (''disk_total_bytes'', IntNum total_bytes)])\<rparr>)"

definition check_and_emit_disk_low ::
  "'z note_env \<Rightarrow> (rat \<Rightarrow> rat) \<Rightarrow> node_row \<Rightarrow> int option \<Rightarrow> int option \<Rightarrow> note_world \<Rightarrow> note_world" where
  "check_and_emit_disk_low ne dbl node free_bytes total_bytes w =
     (case (free_bytes, total_bytes) of
        (Some free, Some total_bytes) \<Rightarrow>
          if free = 0 \<or> total_bytes \<le> 0 then w
          else
            (let key = disk_low_key (nd_node_id node); org = nd_org node
             in if percent_used dbl free total_bytes < DISK_LOW_THRESHOLD_PERCENT then put_setting ne org key [] w
                else if emitted_within ne (setting_or ne (nw_settings w) org key (Some [])) DISK_LOW_REEMIT_SECONDS then w
                else put_setting ne org key (iso_naive (ne_cal ne) (ne_now ne))
                       (snd (create_notification ne org (disk_low_notification (ne_fl ne) dbl node free total_bytes) w)))
      | _ \<Rightarrow> w)"

section \<open>The handler\<close>

type_synonym known_camera = "string \<times> string option \<times> string option"

text \<open>A camera named twice is applied twice, the second time against its own first report.\<close>

fun apply_statuses ::
  "(node_statement \<Rightarrow> bool) \<Rightarrow> int \<Rightarrow> int \<Rightarrow> camera_status_report list \<Rightarrow> known_camera list \<Rightarrow> fleet \<Rightarrow>
   (string \<times> string \<times> string) list \<Rightarrow> bool \<times> fleet \<times> (string \<times> string \<times> string) list" where
  "apply_statuses fails now pk [] known f ts = (True, f, ts)"
| "apply_statuses fails now pk (u # us) known f ts =
     (case find (\<lambda>k. fst k = cs_camera_id u) known of
        None \<Rightarrow> apply_statuses fails now pk us known f ts
      | Some (_, previous, name) \<Rightarrow>
          (let ts = (case camera_transition previous (cs_status u) of
                 Some direction \<Rightarrow> ts @ [(cs_camera_id u, display_or name (cs_camera_id u), direction)] | None \<Rightarrow> ts);
               known = map (\<lambda>k. if fst k = cs_camera_id u then (fst k, Some (cs_status u), snd (snd k)) else k) known;
               err = (if cs_status u \<in> {''restarting'', ''failed'', ''error''} then cs_last_error u else None)
           in if fails (SaveStatus (cs_camera_id u)) then (False, f, ts)
              else apply_statuses fails now pk us known
                (f\<lparr>fl_cameras := map (\<lambda>c. if fc_camera_id c = cs_camera_id u \<and> fc_node c = pk
                    then c\<lparr>fc_status := Some (cs_status u), fc_last_seen := Some now, fc_last_error := err, fc_updated_at := now\<rparr>
                    else c) (fl_cameras f)\<rparr>) ts))"

definition known_cameras :: "int \<Rightarrow> camera_status_report list \<Rightarrow> fleet_camera list \<Rightarrow> known_camera list" where
  "known_cameras pk us t =
     map (\<lambda>c. (fc_camera_id c, fc_status c, fc_name c))
       (filter (\<lambda>c. fc_camera_id c \<in> set (map cs_camera_id us) \<and> fc_node c = pk) t)"

record 'z heartbeat_env =
  he_register :: "'z register_env"
  he_double :: "rat \<Rightarrow> rat"
  he_zone_minutes :: "string \<Rightarrow> int option"
  he_is_local_auth :: bool

definition resolve_org_timezone :: "'z note_env \<Rightarrow> setting_row list \<Rightarrow> string \<Rightarrow> string" where
  "resolve_org_timezone ne rows org =
     (let name = setting_or ne rows org ''timezone'' (Some ''UTC'') in if name = [] then ''UTC'' else name)"

text \<open>The minute of the day, in UTC where the zone cannot be loaded.\<close>

definition local_minutes :: "'z heartbeat_env \<Rightarrow> string \<Rightarrow> int" where
  "local_minutes he zone =
     (case he_zone_minutes he zone of
        Some m \<Rightarrow> m
      | None \<Rightarrow>
          (case he_zone_minutes he ''UTC'' of
             Some m \<Rightarrow> m | None \<Rightarrow> (now_of (he_register he) div 60000000) mod 1440))"

definition cached_plan :: "'z heartbeat_env \<Rightarrow> setting_row list \<Rightarrow> string \<Rightarrow> string" where
  "cached_plan he rows org =
     (if he_is_local_auth he then ''self_host''
      else (let p = setting_or (re_note (he_register he)) rows org ''org_plan'' (Some ''free_org'')
            in if p = [] then ''free_org'' else p))"

definition records_now :: "int \<Rightarrow> fleet_camera \<Rightarrow> bool" where
  "records_now minutes c =
     camera_should_record_now (fc_continuous_24_7 c) (fc_scheduled_recording c) (fc_scheduled_start c) (fc_scheduled_end c) minutes"

definition heartbeat_response :: "'z heartbeat_env \<Rightarrow> node_row \<Rightarrow> json \<Rightarrow> fleet \<Rightarrow> json" where
  "heartbeat_response he node check f =
     (let ne = re_note (he_register he);
          rows = nw_settings (fl_world f);
          cams = sort_key fc_id (filter (\<lambda>c. fc_node c = nd_id node) (fl_cameras f));
          minutes = local_minutes he (resolve_org_timezone ne rows (nd_org node))
      in Object
       ([(''success'', Bool True), (''timestamp'', String (iso_naive (ne_cal ne) (ne_now ne))),
         (''plan'', String (wire_plan_slug (cached_plan he rows (nd_org node)))),
         (''disabled_cameras'', Array (map (String \<circ> fc_camera_id) (filter fc_disabled_by_plan cams))),
         (''recording_state'', Object (fold (\<lambda>c m. AList.update (fc_camera_id c) (Bool (records_now minutes c)) m) cams []))] @
        update_field check))"

definition past_due_sweep :: "'z register_env \<Rightarrow> string \<Rightarrow> fleet \<Rightarrow> fleet" where
  "past_due_sweep re org f =
     (if setting_or (re_note re) (nw_settings (fl_world f)) org ''payment_past_due'' (Some ''false'') = ''true''
      then snd (enforce_cap (re_cap_ok re) (re_cap_plan re) (now_of re) org f) else f)"

text \<open>From the cameras on; the node's row and the disk have been seen to.\<close>

definition heartbeat_cameras ::
  "'z heartbeat_env \<Rightarrow> node_row \<Rightarrow> heartbeat_request \<Rightarrow> json \<Rightarrow> fleet \<Rightarrow> (api_error + json) \<times> fleet" where
  "heartbeat_cameras he node req check f =
     (let re = he_register he;
          us = hb_cameras req
      in if us \<noteq> [] \<and> re_fails re FindReported then (Inl db_error, f)
         else
           (let (ok, f, ts) = apply_statuses (re_fails re) (now_of re) (nd_id node) us
                  (known_cameras (nd_id node) us (fl_cameras f)) f []
            in if \<not> ok then (Inl db_error, f)
               else
                 (let f = f\<lparr>fl_world := emit_transitions (re_note re) node (node_came_online (nd_status node)) ts (fl_world f)\<rparr>;
                      f = past_due_sweep re (nd_org node) f
                  in if re_fails re ListPolicies then (Inl db_error, f)
                     else (Inr (heartbeat_response he node check f), f))))"

definition touch_node :: "'z register_env \<Rightarrow> node_row \<Rightarrow> heartbeat_request \<Rightarrow> fleet \<Rightarrow> fleet" where
  "touch_node re node req f =
     set_node (nd_id node) (\<lambda>n. n\<lparr>nd_status := Some ''online'', nd_last_seen := Some (now_of re),
       nd_local_ip := local_ip_for (hb_lan_streaming req) (hb_local_ip req) (nd_local_ip node), nd_updated_at := now_of re\<rparr>) f"

definition save_storage :: "'z register_env \<Rightarrow> node_row \<Rightarrow> storage_stats \<Rightarrow> fleet \<Rightarrow> fleet" where
  "save_storage re node stats f =
     set_node (nd_id node) (\<lambda>n. n\<lparr>nd_storage := stats, nd_storage_reported_at := Some (now_of re),
       nd_updated_at := now_of re\<rparr>) f"

definition heartbeat_known ::
  "'z heartbeat_env \<Rightarrow> node_row \<Rightarrow> heartbeat_request \<Rightarrow> fleet \<Rightarrow> (api_error + json) \<times> fleet" where
  "heartbeat_known he node req f =
     (let re = he_register he;
          check = version_check re (hb_node_version req)
      in if \<not> is_supported check then (Inl (upgrade_required check), f)
         else if re_fails re SaveVersion then (Inl db_error, f)
         else
           (let f = save_version re (nd_id node) check (hb_node_version req) f
            in if re_fails re SaveNode then (Inl db_error, f)
               else
                 (let f = touch_node re node req f
                  in case hb_storage req of
                       None \<Rightarrow> heartbeat_cameras he node req check f
                     | Some (used_bytes, max_bytes, free, total_bytes) \<Rightarrow>
                         if re_fails re SaveStorage then (Inl db_error, f)
                         else
                           (let f = save_storage re node (used_bytes, max_bytes, free, total_bytes) f
                            in heartbeat_cameras he node req check
                                 (f\<lparr>fl_world := check_and_emit_disk_low (re_note re) (he_double he) node free total_bytes
                                     (fl_world f)\<rparr>)))))"

definition node_heartbeat ::
  "'z heartbeat_env \<Rightarrow> api_error + unit \<Rightarrow> string \<Rightarrow> string \<Rightarrow> fleet \<Rightarrow> (api_error + json) \<times> fleet" where
  "node_heartbeat he rate key body f =
     (let re = he_register he
      in case rate of
        Inl e \<Rightarrow> (Inl e, f)
      | Inr _ \<Rightarrow>
         if length body > 2 * 1024 * 1024 then (Inl (bad_request (String ''could not read request body'')), f)
         else case parse_model_body (re_utf8_ok re) (re_from_str re) body of
           Inl e \<Rightarrow> (Inl e, f)
         | Inr v \<Rightarrow>
            (case parse_heartbeat v of
               Inl e \<Rightarrow> (Inl e, f)
             | Inr req \<Rightarrow>
                if key = [] then (Inl (unauthorized (String ''API key required'')), f)
                else if re_fails re FindNode then (Inl db_error, f)
                else case find_node (hb_node_id req) (fl_nodes f) of
                    None \<Rightarrow> (Inl (not_found (String ''Node not found'')), f)
                  | Some node \<Rightarrow>
                      if nd_key_hash node \<noteq> node_key_hash (ne_sha (re_note re)) key
                      then (Inl (forbidden (String ''Invalid API key'')), f)
                      else heartbeat_known he node req f))"

end
