(* ===== verification/Fleet_Keys.thy ===== *)
theory Fleet_Keys
  imports Node_Heartbeat
begin

text \<open>
  What the handlers of \<open>Node_Register\<close> and \<open>Node_Heartbeat\<close> promise about the two tables: the keys
  stay well formed, the plan's cap on cameras is kept, and a request changes nothing that belongs
  to a node whose key it does not carry.
\<close>

section \<open>Well-formed tables\<close>

definition node_keys :: "fleet \<Rightarrow> (int \<times> string \<times> string) list" where
  "node_keys f = map (\<lambda>n. (nd_id n, nd_node_id n, nd_org n)) (fl_nodes f)"

definition camera_keys :: "fleet \<Rightarrow> (int \<times> string \<times> string \<times> int) list" where
  "camera_keys f = map (\<lambda>c. (fc_id c, fc_camera_id c, fc_org c, fc_node c)) (fl_cameras f)"

text \<open>
  The unique columns are unique, the id of a node has no underscore (it is eight digits of a
  UUID), and a camera is of its node's organisation and carries its node's id in front.
\<close>

definition keys_ok :: "(int \<times> string \<times> string) list \<Rightarrow> (int \<times> string \<times> string \<times> int) list \<Rightarrow> bool" where
  "keys_ok ns cs \<longleftrightarrow>
     distinct (map fst ns) \<and> distinct (map (fst \<circ> snd) ns) \<and> (\<forall>(_, node_id, _) \<in> set ns. CHR ''_'' \<notin> set node_id) \<and>
     distinct (map fst cs) \<and> distinct (map (fst \<circ> snd) cs) \<and>
     (\<forall>(_, cam, org, pk) \<in> set cs. \<exists>(i, node_id, o1) \<in> set ns. i = pk \<and> o1 = org \<and> starts_with (node_id @ ''_'') cam)"

definition fleet_ok :: "fleet \<Rightarrow> bool" where
  "fleet_ok f \<longleftrightarrow> keys_ok (node_keys f) (camera_keys f)"

lemma fleet_ok_nodes:
  assumes "fleet_ok f"
  shows "distinct (map nd_id (fl_nodes f))" "distinct (map nd_node_id (fl_nodes f))"
    "n \<in> set (fl_nodes f) \<Longrightarrow> CHR ''_'' \<notin> set (nd_node_id n)"
  using assms by (auto simp: fleet_ok_def keys_ok_def node_keys_def o_def)

lemma fleet_ok_cameras:
  assumes "fleet_ok f"
  shows "distinct (map fc_id (fl_cameras f))" "distinct (map fc_camera_id (fl_cameras f))"
  using assms by (auto simp: fleet_ok_def keys_ok_def camera_keys_def o_def)

lemma fleet_ok_owner:
  assumes "fleet_ok f" "c \<in> set (fl_cameras f)"
  obtains n where "n \<in> set (fl_nodes f)" "nd_id n = fc_node c" "nd_org n = fc_org c"
    "starts_with (nd_node_id n @ ''_'') (fc_camera_id c)"
  using assms by (fastforce simp: fleet_ok_def keys_ok_def camera_keys_def node_keys_def)

lemma fleet_ok_same:
  "fleet_ok f \<Longrightarrow> node_keys f' = node_keys f \<Longrightarrow> camera_keys f' = camera_keys f \<Longrightarrow> fleet_ok f'"
  by (simp add: fleet_ok_def)

lemma prefix_node:
  assumes "starts_with (a @ ''_'') s" "CHR ''_'' \<notin> set a"
  shows "takeWhile (\<lambda>c. c \<noteq> CHR ''_'') s = a"
proof -
  obtain r where "s = a @ CHR ''_'' # r" using assms(1) by (auto simp: starts_with_iff)
  then show ?thesis using assms(2) by (auto simp: takeWhile_append2 takeWhile_tail)
qed

text \<open>A camera id that starts with a node's id is that node's.\<close>

lemma camera_of_node:
  assumes "fleet_ok f" "node \<in> set (fl_nodes f)" "c \<in> set (fl_cameras f)"
    and "starts_with (nd_node_id node @ ''_'') (fc_camera_id c)"
  shows "fc_node c = nd_id node \<and> fc_org c = nd_org node"
proof -
  obtain n where n: "n \<in> set (fl_nodes f)" "nd_id n = fc_node c" "nd_org n = fc_org c"
    "starts_with (nd_node_id n @ ''_'') (fc_camera_id c)" using assms(1,3) by (rule fleet_ok_owner)
  have "nd_node_id n = nd_node_id node"
    using prefix_node [OF n(4)] prefix_node [OF assms(4)] fleet_ok_nodes(3) [OF assms(1)] n(1) assms(2) by simp
  then have "n = node" using fleet_ok_nodes(2) [OF assms(1)] n(1) assms(2) by (auto simp: distinct_map dest: inj_onD)
  then show ?thesis using n by simp
qed

lemma key_member: "(pk, nid, org) \<in> set (node_keys f) \<longleftrightarrow> (\<exists>n \<in> set (fl_nodes f). nd_id n = pk \<and> nd_node_id n = nid \<and> nd_org n = org)"
  by (auto simp: node_keys_def)

lemma node_camera_org:
  assumes "fleet_ok f" "(pk, nid, org) \<in> set (node_keys f)" "c \<in> set (fl_cameras f)" "fc_node c = pk"
  shows "fc_org c = org"
proof -
  obtain n where n: "n \<in> set (fl_nodes f)" "nd_id n = fc_node c" "nd_org n = fc_org c"
    "starts_with (nd_node_id n @ ''_'') (fc_camera_id c)" using assms(1,3) by (rule fleet_ok_owner)
  obtain n' where n': "n' \<in> set (fl_nodes f)" "nd_id n' = pk" "nd_org n' = org" using assms(2) by (auto simp: key_member)
  have "n = n'" using fleet_ok_nodes(1) [OF assms(1)] n(1,2) n'(1,2) assms(4) by (auto simp: distinct_map dest: inj_onD)
  then show ?thesis using n n' by simp
qed

lemma camera_id_for_prefix: "starts_with (node_id @ ''_'') (camera_id_for node_id cp)"
  by (simp add: camera_id_for_def starts_with_iff)

lemma next_camera_id_fresh: "c \<in> set t \<Longrightarrow> fc_id c < next_camera_id t"
  by (induction t) (auto simp: next_camera_id_def)

section \<open>A change to one node's part of the tables\<close>

text \<open>The columns the plan's cap writes are left out of the comparison.\<close>

definition bare :: "fleet_camera \<Rightarrow> fleet_camera" where
  "bare c = c\<lparr>fc_disabled_by_plan := False, fc_updated_at := 0\<rparr>"

definition others :: "int \<Rightarrow> fleet \<Rightarrow> fleet_camera list" where
  "others pk f = filter (\<lambda>c. fc_node c \<noteq> pk) (fl_cameras f)"

definition foreign :: "string \<Rightarrow> fleet \<Rightarrow> fleet_camera list" where
  "foreign org f = filter (\<lambda>c. fc_org c \<noteq> org) (fl_cameras f)"

definition org_count :: "string \<Rightarrow> fleet \<Rightarrow> nat" where
  "org_count org f = length (filter (\<lambda>c. fc_org c = org) (fl_cameras f))"

definition own_change :: "int \<Rightarrow> string \<Rightarrow> string \<Rightarrow> fleet \<Rightarrow> fleet \<Rightarrow> bool" where
  "own_change pk node_id org f f' \<longleftrightarrow>
     fleet_ok f' \<and> (pk, node_id, org) \<in> set (node_keys f') \<and>
     filter (\<lambda>n. nd_id n \<noteq> pk) (fl_nodes f') = filter (\<lambda>n. nd_id n \<noteq> pk) (fl_nodes f) \<and>
     map bare (others pk f') = map bare (others pk f) \<and> foreign org f' = foreign org f"

lemma own_change_refl: "fleet_ok f \<Longrightarrow> (pk, node_id, org) \<in> set (node_keys f) \<Longrightarrow> own_change pk node_id org f f"
  by (simp add: own_change_def)

lemma own_change_trans: "own_change pk nid org f g \<Longrightarrow> own_change pk nid org g h \<Longrightarrow> own_change pk nid org f h"
  by (simp add: own_change_def)

lemma own_set_node:
  assumes "fleet_ok f" "(pk, nid, org) \<in> set (node_keys f)"
    and "\<And>n. nd_id (g n) = nd_id n \<and> nd_node_id (g n) = nd_node_id n \<and> nd_org (g n) = nd_org n"
  shows "own_change pk nid org f (set_node pk g f)"
proof -
  have k: "node_keys (set_node pk g f) = node_keys f" "camera_keys (set_node pk g f) = camera_keys f"
    using assms(3) by (auto simp: node_keys_def camera_keys_def set_node_def)
  have "filter (\<lambda>n. nd_id n \<noteq> pk) (map (\<lambda>n. if nd_id n = pk then g n else n) ns) = filter (\<lambda>n. nd_id n \<noteq> pk) ns" for ns
    using assms(3) by (induction ns) auto
  then show ?thesis
    using fleet_ok_same [OF assms(1) k] assms(2) k by (simp add: own_change_def others_def foreign_def set_node_def)
qed

text \<open>An update of the node's cameras that leaves the keys.\<close>

lemma filter_map_if:
  assumes "\<And>c. c \<in> set t \<Longrightarrow> P c \<Longrightarrow> Q c \<and> Q (g c)"
  shows "filter (\<lambda>c. \<not> Q c) (map (\<lambda>c. if P c then g c else c) t) = filter (\<lambda>c. \<not> Q c) t"
  using assms by (induction t) auto

lemma own_update:
  assumes "fleet_ok f" "(pk, nid, org) \<in> set (node_keys f)"
    and "\<And>c. fc_id (g c) = fc_id c \<and> fc_camera_id (g c) = fc_camera_id c \<and> fc_org (g c) = fc_org c \<and> fc_node (g c) = fc_node c"
    and "\<And>c. c \<in> set (fl_cameras f) \<Longrightarrow> P c \<Longrightarrow> fc_node c = pk \<and> fc_org c = org"
    and "fl_cameras f' = map (\<lambda>c. if P c then g c else c) (fl_cameras f)" "fl_nodes f' = fl_nodes f"
  shows "own_change pk nid org f f'"
proof -
  have k: "node_keys f' = node_keys f" "camera_keys f' = camera_keys f"
    using assms(3,5,6) by (auto simp: node_keys_def camera_keys_def)
  have "filter (\<lambda>c. \<not> fc_node c = pk) (fl_cameras f') = filter (\<lambda>c. \<not> fc_node c = pk) (fl_cameras f)"
    unfolding assms(5) by (rule filter_map_if) (use assms(3,4) in auto)
  moreover have "filter (\<lambda>c. \<not> fc_org c = org) (fl_cameras f') = filter (\<lambda>c. \<not> fc_org c = org) (fl_cameras f)"
    unfolding assms(5) by (rule filter_map_if) (use assms(3,4) in auto)
  ultimately show ?thesis
    using fleet_ok_same [OF assms(1) k] assms(2,6) k by (simp add: own_change_def others_def foreign_def)
qed

lemma org_count_keys: "camera_keys f' = camera_keys f \<Longrightarrow> org_count org f' = org_count org f"
proof -
  have "org_count org g = length (filter (\<lambda>(_, _, o1, _). o1 = org) (camera_keys g))" for g
    by (simp add: org_count_def camera_keys_def filter_map o_def)
  then show "camera_keys f' = camera_keys f \<Longrightarrow> ?thesis" by simp
qed


section \<open>The cameras of a registration\<close>

text \<open>The context is that of a node of the table, and what it has added is within the cap.\<close>

definition ctx_ok :: "reg_ctx \<Rightarrow> fleet \<Rightarrow> bool" where
  "ctx_ok rc f \<longleftrightarrow> fleet_ok f \<and> (nd_id (rc_node rc), nd_node_id (rc_node rc), nd_org (rc_node rc)) \<in> set (node_keys f)"

abbreviation "own rc \<equiv> own_change (nd_id (rc_node rc)) (nd_node_id (rc_node rc)) (nd_org (rc_node rc))"

abbreviation "rc_count rc \<equiv> org_count (nd_org (rc_node rc))"

lemma own_ctx: "own rc f f' \<Longrightarrow> ctx_ok rc f'"
  by (simp add: own_change_def ctx_ok_def)

lemma ctx_camera:
  assumes "ctx_ok rc f" "c \<in> set (fl_cameras f)" "starts_with (nd_node_id (rc_node rc) @ ''_'') (fc_camera_id c)"
  shows "fc_node c = nd_id (rc_node rc) \<and> fc_org c = nd_org (rc_node rc)"
  using assms camera_of_node by (fastforce simp: ctx_ok_def key_member)

lemma same_id: "fleet_ok f \<Longrightarrow> c \<in> set (fl_cameras f) \<Longrightarrow> c' \<in> set (fl_cameras f) \<Longrightarrow> fc_id c = fc_id c' \<Longrightarrow> c = c'"
  using fleet_ok_cameras(1) [of f] by (auto simp: distinct_map dest: inj_onD)

lemma register_existing_own:
  assumes "ctx_ok rc f" "row \<in> set (fl_cameras f)" "fc_camera_id row = camera_id_for (nd_node_id (rc_node rc)) cp"
    and "register_existing fails rc cp cam_id row f acc = (ok, f', acc')"
  shows "own rc f f' \<and> camera_keys f' = camera_keys f \<and> ra_new acc' = ra_new acc"
proof -
  have row: "fc_node row = nd_id (rc_node rc) \<and> fc_org row = nd_org (rc_node rc)"
    using ctx_camera [OF assms(1,2)] assms(3) camera_id_for_prefix by simp
  have fk: "fleet_ok f" "(nd_id (rc_node rc), nd_node_id (rc_node rc), nd_org (rc_node rc)) \<in> set (node_keys f)"
    using assms(1) by (simp_all add: ctx_ok_def)
  have mine: "fc_node c = nd_id (rc_node rc) \<and> fc_org c = nd_org (rc_node rc)"
    if "c \<in> set (fl_cameras f)" "fc_id c = fc_id row" for c
    using same_id [OF fk(1) that(1) assms(2) that(2)] row by simp
  have up: "own rc f h \<and> camera_keys h = camera_keys f"
    if "fl_cameras h = set_camera (fc_id row) g (fl_cameras f)" "fl_nodes h = fl_nodes f"
      "\<And>c. fc_id (g c) = fc_id c \<and> fc_camera_id (g c) = fc_camera_id c \<and> fc_org (g c) = fc_org c \<and> fc_node (g c) = fc_node c" for g h
    using own_update [OF fk that(3), of "\<lambda>c. fc_id c = fc_id row" h] that mine
    by (auto simp: set_camera_def camera_keys_def)
  define nm where "nm = (case some_text (cp_name cp) of Some n \<Rightarrow> Some n | None \<Rightarrow> fc_name row)"
  define g1 where "g1 = (\<lambda>c :: fleet_camera. c\<lparr>fc_name := nm, fc_last_seen := Some (rc_now rc), fc_status := Some ''online'',
      fc_updated_at := rc_now rc\<rparr>)"
  define g2 where "g2 = (\<lambda>c :: fleet_camera. c\<lparr>fc_video_codec := map_option sanitize_video_codec (rc_video_codec rc),
      fc_audio_codec := rc_audio_codec rc, fc_updated_at := rc_now rc\<rparr>)"
  define f1 where "f1 = f\<lparr>fl_cameras := set_camera (fc_id row) g1 (fl_cameras f),
      fl_auth_generation := invalidate_auth_cache (fl_auth_generation f)\<rparr>"
  define f2 where "f2 = f1\<lparr>fl_cameras := set_camera (fc_id row) g2 (fl_cameras f1)\<rparr>"
  have "f' \<in> {f, f1, f2}"
    using assms(4)
    by (auto simp: register_existing_def Let_def nm_def [symmetric] g1_def [symmetric] f1_def [symmetric] g2_def f2_def
        split: if_splits)
  moreover have "ra_new acc' = ra_new acc"
    using assms(4) by (auto simp: register_existing_def Let_def split: if_splits option.splits)
  moreover have "own rc f f1 \<and> camera_keys f1 = camera_keys f"
    by (rule up [of f1 g1]) (simp_all add: f1_def g1_def)
  moreover have "own rc f f2 \<and> camera_keys f2 = camera_keys f"
    by (rule up [of f2 "g2 \<circ> g1"]) (auto simp: f2_def f1_def g1_def g2_def set_camera_def)
  ultimately show ?thesis using own_change_refl [OF fk] by blast
qed

lemma new_camera_fields [simp]:
  "fc_id (new_camera rc cp cam i) = i" "fc_camera_id (new_camera rc cp cam i) = cam"
  "fc_org (new_camera rc cp cam i) = nd_org (rc_node rc)" "fc_node (new_camera rc cp cam i) = nd_id (rc_node rc)"
  by (simp_all add: new_camera_def)

lemma add_camera_own:
  assumes "ctx_ok rc f" "find (\<lambda>c. fc_camera_id c = cam) (fl_cameras f) = None" "cam = camera_id_for (nd_node_id (rc_node rc)) cp"
  defines "f1 \<equiv> f\<lparr>fl_cameras := fl_cameras f @ [new_camera rc cp cam (next_camera_id (fl_cameras f))]\<rparr>"
  shows "own rc f f1 \<and> rc_count rc f1 = rc_count rc f + 1"
proof -
  have fresh: "next_camera_id (fl_cameras f) \<notin> fc_id ` set (fl_cameras f)" "cam \<notin> fc_camera_id ` set (fl_cameras f)"
    using assms(2) by (force simp: find_None_iff dest: next_camera_id_fresh)+
  have "fleet_ok f1"
    using assms(1) fresh camera_id_for_prefix [of "nd_node_id (rc_node rc)" cp] assms(3)
    by (fastforce simp: ctx_ok_def fleet_ok_def keys_ok_def node_keys_def camera_keys_def f1_def o_def)
  then show ?thesis
    using assms(1) by (simp add: own_change_def f1_def ctx_ok_def node_keys_def others_def foreign_def org_count_def)
qed

lemma register_camera_own:
  assumes "ctx_ok rc f" "register_camera fails rc cp f acc = (ok, f', acc')"
    and "int (rc_count rc f) = rc_current rc + ra_new acc"
  shows "own rc f f' \<and> int (rc_count rc f') = rc_current rc + ra_new acc' \<and>
    (rc_count rc f' = rc_count rc f \<or> int (rc_count rc f') \<le> rc_max_cameras rc)"
proof -
  define cam where "cam = camera_id_for (nd_node_id (rc_node rc)) cp"
  have refl: "own rc f f" using assms(1) own_change_refl by (simp add: ctx_ok_def)
  show ?thesis
  proof (cases "find (\<lambda>c. fc_camera_id c = cam) (fl_cameras f)")
    case None
    then show ?thesis
      using assms(2,3) refl add_camera_own [OF assms(1) None cam_def]
      by (auto simp: register_camera_def Let_def cam_def [symmetric] split: if_splits)
  next
    case (Some row)
    then have row: "row \<in> set (fl_cameras f)" "fc_camera_id row = cam" by (auto simp: find_Some_iff)
    define acc1 where "acc1 = acc\<lparr>ra_mapping := AList.update (device_path_of cp) (String cam) (ra_mapping acc)\<rparr>"
    have run: "(ok, f', acc') = (if fails (FindCamera cam) then (False, f, acc1) else register_existing fails rc cp cam row f acc1)"
      using assms(2) Some by (auto simp: register_camera_def Let_def cam_def [symmetric] acc1_def)
    have acc1: "ra_new acc1 = ra_new acc" by (simp add: acc1_def)
    show ?thesis
    proof (cases "fails (FindCamera cam)")
      case True
      then show ?thesis using run refl acc1 assms(3) by simp
    next
      case False
      then have "own rc f f' \<and> camera_keys f' = camera_keys f \<and> ra_new acc' = ra_new acc1"
        using register_existing_own [OF assms(1) row(1), of cp fails cam acc1 ok f' acc'] run row(2) cam_def by simp
      then show ?thesis using acc1 assms(3) org_count_keys [of f' f] by simp
    qed
  qed
qed

lemma register_cameras_own:
  assumes "ctx_ok rc f" "register_cameras fails rc cps f acc = (ok, f', acc')"
    and "int (rc_count rc f) = rc_current rc + ra_new acc"
  shows "own rc f f' \<and> (rc_count rc f' = rc_count rc f \<or> int (rc_count rc f') \<le> rc_max_cameras rc)"
  using assms
proof (induction cps arbitrary: f acc)
  case Nil
  then show ?case using own_change_refl by (simp add: ctx_ok_def)
next
  case (Cons cp cps)
  obtain b g acc1 where r: "register_camera fails rc cp f acc = (b, g, acc1)" by (metis prod_cases3)
  note one = register_camera_own [OF Cons.prems(1) r Cons.prems(3)]
  show ?case
  proof (cases b)
    case True
    then have rest: "register_cameras fails rc cps g acc1 = (ok, f', acc')" using Cons.prems(2) r by simp
    then show ?thesis using Cons.IH [OF own_ctx rest] one own_change_trans by fastforce
  qed (use one r Cons.prems(2) in auto)
qed

section \<open>The cameras dropped, and the cap\<close>

lemma filter_keys_ok: "keys_ok ns cs \<Longrightarrow> keys_ok ns (filter P cs)"
  by (fastforce simp: keys_ok_def distinct_map inj_on_def)

lemma own_filter:
  assumes "fleet_ok f" "(pk, nid, org) \<in> set (node_keys f)" "fl_nodes f' = fl_nodes f"
    and "fl_cameras f' = filter (\<lambda>c. fc_id c \<noteq> i) (fl_cameras f)"
    and "\<And>c. c \<in> set (fl_cameras f) \<Longrightarrow> fc_id c = i \<Longrightarrow> fc_node c = pk \<and> fc_org c = org"
  shows "own_change pk nid org f f' \<and> org_count o1 f' \<le> org_count o1 f"
proof -
  have k: "node_keys f' = node_keys f" "camera_keys f' = filter (\<lambda>(j, _). j \<noteq> i) (camera_keys f)"
    using assms(3,4) by (simp_all add: node_keys_def camera_keys_def filter_map o_def)
  have "fleet_ok f'" using assms(1) filter_keys_ok by (simp add: fleet_ok_def k)
  moreover have "others pk f' = others pk f" "foreign org f' = foreign org f"
    using assms(4,5) by (auto simp: others_def foreign_def intro!: filter_cong)
  moreover have "org_count o1 f' \<le> org_count o1 f"
    unfolding org_count_def assms(4) filter_filter using length_filter_le [of "\<lambda>c. fc_id c \<noteq> i" "filter (\<lambda>c. fc_org c = o1) (fl_cameras f)"]
    by (simp add: conj_commute)
  ultimately show ?thesis using assms(2,3) k by (simp add: own_change_def)
qed

lemma drop_stale_own:
  assumes "fleet_ok f" "(pk, nid, org) \<in> set (node_keys f)" "drop_stale fails cs f = (ok, f')"
    and "\<forall>c \<in> set cs. \<forall>x \<in> set (fl_cameras f). fc_id x = fc_id c \<longrightarrow> fc_node x = pk \<and> fc_org x = org"
  shows "own_change pk nid org f f' \<and> org_count o1 f' \<le> org_count o1 f"
  using assms
proof (induction cs arbitrary: f)
  case Nil
  then show ?case using own_change_refl by simp
next
  case (Cons c cs)
  define g where "g = f\<lparr>fl_hls := cleanup_camera (fc_camera_id c) (fl_hls f)\<rparr>"
  define h where "h = g\<lparr>fl_cameras := filter (\<lambda>x. fc_id x \<noteq> fc_id c) (fl_cameras g),
      fl_auth_generation := invalidate_auth_cache (fl_auth_generation g)\<rparr>"
  have gf: "own_change pk nid org f g \<and> org_count o1 g = org_count o1 f"
    using Cons.prems(1,2) own_update [of f pk nid org id "\<lambda>_. False" g]
    by (simp add: g_def org_count_def)
  have gh: "own_change pk nid org f h \<and> org_count o1 h \<le> org_count o1 f"
    using Cons.prems(4) by (intro own_filter [OF Cons.prems(1,2)]) (auto simp: h_def g_def)
  show ?case
  proof (cases "fails (DropCamera (fc_camera_id c))")
    case True
    then have "f' = g" using Cons.prems(3) by (simp add: g_def Let_def)
    then show ?thesis using gf by simp
  next
    case False
    then have rest: "drop_stale fails cs h = (ok, f')" using Cons.prems(3) by (simp add: g_def h_def Let_def)
    have "\<forall>c \<in> set cs. \<forall>x \<in> set (fl_cameras h). fc_id x = fc_id c \<longrightarrow> fc_node x = pk \<and> fc_org x = org"
      using Cons.prems(4) by (auto simp: h_def g_def)
    then have "own_change pk nid org h f' \<and> org_count o1 f' \<le> org_count o1 h"
      using gh by (intro Cons.IH [OF _ _ rest]) (auto simp: own_change_def)
    then show ?thesis using gh own_change_trans by (meson le_trans)
  qed
qed

lemma enforce_cap_shape:
  obtains P where "fl_cameras (snd (enforce_cap ok plan now org f)) =
      map (\<lambda>c. if fc_org c = org \<and> P c \<noteq> fc_disabled_by_plan c then c\<lparr>fc_disabled_by_plan := P c, fc_updated_at := now\<rparr> else c)
        (fl_cameras f)"
    and "fl_nodes (snd (enforce_cap ok plan now org f)) = fl_nodes f"
  by (rule that [of "flagged_by (fst (snd (enforce_camera_cap plan ok (map cap_row (filter (\<lambda>c. fc_org c = org) (fl_cameras f))))))"])
     (auto simp: enforce_cap_def split: prod.splits)

lemma enforce_cap_own:
  assumes "fleet_ok f" "(pk, nid, org) \<in> set (node_keys f)"
  shows "own_change pk nid org f (snd (enforce_cap ok plan now org f)) \<and>
    camera_keys (snd (enforce_cap ok plan now org f)) = camera_keys f"
proof -
  define f' where "f' = snd (enforce_cap ok plan now org f)"
  obtain Q where cams0: "fl_cameras f' =
      map (\<lambda>c. if fc_org c = org \<and> Q c \<noteq> fc_disabled_by_plan c then c\<lparr>fc_disabled_by_plan := Q c, fc_updated_at := now\<rparr> else c)
        (fl_cameras f)" and nds: "fl_nodes f' = fl_nodes f"
    unfolding f'_def by (rule enforce_cap_shape)
  define g where "g = (\<lambda>c. c\<lparr>fc_disabled_by_plan := Q c, fc_updated_at := now\<rparr>)"
  define P where "P = (\<lambda>c. Q c \<noteq> fc_disabled_by_plan c)"
  have cams: "fl_cameras f' = map (\<lambda>c. if fc_org c = org \<and> P c then g c else c) (fl_cameras f)"
    by (simp add: cams0 P_def g_def)
  have g: "fc_id (g c) = fc_id c \<and> fc_camera_id (g c) = fc_camera_id c \<and> fc_org (g c) = fc_org c \<and> fc_node (g c) = fc_node c"
    "bare (g c) = bare c" for c by (simp_all add: g_def bare_def)
  have k: "node_keys f' = node_keys f" "camera_keys f' = camera_keys f"
    using g(1) nds by (auto simp: node_keys_def camera_keys_def cams)
  have b: "map bare (filter Q (map (\<lambda>c. if fc_org c = org \<and> P c then g c else c) t)) = map bare (filter Q t)"
    if "\<And>c. Q (g c) = Q c" for Q t using that g(2) by (induction t) auto
  have "filter (\<lambda>c. \<not> fc_org c = org) (fl_cameras f') = filter (\<lambda>c. \<not> fc_org c = org) (fl_cameras f)"
    unfolding cams by (rule filter_map_if) (use g(1) in auto)
  then have "own_change pk nid org f f'"
    using fleet_ok_same [OF assms(1) k] assms(2) nds k b [of "\<lambda>c. fc_node c \<noteq> pk"] g(1)
    by (simp add: own_change_def others_def foreign_def cams)
  then show ?thesis using k(2) by (simp add: f'_def)
qed


section \<open>The handlers\<close>

lemma own_world: "own_change pk nid org f g \<Longrightarrow> own_change pk nid org f (g\<lparr>fl_world := w\<rparr>) \<and> org_count o1 (g\<lparr>fl_world := w\<rparr>) = org_count o1 g"
  by (simp add: own_change_def fleet_ok_def node_keys_def camera_keys_def others_def foreign_def org_count_def)

abbreviation "nchange n \<equiv> own_change (nd_id n) (nd_node_id n) (nd_org n)"

definition within_cap :: "int \<Rightarrow> string \<Rightarrow> fleet \<Rightarrow> fleet \<Rightarrow> bool" where
  "within_cap cap org f f' \<longleftrightarrow> int (org_count org f') \<le> max cap (int (org_count org f))"

lemma stale_of_mine:
  assumes "fleet_ok f" "(pk, nid, org) \<in> set (node_keys f)"
  shows "\<forall>c \<in> set (stale_of pk m (fl_cameras f)). \<forall>x \<in> set (fl_cameras f). fc_id x = fc_id c \<longrightarrow> fc_node x = pk \<and> fc_org x = org"
  using same_id [OF assms(1)] node_camera_org [OF assms] by (fastforce simp: stale_of_def Let_def)

lemma reconcile_own:
  assumes "fleet_ok f" "(nd_id node, nd_node_id node, nd_org node) \<in> set (node_keys f)"
    and "reconcile_cameras re node req key check f = (r, f')"
  shows "nchange node f f' \<and> within_cap (max_cameras (get_plan_limits (re_plan re))) (nd_org node) f f'"
proof -
  define rc where "rc = \<lparr>rc_node = node, rc_now = now_of re, rc_max_cameras = max_cameras (get_plan_limits (re_plan re)),
      rc_current = int (org_count (nd_org node) f), rc_video_codec = rr_video_codec req, rc_audio_codec = rr_audio_codec req\<rparr>"
  define a0 where "a0 = \<lparr>ra_mapping = [], ra_new = 0, ra_skipped = [], ra_transitions = []\<rparr>"
  obtain b1 f1 acc where r1: "register_cameras (re_fails re) rc (rr_cameras req) f a0 = (b1, f1, acc)" by (metis prod_cases3)
  have s1: "nchange node f f1" "within_cap (max_cameras (get_plan_limits (re_plan re))) (nd_org node) f f1"
    using register_cameras_own [OF _ r1] assms(1,2) by (auto simp: rc_def a0_def ctx_ok_def within_cap_def)
  have k1: "fleet_ok f1" "(nd_id node, nd_node_id node, nd_org node) \<in> set (node_keys f1)"
    using s1(1) by (simp_all add: own_change_def)
  obtain b2 f2 where r2: "drop_stale (re_fails re) (stale_of (nd_id node) (ra_mapping acc) (fl_cameras f1)) f1 = (b2, f2)" by force
  have s2: "nchange node f f2" "within_cap (max_cameras (get_plan_limits (re_plan re))) (nd_org node) f f2"
    using drop_stale_own [OF k1 r2 stale_of_mine [OF k1], of "nd_org node"] s1 own_change_trans
    by (auto simp: within_cap_def)
  have k2: "fleet_ok f2" "(nd_id node, nd_node_id node, nd_org node) \<in> set (node_keys f2)"
    using s2(1) by (simp_all add: own_change_def)
  obtain b3 f3 where r3: "enforce_cap (re_cap_ok re) (re_cap_plan re) (now_of re) (nd_org node) f2 = (b3, f3)" by force
  have s3: "nchange node f f3" "within_cap (max_cameras (get_plan_limits (re_plan re))) (nd_org node) f f3"
    using enforce_cap_own [OF k2, of "re_cap_ok re" "re_cap_plan re" "now_of re"] r3 s2 own_change_trans org_count_keys [of f3 f2]
    by (auto simp: within_cap_def)
  have refl: "nchange node f f" "within_cap (max_cameras (get_plan_limits (re_plan re))) (nd_org node) f f"
    using own_change_refl [OF assms(1,2)] by (simp_all add: within_cap_def)
  have "f' \<in> {f, f1, f2, f3} \<or> (\<exists>w. f' = f3\<lparr>fl_world := w\<rparr>)"
    using assms(3) r1 r2 r3
    by (auto simp: reconcile_cameras_def Let_def rc_def [symmetric] a0_def [symmetric] org_count_def [symmetric] split: if_splits)
  then show ?thesis
    using refl s1 s2 s3 own_world [of "nd_id node" "nd_node_id node" "nd_org node" f f3 _ "nd_org node"]
    by (auto simp: within_cap_def)
qed

lemma set_node_count: "org_count o1 (set_node i g f) = org_count o1 f"
  by (simp add: set_node_def org_count_def)

lemma known_step:
  assumes "fleet_ok f" "(nd_id node, nd_node_id node, nd_org node) \<in> set (node_keys f)"
    and "\<And>n. nd_id (g n) = nd_id n \<and> nd_node_id (g n) = nd_node_id n \<and> nd_org (g n) = nd_org n"
  shows "nchange node f (set_node (nd_id node) g f)" "fleet_ok (set_node (nd_id node) g f)"
    "(nd_id node, nd_node_id node, nd_org node) \<in> set (node_keys (set_node (nd_id node) g f))"
  using own_set_node [OF assms] by (simp_all add: own_change_def)

lemma register_known_own:
  assumes "fleet_ok f" "node \<in> set (fl_nodes f)" "register_known re node req key f = (r, f')"
  shows "nchange node f f' \<and> within_cap (max_cameras (get_plan_limits (re_plan re))) (nd_org node) f f'"
proof -
  let ?cap = "max_cameras (get_plan_limits (re_plan re))"
  define check where "check = version_check re (rr_node_version req)"
  have k0: "(nd_id node, nd_node_id node, nd_org node) \<in> set (node_keys f)" using assms(2) by (auto simp: key_member)
  define f1 where "f1 = save_version re (nd_id node) check (rr_node_version req) f"
  define f2 where "f2 = save_node re node req f1"
  have 1: "nchange node f f1" "fleet_ok f1" "(nd_id node, nd_node_id node, nd_org node) \<in> set (node_keys f1)"
    unfolding f1_def save_version_def by (rule known_step [OF assms(1) k0]; simp)+
  have 2: "nchange node f1 f2" "fleet_ok f2" "(nd_id node, nd_node_id node, nd_org node) \<in> set (node_keys f2)"
    unfolding f2_def save_node_def by (rule known_step [OF 1(2,3)]; simp)+
  define f3 where "f3 = save_codec re node req f2"
  have 3: "nchange node f2 f3" "fleet_ok f3" "(nd_id node, nd_node_id node, nd_org node) \<in> set (node_keys f3)"
    unfolding f3_def save_codec_def by (rule known_step [OF 2(2,3)]; simp)+
  define e where "e = record_node_register_error (\<not> re_fails re RecordError) (now_of re) (nd_id node) (register_error check) f1"
  have e: "nchange node f1 e"
    using known_step(1) [OF 1(2,3)] own_change_refl [OF 1(2,3)] by (simp add: e_def record_node_register_error_def)
  have counts: "org_count (nd_org node) f1 = org_count (nd_org node) f" "org_count (nd_org node) f2 = org_count (nd_org node) f"
    "org_count (nd_org node) f3 = org_count (nd_org node) f" "org_count (nd_org node) e = org_count (nd_org node) f"
    by (simp_all add: f1_def f2_def f3_def e_def save_version_def save_node_def save_codec_def set_node_count record_node_register_error_def)
  have "f' \<in> {f, f1, e, f2} \<or> (\<exists>g \<in> {f2, f3}. reconcile_cameras re node req key check g = (r, f'))"
    using assms(3)
    by (auto simp: register_known_def Let_def check_def [symmetric] f1_def [symmetric] f2_def [symmetric] f3_def [symmetric]
        e_def [symmetric] split: if_splits)
  moreover have "nchange node f f2" "nchange node f f3" "nchange node f e" using 1(1) 2(1) 3(1) e own_change_trans by blast+
  moreover have "nchange node f f' \<and> within_cap ?cap (nd_org node) f f'"
    if "reconcile_cameras re node req key check g = (r, f')" "fleet_ok g" "(nd_id node, nd_node_id node, nd_org node) \<in> set (node_keys g)"
      "nchange node f g" "org_count (nd_org node) g = org_count (nd_org node) f" for g
    using reconcile_own [OF that(2,3,1)] that(4,5) own_change_trans by (auto simp: within_cap_def)
  ultimately show ?thesis
    using own_change_refl [OF assms(1) k0] 1 2 3 counts by (auto simp: within_cap_def)
qed

end
