(* ===== verification/Node_Requests.thy ===== *)
theory Node_Requests
  imports Fleet_Keys
begin

text \<open>
  What a request with a node's key may change, and what a registration leaves behind.
\<close>

section \<open>The heartbeat\<close>

lemma apply_statuses_own:
  assumes "fleet_ok f" "(pk, nid, org) \<in> set (node_keys f)" "apply_statuses fails now pk us known f ts = (ok, f', ts')"
  shows "own_change pk nid org f f' \<and> camera_keys f' = camera_keys f"
  using assms
proof (induction us arbitrary: known f ts)
  case Nil
  then show ?case using own_change_refl by simp
next
  case (Cons u us)
  define g where "g = (\<lambda>c :: fleet_camera. c\<lparr>fc_status := Some (cs_status u), fc_last_seen := Some now,
      fc_last_error := (if cs_status u \<in> {''restarting'', ''failed'', ''error''} then cs_last_error u else None),
      fc_updated_at := now\<rparr>)"
  define f1 where "f1 = f\<lparr>fl_cameras := map (\<lambda>c. if fc_camera_id c = cs_camera_id u \<and> fc_node c = pk then g c else c) (fl_cameras f)\<rparr>"
  have f1: "own_change pk nid org f f1 \<and> camera_keys f1 = camera_keys f"
    using own_update [OF Cons.prems(1,2), of g "\<lambda>c. fc_camera_id c = cs_camera_id u \<and> fc_node c = pk" f1] node_camera_org [OF Cons.prems(1,2)]
    by (auto simp: f1_def g_def camera_keys_def)
  have refl: "own_change pk nid org f f" using own_change_refl [OF Cons.prems(1,2)] .
  have rest: "own_change pk nid org f f' \<and> camera_keys f' = camera_keys f"
    if "apply_statuses fails now pk us k f1 ts1 = (ok, f', ts')" for k ts1
    using Cons.IH [OF _ _ that] f1 own_change_trans [of pk nid org f f1 f'] by (auto simp: own_change_def)
  show ?case
  proof (cases "find (\<lambda>k. fst k = cs_camera_id u) known")
    case None
    then show ?thesis using Cons.IH [OF Cons.prems(1,2)] Cons.prems(3) by simp
  next
    case (Some k)
    obtain a previous name where k: "k = (a, previous, name)" by (metis prod_cases3)
    show ?thesis
    proof (cases "fails (SaveStatus (cs_camera_id u))")
      case True
      then show ?thesis using Cons.prems(3) Some k refl by (simp add: Let_def)
    next
      case False
      then obtain k1 ts1 where "apply_statuses fails now pk us k1 f1 ts1 = (ok, f', ts')"
        using Cons.prems(3) Some k unfolding f1_def g_def by (auto simp: Let_def simp del: insert_iff)
      then show ?thesis by (rule rest)
    qed
  qed
qed

lemma heartbeat_cameras_own:
  assumes "fleet_ok f" "(nd_id node, nd_node_id node, nd_org node) \<in> set (node_keys f)"
    and "heartbeat_cameras he node req check f = (r, f')"
  shows "nchange node f f' \<and> camera_keys f' = camera_keys f"
proof -
  let ?re = "he_register he"
  obtain b f1 ts where r1: "apply_statuses (re_fails ?re) (now_of ?re) (nd_id node) (hb_cameras req)
      (known_cameras (nd_id node) (hb_cameras req) (fl_cameras f)) f [] = (b, f1, ts)" by (metis prod_cases3)
  note s1 = apply_statuses_own [OF assms(1,2) r1]
  define f2 where "f2 = f1\<lparr>fl_world := emit_transitions (re_note ?re) node (node_came_online (nd_status node)) ts (fl_world f1)\<rparr>"
  have s2: "nchange node f f2 \<and> camera_keys f2 = camera_keys f"
    using s1 own_world [of "nd_id node" "nd_node_id node" "nd_org node" f f1] by (simp add: f2_def camera_keys_def)
  then have k2: "fleet_ok f2" "(nd_id node, nd_node_id node, nd_org node) \<in> set (node_keys f2)" by (simp_all add: own_change_def)
  define f3 where "f3 = past_due_sweep ?re (nd_org node) f2"
  have s3: "nchange node f2 f3 \<and> camera_keys f3 = camera_keys f2"
    using enforce_cap_own [OF k2] own_change_refl [OF k2] by (simp add: f3_def past_due_sweep_def)
  have "nchange node f f3 \<and> camera_keys f3 = camera_keys f" using s2 s3 own_change_trans by (metis (no_types))
  moreover have "f' \<in> {f, f1, f3}"
    using assms(3) r1 by (auto simp: heartbeat_cameras_def Let_def f2_def [symmetric] f3_def [symmetric] split: if_splits)
  ultimately show ?thesis using s1 own_change_refl [OF assms(1,2)] by auto
qed

lemma heartbeat_known_own:
  assumes "fleet_ok f" "node \<in> set (fl_nodes f)" "heartbeat_known he node req f = (r, f')"
  shows "nchange node f f' \<and> camera_keys f' = camera_keys f"
proof -
  let ?re = "he_register he"
  define check where "check = version_check ?re (hb_node_version req)"
  have k0: "(nd_id node, nd_node_id node, nd_org node) \<in> set (node_keys f)" using assms(2) by (auto simp: key_member)
  define f1 where "f1 = save_version ?re (nd_id node) check (hb_node_version req) f"
  have 1: "nchange node f f1" "fleet_ok f1" "(nd_id node, nd_node_id node, nd_org node) \<in> set (node_keys f1)"
    unfolding f1_def save_version_def by (rule known_step [OF assms(1) k0]; simp)+
  define f2 where "f2 = touch_node ?re node req f1"
  have 2: "nchange node f1 f2" "fleet_ok f2" "(nd_id node, nd_node_id node, nd_org node) \<in> set (node_keys f2)"
    unfolding f2_def touch_node_def by (rule known_step [OF 1(2,3)]; simp)+
  define f3 where "f3 = (\<lambda>stats. save_storage ?re node stats f2)"
  have 3: "nchange node f2 (f3 stats)" "fleet_ok (f3 stats)" "(nd_id node, nd_node_id node, nd_org node) \<in> set (node_keys (f3 stats))" for stats
    unfolding f3_def save_storage_def by (rule known_step [OF 2(2,3)]; simp)+
  have keys: "camera_keys f1 = camera_keys f" "camera_keys f2 = camera_keys f" "camera_keys (f3 stats) = camera_keys f" for stats
    by (simp_all add: f1_def f2_def f3_def save_version_def touch_node_def save_storage_def set_node_def camera_keys_def)
  have n2: "nchange node f f2" using 1(1) 2(1) own_change_trans by blast
  have n3: "nchange node f ((f3 stats)\<lparr>fl_world := w\<rparr>)" for stats w
    using n2 3(1) [of stats] own_change_trans own_world by blast
  have go: "nchange node f f' \<and> camera_keys f' = camera_keys f"
    if "heartbeat_cameras he node req check g = (r, f')" "nchange node f g" "camera_keys g = camera_keys f" for g
    using heartbeat_cameras_own [OF _ _ that(1)] that(2,3) own_change_trans [of _ _ _ f g f'] by (auto simp: own_change_def)
  have "f' \<in> {f, f1, f2} \<or> heartbeat_cameras he node req check f2 = (r, f') \<or>
      (\<exists>stats w. heartbeat_cameras he node req check ((f3 stats)\<lparr>fl_world := w\<rparr>) = (r, f'))"
    using assms(3)
    by (auto simp: heartbeat_known_def Let_def check_def [symmetric] f1_def [symmetric] f2_def [symmetric] f3_def
        split: if_splits option.splits)
  then show ?thesis
    using go [of f2] go n2 n3 1(1) keys own_change_refl [OF assms(1) k0] by (auto simp: camera_keys_def)
qed

section \<open>Who may change what\<close>

lemma find_node_Some: "find_node i t = Some n \<Longrightarrow> n \<in> set t \<and> nd_node_id n = i"
  by (auto simp: find_node_def find_Some_iff)

text \<open>A request did nothing, worked for the node whose key it carries, or left a note on a node.\<close>

definition key_effect :: "string \<Rightarrow> int \<Rightarrow> fleet \<Rightarrow> fleet \<Rightarrow> bool" where
  "key_effect h cap f f' \<longleftrightarrow>
     f' = f \<or>
     (\<exists>n \<in> set (fl_nodes f). nd_key_hash n = h \<and> nchange n f f' \<and> within_cap cap (nd_org n) f f') \<or>
     (\<exists>n \<in> set (fl_nodes f). \<exists>works now reason. f' = record_bad_key_attempt works now (nd_id n) reason f)"

lemma register_node_effect:
  assumes "fleet_ok f" "register_node re rate key body f = (r, f')"
  shows "key_effect (node_key_hash (ne_sha (re_note re)) key) (max_cameras (get_plan_limits (re_plan re))) f f'"
proof -
  note find = find_node_Some [of _ "fl_nodes f"]
  have known: "key_effect (node_key_hash (ne_sha (re_note re)) key) (max_cameras (get_plan_limits (re_plan re))) f f'"
    if "node \<in> set (fl_nodes f)" "nd_key_hash node = node_key_hash (ne_sha (re_note re)) key"
      "register_known re node req key f = (r, f')" for node req
    using register_known_own [OF assms(1) that(1,3)] that(1,2) unfolding key_effect_def by blast
  show ?thesis
    using assms(2) known find
    by (fastforce simp: register_node_def key_effect_def split: sum.splits if_splits option.splits)
qed

lemma node_heartbeat_effect:
  assumes "fleet_ok f" "node_heartbeat he rate key body f = (r, f')"
  shows "key_effect (node_key_hash (ne_sha (re_note (he_register he))) key) cap f f'"
proof -
  note find = find_node_Some [of _ "fl_nodes f"]
  have known: "key_effect (node_key_hash (ne_sha (re_note (he_register he))) key) cap f f'"
    if "node \<in> set (fl_nodes f)" "nd_key_hash node = node_key_hash (ne_sha (re_note (he_register he))) key"
      "heartbeat_known he node req f = (r, f')" for node req
  proof -
    note own = heartbeat_known_own [OF assms(1) that(1,3)]
    have "within_cap cap (nd_org node) f f'" using org_count_keys [of f' f] own by (simp add: within_cap_def)
    then show ?thesis using own that(1,2) unfolding key_effect_def by blast
  qed
  show ?thesis
    using assms(2) known find
    by (fastforce simp: node_heartbeat_def Let_def key_effect_def split: sum.splits if_splits option.splits)
qed


definition cameras_of :: "node_row \<Rightarrow> fleet \<Rightarrow> fleet_camera list" where
  "cameras_of n f = filter (\<lambda>c. fc_node c = nd_id n) (fl_cameras f)"

definition org_cameras :: "string \<Rightarrow> fleet \<Rightarrow> fleet_camera list" where
  "org_cameras org f = filter (\<lambda>c. fc_org c = org) (fl_cameras f)"

lemma own_cameras_of:
  assumes "own_change pk nid org f f'" "nd_id n \<noteq> pk"
  shows "map bare (cameras_of n f') = map bare (cameras_of n f)"
proof -
  have pick: "map bare (cameras_of n g) = filter (\<lambda>c. fc_node c = nd_id n) (map bare (others pk g))" for g
    using assms(2) by (auto simp: cameras_of_def others_def filter_map o_def bare_def intro!: arg_cong [of _ _ "map bare"] filter_cong)
  show ?thesis using assms(1) by (simp add: pick own_change_def)
qed

lemma own_org_cameras:
  assumes "own_change pk nid org f f'" "o1 \<noteq> org"
  shows "org_cameras o1 f' = org_cameras o1 f"
proof -
  have pick: "org_cameras o1 g = filter (\<lambda>c. fc_org c = o1) (foreign org g)" for g
    using assms(2) by (auto simp: org_cameras_def foreign_def intro!: filter_cong)
  show ?thesis using assms(1) by (simp add: pick own_change_def)
qed

lemma own_node_kept:
  assumes "own_change pk nid org f f'" "n \<in> set (fl_nodes f)" "nd_id n \<noteq> pk"
  shows "n \<in> set (fl_nodes f')"
proof -
  have "n \<in> set (filter (\<lambda>n. nd_id n \<noteq> pk) (fl_nodes f))" using assms(2,3) by simp
  then have "n \<in> set (filter (\<lambda>n. nd_id n \<noteq> pk) (fl_nodes f'))" using assms(1) by (simp add: own_change_def)
  then show ?thesis by simp
qed

lemma bad_key_note:
  assumes "fleet_ok f"
  shows "fleet_ok (record_bad_key_attempt works now i reason f)"
    "fl_cameras (record_bad_key_attempt works now i reason f) = fl_cameras f"
    "n \<in> set (fl_nodes f) \<Longrightarrow> nd_last_seen n \<noteq> None \<Longrightarrow> n \<in> set (fl_nodes (record_bad_key_attempt works now i reason f))"
proof -
  show "fl_cameras (record_bad_key_attempt works now i reason f) = fl_cameras f"
    by (simp add: record_bad_key_attempt_def set_node_def)
  have "node_keys (record_bad_key_attempt works now i reason f) = node_keys f"
    "camera_keys (record_bad_key_attempt works now i reason f) = camera_keys f"
    by (auto simp: record_bad_key_attempt_def set_node_def node_keys_def camera_keys_def)
  then show "fleet_ok (record_bad_key_attempt works now i reason f)" using assms fleet_ok_same by blast
  show "n \<in> set (fl_nodes f) \<Longrightarrow> nd_last_seen n \<noteq> None \<Longrightarrow> n \<in> set (fl_nodes (record_bad_key_attempt works now i reason f))"
    by (force simp: record_bad_key_attempt_def set_node_def image_iff)
qed

lemma key_effect_frame:
  assumes "fleet_ok f" "key_effect h cap f f'"
  shows "fleet_ok f'"
    and "n \<in> set (fl_nodes f) \<Longrightarrow> nd_key_hash n \<noteq> h \<Longrightarrow> nd_last_seen n \<noteq> None \<Longrightarrow> n \<in> set (fl_nodes f')"
    and "n \<in> set (fl_nodes f) \<Longrightarrow> nd_key_hash n \<noteq> h \<Longrightarrow> map bare (cameras_of n f') = map bare (cameras_of n f)"
    and "(\<And>n. n \<in> set (fl_nodes f) \<Longrightarrow> nd_key_hash n = h \<Longrightarrow> nd_org n \<noteq> org) \<Longrightarrow> org_cameras org f' = org_cameras org f"
    and "within_cap cap org f f'"
proof -
  consider (same) "f' = f"
    | (own) m where "m \<in> set (fl_nodes f)" "nd_key_hash m = h" "nchange m f f'" "within_cap cap (nd_org m) f f'"
    | (noted) works now i reason where "f' = record_bad_key_attempt works now i reason f"
    using assms(2) by (auto simp: key_effect_def)
  note cases = this
  have ids: "nd_id n \<noteq> nd_id m" if "n \<in> set (fl_nodes f)" "m \<in> set (fl_nodes f)" "n \<noteq> m" for n m
    using fleet_ok_nodes(1) [OF assms(1)] that by (auto simp: distinct_map dest: inj_onD)
  show "fleet_ok f'"
    by (rule cases) (use assms(1) bad_key_note(1) [OF assms(1)] in \<open>auto simp: own_change_def\<close>)
  show "n \<in> set (fl_nodes f')" if "n \<in> set (fl_nodes f)" "nd_key_hash n \<noteq> h" "nd_last_seen n \<noteq> None"
    by (rule cases) (use that ids own_node_kept bad_key_note(3) [OF assms(1)] in \<open>(blast | metis)+\<close>)
  show "map bare (cameras_of n f') = map bare (cameras_of n f)" if "n \<in> set (fl_nodes f)" "nd_key_hash n \<noteq> h"
    by (rule cases) (use that ids own_cameras_of bad_key_note(2) [OF assms(1)] in \<open>(fastforce simp: cameras_of_def | metis)+\<close>)
  show "org_cameras org f' = org_cameras org f" if "\<And>n. n \<in> set (fl_nodes f) \<Longrightarrow> nd_key_hash n = h \<Longrightarrow> nd_org n \<noteq> org"
    by (rule cases) (use that own_org_cameras bad_key_note(2) [OF assms(1)] in \<open>(fastforce simp: org_cameras_def | metis)+\<close>)
  have count: "org_count org g = length (org_cameras org g)" for g by (simp add: org_count_def org_cameras_def)
  show "within_cap cap org f f'"
  proof (cases rule: cases)
    case (own m)
    then show ?thesis
      using own_org_cameras [OF own(3), of org] by (cases "org = nd_org m") (auto simp: within_cap_def count)
  qed (use bad_key_note(2) [OF assms(1)] in \<open>auto simp: within_cap_def org_count_def\<close>)
qed

section \<open>Properties\<close>

text \<open>
  C4. A registration or a heartbeat changes nothing of a node whose key it does not carry: the node's
  row stays as it is, unless the node has never connected and the refusal is noted on it, its
  cameras stay as they are apart from the plan's flag, and the cameras of an organisation none of
  whose nodes has the key stay as they are altogether. The keys of the two tables stay well
  formed, whichever statement fails.
\<close>

theorem node_requests_need_key:
  assumes "fleet_ok f" "h = node_key_hash (ne_sha (re_note (he_register he))) key"
    and "register_node (he_register he) rate key body f = (r, f') \<or> node_heartbeat he rate key body f = (r, f')"
  shows "fleet_ok f' \<and>
    (\<forall>n \<in> set (fl_nodes f). nd_key_hash n \<noteq> h \<longrightarrow>
      (nd_last_seen n \<noteq> None \<longrightarrow> n \<in> set (fl_nodes f')) \<and> map bare (cameras_of n f') = map bare (cameras_of n f)) \<and>
    (\<forall>org. (\<forall>n \<in> set (fl_nodes f). nd_key_hash n = h \<longrightarrow> nd_org n \<noteq> org) \<longrightarrow> org_cameras org f' = org_cameras org f)"
proof -
  have "\<exists>cap. key_effect h cap f f'"
    using assms(2,3) register_node_effect [OF assms(1)] node_heartbeat_effect [OF assms(1)] by blast
  then obtain cap where e: "key_effect h cap f f'" ..
  show ?thesis using key_effect_frame(1-4) [OF assms(1) e] by blast
qed

definition sample_node :: "int \<Rightarrow> string \<Rightarrow> string \<Rightarrow> string \<Rightarrow> node_row" where
  "sample_node i node_id org key_hash =
     \<lparr>nd_id = i, nd_node_id = node_id, nd_org = org, nd_name = None, nd_hostname = None, nd_key_hash = key_hash,
      nd_local_ip = None, nd_http_port = None, nd_http_tls = None, nd_status = None, nd_last_seen = Some 0, nd_version = None,
      nd_version_checked_at = None, nd_register_error = None, nd_register_error_at = None, nd_video_codec = None,
      nd_audio_codec = None, nd_codec_detected_at = None, nd_storage = (None, None, None, None),
      nd_storage_reported_at = None, nd_key_rotated_at = None, nd_created_at = None, nd_updated_at = 0\<rparr>"

text \<open>The node \<open>n\<close> of the organisation \<open>o\<close> has the key, the node \<open>m\<close> of \<open>p\<close> another one.\<close>

definition sample_tables :: fleet where
  "sample_tables = sample_fleet\<lparr>fl_nodes := [sample_node 1 ''n'' ''o'' ''07'', sample_node 2 ''m'' ''p'' ''08'']\<rparr>"

definition sample_request :: "json \<Rightarrow> unit register_env" where
  "sample_request body =
     \<lparr>re_note = sample_note_env, re_fails = \<lambda>_. False, re_utf8_ok = \<lambda>_. True, re_from_str = \<lambda>_. Some body,
      re_min_supported = ''0.1.0'', re_latest = ''0.1.0'', re_releases = None, re_plan = ''pro'', re_cap_plan = ''pro'',
      re_cap_ok = \<lambda>_. True\<rparr>"

definition sample_heartbeat :: "json \<Rightarrow> unit heartbeat_env" where
  "sample_heartbeat body =
     \<lparr>he_register = sample_request body, he_double = \<lambda>x. x, he_zone_minutes = \<lambda>_. None, he_is_local_auth = False\<rparr>"

lemma sample_tables_ok: "fleet_ok sample_tables"
  by (simp add: fleet_ok_def keys_ok_def node_keys_def camera_keys_def sample_tables_def sample_fleet_def sample_camera_def
      sample_node_def starts_with_def)

lemma sample_key: "node_key_hash (ne_sha (re_note (sample_request body))) ''k'' = ''07''"
  by (simp add: node_key_hash_def sample_request_def sample_note_env_def hex_def hex_byte_def hex_digit_def)

lemma node_requests_need_key_witness:
  "\<exists>r f'. node_heartbeat (sample_heartbeat Null) (Inr ()) ''k'' ''{}'' sample_tables = (r, f') \<and> fleet_ok f' \<and>
    sample_node 2 ''m'' ''p'' ''08'' \<in> set (fl_nodes f') \<and> org_cameras ''p'' f' = org_cameras ''p'' sample_tables"
proof -
  obtain r f' where run: "node_heartbeat (sample_heartbeat Null) (Inr ()) ''k'' ''{}'' sample_tables = (r, f')" by force
  have h: "''07'' = node_key_hash (ne_sha (re_note (he_register (sample_heartbeat Null)))) ''k''"
    using sample_key by (simp add: sample_heartbeat_def)
  show ?thesis
    using node_requests_need_key [OF sample_tables_ok h disjI2 [OF run]] run
    by (auto simp: sample_tables_def sample_node_def)
qed




end
