(* ===== verification/Registration.thy ===== *)
theory Registration
  imports Node_Requests
begin

text \<open>
  What a successful registration leaves behind: the cameras the node reported, online, and no others,
  save those the plan had no room for.
\<close>

section \<open>One camera\<close>

definition seen_online :: "int \<Rightarrow> fleet_camera \<Rightarrow> bool" where
  "seen_online now c \<longleftrightarrow> fc_status c = Some ''online'' \<and> fc_last_seen c = Some now"

definition camera_ids :: "fleet \<Rightarrow> string set" where
  "camera_ids f = fc_camera_id ` set (fl_cameras f)"

lemma register_existing_ok:
  assumes "register_existing fails rc cp cam row f acc = (True, f', acc')"
  shows "\<exists>g. fl_cameras f' = set_camera (fc_id row) g (fl_cameras f) \<and>
      (\<forall>c. fc_id (g c) = fc_id c \<and> fc_camera_id (g c) = fc_camera_id c \<and> seen_online (rc_now rc) (g c))"
    and "ra_mapping acc' = ra_mapping acc" "ra_skipped acc' = ra_skipped acc" "ra_new acc' = ra_new acc"
proof -
  define nm where "nm = (case some_text (cp_name cp) of Some n \<Rightarrow> Some n | None \<Rightarrow> fc_name row)"
  define g1 where "g1 = (\<lambda>c :: fleet_camera. c\<lparr>fc_name := nm, fc_last_seen := Some (rc_now rc), fc_status := Some ''online'',
      fc_updated_at := rc_now rc\<rparr>)"
  define g2 where "g2 = (\<lambda>c :: fleet_camera. c\<lparr>fc_video_codec := map_option sanitize_video_codec (rc_video_codec rc),
      fc_audio_codec := rc_audio_codec rc, fc_updated_at := rc_now rc\<rparr>)"
  have "fl_cameras f' \<in> {set_camera (fc_id row) g1 (fl_cameras f), set_camera (fc_id row) g2 (set_camera (fc_id row) g1 (fl_cameras f))}"
    using assms
    by (auto simp: register_existing_def Let_def nm_def [symmetric] g1_def [symmetric] g2_def split: if_splits)
  moreover have "set_camera i g2 (set_camera i g1 t) = set_camera i (g2 \<circ> g1) t" for i t
    by (simp add: set_camera_def g1_def)
  ultimately show "\<exists>g. fl_cameras f' = set_camera (fc_id row) g (fl_cameras f) \<and>
      (\<forall>c. fc_id (g c) = fc_id c \<and> fc_camera_id (g c) = fc_camera_id c \<and> seen_online (rc_now rc) (g c))"
    by (auto simp: g1_def g2_def seen_online_def)
  show "ra_mapping acc' = ra_mapping acc" "ra_skipped acc' = ra_skipped acc" "ra_new acc' = ra_new acc"
    using assms by (auto simp: register_existing_def Let_def split: if_splits option.splits)
qed

text \<open>What registering the camera \<open>cam\<close> does to the table and to what has been gathered.\<close>

definition camera_step :: "reg_ctx \<Rightarrow> string \<Rightarrow> fleet \<Rightarrow> reg_acc \<Rightarrow> fleet \<Rightarrow> reg_acc \<Rightarrow> bool" where
  "camera_step rc cam f acc f' acc' \<longleftrightarrow>
     camera_ids f \<subseteq> camera_ids f' \<and>
     (\<forall>c' \<in> set (fl_cameras f'). if fc_camera_id c' = cam then seen_online (rc_now rc) c' else c' \<in> set (fl_cameras f)) \<and>
     (cam \<in> camera_ids f' \<or> ra_skipped acc' \<noteq> []) \<and> (ra_skipped acc' = [] \<longrightarrow> ra_skipped acc = []) \<and>
     (rc_current rc + ra_new acc < rc_max_cameras rc \<longrightarrow>
        ra_skipped acc' = ra_skipped acc \<and> ra_new acc' \<le> ra_new acc + 1)"

lemma new_camera_seen: "seen_online (rc_now rc) (new_camera rc cp cam i)"
  by (simp add: seen_online_def new_camera_def)

lemma register_camera_step:
  assumes "fleet_ok f" "register_camera fails rc cp f acc = (True, f', acc')"
  shows "camera_step rc (camera_id_for (nd_node_id (rc_node rc)) cp) f acc f' acc' \<and>
    ra_mapping acc' = AList.update (device_path_of cp) (String (camera_id_for (nd_node_id (rc_node rc)) cp)) (ra_mapping acc)"
proof -
  define cam where "cam = camera_id_for (nd_node_id (rc_node rc)) cp"
  define acc1 where "acc1 = acc\<lparr>ra_mapping := AList.update (device_path_of cp) (String cam) (ra_mapping acc)\<rparr>"
  show ?thesis
  proof (cases "find (\<lambda>c. fc_camera_id c = cam) (fl_cameras f)")
    case None
    then have fresh: "cam \<notin> fc_camera_id ` set (fl_cameras f)" "c \<in> set (fl_cameras f) \<Longrightarrow> fc_camera_id c \<noteq> cam" for c
      by (auto simp: find_None_iff)
    define c1 where "c1 = new_camera rc cp cam (next_camera_id (fl_cameras f))"
    have c1: "fc_camera_id c1 = cam" "seen_online (rc_now rc) c1" by (simp_all add: c1_def new_camera_seen)
    show ?thesis
      using assms(2) None fresh c1
      by (auto simp: register_camera_def Let_def cam_def [symmetric] c1_def [symmetric] camera_step_def camera_ids_def split: if_splits)
  next
    case (Some row)
    then have row: "row \<in> set (fl_cameras f)" "fc_camera_id row = cam" by (auto simp: find_Some_iff)
    have run: "register_existing fails rc cp cam row f acc1 = (True, f', acc')"
      using assms(2) Some by (auto simp: register_camera_def Let_def cam_def [symmetric] acc1_def split: if_splits)
    obtain g where g: "fl_cameras f' = set_camera (fc_id row) g (fl_cameras f)"
      "\<And>c. fc_id (g c) = fc_id c \<and> fc_camera_id (g c) = fc_camera_id c \<and> seen_online (rc_now rc) (g c)"
      using register_existing_ok(1) [OF run] by blast
    have same: "fc_id c = fc_id row \<longleftrightarrow> fc_camera_id c = cam" if "c \<in> set (fl_cameras f)" for c
      using fleet_ok_cameras [OF assms(1)] row that by (auto simp: distinct_map dest: inj_onD)
    have "map fc_camera_id (fl_cameras f') = map fc_camera_id (fl_cameras f)" using g by (simp add: set_camera_def)
    then have "camera_ids f' = camera_ids f" unfolding camera_ids_def by (metis set_map)
    moreover have "if fc_camera_id c' = cam then seen_online (rc_now rc) c' else c' \<in> set (fl_cameras f)"
      if "c' \<in> set (fl_cameras f')" for c'
      using that g same by (auto simp: set_camera_def)
    ultimately show ?thesis
      using register_existing_ok(2-4) [OF run] row
      by (auto simp: camera_step_def acc1_def cam_def [symmetric] camera_ids_def)
  qed
qed

section \<open>All of them\<close>

definition mapped :: "string \<Rightarrow> (string \<times> json) list \<Rightarrow> bool" where
  "mapped nid m \<longleftrightarrow> (\<forall>(k, v) \<in> set m. v = String (nid @ ''_'' @ sanitize_device k))"

lemma mapped_update:
  assumes "mapped nid m"
  shows "mapped nid (AList.update k (String (nid @ ''_'' @ sanitize_device k)) m) \<and>
    snd ` set (AList.update k (String (nid @ ''_'' @ sanitize_device k)) m) = insert (String (nid @ ''_'' @ sanitize_device k)) (snd ` set m)"
  using assms by (induction m) (auto simp: mapped_def)

text \<open>\<open>P\<close> are the cameras registered so far.\<close>

definition gathered :: "reg_ctx \<Rightarrow> string set \<Rightarrow> fleet \<Rightarrow> reg_acc \<Rightarrow> bool" where
  "gathered rc P f acc \<longleftrightarrow>
     mapped (nd_node_id (rc_node rc)) (ra_mapping acc) \<and> snd ` set (ra_mapping acc) = String ` P \<and>
     (\<forall>c \<in> set (fl_cameras f). fc_camera_id c \<in> P \<longrightarrow> seen_online (rc_now rc) c) \<and>
     (ra_skipped acc = [] \<longrightarrow> P \<subseteq> camera_ids f)"

lemma gathered_step:
  assumes "gathered rc P f acc" "camera_step rc (camera_id_for (nd_node_id (rc_node rc)) cp) f acc f' acc'"
    and "ra_mapping acc' = AList.update (device_path_of cp) (String (camera_id_for (nd_node_id (rc_node rc)) cp)) (ra_mapping acc)"
  shows "gathered rc (insert (camera_id_for (nd_node_id (rc_node rc)) cp) P) f' acc'"
proof -
  let ?cam = "camera_id_for (nd_node_id (rc_node rc)) cp"
  have cam: "?cam = nd_node_id (rc_node rc) @ ''_'' @ sanitize_device (device_path_of cp)" by (simp add: camera_id_for_def)
  have m: "mapped (nd_node_id (rc_node rc)) (ra_mapping acc') \<and> snd ` set (ra_mapping acc') = String ` insert ?cam P"
    using mapped_update [of "nd_node_id (rc_node rc)" "ra_mapping acc" "device_path_of cp"] assms(1,3)
    by (simp add: gathered_def cam)
  moreover have "\<forall>c \<in> set (fl_cameras f'). fc_camera_id c \<in> insert ?cam P \<longrightarrow> seen_online (rc_now rc) c"
    using assms(1,2) unfolding gathered_def camera_step_def by (auto split: if_splits)
  moreover have "ra_skipped acc' = [] \<longrightarrow> insert ?cam P \<subseteq> camera_ids f'"
    using assms(1,2) unfolding gathered_def camera_step_def by blast
  ultimately show ?thesis by (simp add: gathered_def)
qed

lemma register_cameras_gathered:
  assumes "ctx_ok rc f" "int (rc_count rc f) = rc_current rc + ra_new acc" "gathered rc P f acc"
    and "register_cameras fails rc cps f acc = (True, f', acc')"
  shows "gathered rc (P \<union> camera_id_for (nd_node_id (rc_node rc)) ` set cps) f' acc' \<and>
    (rc_current rc + ra_new acc + int (length cps) \<le> rc_max_cameras rc \<longrightarrow> ra_skipped acc' = ra_skipped acc)"
  using assms
proof (induction cps arbitrary: f acc P)
  case (Cons cp cps)
  obtain b g acc1 where r: "register_camera fails rc cp f acc = (b, g, acc1)" by (metis prod_cases3)
  then have b: b and rest: "register_cameras fails rc cps g acc1 = (True, f', acc')" using Cons.prems(4) by (auto split: bool.splits)
  then have r: "register_camera fails rc cp f acc = (True, g, acc1)" using r by simp
  have own: "own rc f g" "int (rc_count rc g) = rc_current rc + ra_new acc1"
    using register_camera_own [OF Cons.prems(1) r Cons.prems(2)] by blast+
  have "fleet_ok f" using Cons.prems(1) by (simp add: ctx_ok_def)
  note st = register_camera_step [OF this r]
  note step = st [THEN conjunct1] and m = st [THEN conjunct2]
  note IH = Cons.IH [OF own_ctx [OF own(1)] own(2) gathered_step [OF Cons.prems(3) step m] rest]
  have eq: "P \<union> camera_id_for (nd_node_id (rc_node rc)) ` set (cp # cps) =
      insert (camera_id_for (nd_node_id (rc_node rc)) cp) P \<union> camera_id_for (nd_node_id (rc_node rc)) ` set cps" by simp
  have "ra_skipped acc' = ra_skipped acc" if "rc_current rc + ra_new acc + int (length (cp # cps)) \<le> rc_max_cameras rc"
  proof -
    have "rc_current rc + ra_new acc < rc_max_cameras rc \<longrightarrow> ra_skipped acc1 = ra_skipped acc \<and> ra_new acc1 \<le> ra_new acc + 1"
      using step unfolding camera_step_def by (elim conjE)
    then have "ra_skipped acc1 = ra_skipped acc" "ra_new acc1 \<le> ra_new acc + 1" using that by simp_all
    then show ?thesis using IH that by simp
  qed
  then show ?case using IH unfolding eq by blast
qed simp

section \<open>The rest of the handler\<close>

lemma drop_stale_ok:
  assumes "drop_stale fails cs f = (True, f')"
  shows "fl_cameras f' = filter (\<lambda>c. fc_id c \<notin> fc_id ` set cs) (fl_cameras f)"
  using assms by (induction fails cs f rule: drop_stale.induct) (auto simp: Let_def conj_commute split: if_splits intro!: filter_cong)

lemma enforce_cap_seen:
  "\<exists>g. fl_cameras (snd (enforce_cap ok plan now org f)) = map g (fl_cameras f) \<and>
    (\<forall>c. fc_camera_id (g c) = fc_camera_id c \<and> fc_node (g c) = fc_node c \<and> seen_online t (g c) = seen_online t c)"
proof -
  obtain P where "fl_cameras (snd (enforce_cap ok plan now org f)) =
      map (\<lambda>c. if fc_org c = org \<and> P c \<noteq> fc_disabled_by_plan c then c\<lparr>fc_disabled_by_plan := P c, fc_updated_at := now\<rparr> else c)
        (fl_cameras f)"
    by (rule enforce_cap_shape)
  then show ?thesis by (simp add: seen_online_def) (intro exI [of _ "\<lambda>c. if fc_org c = org \<and> P c \<noteq> fc_disabled_by_plan c
      then c\<lparr>fc_disabled_by_plan := P c, fc_updated_at := now\<rparr> else c"], auto)
qed

lemma reported_ids:
  assumes "snd ` set m = String ` P"
  shows "set (List.map_filter as_str (map snd m)) = P"
proof -
  have "set (List.map_filter as_str xs) = {s. String s \<in> set xs}" if "set xs \<subseteq> range String" for xs
    using that by (induction xs) (auto simp: List.map_filter_simps)
  from this [of "map snd m"] show ?thesis using assms by auto
qed

lemma register_camera_nodes: "register_camera fails rc cp f acc = (ok, f', acc') \<Longrightarrow> fl_nodes f' = fl_nodes f"
  by (auto simp: register_camera_def register_existing_def Let_def split: if_splits option.splits)

lemma register_cameras_nodes: "register_cameras fails rc cps f acc = (ok, f', acc') \<Longrightarrow> fl_nodes f' = fl_nodes f"
  by (induction fails rc cps f acc rule: register_cameras.induct)
     (auto split: prod.splits bool.splits dest: register_camera_nodes)

lemma drop_stale_nodes: "drop_stale fails cs f = (ok, f') \<Longrightarrow> fl_nodes f' = fl_nodes f"
  by (induction fails cs f rule: drop_stale.induct) (auto simp: Let_def split: if_splits)

lemma enforce_cap_nodes: "fl_nodes (snd (enforce_cap ok plan now org f)) = fl_nodes f"
  by (rule enforce_cap_shape) simp

lemma json_get_Object: "json_get k (Object m) = map_of m k" by (rule json_get.simps)

lemma limit_hit_iff:
  "json_get ''plan_limit_hit'' (register_response re node key check acc) = None \<longleftrightarrow> ra_skipped acc = []"
  by (simp add: register_response_def Let_def update_field_def json_get_Object split: option.splits)


lemma reconcile_cameras_result:
  assumes "fleet_ok f" "(nd_id node, nd_node_id node, nd_org node) \<in> set (node_keys f)"
    and "reconcile_cameras re node req key check f = (Inr resp, f')"
  shows "(\<forall>c \<in> set (cameras_of node f'). seen_online (now_of re) c \<and> (\<exists>cp \<in> set (rr_cameras req). fc_camera_id c = camera_id_for (nd_node_id node) cp)) \<and>
    (json_get ''plan_limit_hit'' resp = None \<longrightarrow>
      (\<forall>cp \<in> set (rr_cameras req). camera_id_for (nd_node_id node) cp \<in> fc_camera_id ` set (cameras_of node f'))) \<and>
    (int (org_count (nd_org node) f) + int (length (rr_cameras req)) \<le> max_cameras (get_plan_limits (re_plan re)) \<longrightarrow>
      json_get ''plan_limit_hit'' resp = None) \<and> fl_nodes f' = fl_nodes f"
proof -
  define rc where "rc = \<lparr>rc_node = node, rc_now = now_of re, rc_max_cameras = max_cameras (get_plan_limits (re_plan re)),
      rc_current = int (org_count (nd_org node) f), rc_video_codec = rr_video_codec req, rc_audio_codec = rr_audio_codec req\<rparr>"
  define a0 where "a0 = \<lparr>ra_mapping = [], ra_new = 0, ra_skipped = [], ra_transitions = []\<rparr>"
  define ids where "ids = camera_id_for (nd_node_id node) ` set (rr_cameras req)"
  have rcs: "rc_node rc = node" "rc_now rc = now_of re" "rc_current rc = int (org_count (nd_org node) f)"
    "rc_max_cameras rc = max_cameras (get_plan_limits (re_plan re))" by (simp_all add: rc_def)
  obtain f1 acc f2 w where r1: "register_cameras (re_fails re) rc (rr_cameras req) f a0 = (True, f1, acc)"
    and r2: "drop_stale (re_fails re) (stale_of (nd_id node) (ra_mapping acc) (fl_cameras f1)) f1 = (True, f2)"
    and r3: "f' = (snd (enforce_cap (re_cap_ok re) (re_cap_plan re) (now_of re) (nd_org node) f2))\<lparr>fl_world := w\<rparr>"
    and resp: "resp = register_response re node key check acc"
    using assms(3)
    by (auto simp: reconcile_cameras_def Let_def rc_def [symmetric] a0_def [symmetric] org_count_def [symmetric]
        split: prod.splits if_splits)
  have ctx: "ctx_ok rc f" using assms(1,2) by (simp add: ctx_ok_def rcs)
  have count: "int (rc_count rc f) = rc_current rc + ra_new a0" by (simp add: rcs a0_def)
  have "gathered rc {} f a0" by (simp add: gathered_def a0_def mapped_def)
  note G = register_cameras_gathered [OF ctx count this r1]
  have own1: "nchange node f f1" using register_cameras_own [OF ctx r1 count] by (simp add: rcs)
  then have k1: "fleet_ok f1" "(nd_id node, nd_node_id node, nd_org node) \<in> set (node_keys f1)" by (simp_all add: own_change_def)
  have P: "snd ` set (ra_mapping acc) = String ` ids" using G by (simp add: gathered_def ids_def rcs)
  have cams2: "fl_cameras f2 = filter (\<lambda>c. fc_node c = nd_id node \<longrightarrow> fc_camera_id c \<in> ids) (fl_cameras f1)"
    using same_id [OF k1(1)] unfolding drop_stale_ok [OF r2]
    by (auto simp: stale_of_def Let_def reported_ids [OF P] intro!: filter_cong)
  obtain g where g: "fl_cameras f' = map g (fl_cameras f2)"
    "\<And>c. fc_camera_id (g c) = fc_camera_id c \<and> fc_node (g c) = fc_node c \<and> seen_online (now_of re) (g c) = seen_online (now_of re) c"
    using enforce_cap_seen [of "re_cap_ok re" "re_cap_plan re" "now_of re" "nd_org node" f2 "now_of re"] by (auto simp: r3)
  have nodes: "fl_nodes f' = fl_nodes f"
    using register_cameras_nodes [OF r1] drop_stale_nodes [OF r2] enforce_cap_nodes by (simp add: r3)
  have mine: "fc_node c = nd_id node" if "c \<in> set (fl_cameras f1)" "fc_camera_id c \<in> ids" for c
    using camera_of_node [OF k1(1)] k1(2) that camera_id_for_prefix by (fastforce simp: key_member ids_def)
  have "\<forall>c \<in> set (cameras_of node f'). seen_online (now_of re) c \<and> fc_camera_id c \<in> ids"
    using G g by (auto simp: cameras_of_def cams2 gathered_def ids_def rcs)
  moreover have "fc_camera_id ` set (cameras_of node f') = ids" if "ra_skipped acc = []"
  proof -
    have "ids \<subseteq> camera_ids f1" using G that by (simp add: gathered_def ids_def rcs)
    moreover have "map fc_camera_id (cameras_of node f') =
        map fc_camera_id (filter (\<lambda>c. fc_node c = nd_id node \<and> fc_camera_id c \<in> ids) (fl_cameras f1))"
      by (simp add: cameras_of_def g cams2 filter_map o_def) (rule arg_cong [of _ _ "map fc_camera_id"], rule filter_cong, auto)
    then have "fc_camera_id ` set (cameras_of node f') =
        fc_camera_id ` set (filter (\<lambda>c. fc_node c = nd_id node \<and> fc_camera_id c \<in> ids) (fl_cameras f1))"
      by (metis set_map)
    ultimately show ?thesis using mine by (auto simp: camera_ids_def)
  qed
  moreover have "ra_skipped acc = []"
    if "int (org_count (nd_org node) f) + int (length (rr_cameras req)) \<le> max_cameras (get_plan_limits (re_plan re))"
    using G that by (simp add: rcs a0_def)
  ultimately show ?thesis using limit_hit_iff [of re node key check acc] nodes by (auto simp: resp ids_def)
qed


lemma register_cameras_answers:
  assumes "\<And>x. \<not> fails x"
  shows "\<exists>f' acc'. register_cameras fails rc cps f acc = (True, f', acc')"
proof (induction cps arbitrary: f acc)
  case (Cons cp cps)
  have "\<exists>f' acc'. register_camera fails rc cp f acc = (True, f', acc')"
    using assms by (auto simp: register_camera_def register_existing_def Let_def split: option.splits)
  then show ?case using Cons.IH by fastforce
qed simp

lemma drop_stale_answers:
  assumes "\<And>x. \<not> fails x"
  shows "\<exists>f'. drop_stale fails cs f = (True, f')"
  using assms by (induction cs arbitrary: f) (auto simp: Let_def)

lemma enforce_cap_answers:
  assumes "\<And>c. ok c" "fleet_ok f"
  shows "fst (enforce_cap ok plan now org f)"
proof -
  have "distinct (map camera_id (map cap_row (filter (\<lambda>c. fc_org c = org) (fl_cameras f))))"
    using fleet_ok_cameras(2) [OF assms(2)] by (simp add: o_def cap_row_def distinct_map_filter)
  then show ?thesis using assms(1) enforce_eq [of _ ok plan] by (simp add: enforce_cap_def Let_def)
qed

lemma reconcile_answers:
  assumes "fleet_ok f" "(nd_id node, nd_node_id node, nd_org node) \<in> set (node_keys f)"
    and "\<And>x. \<not> re_fails re x" "\<And>c. re_cap_ok re c"
  shows "\<exists>resp f'. reconcile_cameras re node req key check f = (Inr resp, f')"
proof -
  define rc where "rc = \<lparr>rc_node = node, rc_now = now_of re, rc_max_cameras = max_cameras (get_plan_limits (re_plan re)),
      rc_current = int (org_count (nd_org node) f), rc_video_codec = rr_video_codec req, rc_audio_codec = rr_audio_codec req\<rparr>"
  define a0 where "a0 = \<lparr>ra_mapping = [], ra_new = 0, ra_skipped = [], ra_transitions = []\<rparr>"
  obtain f1 acc where r1: "register_cameras (re_fails re) rc (rr_cameras req) f a0 = (True, f1, acc)"
    using register_cameras_answers [of "re_fails re"] assms(3) by blast
  obtain f2 where r2: "drop_stale (re_fails re) (stale_of (nd_id node) (ra_mapping acc) (fl_cameras f1)) f1 = (True, f2)"
    using drop_stale_answers [of "re_fails re"] assms(3) by blast
  have "own_change (nd_id node) (nd_node_id node) (nd_org node) f f1"
    using register_cameras_own [OF _ r1] assms(1,2) by (simp add: ctx_ok_def rc_def a0_def)
  then have k1: "fleet_ok f1" "(nd_id node, nd_node_id node, nd_org node) \<in> set (node_keys f1)" by (simp_all add: own_change_def)
  have "fleet_ok f2" using drop_stale_own [OF k1 r2 stale_of_mine [OF k1]] by (simp add: own_change_def)
  then obtain f3 where "enforce_cap (re_cap_ok re) (re_cap_plan re) (now_of re) (nd_org node) f2 = (True, f3)"
    using enforce_cap_answers assms(4) by (metis prod.collapse)
  then show ?thesis
    using r1 r2 assms(3)
    by (simp add: reconcile_cameras_def Let_def rc_def [symmetric] a0_def [symmetric] org_count_def [symmetric] split: prod.splits)
qed

text \<open>The node of a request that is let through, and what it goes on to.\<close>

definition admits :: "'z register_env \<Rightarrow> string \<Rightarrow> string \<Rightarrow> fleet \<Rightarrow> register_request \<Rightarrow> node_row \<Rightarrow> bool" where
  "admits re key body f req node \<longleftrightarrow>
     (\<exists>v. parse_model_body (re_utf8_ok re) (re_from_str re) body = Inr v \<and> parse_register v = Inr req) \<and>
     length body \<le> 2 * 1024 * 1024 \<and> key \<noteq> [] \<and> find_node (rr_node_id req) (fl_nodes f) = Some node \<and>
     nd_key_hash node = node_key_hash (ne_sha (re_note re)) key \<and> is_supported (version_check re (rr_node_version req))"

lemma register_node_Inr:
  assumes "register_node re rate key body f = (Inr resp, f')"
  obtains req node g where "admits re key body f req node"
    "reconcile_cameras re node req key (version_check re (rr_node_version req)) g = (Inr resp, f')"
    "g = save_node re node req (save_version re (nd_id node) (version_check re (rr_node_version req)) (rr_node_version req) f) \<or>
     g = save_codec re node req (save_node re node req
       (save_version re (nd_id node) (version_check re (rr_node_version req)) (rr_node_version req) f))"
  using assms
  by (auto simp: register_node_def register_known_def admits_def Let_def split: sum.splits if_splits option.splits)

lemma saved_node:
  assumes "fleet_ok f" "node \<in> set (fl_nodes f)"
    and "g = save_node re node req (save_version re (nd_id node) check reported f) \<or>
      g = save_codec re node req (save_node re node req (save_version re (nd_id node) check reported f))"
  shows "fleet_ok g" "(nd_id node, nd_node_id node, nd_org node) \<in> set (node_keys g)" "fl_cameras g = fl_cameras f"
    "\<forall>n \<in> set (fl_nodes g). nd_id n = nd_id node \<longrightarrow>
       nd_status n = Some ''online'' \<and> nd_last_seen n = Some (now_of re) \<and> nd_register_error n = None"
proof -
  have "node_keys g = node_keys f" "camera_keys g = camera_keys f"
    using assms(3) by (auto simp: save_node_def save_version_def save_codec_def set_node_def node_keys_def camera_keys_def)
  then show "fleet_ok g" "(nd_id node, nd_node_id node, nd_org node) \<in> set (node_keys g)"
    using fleet_ok_same [OF assms(1)] assms(2) by (auto simp: key_member)
  show "fl_cameras g = fl_cameras f"
    using assms(3) by (auto simp: save_node_def save_version_def save_codec_def set_node_def)
  show "\<forall>n \<in> set (fl_nodes g). nd_id n = nd_id node \<longrightarrow>
       nd_status n = Some ''online'' \<and> nd_last_seen n = Some (now_of re) \<and> nd_register_error n = None"
    using assms(3) by (auto simp: save_node_def save_version_def save_codec_def set_node_def)
qed

section \<open>Properties\<close>



text \<open>A node that reports one camera, beside a node of another organisation.\<close>

definition sample_body :: json where
  "sample_body = Object [(''node_id'', String ''n''), (''cameras'', Array [Object [(''device_path'', String ''c'')]])]"

lemma sample_parse:
  "parse_model_body (\<lambda>_. True) (\<lambda>_. Some sample_body) ''{}'' = Inr sample_body"
  "parse_register sample_body = Inr \<lparr>rr_node_id = ''n'', rr_hostname = None, rr_local_ip = None, rr_http_port = Some 8080,
     rr_lan_streaming = None, rr_http_tls = None,
     rr_cameras = [\<lparr>cp_camera_id = None, cp_device_path = Some ''c'', cp_name = None, cp_node_type = None, cp_capabilities = None\<rparr>],
     rr_video_codec = None, rr_audio_codec = None, rr_node_version = None\<rparr>"
  by code_simp+


lemma sample_registers:
  "\<exists>resp f'. register_node (sample_request sample_body) (Inr ()) ''k'' ''{}'' sample_tables = (Inr resp, f')"
proof -
  let ?re = "sample_request sample_body"
  let ?node = "sample_node 1 ''n'' ''o'' ''07''"
  define req where "req = \<lparr>rr_node_id = ''n'', rr_hostname = None, rr_local_ip = None, rr_http_port = Some 8080,
     rr_lan_streaming = None, rr_http_tls = None,
     rr_cameras = [\<lparr>cp_camera_id = None, cp_device_path = Some ''c'', cp_name = None, cp_node_type = None, cp_capabilities = None\<rparr>],
     rr_video_codec = None, rr_audio_codec = None, rr_node_version = None\<rparr>"
  define g where "g = save_node ?re ?node req (save_version ?re 1 (version_check ?re None) None sample_tables)"
  have node: "?node \<in> set (fl_nodes sample_tables)" "nd_id ?node = 1" by (simp_all add: sample_tables_def sample_node_def)
  have S: "fleet_ok g" "(nd_id ?node, nd_node_id ?node, nd_org ?node) \<in> set (node_keys g)"
    using saved_node(1,2) [OF sample_tables_ok node(1), of g ?re req "version_check ?re None" None] node(2) by (simp_all add: g_def)
  have fine: "\<not> re_fails ?re x" "re_cap_ok ?re c" for x c by (simp_all add: sample_request_def)
  obtain resp f' where r: "reconcile_cameras ?re ?node req ''k'' (version_check ?re None) g = (Inr resp, f')"
    using reconcile_answers [OF S fine] by blast
  have "is_supported (version_check ?re None)"
    by (simp add: version_check_def check_node_version_def is_supported_def Let_def)
  then have "register_known ?re ?node req ''k'' sample_tables = (Inr resp, f')"
    using r fine by (simp add: register_known_def Let_def req_def g_def [symmetric] node(2) [unfolded sample_node_def] sample_node_def
        g_def [unfolded sample_node_def req_def, symmetric])
  moreover have "find_node ''n'' (fl_nodes sample_tables) = Some ?node"
    by (simp add: find_node_def sample_tables_def sample_node_def)
  moreover have "nd_key_hash ?node = node_key_hash (ne_sha (re_note ?re)) ''k''" using sample_key by (simp add: sample_node_def)
  moreover have "parse_model_body (re_utf8_ok ?re) (re_from_str ?re) ''{}'' = Inr sample_body" "parse_register sample_body = Inr req"
    using sample_parse by (simp_all add: sample_request_def req_def)
  ultimately show ?thesis using fine by (simp add: register_node_def req_def)
qed


text \<open>
  At the cap a camera that takes the place of another is skipped: the room is counted before the
  cameras the node has stopped reporting are dropped, so that the node is left without a camera
  until it registers again.
\<close>

lemma replacement_skipped_at_cap:
  defines "rc \<equiv> \<lparr>rc_node = sample_node 1 ''n'' ''o'' ''07'', rc_now = 0, rc_max_cameras = 1, rc_current = 1,
      rc_video_codec = None, rc_audio_codec = None\<rparr>"
    and "cp \<equiv> \<lparr>cp_camera_id = None, cp_device_path = Some ''d'', cp_name = None, cp_node_type = None, cp_capabilities = None\<rparr>"
    and "a0 \<equiv> \<lparr>ra_mapping = [], ra_new = 0, ra_skipped = [], ra_transitions = []\<rparr>"
  shows "\<exists>acc f'. register_cameras (\<lambda>_. False) rc [cp] sample_tables a0 = (True, sample_tables, acc) \<and> ra_skipped acc = [''d''] \<and>
    drop_stale (\<lambda>_. False) (stale_of 1 (ra_mapping acc) (fl_cameras sample_tables)) sample_tables = (True, f') \<and> fl_cameras f' = []"
proof -
  have m: "List.map_filter as_str [String s] = [s]" for s by (simp add: List.map_filter_simps)
  show ?thesis
    by (simp add: rc_def cp_def a0_def register_camera_def camera_id_for_def device_path_of_def sanitize_device_def
        sample_tables_def sample_fleet_def sample_camera_def sample_node_def some_text_def stale_of_def m Let_def)
qed

end
