(* ===== verification/Erasure.thy ===== *)
theory Erasure
  imports Node_Requests Audit_Trail
begin

text \<open>
  The erasure half of \<^verbatim>\<open>backend-rs/src/api/gdpr.rs\<close>: deleting an organisation and forgetting a
  person. The tables the other theories type are the fleet's (nodes, cameras, settings,
  notifications, mail, runs) and the audit trail; the rest are rows of named columns. A delete is
  refused where a foreign key without a cascade still points at a row it takes. A transaction
  that fails gives back the tables it began with.
\<close>

section \<open>Tables\<close>

datatype sql_value = SqlNull | SqlInt int | SqlText string

type_synonym sql_row = "(string \<times> sql_value) list"

record tables =
  tb_fleet :: fleet
  tb_audit :: "audit_row list"
  tb_other :: "string \<Rightarrow> sql_row list"

definition column :: "string \<Rightarrow> sql_row \<Rightarrow> sql_value" where
  "column c r = (case map_of r c of Some v \<Rightarrow> v | None \<Rightarrow> SqlNull)"

definition set_column :: "string \<Rightarrow> sql_value \<Rightarrow> sql_row \<Rightarrow> sql_row" where
  "set_column c v r = AList.update c v r"

definition of_org :: "string \<Rightarrow> sql_row \<Rightarrow> bool" where
  "of_org org r \<longleftrightarrow> column ''org_id'' r = SqlText org"

abbreviation "world_of t \<equiv> fl_world (tb_fleet t)"

definition fleet_map :: "(fleet \<Rightarrow> fleet) \<Rightarrow> tables \<Rightarrow> tables" where
  "fleet_map g t = t\<lparr>tb_fleet := g (tb_fleet t)\<rparr>"

definition world_map :: "(note_world \<Rightarrow> note_world) \<Rightarrow> tables \<Rightarrow> tables" where
  "world_map g t = fleet_map (\<lambda>f. f\<lparr>fl_world := g (fl_world f)\<rparr>) t"

definition mail_map :: "(mail \<Rightarrow> mail) \<Rightarrow> tables \<Rightarrow> tables" where
  "mail_map g t = world_map (\<lambda>w. w\<lparr>nw_mail := g (nw_mail w)\<rparr>) t"

definition audit_map :: "(audit_row list \<Rightarrow> audit_row list) \<Rightarrow> tables \<Rightarrow> tables" where
  "audit_map g t = t\<lparr>tb_audit := g (tb_audit t)\<rparr>"

definition other_map :: "string \<Rightarrow> (sql_row list \<Rightarrow> sql_row list) \<Rightarrow> tables \<Rightarrow> tables" where
  "other_map table g t = t\<lparr>tb_other := (tb_other t)(table := g (tb_other t table))\<rparr>"

lemma table_maps [simp]:
  "tb_fleet (fleet_map h t) = h (tb_fleet t)" "tb_audit (fleet_map h t) = tb_audit t" "tb_other (fleet_map h t) = tb_other t"
  "tb_fleet (world_map w t) = (tb_fleet t)\<lparr>fl_world := w (world_of t)\<rparr>" "tb_audit (world_map w t) = tb_audit t"
  "tb_other (world_map w t) = tb_other t"
  "tb_fleet (mail_map m t) = (tb_fleet t)\<lparr>fl_world := (world_of t)\<lparr>nw_mail := m (nw_mail (world_of t))\<rparr>\<rparr>"
  "tb_audit (mail_map m t) = tb_audit t" "tb_other (mail_map m t) = tb_other t"
  "tb_fleet (audit_map a t) = tb_fleet t" "tb_audit (audit_map a t) = a (tb_audit t)" "tb_other (audit_map a t) = tb_other t"
  "tb_fleet (other_map table g t) = tb_fleet t" "tb_audit (other_map table g t) = tb_audit t"
  "tb_other (other_map table g t) name = (if name = table then g (tb_other t table) else tb_other t name)"
  by (simp_all add: fleet_map_def world_map_def mail_map_def audit_map_def other_map_def)

datatype erase_statement =
  ListCameras | BeginErase | CountCameras | DeleteEvidence | DeleteNodeCameras | DeleteNodes | DeleteStrays
  | DeleteTable string | EraseColumn string string | CommitErase | ReadEmails | ListNodes | ListNodeCameras int

section \<open>An organisation\<close>

definition ORG_SCOPED_TABLES :: "string list" where
  "ORG_SCOPED_TABLES =
     [''settings'', ''audit_log'', ''stream_access_logs'', ''mcp_activity_logs'', ''mcp_api_keys'', ''org_monthly_usage'',
      ''email_log'', ''email_outbox'', ''user_notification_state'', ''notifications'', ''motion_events'',
      ''camera_groups'', ''sentinel_config'', ''sentinel_runs'', ''sentinel_agent_keys'']"

text \<open>\<open>DELETE FROM table WHERE org_id = $1\<close>, and the rows a table has.\<close>

definition delete_rows :: "string \<Rightarrow> string \<Rightarrow> tables \<Rightarrow> tables" where
  "delete_rows org table t =
     (if table = ''settings'' then world_map (\<lambda>w. w\<lparr>nw_settings := filter (\<lambda>r. st_org r \<noteq> org) (nw_settings w)\<rparr>) t
      else if table = ''audit_log'' then audit_map (filter (\<lambda>r. au_org r \<noteq> org)) t
      else if table = ''email_log'' then mail_map (\<lambda>m. m\<lparr>ml_log := filter (\<lambda>r. lg_org r \<noteq> org) (ml_log m)\<rparr>) t
      else if table = ''email_outbox'' then mail_map (\<lambda>m. m\<lparr>ml_outbox := filter (\<lambda>r. ob_org r \<noteq> org) (ml_outbox m)\<rparr>) t
      else if table = ''notifications''
        then world_map (\<lambda>w. w\<lparr>nw_notifications := filter (\<lambda>r. nr_org r \<noteq> org) (nw_notifications w)\<rparr>) t
      else if table = ''sentinel_runs'' then world_map (\<lambda>w. w\<lparr>nw_runs := filter (\<lambda>r. rn_org r \<noteq> org) (nw_runs w)\<rparr>) t
      else other_map table (filter (\<lambda>r. \<not> of_org org r)) t)"

definition row_count :: "string \<Rightarrow> tables \<Rightarrow> int" where
  "row_count table t =
     int (if table = ''settings'' then length (nw_settings (world_of t))
          else if table = ''audit_log'' then length (tb_audit t)
          else if table = ''email_log'' then length (ml_log (nw_mail (world_of t)))
          else if table = ''email_outbox'' then length (ml_outbox (nw_mail (world_of t)))
          else if table = ''notifications'' then length (nw_notifications (world_of t))
          else if table = ''sentinel_runs'' then length (nw_runs (world_of t))
          else length (tb_other t table))"

text \<open>A camera that stays while its group goes: the foreign key refuses the statement.\<close>

definition group_in_use :: "string \<Rightarrow> tables \<Rightarrow> bool" where
  "group_in_use org t \<longleftrightarrow>
     list_ex (\<lambda>g. of_org org g \<and> list_ex (\<lambda>c. case fc_group c of Some i \<Rightarrow> column ''id'' g = SqlInt i | None \<Rightarrow> False)
       (fl_cameras (tb_fleet t))) (tb_other t ''camera_groups'')"

fun delete_tables ::
  "(erase_statement \<Rightarrow> bool) \<Rightarrow> string \<Rightarrow> string list \<Rightarrow> (string \<times> int) list \<Rightarrow> tables \<Rightarrow>
   ((string \<times> int) list \<times> tables) option" where
  "delete_tables fails org [] deleted t = Some (deleted, t)"
| "delete_tables fails org (table # rest) deleted t =
     (if fails (DeleteTable table) \<or> (table = ''camera_groups'' \<and> group_in_use org t) then None
      else
        (let t' = delete_rows org table t
         in delete_tables fails org rest (deleted @ [(table, row_count table t - row_count table t')]) t'))"

definition cameras_map :: "(fleet_camera list \<Rightarrow> fleet_camera list) \<Rightarrow> tables \<Rightarrow> tables" where
  "cameras_map g t = fleet_map (\<lambda>f. f\<lparr>fl_cameras := g (fl_cameras f)\<rparr>) t"

text \<open>The incidents with their evidence, which the database cascades to.\<close>

definition delete_incidents :: "string \<Rightarrow> tables \<Rightarrow> tables" where
  "delete_incidents org t =
     (let gone = map (column ''id'') (filter (of_org org) (tb_other t ''incidents''))
      in other_map ''incident_evidence'' (filter (\<lambda>e. column ''incident_id'' e \<notin> set gone))
           (other_map ''incidents'' (filter (\<lambda>r. \<not> of_org org r)) t))"

definition org_nodes :: "string \<Rightarrow> tables \<Rightarrow> int list" where
  "org_nodes org t = map nd_id (filter (\<lambda>n. nd_org n = org) (fl_nodes (tb_fleet t)))"

definition delete_nodes :: "string \<Rightarrow> tables \<Rightarrow> tables" where
  "delete_nodes org t = fleet_map (\<lambda>f. f\<lparr>fl_nodes := filter (\<lambda>n. nd_org n \<noteq> org) (fl_nodes f)\<rparr>) t"

definition node_in_use :: "string \<Rightarrow> tables \<Rightarrow> bool" where
  "node_in_use org t \<longleftrightarrow> list_ex (\<lambda>c. fc_node c \<in> set (org_nodes org t)) (fl_cameras (tb_fleet t))"

definition delete_org_data ::
  "(erase_statement \<Rightarrow> bool) \<Rightarrow> string \<Rightarrow> tables \<Rightarrow> ((string \<times> int) list \<times> tables) option" where
  "delete_org_data fails org t =
     (if fails CountCameras then None
      else
        (let before = int (length (filter (\<lambda>c. fc_org c = org) (fl_cameras (tb_fleet t))))
         in if fails DeleteEvidence then None
            else
              (let t1 = delete_incidents org t;
                   incidents = int (length (tb_other t ''incidents'')) - int (length (tb_other t1 ''incidents''))
               in if fails DeleteNodeCameras then None
                  else
                    (let t2 = cameras_map (filter (\<lambda>c. fc_node c \<notin> set (org_nodes org t1))) t1
                     in if fails DeleteNodes \<or> node_in_use org t2 then None
                        else
                          (let nodes = int (length (org_nodes org t2)); t3 = delete_nodes org t2
                           in if fails DeleteStrays then None
                              else delete_tables fails org ORG_SCOPED_TABLES
                                     [(''incidents'', incidents), (''camera_nodes'', nodes), (''cameras'', before)]
                                     (cameras_map (filter (\<lambda>c. fc_org c \<noteq> org)) t3))))))"

definition hls_map :: "(hls_cache \<Rightarrow> hls_cache) \<Rightarrow> tables \<Rightarrow> tables" where
  "hls_map g t = fleet_map (\<lambda>f. f\<lparr>fl_hls := g (fl_hls f)\<rparr>) t"

text \<open>What follows the commit, and the camera ids in the order of the query.\<close>

definition forget_org :: "string \<Rightarrow> tables \<Rightarrow> tables" where
  "forget_org org t =
     hls_map (forget_org_viewer_usage org)
       (fleet_map (\<lambda>f. f\<lparr>fl_auth_generation := invalidate_auth_cache (fl_auth_generation f)\<rparr>) t)"

definition org_camera_ids :: "string \<Rightarrow> tables \<Rightarrow> string list" where
  "org_camera_ids org t = map fc_camera_id (sort_key fc_id (filter (\<lambda>c. fc_org c = org) (fl_cameras (tb_fleet t))))"

definition erase_org :: "(erase_statement \<Rightarrow> bool) \<Rightarrow> string \<Rightarrow> tables \<Rightarrow> (api_error + unit) \<times> tables" where
  "erase_org fails org t =
     (if fails ListCameras then (Inl db_error, t)
      else
        (let t = hls_map (fold cleanup_camera (org_camera_ids org t)) t
         in if fails BeginErase then (Inl db_error, t)
            else case delete_org_data fails org t of
                None \<Rightarrow> (Inl db_error, t)
              | Some (deleted, t') \<Rightarrow> if fails CommitErase then (Inl db_error, t) else (Inr (), forget_org org t')))"

section \<open>The full reset of \<^verbatim>\<open>backend-rs/src/api/settings.rs\<close>\<close>

text \<open>\<open>reply\<close> is what the command gave back, \<open>None\<close> an error (see \<open>Ws\<close>).\<close>

definition acknowledged :: "json option \<Rightarrow> bool" where
  "acknowledged reply = (case reply of Some j \<Rightarrow> json_get ''status'' j = Some (String ''success'') | None \<Rightarrow> False)"

definition node_camera_ids :: "int \<Rightarrow> tables \<Rightarrow> string list" where
  "node_camera_ids pk t = map fc_camera_id (filter (\<lambda>c. fc_node c = pk) (fl_cameras (tb_fleet t)))"

fun wipe_nodes ::
  "(erase_statement \<Rightarrow> bool) \<Rightarrow> (string \<Rightarrow> json option) \<Rightarrow> (int \<times> string) list \<Rightarrow> int \<Rightarrow> tables \<Rightarrow>
   (api_error + int) \<times> tables" where
  "wipe_nodes fails reply [] wiped t = (Inr wiped, t)"
| "wipe_nodes fails reply ((pk, node_id) # rest) wiped t =
     (let wiped = (if acknowledged (reply node_id) then wiped + 1 else wiped)
      in if fails (ListNodeCameras pk) then (Inl db_error, t)
         else wipe_nodes fails reply rest wiped (hls_map (fold cleanup_camera (node_camera_ids pk t)) t))"

definition count_of :: "(string \<times> int) list \<Rightarrow> string \<Rightarrow> int" where
  "count_of deleted table = (case map_of deleted table of Some n \<Rightarrow> n | None \<Rightarrow> 0)"

record reset_request =
  rq_org :: string
  rq_user :: audit_actor
  rq_headers :: headers
  rq_peer :: "string option"

definition reset_audit ::
  "(rat \<Rightarrow> string) \<Rightarrow> bool \<Rightarrow> bool \<Rightarrow> int \<Rightarrow> reset_request \<Rightarrow> (string \<times> int) list \<Rightarrow> tables \<Rightarrow> tables" where
  "reset_audit fl works trusted now req deleted t =
     audit_map (write_audit works trusted now (rq_org req) ''full_reset'' (actor_user_id (rq_user req))
         (audit_label (rq_user req)) (Some (python_json fl (map (\<lambda>(table, n). (table, IntNum n)) deleted)))
         (rq_headers req) (rq_peer req)) t"

definition full_reset ::
  "(rat \<Rightarrow> string) \<Rightarrow> (erase_statement \<Rightarrow> bool) \<Rightarrow> (string \<Rightarrow> json option) \<Rightarrow> bool \<Rightarrow> bool \<Rightarrow> int \<Rightarrow> api_error + unit \<Rightarrow> reset_request \<Rightarrow>
   tables \<Rightarrow> (api_error + json) \<times> tables" where
  "full_reset fl fails reply works trusted now rate req t =
     (case rate of
        Inl e \<Rightarrow> (Inl e, t)
      | Inr _ \<Rightarrow>
          if fails ListNodes then (Inl db_error, t)
          else
            (let ns = map (\<lambda>n. (nd_id n, nd_node_id n)) (filter (\<lambda>n. nd_org n = rq_org req) (fl_nodes (tb_fleet t)))
             in case wipe_nodes fails reply ns 0 t of
                 (Inl e, t1) \<Rightarrow> (Inl e, t1)
               | (Inr wiped, t1) \<Rightarrow>
                   if fails BeginErase then (Inl db_error, t1)
                   else case delete_org_data fails (rq_org req) t1 of
                       None \<Rightarrow> (Inl db_error, t1)
                     | Some (deleted, t2) \<Rightarrow>
                         if fails CommitErase then (Inl db_error, t1)
                         else
                           (Inr (Object
                              [(''success'', Bool True), (''nodes_wiped'', IntNum wiped),
                               (''nodes_deleted'', IntNum (count_of deleted ''camera_nodes'')),
                               (''cameras_deleted'', IntNum (count_of deleted ''cameras'')),
                               (''logs_deleted'', IntNum (count_of deleted ''stream_access_logs'')),
                               (''mcp_logs_deleted'', IntNum (count_of deleted ''mcp_activity_logs'')),
                               (''settings_deleted'', IntNum (count_of deleted ''settings''))]),
                            reset_audit fl works trusted now req deleted (forget_org (rq_org req) t2))))"

section \<open>A person\<close>

definition DELETED_USER :: string where "DELETED_USER = ''deleted user''"

definition delete_other :: "string \<Rightarrow> (sql_row \<Rightarrow> bool) \<Rightarrow> tables \<Rightarrow> int \<times> tables" where
  "delete_other table p t =
     (int (length (filter p (tb_other t table))), other_map table (filter (\<lambda>r. \<not> p r)) t)"

text \<open>\<open>LOWER(column) IN emails\<close>; a null is not in any list.\<close>

definition named :: "(string \<Rightarrow> string) \<Rightarrow> string list \<Rightarrow> string \<Rightarrow> sql_row \<Rightarrow> bool" where
  "named sql_lower emails c r = (case column c r of SqlText s \<Rightarrow> sql_lower s \<in> set emails | _ \<Rightarrow> False)"

definition audit_of :: "(string \<Rightarrow> string) \<Rightarrow> string \<Rightarrow> string list \<Rightarrow> audit_row \<Rightarrow> bool" where
  "audit_of sql_lower user emails r \<longleftrightarrow>
     au_user_id r = Some user \<or> (case au_username r of Some u \<Rightarrow> sql_lower u \<in> set emails | None \<Rightarrow> False)"

definition anonymise :: "audit_row \<Rightarrow> audit_row" where
  "anonymise r = r\<lparr>au_username := Some DELETED_USER, au_user_id := None, au_ip := None\<rparr>"

definition relabelled :: "(string \<Rightarrow> string) \<Rightarrow> string \<Rightarrow> string list \<Rightarrow> string \<Rightarrow> sql_row \<Rightarrow> bool" where
  "relabelled sql_lower user emails c r \<longleftrightarrow> column c r = SqlText user \<or> named sql_lower emails c r"

definition relabel :: "(string \<Rightarrow> string) \<Rightarrow> string \<Rightarrow> string list \<Rightarrow> string \<times> string \<Rightarrow> tables \<Rightarrow> int \<times> tables" where
  "relabel sql_lower user emails tc t =
     (case tc of (table, c) \<Rightarrow>
        (int (length (filter (relabelled sql_lower user emails c) (tb_other t table))),
         other_map table (map (\<lambda>r. if relabelled sql_lower user emails c r then set_column c (SqlText DELETED_USER) r else r)) t))"

definition delete_mail_to :: "(string \<Rightarrow> string) \<Rightarrow> string list \<Rightarrow> string \<Rightarrow> tables \<Rightarrow> int \<times> tables" where
  "delete_mail_to sql_lower emails table t =
     (let hit = (\<lambda>s. sql_lower s \<in> set emails); m = nw_mail (world_of t)
      in if table = ''email_log''
         then (int (length (filter (hit \<circ> lg_recipient) (ml_log m))),
               mail_map (\<lambda>m. m\<lparr>ml_log := filter (\<lambda>r. \<not> hit (lg_recipient r)) (ml_log m)\<rparr>) t)
         else if table = ''email_outbox''
         then (int (length (filter (hit \<circ> ob_recipient) (ml_outbox m))),
               mail_map (\<lambda>m. m\<lparr>ml_outbox := filter (\<lambda>r. \<not> hit (ob_recipient r)) (ml_outbox m)\<rparr>) t)
         else (int (length (filter (hit \<circ> sp_address) (ml_suppression m))),
               mail_map (\<lambda>m. m\<lparr>ml_suppression := filter (\<lambda>r. \<not> hit (sp_address r)) (ml_suppression m)\<rparr>) t))"

text \<open>The statements of the transaction, in order, each with the table its count is of.\<close>

definition erase_steps ::
  "(string \<Rightarrow> string) \<Rightarrow> string \<Rightarrow> string list \<Rightarrow> (erase_statement \<times> string \<times> (tables \<Rightarrow> int \<times> tables)) list" where
  "erase_steps sql_lower user emails =
     [(EraseColumn ''stream_access_logs'' ''user_id'', ''stream_access_logs'',
       delete_other ''stream_access_logs'' (\<lambda>r. column ''user_id'' r = SqlText user)),
      (EraseColumn ''user_notification_state'' ''clerk_user_id'', ''user_notification_state'',
       delete_other ''user_notification_state'' (\<lambda>r. column ''clerk_user_id'' r = SqlText user)),
      (EraseColumn ''audit_log'' ''username'', ''audit_log'',
       \<lambda>t. (int (length (filter (audit_of sql_lower user emails) (tb_audit t))),
            audit_map (map (\<lambda>r. if audit_of sql_lower user emails r then anonymise r else r)) t))] @
     map (\<lambda>(table, c). (EraseColumn table c, table, delete_mail_to sql_lower emails table))
       [(''email_log'', ''recipient_email''), (''email_outbox'', ''recipient_email''), (''email_suppression'', ''address'')] @
     map (\<lambda>tc. (EraseColumn (fst tc) (snd tc), fst tc, relabel sql_lower user emails tc))
       [(''incidents'', ''created_by''), (''incidents'', ''resolved_by''), (''sentinel_agent_keys'', ''created_by'')]"

fun run_steps ::
  "(erase_statement \<Rightarrow> bool) \<Rightarrow> (erase_statement \<times> string \<times> (tables \<Rightarrow> int \<times> tables)) list \<Rightarrow> (string \<times> int) list \<Rightarrow> tables \<Rightarrow>
   ((string \<times> int) list \<times> tables) option" where
  "run_steps fails [] deleted t = Some (deleted, t)"
| "run_steps fails ((stmt, table, step) # rest) deleted t =
     (if fails stmt then None
      else (let (n, t') = step t in run_steps fails rest (deleted @ [(table, n)]) t'))"

definition clean_emails :: "(string \<Rightarrow> string) \<Rightarrow> string list \<Rightarrow> string list" where
  "clean_emails lower emails = filter (\<lambda>e. e \<noteq> []) (map (\<lambda>e. lower (trim e)) emails)"

definition erase_user_data ::
  "(string \<Rightarrow> string) \<Rightarrow> (string \<Rightarrow> string) \<Rightarrow> (erase_statement \<Rightarrow> bool) \<Rightarrow> string \<Rightarrow> string list \<Rightarrow> tables \<Rightarrow>
   (string \<times> int) list option \<times> tables" where
  "erase_user_data lower sql_lower fails user emails t =
     (if fails BeginErase then (None, t)
      else case run_steps fails (erase_steps sql_lower user (clean_emails lower emails)) [] t of
          None \<Rightarrow> (None, t)
        | Some (deleted, t') \<Rightarrow> if fails CommitErase then (None, t) else (Some deleted, t'))"

definition text_of :: "sql_value \<Rightarrow> string option" where
  "text_of v = (case v of SqlText s \<Rightarrow> Some s | _ \<Rightarrow> None)"

definition recorded_emails ::
  "(string \<Rightarrow> string) \<Rightarrow> (erase_statement \<Rightarrow> bool) \<Rightarrow> string \<Rightarrow> tables \<Rightarrow> string list option" where
  "recorded_emails lower fails user t =
     (if fails ReadEmails then None
      else
        (let seen = map (\<lambda>r. text_of (column ''user_email'' r))
                      (filter (\<lambda>r. column ''user_id'' r = SqlText user) (tb_other t ''stream_access_logs''));
             acted = map au_username (filter (\<lambda>r. au_user_id r = Some user) (tb_audit t))
         in Some (remdups (sort (map lower (filter (\<lambda>e. CHR ''@'' \<in> set e) (List.map_filter id (seen @ acted))))))))"

section \<open>What an erasure leaves\<close>

text \<open>
  Well-formed tables: the keys of the fleet, the ids of incidents unique, and a camera's group one of
  its own organisation.
\<close>

definition tables_ok :: "tables \<Rightarrow> bool" where
  "tables_ok t \<longleftrightarrow> fleet_ok (tb_fleet t) \<and> distinct (map (column ''id'') (tb_other t ''incidents'')) \<and>
     (\<forall>c \<in> set (fl_cameras (tb_fleet t)). \<forall>g \<in> set (tb_other t ''camera_groups'').
        \<forall>i. fc_group c = Some i \<and> column ''id'' g = SqlInt i \<longrightarrow> of_org (fc_org c) g)"

definition org_incidents :: "string \<Rightarrow> tables \<Rightarrow> sql_value list" where
  "org_incidents org t = map (column ''id'') (filter (of_org org) (tb_other t ''incidents''))"

definition evidence_of :: "string \<Rightarrow> tables \<Rightarrow> sql_row list" where
  "evidence_of org t = filter (\<lambda>e. column ''incident_id'' e \<in> set (org_incidents org t)) (tb_other t ''incident_evidence'')"

text \<open>The tables with a type of their own, and the others with rows of an organisation.\<close>

definition TYPED_TABLES :: "string list" where
  "TYPED_TABLES = [''settings'', ''audit_log'', ''email_log'', ''email_outbox'', ''notifications'', ''sentinel_runs'']"

definition generic_tables :: "string list" where
  "generic_tables =
     [''incidents'', ''stream_access_logs'', ''mcp_activity_logs'', ''mcp_api_keys'', ''org_monthly_usage'',
      ''user_notification_state'', ''motion_events'', ''camera_groups'', ''sentinel_config'', ''sentinel_agent_keys'']"

text \<open>The rows of an organisation, in the order of the tables.\<close>

record org_rows =
  or_nodes :: "node_row list"
  or_cameras :: "fleet_camera list"
  or_settings :: "setting_row list"
  or_notifications :: "notification_row list"
  or_outbox :: "outbox_row list"
  or_log :: "log_row list"
  or_runs :: runs
  or_audit :: "audit_row list"
  or_other :: "string \<Rightarrow> sql_row list"

definition rows_of :: "string \<Rightarrow> tables \<Rightarrow> org_rows" where
  "rows_of org t =
     \<lparr>or_nodes = filter (\<lambda>n. nd_org n = org) (fl_nodes (tb_fleet t)),
      or_cameras = filter (\<lambda>c. fc_org c = org) (fl_cameras (tb_fleet t)),
      or_settings = filter (\<lambda>r. st_org r = org) (nw_settings (world_of t)),
      or_notifications = filter (\<lambda>r. nr_org r = org) (nw_notifications (world_of t)),
      or_outbox = filter (\<lambda>r. ob_org r = org) (ml_outbox (nw_mail (world_of t))),
      or_log = filter (\<lambda>r. lg_org r = org) (ml_log (nw_mail (world_of t))),
      or_runs = filter (\<lambda>r. rn_org r = org) (nw_runs (world_of t)),
      or_audit = filter (\<lambda>r. au_org r = org) (tb_audit t),
      or_other = (\<lambda>table. if table = ''incident_evidence'' then evidence_of org t
                    else if table \<in> set generic_tables
                    then filter (of_org org) (tb_other t table) else [])\<rparr>"

definition no_rows :: org_rows where
  "no_rows = \<lparr>or_nodes = [], or_cameras = [], or_settings = [], or_notifications = [], or_outbox = [], or_log = [],
     or_runs = [], or_audit = [], or_other = (\<lambda>_. [])\<rparr>"

lemma delete_tables_fold:
  "delete_tables fails org ts acc t = Some (acc', t') \<Longrightarrow> t' = fold (delete_rows org) ts t"
  by (induction fails org ts acc t rule: delete_tables.induct) (auto simp: Let_def split: if_splits)

lemma scoped [simp]:
  "''settings'' \<in> set ORG_SCOPED_TABLES" "''audit_log'' \<in> set ORG_SCOPED_TABLES" "''email_log'' \<in> set ORG_SCOPED_TABLES"
  "''email_outbox'' \<in> set ORG_SCOPED_TABLES" "''notifications'' \<in> set ORG_SCOPED_TABLES"
  "''sentinel_runs'' \<in> set ORG_SCOPED_TABLES"
  by (simp_all add: ORG_SCOPED_TABLES_def)

text \<open>A column of the tables that one delete of the list filters.\<close>

lemma fold_delete_rows:
  assumes "\<And>table t. sel (delete_rows org table t) = (if table = name then filter P (sel t) else sel t)"
  shows "sel (fold (delete_rows org) ts t) = (if name \<in> set ts then filter P (sel t) else sel t)"
  by (induction ts arbitrary: t) (auto simp: assms)

lemma fold_delete_rows_same:
  assumes "\<And>table t. sel (delete_rows org table t) = sel t"
  shows "sel (fold (delete_rows org) ts t) = sel t"
  by (induction ts arbitrary: t) (auto simp: assms)

lemma delete_rows_keeps [simp]:
  "fl_cameras (tb_fleet (delete_rows org table t)) = fl_cameras (tb_fleet t)"
  "fl_nodes (tb_fleet (delete_rows org table t)) = fl_nodes (tb_fleet t)"
  "fl_hls (tb_fleet (delete_rows org table t)) = fl_hls (tb_fleet t)"
  "tb_other (delete_rows org table t) name =
     (if name = table \<and> table \<notin> set TYPED_TABLES
      then filter (\<lambda>r. \<not> of_org org r) (tb_other t name) else tb_other t name)"
  by (simp_all add: delete_rows_def TYPED_TABLES_def)

lemma fold_delete_other:
  "tb_other (fold (delete_rows org) ts t) name =
     (if name \<in> set ts - set TYPED_TABLES
      then filter (\<lambda>r. \<not> of_org org r) (tb_other t name) else tb_other t name)"
  by (induction ts arbitrary: t) auto

lemma fold_delete_columns:
  fixes org :: string and ts :: "string list" and t :: tables
  defines "u \<equiv> fold (delete_rows org) ts t"
  shows "fl_cameras (tb_fleet u) = fl_cameras (tb_fleet t)" "fl_nodes (tb_fleet u) = fl_nodes (tb_fleet t)"
    "fl_hls (tb_fleet u) = fl_hls (tb_fleet t)"
    "nw_settings (world_of u) = (if ''settings'' \<in> set ts then filter (\<lambda>r. st_org r \<noteq> org) (nw_settings (world_of t)) else nw_settings (world_of t))"
    "nw_notifications (world_of u) = (if ''notifications'' \<in> set ts then filter (\<lambda>r. nr_org r \<noteq> org) (nw_notifications (world_of t)) else nw_notifications (world_of t))"
    "nw_runs (world_of u) = (if ''sentinel_runs'' \<in> set ts then filter (\<lambda>r. rn_org r \<noteq> org) (nw_runs (world_of t)) else nw_runs (world_of t))"
    "ml_outbox (nw_mail (world_of u)) = (if ''email_outbox'' \<in> set ts then filter (\<lambda>r. ob_org r \<noteq> org) (ml_outbox (nw_mail (world_of t))) else ml_outbox (nw_mail (world_of t)))"
    "ml_log (nw_mail (world_of u)) = (if ''email_log'' \<in> set ts then filter (\<lambda>r. lg_org r \<noteq> org) (ml_log (nw_mail (world_of t))) else ml_log (nw_mail (world_of t)))"
    "tb_audit u = (if ''audit_log'' \<in> set ts then filter (\<lambda>r. au_org r \<noteq> org) (tb_audit t) else tb_audit t)"
  unfolding u_def
          apply (rule fold_delete_rows_same [where sel = "\<lambda>t. fl_cameras (tb_fleet t)"], simp)
         apply (rule fold_delete_rows_same [where sel = "\<lambda>t. fl_nodes (tb_fleet t)"], simp)
        apply (rule fold_delete_rows_same [where sel = "\<lambda>t. fl_hls (tb_fleet t)"], simp)
       apply (rule fold_delete_rows [where sel = "\<lambda>t. nw_settings (world_of t)"], simp add: delete_rows_def)
      apply (rule fold_delete_rows [where sel = "\<lambda>t. nw_notifications (world_of t)"], simp add: delete_rows_def)
     apply (rule fold_delete_rows [where sel = "\<lambda>t. nw_runs (world_of t)"], simp add: delete_rows_def)
    apply (rule fold_delete_rows [where sel = "\<lambda>t. ml_outbox (nw_mail (world_of t))"], simp add: delete_rows_def)
   apply (rule fold_delete_rows [where sel = "\<lambda>t. ml_log (nw_mail (world_of t))"], simp add: delete_rows_def)
  apply (rule fold_delete_rows [where sel = "tb_audit"], simp add: delete_rows_def)
  done

definition emptied :: "string \<Rightarrow> tables \<Rightarrow> tables" where
  "emptied org t =
     cameras_map (filter (\<lambda>c. fc_org c \<noteq> org))
       (delete_nodes org (cameras_map (filter (\<lambda>c. fc_node c \<notin> set (org_nodes org t))) (delete_incidents org t)))"

lemma org_nodes_incidents [simp]: "org_nodes o1 (delete_incidents org t) = org_nodes o1 t"
  by (simp add: org_nodes_def delete_incidents_def Let_def)

lemma delete_org_data_Some:
  "delete_org_data fails org t = Some (n, t') \<Longrightarrow> t' = fold (delete_rows org) ORG_SCOPED_TABLES (emptied org t)"
  by (auto simp: delete_org_data_def Let_def emptied_def split: if_splits dest!: delete_tables_fold)

lemma emptied_columns:
  "fl_cameras (tb_fleet (emptied org t)) =
     filter (\<lambda>c. fc_org c \<noteq> org \<and> fc_node c \<notin> set (org_nodes org t)) (fl_cameras (tb_fleet t))"
  "fl_nodes (tb_fleet (emptied org t)) = filter (\<lambda>n. nd_org n \<noteq> org) (fl_nodes (tb_fleet t))"
  "fl_hls (tb_fleet (emptied org t)) = fl_hls (tb_fleet t)"
  "world_of (emptied org t) = world_of t" "tb_audit (emptied org t) = tb_audit t"
  "tb_other (emptied org t) name =
     (if name = ''incident_evidence'' then filter (\<lambda>e. column ''incident_id'' e \<notin> set (org_incidents org t)) (tb_other t name)
      else if name = ''incidents'' then filter (\<lambda>r. \<not> of_org org r) (tb_other t name) else tb_other t name)"
  by (auto simp: emptied_def cameras_map_def delete_nodes_def delete_incidents_def Let_def org_incidents_def
      intro!: filter_cong)

lemma group_free_rows: "\<not> group_in_use org t \<Longrightarrow> \<not> group_in_use org (delete_rows org table t)"
  by (auto simp: group_in_use_def list_ex_iff)

lemma delete_tables_ok:
  assumes "\<forall>s. \<not> fails s" "\<not> group_in_use org t"
  shows "\<exists>n t'. delete_tables fails org ts acc t = Some (n, t')"
  using assms(2) by (induction ts arbitrary: acc t) (simp_all add: assms(1) group_free_rows Let_def)

lemma camera_of_org_node:
  assumes "fleet_ok f" "c \<in> set (fl_cameras f)" "n \<in> set (fl_nodes f)" "nd_id n = fc_node c"
  shows "nd_org n = fc_org c"
proof -
  have "(nd_id n, nd_node_id n, nd_org n) \<in> set (node_keys f)" using assms(3) by (auto simp: node_keys_def)
  from node_camera_org [OF assms(1) this assms(2)] assms(4) show ?thesis by simp
qed

lemma delete_org_data_ok:
  assumes "tables_ok t" "\<forall>s. \<not> fails s"
  shows "\<exists>n t'. delete_org_data fails org t = Some (n, t')"
proof -
  let ?t2 = "cameras_map (filter (\<lambda>c. fc_node c \<notin> set (org_nodes org t))) (delete_incidents org t)"
  have "org_nodes org ?t2 = org_nodes org t" by (simp add: org_nodes_def cameras_map_def delete_incidents_def Let_def)
  then have "\<not> node_in_use org ?t2" by (simp add: node_in_use_def list_ex_iff) (simp add: cameras_map_def)
  moreover have "\<not> group_in_use org (emptied org t)"
    using assms(1) by (fastforce simp: group_in_use_def list_ex_iff emptied_columns tables_ok_def of_org_def split: option.splits)
  then have "\<exists>n t'. delete_tables fails org ORG_SCOPED_TABLES acc (emptied org t) = Some (n, t')" for acc
    using delete_tables_ok assms(2) by blast
  ultimately show ?thesis by (auto simp: delete_org_data_def assms(2) Let_def emptied_def)
qed

lemma rows_of_cong:
  assumes "fl_nodes (tb_fleet u) = fl_nodes (tb_fleet t)" "fl_cameras (tb_fleet u) = fl_cameras (tb_fleet t)"
    "world_of u = world_of t" "tb_audit u = tb_audit t" "tb_other u = tb_other t"
  shows "rows_of o1 u = rows_of o1 t"
  unfolding rows_of_def evidence_of_def org_incidents_def assms by (rule refl)

lemma rows_of_hls [simp]: "rows_of o1 (hls_map g t) = rows_of o1 t" "rows_of o1 (forget_org o2 t) = rows_of o1 t"
  by (rule rows_of_cong; simp add: hls_map_def forget_org_def)+

lemma rows_of_eqI:
  assumes "filter (\<lambda>n. nd_org n = o1) (fl_nodes (tb_fleet u)) = filter (\<lambda>n. nd_org n = o1) (fl_nodes (tb_fleet t))"
    "filter (\<lambda>c. fc_org c = o1) (fl_cameras (tb_fleet u)) = filter (\<lambda>c. fc_org c = o1) (fl_cameras (tb_fleet t))"
    "filter (\<lambda>r. st_org r = o1) (nw_settings (world_of u)) = filter (\<lambda>r. st_org r = o1) (nw_settings (world_of t))"
    "filter (\<lambda>r. nr_org r = o1) (nw_notifications (world_of u)) = filter (\<lambda>r. nr_org r = o1) (nw_notifications (world_of t))"
    "filter (\<lambda>r. ob_org r = o1) (ml_outbox (nw_mail (world_of u))) = filter (\<lambda>r. ob_org r = o1) (ml_outbox (nw_mail (world_of t)))"
    "filter (\<lambda>r. lg_org r = o1) (ml_log (nw_mail (world_of u))) = filter (\<lambda>r. lg_org r = o1) (ml_log (nw_mail (world_of t)))"
    "filter (\<lambda>r. rn_org r = o1) (nw_runs (world_of u)) = filter (\<lambda>r. rn_org r = o1) (nw_runs (world_of t))"
    "filter (\<lambda>r. au_org r = o1) (tb_audit u) = filter (\<lambda>r. au_org r = o1) (tb_audit t)"
    "evidence_of o1 u = evidence_of o1 t"
    "\<And>name. name \<noteq> ''incident_evidence'' \<Longrightarrow> filter (of_org o1) (tb_other u name) = filter (of_org o1) (tb_other t name)"
  shows "rows_of o1 u = rows_of o1 t"
  unfolding rows_of_def using assms(10) by (simp only: assms(1-9)) (auto simp: fun_eq_iff generic_tables_def)

lemma rows_of_emptyI:
  assumes "filter (\<lambda>n. nd_org n = o1) (fl_nodes (tb_fleet u)) = []"
    "filter (\<lambda>c. fc_org c = o1) (fl_cameras (tb_fleet u)) = []"
    "filter (\<lambda>r. st_org r = o1) (nw_settings (world_of u)) = []"
    "filter (\<lambda>r. nr_org r = o1) (nw_notifications (world_of u)) = []"
    "filter (\<lambda>r. ob_org r = o1) (ml_outbox (nw_mail (world_of u))) = []"
    "filter (\<lambda>r. lg_org r = o1) (ml_log (nw_mail (world_of u))) = []"
    "filter (\<lambda>r. rn_org r = o1) (nw_runs (world_of u)) = []"
    "filter (\<lambda>r. au_org r = o1) (tb_audit u) = []"
    "evidence_of o1 u = []"
    "\<And>name. name \<in> set generic_tables \<Longrightarrow> filter (of_org o1) (tb_other u name) = []"
  shows "rows_of o1 u = no_rows"
  unfolding rows_of_def no_rows_def using assms(10) by (simp only: assms(1-9)) (auto simp: fun_eq_iff)

lemma filter_other: "o1 \<noteq> org \<Longrightarrow> filter (\<lambda>r. f r = o1) (filter (\<lambda>r. f r \<noteq> org) xs) = filter (\<lambda>r. f r = o1) xs"
  by (induction xs) auto

lemma generic_tables_scoped:
  assumes "name \<in> set generic_tables"
  shows "name = ''incidents'' \<or> name \<in> set ORG_SCOPED_TABLES -
      set TYPED_TABLES"
    "name \<noteq> ''incident_evidence''"
proof -
  have "list_all (\<lambda>n. (n = ''incidents'' \<or> n \<in> set ORG_SCOPED_TABLES - set TYPED_TABLES) \<and> n \<noteq> ''incident_evidence'') generic_tables"
    by (simp add: generic_tables_def ORG_SCOPED_TABLES_def TYPED_TABLES_def)
  then show "name = ''incidents'' \<or> name \<in> set ORG_SCOPED_TABLES - set TYPED_TABLES" "name \<noteq> ''incident_evidence''"
    using assms by (simp_all only: list_all_iff) blast+
qed

lemma rows_of_deleted:
  fixes org :: string and t :: tables
  defines "u \<equiv> fold (delete_rows org) ORG_SCOPED_TABLES (emptied org t)"
  shows "rows_of org u = no_rows"
    and "tables_ok t \<Longrightarrow> o1 \<noteq> org \<Longrightarrow> rows_of o1 u = rows_of o1 t"
proof -
  have inc: "tb_other u ''incidents'' = filter (\<lambda>r. \<not> of_org org r) (tb_other t ''incidents'')"
    "tb_other u ''incident_evidence'' = filter (\<lambda>e. column ''incident_id'' e \<notin> set (org_incidents org t)) (tb_other t ''incident_evidence'')"
    unfolding u_def fold_delete_other by (simp_all add: emptied_columns ORG_SCOPED_TABLES_def TYPED_TABLES_def)
  have gone: "filter (of_org org) (tb_other u name) = []" if "name \<in> set generic_tables" for name
    using generic_tables_scoped [OF that] by (auto simp: u_def fold_delete_other emptied_columns filter_empty_conv)
  have ev0: "evidence_of org u = []" by (simp add: evidence_of_def org_incidents_def inc filter_empty_conv)
  show "rows_of org u = no_rows"
    by (rule rows_of_emptyI [OF _ _ _ _ _ _ _ _ ev0 gone])
      (auto simp: u_def fold_delete_columns emptied_columns filter_empty_conv)
  assume ok: "tables_ok t" and ne: "o1 \<noteq> org"
  have off: "\<not> (of_org o1 r \<and> of_org org r)" for r using ne by (auto simp: of_org_def)
  have ids: "column ''id'' a \<noteq> column ''id'' b"
    if "a \<in> set (tb_other t ''incidents'')" "b \<in> set (tb_other t ''incidents'')" "of_org o1 a" "of_org org b" for a b
    using ok that off [of a] by (auto simp: tables_ok_def distinct_map inj_on_def)
  have ids': "x \<notin> set (org_incidents org t)" if "x \<in> set (org_incidents o1 t)" for x
    using that ids by (auto simp: org_incidents_def)
  have "org_incidents o1 u = org_incidents o1 t"
    unfolding org_incidents_def inc using off by (auto intro!: arg_cong [where f = "map _"] filter_cong)
  then have ev: "evidence_of o1 u = evidence_of o1 t"
    using ids' by (auto simp: evidence_of_def inc intro!: filter_cong)
  have cams: "filter (\<lambda>c. fc_org c = o1) (fl_cameras (tb_fleet u)) = filter (\<lambda>c. fc_org c = o1) (fl_cameras (tb_fleet t))"
    using ok ne camera_of_org_node
    by (auto simp: u_def fold_delete_columns emptied_columns tables_ok_def org_nodes_def intro!: filter_cong)
  have gen: "filter (of_org o1) (tb_other u name) = filter (of_org o1) (tb_other t name)" if "name \<noteq> ''incident_evidence''" for name
    using off that by (auto simp: u_def fold_delete_other emptied_columns intro!: filter_cong)
  show "rows_of o1 u = rows_of o1 t"
    by (rule rows_of_eqI [OF _ cams _ _ _ _ _ _ ev gen])
      (simp_all add: u_def fold_delete_columns emptied_columns filter_other [OF ne] del: filter_filter)
qed

text \<open>The stream of a camera: what a viewer could still fetch.\<close>

lemma forget_camera_playlist: "map_of (playlists (cleanup_camera cam h)) c = (if c = cam then None else map_of (playlists h) c)"
  by (simp add: cleanup_camera_def forget_camera_def delete_conv')

lemma cleanup_segments: "map_of (cameras (segments (cleanup_camera cam h))) c = (if c = cam then None else map_of (cameras (segments h)) c)"
  by (simp add: cleanup_camera_def forget_camera_def cleanup_store_lookup)

lemma fold_cleanup:
  "map_of (playlists (fold cleanup_camera cams h)) c = (if c \<in> set cams then None else map_of (playlists h) c)"
  "map_of (cameras (segments (fold cleanup_camera cams h))) c = (if c \<in> set cams then None else map_of (cameras (segments h)) c)"
  by (induction cams arbitrary: h) (auto simp: forget_camera_playlist cleanup_segments)

definition no_stream :: "string \<Rightarrow> tables \<Rightarrow> bool" where
  "no_stream cam t \<longleftrightarrow> map_of (playlists (fl_hls (tb_fleet t))) cam = None \<and>
     map_of (cameras (segments (fl_hls (tb_fleet t)))) cam = None"

definition cleaned :: "string \<Rightarrow> tables \<Rightarrow> tables" where
  "cleaned org t = hls_map (fold cleanup_camera (org_camera_ids org t)) t"

lemma erase_org_cases:
  assumes "erase_org fails org t = (r, t')"
  obtains (fail) e where "r = Inl e" "t' = t \<or> t' = cleaned org t"
    | (success) n u where "r = Inr ()" "delete_org_data fails org (cleaned org t) = Some (n, u)" "t' = forget_org org u"
  using assms by (auto simp: erase_org_def Let_def cleaned_def [symmetric] split: if_splits option.splits)

lemma cleaned_ok: "tables_ok t \<Longrightarrow> tables_ok (cleaned org t)" "org_incidents org (cleaned org t) = org_incidents org t"
  by (simp_all add: tables_ok_def cleaned_def hls_map_def fleet_ok_def node_keys_def camera_keys_def org_incidents_def)

lemma erase_org_rows:
  assumes "tables_ok t" "erase_org fails org t = (r, t')"
  shows "rows_of o1 t' = (if r = Inr () \<and> o1 = org then no_rows else rows_of o1 t)"
  using assms(2)
proof (cases rule: erase_org_cases)
  case fail
  then show ?thesis by (auto simp: cleaned_def)
next
  case (success n u)
  then show ?thesis
    using rows_of_deleted(1) [of org "cleaned org t"] rows_of_deleted(2) [OF cleaned_ok(1) [OF assms(1)], of o1 org]
    by (auto simp: delete_org_data_Some [OF success(2)]) (simp_all add: cleaned_def)
qed

lemma erase_org_runs:
  assumes "tables_ok t" "\<forall>s. \<not> fails s"
  shows "fst (erase_org fails org t) = Inr ()"
proof -
  obtain n u where d: "delete_org_data fails org (cleaned org t) = Some (n, u)"
    using delete_org_data_ok [OF cleaned_ok(1) [OF assms(1)] assms(2)] by blast
  have "\<not> fails ListCameras" "\<not> fails BeginErase" "\<not> fails CommitErase" using assms(2) by blast+
  then show ?thesis using d by (simp add: erase_org_def Let_def cleaned_def [symmetric])
qed


section \<open>What forgetting a person leaves\<close>

definition forgotten :: "(string \<Rightarrow> string) \<Rightarrow> string \<Rightarrow> string list \<Rightarrow> tables \<Rightarrow> bool" where
  "forgotten sql_lower user emails t \<longleftrightarrow>
     (\<forall>r \<in> set (tb_other t ''stream_access_logs''). column ''user_id'' r \<noteq> SqlText user) \<and>
     (\<forall>r \<in> set (tb_other t ''user_notification_state''). column ''clerk_user_id'' r \<noteq> SqlText user) \<and>
     (\<forall>r \<in> set (tb_audit t). \<not> audit_of sql_lower user emails r) \<and>
     (\<forall>r \<in> set (ml_log (nw_mail (world_of t))). sql_lower (lg_recipient r) \<notin> set emails) \<and>
     (\<forall>r \<in> set (ml_outbox (nw_mail (world_of t))). sql_lower (ob_recipient r) \<notin> set emails) \<and>
     (\<forall>r \<in> set (ml_suppression (nw_mail (world_of t))). sql_lower (sp_address r) \<notin> set emails) \<and>
     (\<forall>r \<in> set (tb_other t ''incidents''). \<not> relabelled sql_lower user emails ''created_by'' r) \<and>
     (\<forall>r \<in> set (tb_other t ''incidents''). \<not> relabelled sql_lower user emails ''resolved_by'' r) \<and>
     (\<forall>r \<in> set (tb_other t ''sentinel_agent_keys''). \<not> relabelled sql_lower user emails ''created_by'' r)"

lemma column_set [simp]: "column c (set_column d v r) = (if c = d then v else column c r)"
  by (simp add: column_def set_column_def update_conv')

lemma run_steps_fold:
  "run_steps fails steps acc t = Some (acc', t') \<Longrightarrow> t' = fold (\<lambda>(_, _, step) t. snd (step t)) steps t"
  by (induction fails steps acc t rule: run_steps.induct) (auto split: if_splits prod.splits)

lemma run_steps_total: "\<forall>s. \<not> fails s \<Longrightarrow> \<exists>n t'. run_steps fails steps acc t = Some (n, t')"
  by (induction fails steps acc t rule: run_steps.induct) (auto split: prod.splits)

definition quiet :: "(tables \<Rightarrow> int \<times> tables) \<Rightarrow> tables \<Rightarrow> bool" where
  "quiet step t \<longleftrightarrow> step t = (0, t)"

lemma run_steps_quiet:
  assumes "\<forall>(stmt, table, step) \<in> set steps. quiet step t" "run_steps fails steps acc t = Some (acc', t')"
  shows "t' = t \<and> acc' = acc @ map (\<lambda>(_, table, _). (table, 0)) steps"
  using assms by (induction fails steps acc t rule: run_steps.induct) (auto simp: quiet_def split: if_splits)

lemma maps_id:
  "filter p (tb_other t table) = tb_other t table \<Longrightarrow> other_map table (filter p) t = t"
  "map g (tb_other t table) = tb_other t table \<Longrightarrow> other_map table (map g) t = t"
  "map h (tb_audit t) = tb_audit t \<Longrightarrow> audit_map (map h) t = t"
  "m (nw_mail (world_of t)) = nw_mail (world_of t) \<Longrightarrow> mail_map m t = t"
  by (simp_all add: other_map_def audit_map_def mail_map_def world_map_def fleet_map_def)

lemma forgotten_quiet:
  assumes "forgotten sql_lower user emails t" "(stmt, table, step) \<in> set (erase_steps sql_lower user emails)"
  shows "quiet step t"
proof -
  note no = assms(1) [unfolded forgotten_def]
  have "delete_other ''stream_access_logs'' (\<lambda>r. column ''user_id'' r = SqlText user) t = (0, t)"
    "delete_other ''user_notification_state'' (\<lambda>r. column ''clerk_user_id'' r = SqlText user) t = (0, t)"
    using no by (simp_all add: delete_other_def filter_empty_conv filter_id_conv maps_id)
  moreover have "(int (length (filter (audit_of sql_lower user emails) (tb_audit t))),
      audit_map (map (\<lambda>r. if audit_of sql_lower user emails r then anonymise r else r)) t) = (0, t)"
    using no by (simp add: filter_empty_conv map_idI)
  moreover have "delete_mail_to sql_lower emails table t = (0, t)" for table
    using no by (simp add: delete_mail_to_def Let_def filter_empty_conv filter_id_conv maps_id)
  moreover have "relabel sql_lower user emails (table, c) t = (0, t)"
    if "\<forall>r \<in> set (tb_other t table). \<not> relabelled sql_lower user emails c r" for table c
    using that by (simp add: relabel_def filter_empty_conv map_idI maps_id)
  ultimately show ?thesis using assms(2) no by (auto simp: erase_steps_def quiet_def)
qed

definition erased_tables :: "(string \<Rightarrow> string) \<Rightarrow> string \<Rightarrow> string list \<Rightarrow> tables \<Rightarrow> tables" where
  "erased_tables sql_lower user emails t = fold (\<lambda>(_, _, step) t. snd (step t)) (erase_steps sql_lower user emails) t"

lemma erased_columns:
  fixes sql_lower :: "string \<Rightarrow> string" and user :: string and emails :: "string list" and t :: tables
  defines "u \<equiv> erased_tables sql_lower user emails t" and "hit \<equiv> relabelled sql_lower user emails"
  shows "tb_audit u = map (\<lambda>r. if audit_of sql_lower user emails r then anonymise r else r) (tb_audit t)"
    "ml_log (nw_mail (world_of u)) = filter (\<lambda>r. sql_lower (lg_recipient r) \<notin> set emails) (ml_log (nw_mail (world_of t)))"
    "ml_outbox (nw_mail (world_of u)) = filter (\<lambda>r. sql_lower (ob_recipient r) \<notin> set emails) (ml_outbox (nw_mail (world_of t)))"
    "ml_suppression (nw_mail (world_of u)) =
      filter (\<lambda>r. sql_lower (sp_address r) \<notin> set emails) (ml_suppression (nw_mail (world_of t)))"
    "tb_other u ''stream_access_logs'' = filter (\<lambda>r. column ''user_id'' r \<noteq> SqlText user) (tb_other t ''stream_access_logs'')"
    "tb_other u ''user_notification_state'' =
      filter (\<lambda>r. column ''clerk_user_id'' r \<noteq> SqlText user) (tb_other t ''user_notification_state'')"
    "tb_other u ''incidents'' =
      map (\<lambda>r. if hit ''resolved_by'' r then set_column ''resolved_by'' (SqlText DELETED_USER) r else r)
        (map (\<lambda>r. if hit ''created_by'' r then set_column ''created_by'' (SqlText DELETED_USER) r else r) (tb_other t ''incidents''))"
    "tb_other u ''sentinel_agent_keys'' =
      map (\<lambda>r. if hit ''created_by'' r then set_column ''created_by'' (SqlText DELETED_USER) r else r)
        (tb_other t ''sentinel_agent_keys'')"
    "nw_notifications (world_of u) = nw_notifications (world_of t)"
  by (simp_all add: u_def hit_def erased_tables_def erase_steps_def delete_other_def delete_mail_to_def relabel_def Let_def del: map_map)

text \<open>An organisation without rows does not get one.\<close>

lemma no_rows_iff:
  "rows_of o1 t = no_rows \<longleftrightarrow>
     filter (\<lambda>n. nd_org n = o1) (fl_nodes (tb_fleet t)) = [] \<and> filter (\<lambda>c. fc_org c = o1) (fl_cameras (tb_fleet t)) = [] \<and>
     filter (\<lambda>r. st_org r = o1) (nw_settings (world_of t)) = [] \<and>
     filter (\<lambda>r. nr_org r = o1) (nw_notifications (world_of t)) = [] \<and>
     filter (\<lambda>r. ob_org r = o1) (ml_outbox (nw_mail (world_of t))) = [] \<and>
     filter (\<lambda>r. lg_org r = o1) (ml_log (nw_mail (world_of t))) = [] \<and>
     filter (\<lambda>r. rn_org r = o1) (nw_runs (world_of t)) = [] \<and> filter (\<lambda>r. au_org r = o1) (tb_audit t) = [] \<and>
     evidence_of o1 t = [] \<and> (\<forall>name \<in> set generic_tables. filter (of_org o1) (tb_other t name) = [])"
  (is "?l \<longleftrightarrow> ?r")
proof
  assume l: ?l
  note f = arg_cong [OF l]
  have o: "or_other (rows_of o1 t) name = []" for name using l by (simp add: no_rows_def)
  have "evidence_of o1 t = []" using o [of "''incident_evidence''"] by (simp add: rows_of_def)
  moreover have "\<forall>name \<in> set generic_tables. filter (of_org o1) (tb_other t name) = []"
  proof
    fix name assume "name \<in> set generic_tables"
    then show "filter (of_org o1) (tb_other t name) = []"
      using o [of name] generic_tables_scoped(2) [of name] by (simp add: rows_of_def)
  qed
  ultimately show ?r
    using f [of or_nodes] f [of or_cameras] f [of or_settings] f [of or_notifications] f [of or_outbox] f [of or_log]
      f [of or_runs] f [of or_audit]
    by (simp only: rows_of_def no_rows_def org_rows.select_convs)
next
  assume ?r
  then show ?l by (elim conjE) (rule rows_of_emptyI; (assumption | drule (1) bspec))
qed

lemma fold_steps_same:
  assumes "\<And>stmt table step t. (stmt, table, step) \<in> set steps \<Longrightarrow> sel (snd (step t)) = sel t"
  shows "sel (fold (\<lambda>(_, _, step) t. snd (step t)) steps t) = sel t"
  using assms
proof (induction steps arbitrary: t)
  case (Cons s steps)
  obtain stmt table step where s: "s = (stmt, table, step)" by (metis prod_cases3)
  have "sel (fold (\<lambda>(_, _, step) t. snd (step t)) steps (snd (step t))) = sel (snd (step t))"
    by (rule Cons.IH) (use Cons.prems in auto)
  also have "\<dots> = sel t" using Cons.prems [of stmt table step] by (simp add: s)
  finally show ?case by (simp add: s)
qed simp

lemma erase_step_keeps:
  assumes "(stmt, table, step) \<in> set (erase_steps sql_lower user emails)"
  shows "nw_settings (world_of (snd (step t))) = nw_settings (world_of t) \<and> nw_runs (world_of (snd (step t))) = nw_runs (world_of t) \<and>
    fl_nodes (tb_fleet (snd (step t))) = fl_nodes (tb_fleet t) \<and> fl_cameras (tb_fleet (snd (step t))) = fl_cameras (tb_fleet t)"
    "name \<notin> {''stream_access_logs'', ''user_notification_state'', ''incidents'', ''sentinel_agent_keys''} \<Longrightarrow>
      tb_other (snd (step t)) name = tb_other t name"
  using assms by (auto simp: erase_steps_def delete_other_def delete_mail_to_def relabel_def Let_def)

lemma erased_keeps:
  fixes sql_lower :: "string \<Rightarrow> string" and user :: string and emails :: "string list" and t :: tables
  defines "u \<equiv> erased_tables sql_lower user emails t"
  shows "nw_settings (world_of u) = nw_settings (world_of t)" "nw_runs (world_of u) = nw_runs (world_of t)"
    "fl_nodes (tb_fleet u) = fl_nodes (tb_fleet t)" "fl_cameras (tb_fleet u) = fl_cameras (tb_fleet t)"
    "name \<notin> {''stream_access_logs'', ''user_notification_state'', ''incidents'', ''sentinel_agent_keys''} \<Longrightarrow>
      tb_other u name = tb_other t name"
  unfolding u_def erased_tables_def
      apply (rule fold_steps_same [where sel = "\<lambda>t. nw_settings (world_of t)"], simp add: erase_step_keeps(1))
     apply (rule fold_steps_same [where sel = "\<lambda>t. nw_runs (world_of t)"], simp add: erase_step_keeps(1))
    apply (rule fold_steps_same [where sel = "\<lambda>t. fl_nodes (tb_fleet t)"], simp add: erase_step_keeps(1))
   apply (rule fold_steps_same [where sel = "\<lambda>t. fl_cameras (tb_fleet t)"], simp add: erase_step_keeps(1))
  apply (rule fold_steps_same [where sel = "\<lambda>t. tb_other t name"], simp add: erase_step_keeps(2))
  done

lemma erased_no_rows:
  assumes "rows_of o1 t = no_rows"
  shows "rows_of o1 (erased_tables sql_lower user emails t) = no_rows"
proof -
  let ?u = "erased_tables sql_lower user emails t"
  have org: "c \<noteq> ''org_id'' \<Longrightarrow> of_org o1 (set_column c v r) = of_org o1 r" for c v r
    by (simp add: of_org_def)
  have g: "filter (of_org o1) (tb_other ?u name) = []" if "filter (of_org o1) (tb_other t name) = []" for name
  proof (cases "name \<in> {''stream_access_logs'', ''user_notification_state'', ''incidents'', ''sentinel_agent_keys''}")
    case True
    then show ?thesis using that by (auto simp: erased_columns filter_empty_conv org split: if_splits)
  qed (simp add: erased_keeps that)
  then have "org_incidents o1 ?u = []"
    using assms by (simp add: org_incidents_def no_rows_iff generic_tables_def)
  then have "evidence_of o1 ?u = []" by (simp add: evidence_of_def)
  then show ?thesis using assms g
    unfolding no_rows_iff by (simp add: erased_columns erased_keeps filter_empty_conv) (auto simp: anonymise_def)
qed

lemma erased_forgotten:
  assumes "user \<noteq> DELETED_USER" "sql_lower DELETED_USER \<notin> set emails"
  shows "forgotten sql_lower user emails (erased_tables sql_lower user emails t)"
  unfolding forgotten_def erased_columns using assms
  by (auto simp: audit_of_def anonymise_def relabelled_def named_def split: if_splits)



definition sample_erasure :: tables where
  "sample_erasure =
     \<lparr>tb_fleet = sample_tables,
      tb_audit = [\<lparr>au_org = ''o'', au_event = ''e'', au_ip = None, au_username = Some ''A@b'', au_user_id = Some ''u'',
        au_details = None, au_timestamp = 1\<rparr>],
      tb_other = (\<lambda>_. [])(''incidents'' := [[(''id'', SqlInt 1), (''org_id'', SqlText ''o'')]],
        ''incident_evidence'' := [[(''id'', SqlInt 5), (''incident_id'', SqlInt 1)]])\<rparr>"

lemma sample_erasure_ok: "tables_ok sample_erasure"
  using sample_tables_ok by (simp add: tables_ok_def sample_erasure_def)



text \<open>
  SQLite's \<open>LOWER\<close> changes ASCII letters only. An address with another capital, lower-cased by
  \<open>str::to_lowercase\<close> on its way in, then matches no row of it: the audit trail keeps the name.
\<close>

lemma other_capitals_survive:
  fixes lower :: "string \<Rightarrow> string"
  assumes "lower (trim e) \<noteq> e" "tb_audit t = [r]" "au_username r = Some e" "au_user_id r = None"
    and "erase_user_data lower (\<lambda>s. s) fails user [e] t = (Some n, t')"
  shows "tb_audit t' = [r]"
proof -
  have "t' = erased_tables (\<lambda>s. s) user (clean_emails lower [e]) t"
    using assms(5) by (auto simp: erase_user_data_def erased_tables_def split: if_splits option.splits dest!: run_steps_fold)
  moreover have "\<not> audit_of (\<lambda>s. s) user (clean_emails lower [e]) r"
    using assms(1,3,4) by (auto simp: audit_of_def clean_emails_def)
  ultimately show ?thesis using assms(2) by (simp add: erased_columns)
qed

text \<open>After a full reset the organisation has one row: the one in the audit trail that says so.\<close>

lemma rows_of_wipe: "wipe_nodes fails reply ns k t = (r, t') \<Longrightarrow> rows_of o1 t' = rows_of o1 t \<and> (tables_ok t \<longrightarrow> tables_ok t')"
proof (induction fails reply ns k t rule: wipe_nodes.induct)
  case (2 fails reply pk node_id rest wiped t)
  have "tables_ok t \<longrightarrow> tables_ok (hls_map g t)" for g
    by (simp add: tables_ok_def hls_map_def fleet_ok_def node_keys_def camera_keys_def)
  then show ?case using 2 by (auto simp: Let_def split: if_splits)
qed simp

lemma full_reset_leaves_one_row:
  assumes "tables_ok t" "full_reset fl fails reply True trusted now rate req t = (Inr j, t')"
  shows "length (or_audit (rows_of (rq_org req) t')) = 1 \<and> (rows_of (rq_org req) t')\<lparr>or_audit := []\<rparr> = no_rows"
proof -
  obtain t1 n t2 where t: "rows_of (rq_org req) t1 = rows_of (rq_org req) t" "tables_ok t1"
    "delete_org_data fails (rq_org req) t1 = Some (n, t2)"
    "t' = reset_audit fl True trusted now req n (forget_org (rq_org req) t2)"
    using assms(2) rows_of_wipe assms(1)
    by (fastforce simp: full_reset_def Let_def split: sum.splits if_splits option.splits prod.splits)
  have none: "rows_of (rq_org req) (forget_org (rq_org req) t2) = no_rows"
    using rows_of_deleted(1) [of "rq_org req" t1] delete_org_data_Some [OF t(3)] by simp
  have "rows_of (rq_org req) (audit_map (\<lambda>a. a @ [r]) u) =
      (rows_of (rq_org req) u)\<lparr>or_audit := or_audit (rows_of (rq_org req) u) @ [r]\<rparr>" if "au_org r = rq_org req" for u r
    using that by (simp add: rows_of_def) (simp add: fun_eq_iff evidence_of_def org_incidents_def)
  moreover obtain r where "au_org r = rq_org req" "t' = audit_map (\<lambda>a. a @ [r]) (forget_org (rq_org req) t2)"
    by (rule that [OF _ t(4) [unfolded reset_audit_def write_audit_def Let_def if_True]]) simp
  ultimately show ?thesis using none by (simp add: no_rows_def)
qed

end
