(* ===== verification/Account.thy ===== *)
theory Account
  imports Erasure Recipients
begin

text \<open>
  \<^verbatim>\<open>backend-rs/src/api/account.rs\<close>: the calls to Clerk and the deletion of the signed-in account. What
  Clerk answers a call is an argument; the \<open>DELETE\<close> calls that were sent are kept in order, since a
  deletion at Clerk cannot be taken back.
\<close>

section \<open>Clerk\<close>

datatype clerk_error = ClerkNotFound | ClerkStatus nat | ClerkTransport

text \<open>An answer has a status and its body, decoded, or \<open>None\<close> where it could not be read or decoded.\<close>

datatype reply = Unreachable | Answer nat "json option"

record clerk =
  ck_build :: "string list \<Rightarrow> string option"
  ck_get :: "string \<Rightarrow> (string \<times> string) list \<Rightarrow> reply"
  ck_delete :: "string \<Rightarrow> reply"

definition clerk_to_api :: "clerk_error \<Rightarrow> api_error" where
  "clerk_to_api _ = api_error_new 502
     (String ''Could not reach the sign-in service. Try again shortly; anything already done is not repeated.'')"

definition clerk_answer :: "reply \<Rightarrow> clerk_error + json" where
  "clerk_answer r =
     (case r of
        Unreachable \<Rightarrow> Inl ClerkTransport
      | Answer status body \<Rightarrow>
          if 200 \<le> status \<and> status < 300 then Inr (case body of Some j \<Rightarrow> j | None \<Rightarrow> Null)
          else if status = 404 then Inl ClerkNotFound else Inl (ClerkStatus status))"

definition clerk_get :: "clerk \<Rightarrow> string list \<Rightarrow> (string \<times> string) list \<Rightarrow> clerk_error + json" where
  "clerk_get ck path query =
     (case clerk_url (ck_build ck) path of None \<Rightarrow> Inl ClerkTransport | Some url \<Rightarrow> clerk_answer (ck_get ck url query))"

text \<open>A \<open>DELETE\<close>, with the calls sent so far.\<close>

definition clerk_delete :: "clerk \<Rightarrow> string list \<Rightarrow> string list list \<Rightarrow> (clerk_error + unit) \<times> string list list" where
  "clerk_delete ck path sent =
     (case clerk_url (ck_build ck) path of
        None \<Rightarrow> (Inl ClerkTransport, sent)
      | Some url \<Rightarrow>
          (case clerk_answer (ck_delete ck url) of Inl e \<Rightarrow> Inl e | Inr _ \<Rightarrow> Inr (), sent @ [path]))"

text \<open>\<open>value[key]\<close> is null where there is no such member.\<close>

definition member_of :: "string \<Rightarrow> json \<Rightarrow> json" where
  "member_of k j = (case json_get k j of Some v \<Rightarrow> v | None \<Rightarrow> Null)"

definition items_of :: "json \<Rightarrow> json list" where
  "items_of j = (case as_array j of Some xs \<Rightarrow> xs | None \<Rightarrow> [])"

definition user_emails :: "(string \<Rightarrow> string) \<Rightarrow> clerk \<Rightarrow> string \<Rightarrow> clerk_error + string list" where
  "user_emails lower ck user =
     map_sum id (\<lambda>body. map lower (List.map_filter (\<lambda>e. as_str (member_of ''email_address'' e))
         (items_of (member_of ''email_addresses'' body))))
       (clerk_get ck [''users'', user] [])"

definition organization_entry :: "json \<Rightarrow> (string \<times> string) option" where
  "organization_entry m =
     (let org = member_of ''organization'' m
      in map_option (\<lambda>i. (i, case as_str (member_of ''name'' org) of Some n \<Rightarrow> n | None \<Rightarrow> [])) (as_str (member_of ''id'' org)))"

definition user_organizations :: "clerk \<Rightarrow> string \<Rightarrow> clerk_error + (string \<times> string) list" where
  "user_organizations ck user =
     map_sum id (\<lambda>body. List.map_filter organization_entry (items_of (member_of ''data'' body)))
       (clerk_get ck [''users'', user, ''organization_memberships''] [(''limit'', ''100'')])"

definition member_entry :: "json \<Rightarrow> (string \<times> bool) option" where
  "member_entry m =
     (let role = (case as_str (member_of ''role'' m) of Some r \<Rightarrow> r | None \<Rightarrow> [])
      in map_option (\<lambda>u. (u, role = ''org:admin'' \<or> role = ''admin''))
           (as_str (member_of ''user_id'' (member_of ''public_user_data'' m))))"

definition org_members :: "clerk \<Rightarrow> string \<Rightarrow> clerk_error + (string \<times> bool) list" where
  "org_members ck org =
     map_sum id (\<lambda>body. List.map_filter member_entry (items_of (member_of ''data'' body)))
       (clerk_get ck [''organizations'', org, ''memberships''] [(''limit'', ''100'')])"

definition user_exists :: "clerk \<Rightarrow> string \<Rightarrow> clerk_error + bool" where
  "user_exists ck user =
     (case clerk_get ck [''users'', user] [] of
        Inr _ \<Rightarrow> Inr True
      | Inl e \<Rightarrow> if e = ClerkNotFound then Inr False else Inl e)"

definition organization_member_count :: "clerk \<Rightarrow> string \<Rightarrow> clerk_error + int" where
  "organization_member_count ck org =
     map_sum id (\<lambda>body. case as_i64 (member_of ''total_count'' body) of Some n \<Rightarrow> n | None \<Rightarrow> 0)
       (clerk_get ck [''organizations'', org, ''memberships''] [(''limit'', ''1'')])"

section \<open>The plan\<close>

datatype fate = Deleted | Left | Blocking

definition classify :: "string \<Rightarrow> (string \<times> bool) list \<Rightarrow> fate" where
  "classify user ms =
     (let is_admin = list_ex (\<lambda>(u, admin). u = user \<and> admin) ms;
          others = filter (\<lambda>(u, _). u \<noteq> user) ms
      in if others = [] then Deleted
         else if is_admin \<and> \<not> list_ex snd others then Blocking
         else Left)"

record deletion_plan =
  dp_deleted :: "(string \<times> string) list"
  dp_left :: "(string \<times> string) list"
  dp_blocking :: "(string \<times> string) list"

definition add_org :: "fate \<Rightarrow> string \<times> string \<Rightarrow> deletion_plan \<Rightarrow> deletion_plan" where
  "add_org fate org p =
     (case fate of
        Deleted \<Rightarrow> p\<lparr>dp_deleted := dp_deleted p @ [org]\<rparr>
      | Left \<Rightarrow> p\<lparr>dp_left := dp_left p @ [org]\<rparr>
      | Blocking \<Rightarrow> p\<lparr>dp_blocking := dp_blocking p @ [org]\<rparr>)"

fun plan_orgs :: "clerk \<Rightarrow> string \<Rightarrow> (string \<times> string) list \<Rightarrow> deletion_plan \<Rightarrow> clerk_error + deletion_plan" where
  "plan_orgs ck user [] p = Inr p"
| "plan_orgs ck user (org # rest) p =
     (case org_members ck (fst org) of
        Inl e \<Rightarrow> Inl e
      | Inr ms \<Rightarrow> plan_orgs ck user rest (add_org (classify user ms) org p))"

definition plan_deletion :: "clerk \<Rightarrow> string \<Rightarrow> clerk_error + deletion_plan" where
  "plan_deletion ck user =
     (case user_organizations ck user of
        Inl e \<Rightarrow> Inl e
      | Inr orgs \<Rightarrow> plan_orgs ck user orgs \<lparr>dp_deleted = [], dp_left = [], dp_blocking = []\<rparr>)"

definition CONFIRM_PHRASE :: string where "CONFIRM_PHRASE = ''delete my account''"

definition org_json :: "string \<times> string \<Rightarrow> json" where
  "org_json org = Object [(''id'', String (fst org)), (''name'', String (snd org))]"

definition plan_json :: "deletion_plan \<Rightarrow> json" where
  "plan_json p =
     Object
       [(''confirm_phrase'', String CONFIRM_PHRASE),
        (''deletes_organizations'', Array (map org_json (dp_deleted p))),
        (''leaves_organizations'', Array (map org_json (dp_left p))),
        (''blocked_by'', Array (map org_json (dp_blocking p)))]"

definition deletion_preview :: "clerk \<Rightarrow> api_error + unit \<Rightarrow> string \<Rightarrow> api_error + json" where
  "deletion_preview ck rate user =
     (case rate of
        Inl e \<Rightarrow> Inl e
      | Inr _ \<Rightarrow> map_sum clerk_to_api plan_json (plan_deletion ck user))"

section \<open>The deletion\<close>

definition confirmed :: "(string \<Rightarrow> json option) \<Rightarrow> string \<Rightarrow> bool" where
  "confirmed from_slice body =
     (case Option.bind (Option.bind (from_slice body) (json_get ''confirm'')) as_str of
        Some c \<Rightarrow> to_lowercase (trim c) = to_lowercase CONFIRM_PHRASE
      | None \<Rightarrow> False)"

definition last_admin :: "deletion_plan \<Rightarrow> api_error" where
  "last_admin p = api_error_new 409
     (Object
       [(''error'', String ''last_admin''),
        (''message'', String (''You are the only admin of an organization that has other '' @
           ''members. Make someone else an admin first.'')),
        (''organizations'', Array (map org_json (dp_blocking p)))])"

text \<open>The tables and the calls sent; an organisation that Clerk no longer knows is erased all the same.\<close>

record account_world =
  aw_tables :: tables
  aw_sent :: "string list list"

definition gone :: "clerk_error + unit \<Rightarrow> bool" where
  "gone r \<longleftrightarrow> r = Inr () \<or> r = Inl ClerkNotFound"

definition failure :: "clerk_error + unit \<Rightarrow> api_error" where
  "failure r = clerk_to_api (case r of Inl e \<Rightarrow> e | Inr _ \<Rightarrow> ClerkTransport)"

text \<open>\<open>fails org\<close> are the statements that fail while that organisation is erased.\<close>

fun delete_orgs ::
  "clerk \<Rightarrow> (string \<Rightarrow> erase_statement \<Rightarrow> bool) \<Rightarrow> (string \<times> string) list \<Rightarrow> account_world \<Rightarrow>
   (api_error + unit) \<times> account_world" where
  "delete_orgs ck fails [] w = (Inr (), w)"
| "delete_orgs ck fails (org # rest) w =
     (let (r, sent) = clerk_delete ck [''organizations'', fst org] (aw_sent w); w = w\<lparr>aw_sent := sent\<rparr>
      in if \<not> gone r then (Inl (failure r), w)
         else case erase_org (fails (fst org)) (fst org) (aw_tables w) of
             (Inl e, t) \<Rightarrow> (Inl e, w\<lparr>aw_tables := t\<rparr>)
           | (Inr _, t) \<Rightarrow> delete_orgs ck fails rest (w\<lparr>aw_tables := t\<rparr>))"

record account_env =
  dl_clerk :: clerk
  dl_from_slice :: "string \<Rightarrow> json option"
  dl_lower :: "string \<Rightarrow> string"
  dl_sql_lower :: "string \<Rightarrow> string"
  dl_org_fails :: "string \<Rightarrow> erase_statement \<Rightarrow> bool"
  dl_user_fails :: "erase_statement \<Rightarrow> bool"

definition carry_out ::
  "account_env \<Rightarrow> string \<Rightarrow> deletion_plan \<Rightarrow> string list \<Rightarrow> account_world \<Rightarrow> (api_error + json) \<times> account_world" where
  "carry_out env user p emails w =
     (case delete_orgs (dl_clerk env) (dl_org_fails env) (dp_deleted p) w of
        (Inl e, w) \<Rightarrow> (Inl e, w)
      | (Inr _, w) \<Rightarrow>
          (let (r, sent) = clerk_delete (dl_clerk env) [''users'', user] (aw_sent w); w = w\<lparr>aw_sent := sent\<rparr>
           in if \<not> gone r then (Inl (failure r), w)
              else case erase_user_data (dl_lower env) (dl_sql_lower env) (dl_user_fails env) user emails (aw_tables w) of
                  (None, t) \<Rightarrow> (Inl db_error, w\<lparr>aw_tables := t\<rparr>)
                | (Some _, t) \<Rightarrow>
                    (Inr (Object [(''deleted'', Bool True),
                       (''organizations_deleted'', IntNum (int (length (dp_deleted p))))]), w\<lparr>aw_tables := t\<rparr>)))"

definition delete_account ::
  "account_env \<Rightarrow> api_error + unit \<Rightarrow> string \<Rightarrow> string \<Rightarrow> account_world \<Rightarrow> (api_error + json) \<times> account_world" where
  "delete_account env rate user body w =
     (case rate of
        Inl e \<Rightarrow> (Inl e, w)
      | Inr _ \<Rightarrow>
          if \<not> confirmed (dl_from_slice env) body
          then (Inl (bad_request (String (''Type '' @ [CHR 0x22] @ CONFIRM_PHRASE @ [CHR 0x22] @ '' to confirm.''))), w)
          else case plan_deletion (dl_clerk env) user of
              Inl e \<Rightarrow> (Inl (clerk_to_api e), w)
            | Inr p \<Rightarrow>
                if dp_blocking p \<noteq> [] then (Inl (last_admin p), w)
                else case user_emails (dl_lower env) (dl_clerk env) user of
                    Inl e \<Rightarrow> (Inl (clerk_to_api e), w)
                  | Inr emails \<Rightarrow> carry_out env user p emails w)"

section \<open>What the plan means\<close>

definition alone :: "string \<Rightarrow> (string \<times> bool) list \<Rightarrow> bool" where
  "alone user ms \<longleftrightarrow> (\<forall>u admin. (u, admin) \<in> set ms \<longrightarrow> u = user)"

definition admin_stays :: "string \<Rightarrow> (string \<times> bool) list \<Rightarrow> bool" where
  "admin_stays user ms \<longleftrightarrow> (user, True) \<in> set ms \<and> \<not> alone user ms \<longrightarrow> (\<exists>u. u \<noteq> user \<and> (u, True) \<in> set ms)"

lemma classify_alone: "classify user ms = Deleted \<longleftrightarrow> alone user ms"
  by (auto simp: classify_def Let_def alone_def filter_empty_conv)

lemma classify_admin: "classify user ms \<noteq> Blocking \<longleftrightarrow> admin_stays user ms"
  by (auto simp: classify_def Let_def admin_stays_def alone_def filter_empty_conv list_ex_iff)

definition fate_of :: "clerk \<Rightarrow> string \<Rightarrow> string \<times> string \<Rightarrow> fate" where
  "fate_of ck user org = (case org_members ck (fst org) of Inr ms \<Rightarrow> classify user ms | Inl _ \<Rightarrow> Left)"

lemma plan_orgs_result:
  "plan_orgs ck user orgs p = Inr q \<Longrightarrow>
     dp_deleted q = dp_deleted p @ filter (\<lambda>org. fate_of ck user org = Deleted) orgs \<and>
     dp_blocking q = dp_blocking p @ filter (\<lambda>org. fate_of ck user org = Blocking) orgs \<and>
     (\<forall>org \<in> set orgs. \<exists>ms. org_members ck (fst org) = Inr ms)"
  by (induction ck user orgs p rule: plan_orgs.induct) (auto simp: fate_of_def add_org_def split: sum.splits fate.splits)

lemma plan_deletion_result:
  assumes "plan_deletion ck user = Inr p"
  shows "\<exists>orgs. user_organizations ck user = Inr orgs \<and> dp_deleted p = filter (\<lambda>org. fate_of ck user org = Deleted) orgs \<and>
    dp_blocking p = filter (\<lambda>org. fate_of ck user org = Blocking) orgs \<and>
    (\<forall>org \<in> set orgs. \<exists>ms. org_members ck (fst org) = Inr ms)"
  using assms plan_orgs_result by (fastforce simp: plan_deletion_def split: sum.splits)

section \<open>Erasing several organisations\<close>

lemma tables_ok_erased:
  assumes "tables_ok t"
  shows "tables_ok (fold (delete_rows org) ORG_SCOPED_TABLES (emptied org t))"
proof -
  let ?f = "tb_fleet t" and ?u = "fold (delete_rows org) ORG_SCOPED_TABLES (emptied org t)"
  have ok: "fleet_ok ?f" using assms by (simp add: tables_ok_def)
  have nk: "node_keys (tb_fleet ?u) = filter (\<lambda>(_, _, o1). o1 \<noteq> org) (node_keys ?f)"
    by (simp add: node_keys_def fold_delete_columns emptied_columns filter_map o_def)
  have cs: "fl_cameras (tb_fleet ?u) = filter (\<lambda>c. fc_org c \<noteq> org) (fl_cameras ?f)"
    using ok camera_of_org_node by (auto simp: fold_delete_columns emptied_columns org_nodes_def intro!: filter_cong)
  then have ck: "camera_keys (tb_fleet ?u) = filter (\<lambda>(_, _, o1, _). o1 \<noteq> org) (camera_keys ?f)"
    by (simp add: camera_keys_def filter_map o_def)
  have "keys_ok (filter (\<lambda>(_, _, o1). o1 \<noteq> org) ns) (filter (\<lambda>(_, _, o1, _). o1 \<noteq> org) cs)" if "keys_ok ns cs" for ns cs
    using that by (fastforce simp: keys_ok_def distinct_map inj_on_def)
  then have "fleet_ok (tb_fleet ?u)" using ok by (simp add: fleet_ok_def nk ck)
  moreover have "tb_other ?u ''incidents'' = filter (\<lambda>r. \<not> of_org org r) (tb_other t ''incidents'')"
    "set (tb_other ?u ''camera_groups'') \<subseteq> set (tb_other t ''camera_groups'')"
    by (auto simp: fold_delete_other emptied_columns ORG_SCOPED_TABLES_def TYPED_TABLES_def)
  moreover have "distinct (map f xs) \<Longrightarrow> distinct (map f (filter P xs))" for f :: "sql_row \<Rightarrow> sql_value" and P xs
    by (simp add: distinct_map_filter)
  ultimately show ?thesis using assms by (auto simp: tables_ok_def cs)
qed

lemma tables_ok_same:
  assumes "tables_ok t" "node_keys (tb_fleet u) = node_keys (tb_fleet t)" "fl_cameras (tb_fleet u) = fl_cameras (tb_fleet t)"
    "tb_other u = tb_other t"
  shows "tables_ok u"
  using assms by (simp add: tables_ok_def fleet_ok_def camera_keys_def)

lemma erase_org_ok:
  assumes "tables_ok t" "erase_org fails org t = (r, t')"
  shows "tables_ok t'"
  using assms(2)
proof (cases rule: erase_org_cases)
  case fail
  then show ?thesis using assms(1) cleaned_ok(1) by auto
next
  case (success n u)
  then have "tables_ok u" using tables_ok_erased [OF cleaned_ok(1) [OF assms(1)]] delete_org_data_Some by blast
  then show ?thesis by (rule tables_ok_same) (simp_all add: success(3) forget_org_def hls_map_def node_keys_def)
qed

lemma clerk_delete_sent: "clerk_delete ck path sent = (r, sent') \<Longrightarrow> sent' = sent \<or> sent' = sent @ [path]"
  by (auto simp: clerk_delete_def split: option.splits)

lemma clerk_delete_gone: "clerk_delete ck path sent = (r, sent') \<Longrightarrow> gone r \<Longrightarrow> sent' = sent @ [path]"
  by (auto simp: clerk_delete_def gone_def split: option.splits)

lemma delete_orgs_effect:
  assumes "tables_ok (aw_tables w)" "delete_orgs ck fails orgs w = (r, w')"
  shows "tables_ok (aw_tables w') \<and>
    (\<forall>o1. o1 \<notin> fst ` set orgs \<longrightarrow> rows_of o1 (aw_tables w') = rows_of o1 (aw_tables w)) \<and>
    (\<forall>o1. rows_of o1 (aw_tables w) = no_rows \<longrightarrow> rows_of o1 (aw_tables w') = no_rows) \<and>
    (r = Inr () \<longrightarrow> (\<forall>o1 \<in> fst ` set orgs. rows_of o1 (aw_tables w') = no_rows) \<and>
      aw_sent w' = aw_sent w @ map (\<lambda>org. [''organizations'', fst org]) orgs)"
  using assms
proof (induction orgs arbitrary: w)
  case (Cons org rest)
  obtain d sent where d: "clerk_delete ck [''organizations'', fst org] (aw_sent w) = (d, sent)" by force
  obtain x t where x: "erase_org (fails (fst org)) (fst org) (aw_tables w) = (x, t)" by force
  note e = erase_org_rows [OF Cons.prems(1) x]
  have ok: "tables_ok t" using Cons.prems(1) x by (rule erase_org_ok)
  show ?case
  proof (cases "gone d \<and> x = Inr ()")
    case False
    then have "r \<noteq> Inr ()" "aw_tables w' = aw_tables w \<or> aw_tables w' = t \<and> x \<noteq> Inr ()"
      using Cons.prems(2) d x by (auto simp: Let_def split: if_splits sum.splits)
    then show ?thesis using Cons.prems(1) ok e by auto
  next
    case True
    define w1 where "w1 = w\<lparr>aw_sent := sent, aw_tables := t\<rparr>"
    have rest: "delete_orgs ck fails rest w1 = (r, w')"
      using Cons.prems(2) d x True by (simp add: Let_def w1_def)
    have w1: "aw_sent w1 = aw_sent w @ [[''organizations'', fst org]]" "aw_tables w1 = t"
      using clerk_delete_gone [OF d] True by (simp_all add: w1_def)
    show ?thesis using Cons.IH [OF _ rest] ok e True by (auto simp: w1)
  qed
qed simp

section \<open>Deleting an account\<close>

lemma erase_user_data_cases:
  assumes "erase_user_data lower sql_lower fails user emails t = (r, t')"
  shows "r = None \<and> t' = t \<or> r \<noteq> None \<and> t' = erased_tables sql_lower user (clean_emails lower emails) t"
  using assms by (auto simp: erase_user_data_def erased_tables_def split: if_splits option.splits dest!: run_steps_fold)

lemma delete_account_cases:
  assumes "delete_account env rate user body w = (r, w')"
  obtains (refused) e where "r = Inl e" "w' = w"
    | (run) p emails where "plan_deletion (dl_clerk env) user = Inr p" "dp_blocking p = []"
      "user_emails (dl_lower env) (dl_clerk env) user = Inr emails" "carry_out env user p emails w = (r, w')"
  using assms by (auto simp: delete_account_def split: sum.splits if_splits)

lemma carry_out_effect:
  assumes "tables_ok (aw_tables w)" "carry_out env user p emails w = (r, w')"
  shows "(\<forall>j. r = Inr j \<longrightarrow>
      (\<forall>o1 \<in> fst ` set (dp_deleted p). rows_of o1 (aw_tables w') = no_rows) \<and>
      aw_sent w' = aw_sent w @ map (\<lambda>org. [''organizations'', fst org]) (dp_deleted p) @ [[''users'', user]] \<and>
      (\<exists>t. aw_tables w' = erased_tables (dl_sql_lower env) user (clean_emails (dl_lower env) emails) t)) \<and>
    (\<forall>e. r = Inl e \<longrightarrow> (\<forall>o1. o1 \<notin> fst ` set (dp_deleted p) \<longrightarrow> rows_of o1 (aw_tables w') = rows_of o1 (aw_tables w)))"
proof -
  obtain x w1 where x: "delete_orgs (dl_clerk env) (dl_org_fails env) (dp_deleted p) w = (x, w1)" by force
  note d = delete_orgs_effect [OF assms(1) x]
  obtain y sent where y: "clerk_delete (dl_clerk env) [''users'', user] (aw_sent w1) = (y, sent)" by force
  obtain z t where z: "erase_user_data (dl_lower env) (dl_sql_lower env) (dl_user_fails env) user emails (aw_tables w1) = (z, t)" by force
  show ?thesis
  proof (cases "x = Inr () \<and> gone y \<and> z \<noteq> None")
    case True
    then have "r = Inr (Object [(''deleted'', Bool True), (''organizations_deleted'', IntNum (int (length (dp_deleted p))))])"
      "w' = w1\<lparr>aw_sent := sent, aw_tables := t\<rparr>"
      using assms(2) x y z by (auto simp: carry_out_def Let_def)
    moreover have "t = erased_tables (dl_sql_lower env) user (clean_emails (dl_lower env) emails) (aw_tables w1)"
      using erase_user_data_cases [OF z] True by blast
    moreover have "sent = aw_sent w1 @ [[''users'', user]]" using clerk_delete_gone [OF y] True by simp
    ultimately show ?thesis using d True erased_no_rows by auto
  next
    case False
    then have "(\<exists>e. r = Inl e) \<and> aw_tables w' = aw_tables w1"
      using assms(2) x y z erase_user_data_cases [OF z] by (auto simp: carry_out_def Let_def split: sum.splits if_splits option.splits)
    then show ?thesis using d by auto
  qed
qed


definition sample_get :: "json option \<Rightarrow> string \<Rightarrow> reply" where
  "sample_get members_body url =
     (if url = ''usersu/'' then Answer 200 (Some (Object [(''email_addresses'', Array [Object [(''email_address'', String ''A@b'')]])]))
      else if url = ''usersuorganization_memberships/''
        then Answer 200 (Some (Object [(''data'', Array [Object [(''organization'', Object [(''id'', String ''o''), (''name'', String ''O'')])]])]))
      else if url = ''organizationsomemberships/'' then Answer 200 members_body
      else Unreachable)"

definition sample_account :: "json option \<Rightarrow> account_env" where
  "sample_account members_body =
     \<lparr>dl_clerk = \<lparr>ck_build = (\<lambda>path. Some (concat path @ ''/'')), ck_get = (\<lambda>url _. sample_get members_body url),
        ck_delete = (\<lambda>_. Answer 200 None)\<rparr>,
      dl_from_slice = (\<lambda>_. Some (Object [(''confirm'', String ''Delete my account '')])),
      dl_lower = to_lowercase, dl_sql_lower = to_lowercase, dl_org_fails = (\<lambda>_ _. False), dl_user_fails = (\<lambda>_. False)\<rparr>"

definition only_member :: json where
  "only_member = Object [(''data'', Array
     [Object [(''role'', String ''org:admin''), (''public_user_data'', Object [(''user_id'', String ''u'')])]])]"

definition sample_account_world :: account_world where
  "sample_account_world = \<lparr>aw_tables = sample_erasure, aw_sent = []\<rparr>"

lemma sample_account_runs:
  assumes "members_body = Some only_member \<or> members_body = None"
  shows "\<exists>w'. delete_account (sample_account members_body) (Inr ()) ''u'' ''{}'' sample_account_world =
    (Inr (Object [(''deleted'', Bool True), (''organizations_deleted'', IntNum 1)]), w') \<and>
    aw_sent w' = [[''organizations'', ''o''], [''users'', ''u'']] \<and> rows_of ''o'' (aw_tables w') = no_rows"
proof -
  let ?env = "sample_account members_body"
  have c: "confirmed (dl_from_slice ?env) ''{}''" unfolding sample_account_def by code_simp
  have o: "user_organizations (dl_clerk ?env) ''u'' = Inr [(''o'', ''O'')]" if "members_body = b" for b
    unfolding sample_account_def that by code_simp
  have p: "plan_deletion (dl_clerk ?env) ''u'' = Inr \<lparr>dp_deleted = [(''o'', ''O'')], dp_left = [], dp_blocking = []\<rparr>"
    using assms by (elim disjE; hypsubst; unfold sample_account_def only_member_def; code_simp)
  have m: "user_emails (dl_lower ?env) (dl_clerk ?env) ''u'' = Inr [''a@b'']"
    using assms by (elim disjE; hypsubst; unfold sample_account_def only_member_def; code_simp)
  obtain t where e: "erase_org (\<lambda>_. False) ''o'' sample_erasure = (Inr (), t)"
    using erase_org_runs [OF sample_erasure_ok, of "\<lambda>_. False" "''o''"] by (cases "erase_org (\<lambda>_. False) ''o'' sample_erasure") auto
  obtain n t' where u: "erase_user_data to_lowercase to_lowercase (\<lambda>_. False) ''u'' [''a@b''] t = (Some n, t')"
    using run_steps_total [of "\<lambda>_. False"] by (fastforce simp: erase_user_data_def split: option.split)
  have "rows_of ''o'' t = no_rows" using erase_org_rows [OF sample_erasure_ok e, of "''o''"] by simp
  then have "rows_of ''o'' t' = no_rows" using erase_user_data_cases [OF u] erased_no_rows by auto
  then show ?thesis
    using c p m e u
    by (simp add: delete_account_def carry_out_def clerk_delete_def clerk_answer_def clerk_url_def gone_def Let_def
        sample_account_def sample_account_world_def)
qed


text \<open>
  An answer of Clerk that cannot be read counts as an empty list, so that an organisation whose members could
  not be read is one the account is alone in: it is deleted at Clerk and erased, whoever its members are.
\<close>

lemma unreadable_members_delete_the_organisation:
  "\<exists>w'. delete_account (sample_account None) (Inr ()) ''u'' ''{}'' sample_account_world =
      (Inr (Object [(''deleted'', Bool True), (''organizations_deleted'', IntNum 1)]), w') \<and>
    [''organizations'', ''o''] \<in> set (aw_sent w') \<and> rows_of ''o'' (aw_tables w') = no_rows"
  using sample_account_runs [of None] by auto

end
