(* ===== verification/Billing.thy ===== *)
theory Billing
  imports Account Webhooks
begin

text \<open>
  \<^verbatim>\<open>backend-rs/src/api/clerk_webhook.rs\<close>: the deliveries of Clerk's webhook, which move an
  organisation's plan, its grace clock and its seats, announce its members, and erase organisations and
  people. The state is the tables, the plan caches, the record of deliveries, and the seat limits and deletions sent to
  Clerk, in order. Statements that fail, the clock, Clerk's answers, parsers and the arithmetic of doubles are
  arguments. Timestamps are microseconds, or nanoseconds where \<open>Plans\<close> reads them.
\<close>

section \<open>Reading a subscription\<close>

definition plan_member_limit :: "string \<Rightarrow> int" where
  "plan_member_limit slug = (if slug = ''pro'' then 10 else if slug = ''pro_plus'' then 20 else 2)"

definition PAID_PLAN_SLUGS_WEBHOOK :: "string list" where
  "PAID_PLAN_SLUGS_WEBHOOK = [''pro'', ''pro_plus'']"

fun as_object :: "json \<Rightarrow> (string \<times> json) list option" where
  "as_object (Object m) = Some m"
| "as_object _ = None"

definition non_empty_str :: "json option \<Rightarrow> string option" where
  "non_empty_str v = (case Option.bind v as_str of Some s \<Rightarrow> if s = [] then None else Some s | None \<Rightarrow> None)"

definition payer_org :: "(string \<times> json) list \<Rightarrow> string option" where
  "payer_org data =
     non_empty_str (Option.bind (Option.bind (map_of data ''payer'') as_object) (\<lambda>m. map_of m ''organization_id''))"

text \<open>The slug and the status of an item that is an object and names a plan.\<close>

definition item_slug :: "json \<Rightarrow> string option" where
  "item_slug item =
     (case as_object item of
        None \<Rightarrow> None
      | Some m \<Rightarrow> non_empty_str (Option.bind (Option.bind (map_of m ''plan'') as_object) (\<lambda>p. map_of p ''slug'')))"

definition item_status :: "json \<Rightarrow> string" where
  "item_status item = (case Option.bind (json_get ''status'' item) as_str of Some s \<Rightarrow> s | None \<Rightarrow> [])"

fun active_slug_loop :: "(string \<Rightarrow> int option) \<Rightarrow> int \<Rightarrow> string option \<Rightarrow> json list \<Rightarrow> string" where
  "active_slug_loop parse now canceled [] = (case canceled of Some s \<Rightarrow> s | None \<Rightarrow> ''free_org'')"
| "active_slug_loop parse now canceled (item # items) =
     (case item_slug item of
        None \<Rightarrow> active_slug_loop parse now canceled items
      | Some slug \<Rightarrow>
          if item_status item = ''active'' then slug
          else if item_status item = ''canceled'' \<and> canceled = None
          then (case item_period_end_utc parse item of
                  Some period_end \<Rightarrow> active_slug_loop parse now (if period_end > now then Some slug else None) items
                | None \<Rightarrow> active_slug_loop parse now None items)
          else active_slug_loop parse now canceled items)"

definition active_plan_slug :: "(string \<Rightarrow> int option) \<Rightarrow> int \<Rightarrow> json list \<Rightarrow> string" where
  "active_plan_slug parse now items = active_slug_loop parse now None items"

definition has_active_item :: "json list \<Rightarrow> bool" where
  "has_active_item items = list_ex (\<lambda>item. item_status item = ''active'' \<and> item_slug item \<noteq> None) items"

section \<open>The time of a failed payment\<close>

datatype f64 = Finite rat | Infinite | NotANumber

text \<open>The doubles: an integer's, the quotient by 1000 and the product with a million, rounded.\<close>

record doubles =
  fd_of_int :: "int \<Rightarrow> rat"
  fd_div_1000 :: "rat \<Rightarrow> rat"
  fd_times_million :: "rat \<Rightarrow> rat"
  fd_parse :: "string \<Rightarrow> f64 option"

text \<open>\<open>6.776803619167679e16\<close>, as a double.\<close>

definition TM_YEAR_LIMIT_SECONDS :: rat where "TM_YEAR_LIMIT_SECONDS = 67768036191676792"

fun as_float :: "doubles \<Rightarrow> json \<Rightarrow> f64 option" where
  "as_float fd (IntNum n) = Some (Finite (fd_of_int fd n))"
| "as_float fd (FloatNum f) = Some (Finite f)"
| "as_float fd (Bool b) = Some (Finite (if b then 1 else 0))"
| "as_float fd (String s) = python_float (fd_parse fd) s"
| "as_float fd _ = None"

definition iso_aware_utc :: "calendar \<Rightarrow> int \<Rightarrow> string" where
  "iso_aware_utc cal t = iso_naive cal t @ ''+00:00''"

text \<open>\<open>f64::round\<close> takes a half away from zero.\<close>

definition round_away :: "rat \<Rightarrow> int" where
  "round_away r = (if r < 0 then - \<lfloor>- r + 1 / 2\<rfloor> else \<lfloor>r + 1 / 2\<rfloor>)"

definition stamp_of :: "calendar \<Rightarrow> doubles \<Rightarrow> (rat \<Rightarrow> string) \<Rightarrow> json \<Rightarrow> rat \<Rightarrow> api_error + string" where
  "stamp_of cal fd fl raw v0 =
     (let v = (if v0 > 1000000000000 then fd_div_1000 fd v0 else v0)
      in if \<bar>v\<bar> > TM_YEAR_LIMIT_SECONDS then Inl (internal (String ''past_due_at is out of range''))
         else
           (let micros = round_away (fd_times_million fd v)
            in if \<bar>micros\<bar> \<le> 2 ^ 63 \<and> 1 \<le> year_of cal micros \<and> year_of cal micros \<le> 9999
               then Inr (iso_aware_utc cal micros) else Inr (str_value fl raw)))"

definition past_due_stamp ::
  "calendar \<Rightarrow> doubles \<Rightarrow> (rat \<Rightarrow> string) \<Rightarrow> int \<Rightarrow> (string \<times> json) list \<Rightarrow> api_error + string" where
  "past_due_stamp cal fd fl now data =
     (let raw = (case map_of data ''past_due_at'' of
                   Some v \<Rightarrow> if json_truthy v then Some v else map_of data ''pastDueAt''
                 | None \<Rightarrow> map_of data ''pastDueAt'')
      in case raw of
           None \<Rightarrow> Inr (iso_aware_utc cal now)
         | Some v \<Rightarrow>
             if is_null v then Inr (iso_aware_utc cal now)
             else (case as_float fd v of
                     None \<Rightarrow> Inr (str_value fl v)
                   | Some NotANumber \<Rightarrow> Inr (str_value fl v)
                   | Some Infinite \<Rightarrow> Inl (internal (String ''past_due_at is out of range''))
                   | Some (Finite r) \<Rightarrow> stamp_of cal fd fl v r))"

section \<open>State\<close>

record billing =
  bl_tables :: tables
  bl_caches :: plan_caches
  bl_seats :: "(string \<times> int) list"
  bl_deletions :: "string list list"
  bl_processed :: "delivery_row list"

record 'z billing_env =
  be_note :: "'z note_env"
  be_hook_fails :: "hook_statement \<Rightarrow> bool"
  be_erase_fails :: "erase_statement \<Rightarrow> bool"
  be_secret :: "string option"
  be_from_slice :: "string \<Rightarrow> json option"
  be_lower :: "string \<Rightarrow> string"
  be_sql_lower :: "string \<Rightarrow> string"
  be_doubles :: doubles
  be_utc :: int
  be_rfc3339 :: "string \<Rightarrow> int option"
  be_naive :: "string \<Rightarrow> int option"
  be_subscription :: "string \<Rightarrow> json option"
  be_cameras_fail :: bool
  be_cap_ok :: "string \<Rightarrow> bool"
  be_clerk :: clerk

definition tables_step :: "(tables \<Rightarrow> tables) \<Rightarrow> billing \<Rightarrow> billing" where
  "tables_step g st = st\<lparr>bl_tables := g (bl_tables st)\<rparr>"

abbreviation "settings_of st \<equiv> nw_settings (world_of (bl_tables st))"

definition set_setting :: "'z billing_env \<Rightarrow> string \<Rightarrow> string \<Rightarrow> string \<Rightarrow> billing \<Rightarrow> billing" where
  "set_setting env org key v st = tables_step (world_map (put_setting (be_note env) org key v)) st"

definition setting_true :: "'z billing_env \<Rightarrow> string \<Rightarrow> string \<Rightarrow> billing \<Rightarrow> bool" where
  "setting_true env org key st \<longleftrightarrow> setting_or (be_note env) (settings_of st) org key (Some ''false'') = ''true''"

definition set_org_member_limit :: "'z billing_env \<Rightarrow> string \<Rightarrow> int \<Rightarrow> billing \<Rightarrow> billing" where
  "set_org_member_limit env org limit st =
     (case clerk_url (ck_build (be_clerk env)) [''organizations'', org] of
        None \<Rightarrow> st | Some _ \<Rightarrow> st\<lparr>bl_seats := bl_seats st @ [(org, limit)]\<rparr>)"

definition invalidate_plan :: "string \<Rightarrow> billing \<Rightarrow> billing" where
  "invalidate_plan org st = st\<lparr>bl_caches := invalidate_effective_plan_cache (Some org) (bl_caches st)\<rparr>"

text \<open>What \<open>Plans\<close> reads of the settings table.\<close>

definition plan_db :: "'z billing_env \<Rightarrow> string \<Rightarrow> billing \<Rightarrow> db_get" where
  "plan_db env org st key =
     (if ne_fails (be_note env) (GetSetting key) then None
      else Some (map_option st_value (find_setting org key (settings_of st))))"

definition caps_plan :: "'z billing_env \<Rightarrow> string \<Rightarrow> billing \<Rightarrow> string \<times> plan_caches \<times> string option" where
  "caps_plan env org st =
     effective_plan_for_caps (be_rfc3339 env) (be_naive env) (ne_is_local_auth (be_note env)) (plan_db env org st)
       (be_subscription env org) (ne_instant (be_note env)) (be_utc env) org False (bl_caches st)"

definition reenforce :: "'z billing_env \<Rightarrow> string \<Rightarrow> billing \<Rightarrow> (api_error + unit) \<times> billing" where
  "reenforce env org st =
     (let (slug, caches, found) = caps_plan env org st;
          st = st\<lparr>bl_caches := caches\<rparr>;
          st = (case found of Some live \<Rightarrow> set_setting env org ''org_plan'' live st | None \<Rightarrow> st)
      in if be_cameras_fail env then (Inl db_error, st)
         else
           (let (ok, f) = enforce_cap (be_cap_ok env) slug (ne_now (be_note env)) org (tb_fleet (bl_tables st))
            in (if ok then Inr () else Inl db_error, tables_step (fleet_map (\<lambda>_. f)) st)))"

section \<open>The branches\<close>

definition subscription_snapshot :: "'z billing_env \<Rightarrow> string \<Rightarrow> (string \<times> json) list \<Rightarrow> billing \<Rightarrow> (api_error + unit) \<times> billing" where
  "subscription_snapshot env org data st =
     (let items = (case Option.bind (map_of data ''items'') as_array of Some xs \<Rightarrow> xs | None \<Rightarrow> []);
          slug = active_plan_slug (be_rfc3339 env) (be_utc env) items;
          st = set_org_member_limit env org (plan_member_limit slug) st;
          st = set_setting env org ''org_plan'' slug st;
          st = (if slug \<in> set PAID_PLAN_SLUGS_WEBHOOK
                then
                  (let st = (if \<not> setting_true env org ''payment_past_due'' st
                             then set_setting env org ''payment_past_due_at'' []
                                    (set_setting env org ''payment_past_due'' ''false'' st)
                             else st)
                   in if has_active_item items then set_setting env org ''plan_cancel_pending'' [] st else st)
                else st)
      in reenforce env org (invalidate_plan org st))"

definition item_activated :: "'z billing_env \<Rightarrow> string \<Rightarrow> string \<Rightarrow> billing \<Rightarrow> (api_error + unit) \<times> billing" where
  "item_activated env org slug st =
     (if slug \<in> {''free_org'', ''pro'', ''pro_plus''}
      then
        (let st = set_org_member_limit env org (plan_member_limit slug) st;
             st = set_setting env org ''org_plan'' slug st;
             st = set_setting env org ''plan_cancel_pending'' [] st;
             st = (if slug \<in> set PAID_PLAN_SLUGS_WEBHOOK
                   then set_setting env org ''payment_past_due_at'' [] (set_setting env org ''payment_past_due'' ''false'' st)
                   else st)
         in reenforce env org (invalidate_plan org st))
      else (Inr (), st))"

definition past_due :: "'z billing_env \<Rightarrow> string \<Rightarrow> (string \<times> json) list \<Rightarrow> billing \<Rightarrow> (api_error + unit) \<times> billing" where
  "past_due env org data st =
     (let enter = (\<lambda>st. invalidate_plan org (set_setting env org ''payment_past_due'' ''true'' st))
      in if setting_true env org ''payment_past_due'' st then (Inr (), enter st)
         else case past_due_stamp (ne_cal (be_note env)) (be_doubles env) (ne_fl (be_note env)) (ne_now (be_note env)) data of
             Inl e \<Rightarrow> (Inl e, st)
           | Inr stamp \<Rightarrow> (Inr (), set_setting env org ''payment_past_due_at'' stamp (enter st)))"

definition payment_attempt :: "'z billing_env \<Rightarrow> string \<Rightarrow> (string \<times> json) list \<Rightarrow> billing \<Rightarrow> (api_error + unit) \<times> billing" where
  "payment_attempt env org data st =
     (if Option.bind (map_of data ''status'') as_str = Some ''paid''
      then reenforce env org (invalidate_plan org
             (set_setting env org ''payment_past_due_at'' [] (set_setting env org ''payment_past_due'' ''false'' st)))
      else (Inr (), st))"

definition item_ended :: "'z billing_env \<Rightarrow> string \<Rightarrow> billing \<Rightarrow> (api_error + unit) \<times> billing" where
  "item_ended env org st =
     (let live = (case fetch_live_plan_slug (be_rfc3339 env) (be_utc env) (be_subscription env org) of
                    Some s \<Rightarrow> s | None \<Rightarrow> ''free_org'');
          st = set_org_member_limit env org (plan_member_limit live) st;
          st = set_setting env org ''org_plan'' live st;
          st = set_setting env org ''plan_cancel_pending'' [] st;
          st = set_setting env org ''payment_past_due'' ''false'' st
      in reenforce env org (invalidate_plan org st))"

definition announce :: "'z billing_env \<Rightarrow> string \<Rightarrow> new_notification \<Rightarrow> billing \<Rightarrow> billing" where
  "announce env org n st = tables_step (world_map (\<lambda>w. snd (create_notification (be_note env) org n w))) st"

definition truthy_object :: "json option \<Rightarrow> (string \<times> json) list" where
  "truthy_object v =
     (case v of Some j \<Rightarrow> if json_truthy j then (case as_object j of Some m \<Rightarrow> m | None \<Rightarrow> []) else [] | None \<Rightarrow> [])"

definition member_identifier :: "(string \<times> json) list \<Rightarrow> string" where
  "member_identifier user =
     (case non_empty_str (map_of user ''identifier'') of
        Some s \<Rightarrow> s
      | None \<Rightarrow> (case non_empty_str (map_of user ''user_id'') of Some s \<Rightarrow> s | None \<Rightarrow> ''unknown user''))"

definition member_role :: "(string \<times> json) list \<Rightarrow> string" where
  "member_role data =
     (let raw = (case map_of data ''role'' of
                   Some v \<Rightarrow> if json_truthy v then (case as_str v of Some s \<Rightarrow> s | None \<Rightarrow> []) else [] | None \<Rightarrow> []);
          role = replace_str ''org:'' [] raw
      in if role = [] then ''member'' else role)"

definition apostrophe :: string where "apostrophe = [CHR 0x27]"
definition em_dash :: string where "em_dash = [CHR 0xE2, CHR 0x80, CHR 0x94]"

definition membership_note :: "string \<Rightarrow> (string \<times> json) list \<Rightarrow> (string \<times> json) list \<Rightarrow> new_notification" where
  "membership_note event_type user data =
     (let who = member_identifier user; role = member_role data;
          user_id = (case map_of user ''user_id'' of Some v \<Rightarrow> v | None \<Rightarrow> Null);
          severity = (if role = ''admin'' then ''warning'' else ''info'');
          n = (if event_type = ''organizationMembership.created''
               then (notification_new ''member_added'' (''Member added: '' @ who))
                    \<lparr>nn_body := who @ '' was just added to your organization with the '' @ role @ '' role.  '' @
                       ''If this was via an invite you sent, no action needed.  If you don'' @ apostrophe @ ''t '' @
                       ''recognize this user, audit the org'' @ apostrophe @ ''s member list and remove any '' @
                       ''unexpected accounts.'',
                     nn_severity := severity,
                     nn_meta := Some (Object [(''user_id'', user_id), (''identifier'', String who), (''role'', String role)])\<rparr>
               else if event_type = ''organizationMembership.updated''
               then (notification_new ''member_role_changed'' (''Member role changed: '' @ who))
                    \<lparr>nn_body := who @ apostrophe @ ''s role in your organization is now '' @ role @ ''.  Role changes '' @ em_dash @
                       '' especially promotions to admin '' @ em_dash @ '' are security-relevant.  If you didn'' @ apostrophe @ ''t '' @
                       ''authorize this change, audit your org'' @ apostrophe @ ''s member list immediately.'',
                     nn_severity := severity,
                     nn_meta := Some (Object [(''user_id'', user_id), (''identifier'', String who), (''new_role'', String role)])\<rparr>
               else (notification_new ''member_removed'' (''Member removed: '' @ who))
                    \<lparr>nn_body := who @ '' was just removed from your organization.  No further access '' @
                       ''from this user.  If you didn'' @ apostrophe @ ''t expect this removal, audit the org'' @ apostrophe @ ''s recent '' @
                       ''admin activity.'',
                     nn_severity := ''info'',
                     nn_meta := Some (Object [(''user_id'', user_id), (''identifier'', String who)])\<rparr>)
      in n\<lparr>nn_audience := ''admin'', nn_link := Some ''/settings''\<rparr>)"

definition membership_notification :: "'z billing_env \<Rightarrow> string \<Rightarrow> (string \<times> json) list \<Rightarrow> billing \<Rightarrow> billing" where
  "membership_notification env event_type data st =
     (let org = truthy_object (map_of data ''organization''); user = truthy_object (map_of data ''public_user_data'')
      in case non_empty_str (map_of org ''id'') of
           None \<Rightarrow> st
         | Some org_id \<Rightarrow> announce env org_id (membership_note event_type user data) st)"

text \<open>A membership that ended because the account was deleted; the answers of the statements are logged only.\<close>

definition erase_if_account_gone :: "'z billing_env \<Rightarrow> (string \<times> json) list \<Rightarrow> billing \<Rightarrow> billing" where
  "erase_if_account_gone env data st =
     (let user = map_of data ''public_user_data''
      in case non_empty_str (Option.bind user (json_get ''user_id'')) of
           None \<Rightarrow> st
         | Some user_id \<Rightarrow>
             if user_exists (be_clerk env) user_id \<noteq> Inr False then st
             else
               (let recorded = (case recorded_emails (be_lower env) (be_erase_fails env) user_id (bl_tables st) of
                                  Some es \<Rightarrow> es | None \<Rightarrow> []);
                    identifier = Option.bind (Option.bind user (json_get ''identifier'')) as_str;
                    emails = (case identifier of
                                Some s \<Rightarrow> if CHR ''@'' \<in> set s then recorded @ [be_lower env s] else recorded
                              | None \<Rightarrow> recorded)
                in tables_step (\<lambda>t. snd (erase_user_data (be_lower env) (be_sql_lower env) (be_erase_fails env) user_id emails t)) st))"

definition delete_org_if_empty :: "'z billing_env \<Rightarrow> (string \<times> json) list \<Rightarrow> billing \<Rightarrow> billing" where
  "delete_org_if_empty env data st =
     (case non_empty_str (Option.bind (map_of data ''organization'') (json_get ''id'')) of
        None \<Rightarrow> st
      | Some org_id \<Rightarrow>
          if organization_member_count (be_clerk env) org_id = Inr 0
          then st\<lparr>bl_deletions := snd (clerk_delete (be_clerk env) [''organizations'', org_id] (bl_deletions st))\<rparr>
          else st)"

definition welcome_note :: "string \<Rightarrow> (string \<times> json) list \<Rightarrow> new_notification" where
  "welcome_note org_name data =
     (notification_new ''welcome'' (''Welcome to Sentinel, '' @ org_name))
       \<lparr>nn_body := ''Your Sentinel workspace is ready.  Three steps to your '' @
          ''first live feed: in Settings, click Add Your First Node; run the install '' @
          ''command it shows on the computer your cameras are plugged into; your '' @
          ''cameras appear on the dashboard within about a minute.  Full docs at '' @
          ''https://sentinel-command.com/documentation/.'',
        nn_audience := ''admin'', nn_link := Some ''/dashboard'',
        nn_meta := Some (Object [(''org_name'', String org_name),
          (''created_by'', case map_of data ''created_by'' of Some v \<Rightarrow> v | None \<Rightarrow> Null)])\<rparr>"

definition organization_created :: "'z billing_env \<Rightarrow> (string \<times> json) list \<Rightarrow> billing \<Rightarrow> billing" where
  "organization_created env data st =
     (case non_empty_str (map_of data ''id'') of
        None \<Rightarrow> st
      | Some org \<Rightarrow>
          announce env org
            (welcome_note (case non_empty_str (map_of data ''name'') of Some n \<Rightarrow> n | None \<Rightarrow> ''your organization'') data) st)"

definition organization_deleted :: "'z billing_env \<Rightarrow> (string \<times> json) list \<Rightarrow> billing \<Rightarrow> (api_error + unit) \<times> billing" where
  "organization_deleted env data st =
     (case non_empty_str (map_of data ''id'') of
        None \<Rightarrow> (Inr (), st)
      | Some org \<Rightarrow>
          (let (r, t) = erase_org (be_erase_fails env) org (bl_tables st) in (r, st\<lparr>bl_tables := t\<rparr>)))"

definition user_deleted :: "'z billing_env \<Rightarrow> (string \<times> json) list \<Rightarrow> billing \<Rightarrow> (api_error + unit) \<times> billing" where
  "user_deleted env data st =
     (case non_empty_str (map_of data ''id'') of
        None \<Rightarrow> (Inr (), st)
      | Some user \<Rightarrow>
          (case recorded_emails (be_lower env) (be_erase_fails env) user (bl_tables st) of
             None \<Rightarrow> (Inl db_error, st)
           | Some emails \<Rightarrow>
               (let (r, t) = erase_user_data (be_lower env) (be_sql_lower env) (be_erase_fails env) user emails (bl_tables st)
                in (if r = None then Inl db_error else Inr (), st\<lparr>bl_tables := t\<rparr>))))"

definition for_payer ::
  "(string \<times> json) list \<Rightarrow> (string \<Rightarrow> billing \<Rightarrow> (api_error + unit) \<times> billing) \<Rightarrow> billing \<Rightarrow> (api_error + unit) \<times> billing" where
  "for_payer data f st = (case payer_org data of Some org \<Rightarrow> f org st | None \<Rightarrow> (Inr (), st))"

definition SUBSCRIPTION_EVENTS :: "string list" where
  "SUBSCRIPTION_EVENTS = [''subscription.created'', ''subscription.updated'', ''subscription.active'']"

definition PAST_DUE_EVENTS :: "string list" where
  "PAST_DUE_EVENTS = [''subscription.pastDue'', ''subscriptionItem.pastDue'']"

definition MEMBERSHIP_EVENTS :: "string list" where
  "MEMBERSHIP_EVENTS =
     [''organizationMembership.created'', ''organizationMembership.updated'', ''organizationMembership.deleted'']"

definition HANDLED_EVENTS :: "string list" where
  "HANDLED_EVENTS = SUBSCRIPTION_EVENTS @ PAST_DUE_EVENTS @ MEMBERSHIP_EVENTS @
     [''subscriptionItem.active'', ''paymentAttempt.updated'', ''subscriptionItem.canceled'', ''subscriptionItem.ended'',
      ''subscriptionItem.freeTrialEnding'', ''organization.created'', ''organization.deleted'', ''user.deleted'']"

definition branch :: "'z billing_env \<Rightarrow> string \<Rightarrow> (string \<times> json) list \<Rightarrow> billing \<Rightarrow> (api_error + unit) \<times> billing" where
  "branch env event_type data st =
     (if event_type \<in> set SUBSCRIPTION_EVENTS then for_payer data (\<lambda>org. subscription_snapshot env org data) st
      else if event_type = ''subscriptionItem.active''
        then (case Option.bind (Option.bind (Option.bind (map_of data ''plan'') as_object) (\<lambda>p. map_of p ''slug'')) as_str of
                Some slug \<Rightarrow> for_payer data (\<lambda>org. item_activated env org slug) st
              | None \<Rightarrow> (Inr (), st))
      else if event_type \<in> set PAST_DUE_EVENTS then for_payer data (\<lambda>org. past_due env org data) st
      else if event_type = ''paymentAttempt.updated'' then for_payer data (\<lambda>org. payment_attempt env org data) st
      else if event_type = ''subscriptionItem.canceled''
        then for_payer data (\<lambda>org st. (Inr (), set_setting env org ''plan_cancel_pending'' ''true'' st)) st
      else if event_type = ''subscriptionItem.ended'' then for_payer data (\<lambda>org. item_ended env org) st
      else if event_type \<in> set MEMBERSHIP_EVENTS
        then (let st = membership_notification env event_type data st
              in (Inr (), if event_type = ''organizationMembership.deleted''
                          then delete_org_if_empty env data (erase_if_account_gone env data st) else st))
      else if event_type = ''organization.created'' then (Inr (), organization_created env data st)
      else if event_type = ''organization.deleted'' then organization_deleted env data st
      else if event_type = ''user.deleted'' then user_deleted env data st
      else (Inr (), st))"

text \<open>A branch that reads the data of an event without an object there is an error.\<close>

definition dispatch ::
  "'z billing_env \<Rightarrow> string \<Rightarrow> (string \<times> json) list option \<Rightarrow> billing \<Rightarrow> (api_error + unit) \<times> billing" where
  "dispatch env event_type data st =
     (if event_type \<notin> set HANDLED_EVENTS then (Inr (), st)
      else case data of
          None \<Rightarrow> (Inl (internal (String ''webhook data is not an object'')), st)
        | Some m \<Rightarrow> branch env event_type m st)"

section \<open>The handler\<close>

definition record_processed :: "'z billing_env \<Rightarrow> string \<Rightarrow> string \<Rightarrow> billing \<Rightarrow> (api_error + unit) \<times> billing" where
  "record_processed env msg_id event_type st =
     (if msg_id = [] then (Inr (), st)
      else if be_hook_fails env RecordDelivery then (Inl db_error, st)
      else (Inr (), st\<lparr>bl_processed := record_delivery False (ne_now (be_note env)) msg_id event_type (bl_processed st)\<rparr>))"

definition act_on :: "'z billing_env \<Rightarrow> string \<Rightarrow> (string \<times> json) list \<Rightarrow> billing \<Rightarrow> (api_error + json) \<times> billing" where
  "act_on env msg_id event st =
     (let event_type = (case Option.bind (map_of event ''type'') as_str of Some s \<Rightarrow> s | None \<Rightarrow> []);
          data = as_object (case map_of event ''data'' of Some v \<Rightarrow> v | None \<Rightarrow> Object [])
      in if msg_id \<noteq> [] \<and> be_hook_fails env SeenLookup then (Inl db_error, st)
         else if msg_id \<noteq> [] \<and> (\<exists>d \<in> set (bl_processed st). dv_msg_id d = msg_id)
         then (Inr (Object [(''status'', String ''duplicate''), (''svix_id'', String msg_id)]), st)
         else case dispatch env event_type data st of
             (Inl e, st) \<Rightarrow> (Inl e, st)
           | (Inr _, st) \<Rightarrow>
               (case record_processed env msg_id event_type st of
                  (Inl e, st) \<Rightarrow> (Inl e, st)
                | (Inr _, st) \<Rightarrow> (Inr (Object [(''received'', Bool True)]), st)))"

definition clerk_webhook ::
  "'z billing_env \<Rightarrow> api_error + unit \<Rightarrow> int \<Rightarrow> headers \<Rightarrow> string \<Rightarrow> billing \<Rightarrow> (api_error + json) \<times> billing" where
  "clerk_webhook env rate now_secs headers body st =
     (case rate of
        Inl e \<Rightarrow> (Inl e, st)
      | Inr _ \<Rightarrow>
          (case be_secret env of
             None \<Rightarrow> (Inl (bad_request (String ''Webhook processing unavailable'')), st)
           | Some secret \<Rightarrow>
               if \<not> verify_svix (ne_sha (be_note env)) secret headers body now_secs
               then (Inl (bad_request (String ''Invalid signature'')), st)
               else case be_from_slice env body of
                   Some (Object event) \<Rightarrow> act_on env (header_either headers ''svix-id'' ''webhook-id'') event st
                 | _ \<Rightarrow> (Inl (bad_request (String ''Malformed payload'')), st)))"

section \<open>A snapshot and the live lookup agree\<close>

lemma object_get: "Option.bind (as_object j) (\<lambda>p. Option.bind (map_of p k) g) = Option.bind (json_get k j) g"
  by (cases j) simp_all

lemma item_slug_json:
  "item_slug item =
    (case Option.bind (Option.bind (json_get ''plan'' item) (json_get ''slug'')) as_str of
       Some s \<Rightarrow> if s = [] then None else Some s | None \<Rightarrow> None)"
  by (cases item) (simp_all add: item_slug_def non_empty_str_def object_get)

lemma active_slug_entitled: "active_slug_loop parse now canceled items = entitled_loop parse now canceled items"
proof (induction items arbitrary: canceled)
  case (Cons item items)
  have st: "item_status item = s \<longleftrightarrow> Option.bind (json_get ''status'' item) as_str = Some s" if "s \<noteq> []" for s
    using that by (auto simp: item_status_def split: option.splits)
  show ?case
    using Cons by (auto simp: item_slug_json Let_def st split: option.splits)
qed simp

lemma snapshot_agrees_with_lookup:
  "active_plan_slug parse now items =
    (case fetch_live_plan_slug parse now (Some (Object [(''subscription_items'', Array items)])) of Some s \<Rightarrow> s | None \<Rightarrow> [])"
  by (simp add: active_plan_slug_def active_slug_entitled fetch_live_plan_slug_def)

section \<open>The grace clock\<close>

definition DEBT_KEYS :: "string list" where
  "DEBT_KEYS = [''payment_past_due'', ''payment_past_due_at'']"

text \<open>The organisation is past due, since the time \<open>v\<close>.\<close>

definition in_debt :: "string \<Rightarrow> string \<Rightarrow> billing \<Rightarrow> bool" where
  "in_debt org v st \<longleftrightarrow> settings_ok (settings_of st) \<and>
     stored (settings_of st) (org, ''payment_past_due'') = Some (Some ''true'') \<and>
     stored (settings_of st) (org, ''payment_past_due_at'') = Some (Some v)"

text \<open>The deliveries that end a debt, or the organisation.\<close>

definition releases :: "string \<Rightarrow> string \<Rightarrow> (string \<times> json) list option \<Rightarrow> bool" where
  "releases org event_type data =
     (case data of
        None \<Rightarrow> False
      | Some m \<Rightarrow>
          (payer_org m = Some org \<and>
            (event_type = ''subscriptionItem.ended'' \<or>
             event_type = ''paymentAttempt.updated'' \<and> Option.bind (map_of m ''status'') as_str = Some ''paid'' \<or>
             event_type = ''subscriptionItem.active'')) \<or>
          (event_type = ''organization.deleted'' \<and> non_empty_str (map_of m ''id'') = Some org))"

lemma settings_of_set:
  "settings_of (set_setting env o1 k x st) =
    (if ne_fails (be_note env) (SetSetting k) then settings_of st
     else write_setting (ne_now (be_note env)) o1 k x (settings_of st))"
  by (simp add: set_setting_def tables_step_def put_setting_def set_ignoring_def settings_set_def)

lemma stored_set:
  assumes "settings_ok (settings_of st)"
  shows "settings_ok (settings_of (set_setting env o1 k x st))"
    "stored (settings_of (set_setting env o1 k x st)) key =
      (if key = (o1, k) \<and> \<not> ne_fails (be_note env) (SetSetting k) then Some (Some x) else stored (settings_of st) key)"
  using assms by (simp_all add: settings_of_set settings_ok_write stored_write)

lemma held_set:
  assumes "in_debt org v st" "o1 \<noteq> org \<or> k \<notin> set DEBT_KEYS \<or> (k = ''payment_past_due'' \<and> x = ''true'')"
  shows "in_debt org v (set_setting env o1 k x st)"
  using assms by (auto simp: in_debt_def stored_set DEBT_KEYS_def)

lemma held_cong: "in_debt org v st \<Longrightarrow> settings_of st' = settings_of st \<Longrightarrow> in_debt org v st'"
  by (simp add: in_debt_def)

lemma settings_of_frames [simp]:
  "settings_of (set_org_member_limit env o1 n st) = settings_of st"
  "settings_of (invalidate_plan o1 st) = settings_of st"
  "settings_of (st\<lparr>bl_caches := c\<rparr>) = settings_of st"
  "settings_of (st\<lparr>bl_deletions := d\<rparr>) = settings_of st"
  by (simp_all add: set_org_member_limit_def invalidate_plan_def split: option.split)

lemma setting_true_iff:
  assumes "\<not> ne_fails (be_note env) (GetSetting key)"
  shows "setting_true env org key st \<longleftrightarrow> stored (settings_of st) (org, key) = Some (Some ''true'')"
  using assms by (auto simp: setting_true_def setting_or_def settings_get_stored split: option.splits)

lemma enforce_cap_world: "fl_world (snd (enforce_cap ok plan now org f)) = fl_world f"
  by (simp add: enforce_cap_def split: prod.splits)

lemma held_reenforce:
  assumes "in_debt org v st"
  shows "in_debt org v (snd (reenforce env o1 st))"
proof -
  obtain slug caches found where p: "caps_plan env o1 st = (slug, caches, found)" by (metis prod_cases3)
  define st1 where "st1 = (case found of Some live \<Rightarrow> set_setting env o1 ''org_plan'' live (st\<lparr>bl_caches := caches\<rparr>) | None \<Rightarrow> st\<lparr>bl_caches := caches\<rparr>)"
  have "in_debt org v (st\<lparr>bl_caches := caches\<rparr>)" using assms by (rule held_cong) simp
  then have "in_debt org v st1" by (auto simp: st1_def DEBT_KEYS_def intro!: held_set split: option.split)
  moreover have "settings_of (snd (reenforce env o1 st)) = settings_of st1"
    using enforce_cap_world [of "be_cap_ok env" slug "ne_now (be_note env)" o1 "tb_fleet (bl_tables st1)"]
    by (cases "enforce_cap (be_cap_ok env) slug (ne_now (be_note env)) o1 (tb_fleet (bl_tables st1))")
      (simp add: reenforce_def p Let_def st1_def [symmetric] tables_step_def)
  ultimately show ?thesis by (rule held_cong)
qed

lemma create_notification_settings:
  assumes "nn_kind n \<noteq> ''motion''"
  shows "nw_settings (snd (create_notification ne org n w)) = nw_settings w"
  using assms
  by (simp add: create_notification_def email_channel_def dispatch_agent_def enqueue_email_frame row_of_def Let_def split: prod.splits)

lemma announce_settings: "nn_kind n \<noteq> ''motion'' \<Longrightarrow> settings_of (announce env org n st) = settings_of st"
  by (simp add: announce_def tables_step_def create_notification_settings)

lemma membership_settings: "settings_of (membership_notification env event_type data st) = settings_of st"
  by (simp add: membership_notification_def announce_settings membership_note_def notification_new_def Let_def split: option.split)

lemma created_settings: "settings_of (organization_created env data st) = settings_of st"
  by (simp add: organization_created_def announce_settings welcome_note_def notification_new_def split: option.split)

lemma erase_user_settings: "nw_settings (world_of (snd (erase_user_data lower sql_lower fails user emails t))) = nw_settings (world_of t)"
  using erase_user_data_cases [of lower sql_lower fails user emails t] erased_keeps(1)
  by (cases "erase_user_data lower sql_lower fails user emails t") auto

lemma gone_settings: "settings_of (erase_if_account_gone env data st) = settings_of st"
  by (simp add: erase_if_account_gone_def tables_step_def erase_user_settings Let_def split: option.split)

lemma empty_settings: "settings_of (delete_org_if_empty env data st) = settings_of st"
  by (simp add: delete_org_if_empty_def split: option.split)

lemma user_deleted_settings: "settings_of (snd (user_deleted env data st)) = settings_of st"
  using erase_user_settings [of "be_lower env" "be_sql_lower env" "be_erase_fails env" _ _ "bl_tables st"]
  by (auto simp: user_deleted_def split: option.split prod.split) (metis snd_conv)

lemma erase_org_settings:
  "nw_settings (world_of (snd (erase_org fails o1 t))) = nw_settings (world_of t) \<or>
   nw_settings (world_of (snd (erase_org fails o1 t))) = filter (\<lambda>r. st_org r \<noteq> o1) (nw_settings (world_of t))"
proof -
  obtain r t' where e: "erase_org fails o1 t = (r, t')" by force
  then have "nw_settings (world_of t') = nw_settings (world_of t) \<or>
      nw_settings (world_of t') = filter (\<lambda>r. st_org r \<noteq> o1) (nw_settings (world_of t))"
    by (cases rule: erase_org_cases)
      (auto simp: cleaned_def hls_map_def forget_org_def fold_delete_columns emptied_columns dest!: delete_org_data_Some)
  then show ?thesis by (simp add: e)
qed

lemma find_setting_filter: "org \<noteq> o1 \<Longrightarrow> find_setting org k (filter (\<lambda>r. st_org r \<noteq> o1) rows) = find_setting org k rows"
  by (induction rows) (auto simp: find_setting_def)

lemma held_deleted:
  assumes "in_debt org v st" "non_empty_str (map_of data ''id'') \<noteq> Some org"
  shows "in_debt org v (snd (organization_deleted env data st))"
proof (cases "non_empty_str (map_of data ''id'')")
  case (Some o1)
  let ?t = "snd (erase_org (be_erase_fails env) o1 (bl_tables st))"
  have "settings_of (snd (organization_deleted env data st)) = nw_settings (world_of ?t)"
    by (simp add: organization_deleted_def Some split: prod.split)
  moreover have "settings_ok (filter P rows)" if "settings_ok rows" for P rows
    using that by (simp add: settings_ok_def distinct_map_filter)
  ultimately show ?thesis
    using erase_org_settings [of "be_erase_fails env" o1 "bl_tables st"] assms Some
    by (auto simp: in_debt_def stored_def find_setting_filter)
qed (use assms in \<open>simp add: organization_deleted_def\<close>)

lemma in_debt_true:
  "in_debt org v st \<Longrightarrow> \<not> ne_fails (be_note env) (GetSetting ''payment_past_due'') \<Longrightarrow> setting_true env org ''payment_past_due'' st"
  by (simp add: setting_true_iff in_debt_def)

lemma debt_simps [simp]:
  "in_debt org v (set_org_member_limit env o1 n st) = in_debt org v st" "in_debt org v (invalidate_plan o1 st) = in_debt org v st"
  by (simp_all add: in_debt_def)

lemma debt_snapshot:
  assumes "in_debt org v st" "\<not> ne_fails (be_note env) (GetSetting ''payment_past_due'')"
  shows "in_debt org v (snd (subscription_snapshot env o1 data st))"
proof -
  have free: "in_debt org v (set_setting env o1 k x s)" if "in_debt org v s" "k \<in> {''org_plan'', ''plan_cancel_pending''}" for k x s
    using that by (intro held_set) (auto simp: DEBT_KEYS_def)
  have other: "in_debt org v (set_setting env o1 k x s)" if "in_debt org v s" "o1 \<noteq> org" for k x s
    using that by (intro held_set) auto
  have "in_debt org v (if \<not> setting_true env o1 ''payment_past_due'' s
      then set_setting env o1 ''payment_past_due_at'' [] (set_setting env o1 ''payment_past_due'' ''false'' s) else s)"
    if "in_debt org v s" for s
    using that other in_debt_true [OF that assms(2)] by (cases "o1 = org") auto
  then show ?thesis
    unfolding subscription_snapshot_def Let_def by (intro held_reenforce) (simp add: free assms(1))
qed

lemma debt_past_due:
  assumes "in_debt org v st" "\<not> ne_fails (be_note env) (GetSetting ''payment_past_due'')"
  shows "in_debt org v (snd (past_due env o1 data st))"
proof -
  have e: "in_debt org v (invalidate_plan o1 (set_setting env o1 ''payment_past_due'' ''true'' st))"
    using assms(1) by (auto intro: held_set)
  show ?thesis
  proof (cases "o1 = org")
    case True
    then show ?thesis using e in_debt_true [OF assms] by (simp add: past_due_def Let_def)
  next
    case False
    then show ?thesis using e assms(1) by (auto simp: past_due_def Let_def intro!: held_set split: sum.split)
  qed
qed

lemma debt_other_payer:
  assumes "in_debt org v st" "o1 \<noteq> org"
  shows "in_debt org v (snd (item_activated env o1 slug st))" "in_debt org v (snd (payment_attempt env o1 data st))"
    "in_debt org v (snd (item_ended env o1 st))"
  using assms
  by (auto simp: item_activated_def payment_attempt_def item_ended_def Let_def intro!: held_reenforce held_set)

lemma debt_branch:
  assumes "in_debt org v st" "\<not> releases org event_type (Some data)"
    and "\<not> ne_fails (be_note env) (GetSetting ''payment_past_due'')"
  shows "in_debt org v (snd (branch env event_type data st))"
proof -
  have payer: "in_debt org v (snd (for_payer data f st))"
    if "\<And>o1. payer_org data = Some o1 \<Longrightarrow> in_debt org v (snd (f o1 st))" for f
    using that assms(1) by (cases "payer_org data") (simp_all add: for_payer_def)
  have 1: "in_debt org v (snd (for_payer data (\<lambda>o1. subscription_snapshot env o1 data) st))"
    "in_debt org v (snd (for_payer data (\<lambda>o1. past_due env o1 data) st))"
    using debt_snapshot [OF assms(1,3)] debt_past_due [OF assms(1,3)] by (simp_all add: payer)
  have 2: "in_debt org v (snd (for_payer data (\<lambda>o1. item_activated env o1 slug) st))"
    if "event_type = ''subscriptionItem.active''" for slug
    using that assms by (intro payer debt_other_payer(1)) (auto simp: releases_def)
  have 3: "in_debt org v (snd (for_payer data (\<lambda>o1. item_ended env o1) st))" if "event_type = ''subscriptionItem.ended''"
    using that assms by (intro payer debt_other_payer(3)) (auto simp: releases_def)
  have 4: "in_debt org v (snd (for_payer data (\<lambda>o1. payment_attempt env o1 data) st))" if "event_type = ''paymentAttempt.updated''"
  proof (rule payer)
    fix o1 assume "payer_org data = Some o1"
    then show "in_debt org v (snd (payment_attempt env o1 data st))"
      using that assms(1,2) debt_other_payer(2) [OF assms(1), of o1 env data] by (cases "o1 = org") (auto simp: releases_def payment_attempt_def)
  qed
  have 5: "in_debt org v (snd (for_payer data (\<lambda>o1 st. (Inr (), set_setting env o1 ''plan_cancel_pending'' ''true'' st)) st))"
    using assms(1) by (intro payer) (auto simp: DEBT_KEYS_def intro: held_set)
  have 6: "in_debt org v (let st = membership_notification env event_type data st
      in if b then delete_org_if_empty env data (erase_if_account_gone env data st) else st)" for b
    by (rule held_cong [OF assms(1)]) (simp add: membership_settings gone_settings empty_settings Let_def)
  have 7: "in_debt org v (organization_created env data st)" "in_debt org v (snd (user_deleted env data st))"
    by (rule held_cong [OF assms(1)], simp add: created_settings user_deleted_settings)+
  have 8: "in_debt org v (snd (organization_deleted env data st))" if "event_type = ''organization.deleted''"
    using that assms(1,2) by (intro held_deleted) (auto simp: releases_def)
  show ?thesis
    unfolding branch_def Let_def
    using 1 2 3 4 5 6 [unfolded Let_def] 7 8 assms(1) by (simp split: option.split)
qed

type_synonym 'z clerk_event = "'z billing_env \<times> string \<times> (string \<times> json) list option"

definition run_events :: "'z clerk_event list \<Rightarrow> billing \<Rightarrow> billing" where
  "run_events events st = fold (\<lambda>(env, event_type, data) st. snd (dispatch env event_type data st)) events st"

lemma debt_events:
  assumes "in_debt org v st"
    and "\<forall>(env, event_type, data) \<in> set events. \<not> releases org event_type data \<and>
      \<not> ne_fails (be_note env) (GetSetting ''payment_past_due'')"
  shows "in_debt org v (run_events events st)"
  using assms
proof (induction events arbitrary: st)
  case (Cons e events)
  obtain env event_type data where e: "e = (env, event_type, data)" by (metis prod_cases3)
  have "in_debt org v (snd (dispatch env event_type data st))"
    using Cons.prems debt_branch by (auto simp: e dispatch_def split: option.split)
  then show ?case using Cons by (simp add: run_events_def e)
qed (simp add: run_events_def)

lemma debt_entered:
  assumes "settings_ok (settings_of st)" "event_type \<in> set PAST_DUE_EVENTS" "payer_org data = Some org"
    and "\<not> setting_true env org ''payment_past_due'' st"
    and "past_due_stamp (ne_cal (be_note env)) (be_doubles env) (ne_fl (be_note env)) (ne_now (be_note env)) data = Inr v"
    and "\<forall>k. \<not> ne_fails (be_note env) (SetSetting k)"
  shows "in_debt org v (snd (dispatch env event_type (Some data) st))"
proof -
  have b: "dispatch env event_type (Some data) st = past_due env org data st"
    using assms(2,3) by (auto simp: dispatch_def HANDLED_EVENTS_def branch_def PAST_DUE_EVENTS_def SUBSCRIPTION_EVENTS_def for_payer_def)
  show ?thesis
    unfolding b past_due_def Let_def using assms(1,4,5,6)
    by (simp add: in_debt_def stored_set)
qed

lemma debt_plan:
  assumes "in_debt org v st" "\<forall>s. \<not> ne_fails (be_note env) s" "\<not> ne_is_local_auth (be_note env)"
    and "v \<noteq> []" "parse_past_due_at (be_rfc3339 env) (be_naive env) v = Some dt"
  shows "grace_plan (be_rfc3339 env) (be_naive env) (ne_is_local_auth (be_note env)) (plan_db env org st) utc nominal =
    (if utc - dt > days PAYMENT_GRACE_DAYS then ''free_org'' else nominal)"
proof -
  have "setting (plan_db env org st) key d = (case stored (settings_of st) (org, key) of Some (Some s) \<Rightarrow> s | Some None \<Rightarrow> [] | None \<Rightarrow> d)"
    for key d using assms(2) by (auto simp: setting_def plan_db_def stored_def split: option.split)
  then show ?thesis using assms(1,3,4,5) by (simp add: grace_plan_def in_debt_def)
qed

text \<open>
  C2. The grace clock runs from the first failed payment and nothing but a payment, a new or an ended plan
  or the end of the organisation stops it: once an event has stamped the time, any sequence of deliveries
  without one of those, repeated failures, snapshots of the subscription and the events of other organisations
  included, leaves the stamp, so that the caps are the nominal plan's for seven days from it and the
  free plan's after.
\<close>

theorem grace_clock_holds:
  assumes "settings_ok (settings_of st)" "event_type \<in> set PAST_DUE_EVENTS" "payer_org data = Some org"
    and "\<not> setting_true env org ''payment_past_due'' st"
    and "past_due_stamp (ne_cal (be_note env)) (be_doubles env) (ne_fl (be_note env)) (ne_now (be_note env)) data = Inr v"
    and "\<forall>k. \<not> ne_fails (be_note env) (SetSetting k)"
    and "\<forall>(env1, event1, data1) \<in> set events. \<not> releases org event1 data1 \<and>
      \<not> ne_fails (be_note env1) (GetSetting ''payment_past_due'')"
    and "\<forall>s. \<not> ne_fails (be_note env2) s" "\<not> ne_is_local_auth (be_note env2)"
    and "v \<noteq> []" "parse_past_due_at (be_rfc3339 env2) (be_naive env2) v = Some dt"
  shows "grace_plan (be_rfc3339 env2) (be_naive env2) (ne_is_local_auth (be_note env2))
      (plan_db env2 org (run_events events (snd (dispatch env event_type (Some data) st)))) utc nominal =
    (if utc - dt > days PAYMENT_GRACE_DAYS then ''free_org'' else nominal)"
  by (rule debt_plan [OF debt_events [OF debt_entered [OF assms(1-6)] assms(7)] assms(8-11)])

section \<open>Deliveries\<close>

lemma processed_frames [simp]:
  "bl_processed (tables_step g st) = bl_processed st" "bl_processed (set_setting env o1 k x st) = bl_processed st"
  "bl_processed (invalidate_plan o1 st) = bl_processed st" "bl_processed (set_org_member_limit env o1 n st) = bl_processed st"
  "bl_processed (announce env o1 note st) = bl_processed st"
  by (simp_all add: tables_step_def set_setting_def invalidate_plan_def set_org_member_limit_def announce_def split: option.split)

lemma processed_reenforce [simp]: "bl_processed (snd (reenforce env o1 st)) = bl_processed st"
  by (simp add: reenforce_def Let_def split: prod.split option.split)

lemma processed_branches [simp]:
  "bl_processed (snd (subscription_snapshot env o1 data st)) = bl_processed st"
  "bl_processed (snd (item_activated env o1 slug st)) = bl_processed st"
  "bl_processed (snd (past_due env o1 data st)) = bl_processed st"
  "bl_processed (snd (payment_attempt env o1 data st)) = bl_processed st"
  "bl_processed (snd (item_ended env o1 st)) = bl_processed st"
  "bl_processed (membership_notification env event_type data st) = bl_processed st"
  "bl_processed (erase_if_account_gone env data st) = bl_processed st"
  "bl_processed (delete_org_if_empty env data st) = bl_processed st"
  "bl_processed (organization_created env data st) = bl_processed st"
  "bl_processed (snd (organization_deleted env data st)) = bl_processed st"
  "bl_processed (snd (user_deleted env data st)) = bl_processed st"
  by (simp_all add: subscription_snapshot_def item_activated_def past_due_def payment_attempt_def item_ended_def
      membership_notification_def erase_if_account_gone_def delete_org_if_empty_def organization_created_def
      organization_deleted_def user_deleted_def Let_def split: option.split sum.split prod.split)

lemma processed_dispatch: "bl_processed (snd (dispatch env event_type data st)) = bl_processed st"
  by (simp add: dispatch_def branch_def for_payer_def Let_def split: option.split)

lemma clerk_webhook_cases:
  assumes "clerk_webhook env rate now_secs headers body st = (r, st')"
  obtains (refused) e where "r = Inl e" "st' = st"
    | (acted) secret event where "be_secret env = Some secret" "verify_svix (ne_sha (be_note env)) secret headers body now_secs"
      "act_on env (msg_id_of headers) event st = (r, st')"
  using assms by (auto simp: clerk_webhook_def msg_id_of_def split: sum.splits option.splits if_splits json.splits)

lemma act_on_effect:
  assumes "act_on env msg_id event st = (r, st')" "msg_id \<noteq> []"
  shows "(\<exists>e. r = Inl e) \<and> bl_processed st' = bl_processed st \<or>
    (\<exists>j. r = Inr j) \<and> (\<exists>d \<in> set (bl_processed st'). dv_msg_id d = msg_id)"
proof -
  define et where "et = (case Option.bind (map_of event ''type'') as_str of Some s \<Rightarrow> s | None \<Rightarrow> [])"
  define data where "data = as_object (case map_of event ''data'' of Some v \<Rightarrow> v | None \<Rightarrow> Object [])"
  obtain x st1 where d: "dispatch env et data st = (x, st1)" by force
  have p: "bl_processed st1 = bl_processed st" using processed_dispatch [of env et data st] by (simp add: d)
  show ?thesis
    using assms p by (auto simp: act_on_def Let_def et_def [symmetric] data_def [symmetric] d record_processed_def record_delivery_def
        split: if_splits sum.splits prod.splits)
qed

lemma seen_is_skipped:
  assumes "d \<in> set (bl_processed st)" "dv_msg_id d = msg_id_of headers"
  shows "snd (clerk_webhook env rate now_secs headers body st) = st"
proof -
  obtain r st' where run: "clerk_webhook env rate now_secs headers body st = (r, st')" by force
  then show ?thesis
  proof (cases rule: clerk_webhook_cases)
    case (acted secret event)
    then have "msg_id_of headers \<noteq> []" by (auto simp: verify_svix_def msg_id_of_def Let_def)
    then show ?thesis using acted(3) assms run by (auto simp: act_on_def Let_def split: if_splits)
  qed (simp add: run)
qed

text \<open>
  C26. A delivery of Clerk that is not signed changes nothing. One that was answered as received is marked, and no later
  delivery with its message id changes anything, whatever it carries; one that ended in an error is not
  marked, so that it is tried again.
\<close>

theorem billing_delivery_once:
  assumes "clerk_webhook env rate now_secs headers body st = (r, st')"
  shows "(st' \<noteq> st \<longrightarrow> (\<exists>secret. be_secret env = Some secret \<and>
      verify_svix (ne_sha (be_note env)) secret headers body now_secs)) \<and>
    (\<forall>j. r = Inr j \<longrightarrow> (\<forall>(env1 :: 'z billing_env) rate1 now1 headers1 body1. msg_id_of headers1 = msg_id_of headers \<longrightarrow>
      snd (clerk_webhook env1 rate1 now1 headers1 body1 st') = st')) \<and>
    (\<forall>e. r = Inl e \<longrightarrow> bl_processed st' = bl_processed st)"
  using assms
proof (cases rule: clerk_webhook_cases)
  case (acted secret event)
  then have "msg_id_of headers \<noteq> []" by (auto simp: verify_svix_def msg_id_of_def Let_def)
  from act_on_effect [OF acted(3) this] show ?thesis
    using acted(1,2) seen_is_skipped by (metis sum.distinct(1))
qed simp

section \<open>What a deleted account leaves in the inbox, and the cached recipients\<close>

lemma create_notification_row:
  assumes "inbox_enabled (ne_fails ne) (nw_settings w) org (nn_kind n)" "\<not> ne_fails ne InsertNotification"
  shows "\<exists>row \<in> set (nw_notifications (snd (create_notification ne org n w))).
    nr_org row = org \<and> nr_title row = truncate_chars (nn_title n) 200"
  using assms by (simp add: create_notification_def email_channel_frame row_of_def Let_def)

text \<open>
  The removal is announced before the account's data is erased, and the erasure leaves the inbox alone: the
  title of the announcement keeps the address.
\<close>

lemma announced_name_survives:
  fixes env :: "'z billing_env"
  defines "ne \<equiv> be_note env"
  assumes "non_empty_str (map_of (truthy_object (map_of data ''organization'')) ''id'') = Some org"
    and "inbox_enabled (ne_fails ne) (settings_of st) org ''member_removed''" "\<not> ne_fails ne InsertNotification"
  shows "\<exists>row \<in> set (nw_notifications (world_of (bl_tables (snd (dispatch env ''organizationMembership.deleted'' (Some data) st))))).
    nr_org row = org \<and>
    nr_title row = truncate_chars (''Member removed: '' @ member_identifier (truthy_object (map_of data ''public_user_data''))) 200"
proof -
  let ?n = "membership_note ''organizationMembership.deleted'' (truthy_object (map_of data ''public_user_data'')) data"
  let ?st = "announce env org ?n st"
  have n: "nn_kind ?n = ''member_removed''"
    "nn_title ?n = ''Member removed: '' @ member_identifier (truthy_object (map_of data ''public_user_data''))"
    by (simp_all add: membership_note_def notification_new_def Let_def)
  have d: "snd (dispatch env ''organizationMembership.deleted'' (Some data) st) =
      delete_org_if_empty env data (erase_if_account_gone env data ?st)"
    using assms(2) by (simp add: dispatch_def HANDLED_EVENTS_def branch_def MEMBERSHIP_EVENTS_def SUBSCRIPTION_EVENTS_def
        PAST_DUE_EVENTS_def membership_notification_def Let_def)
  have e: "nw_notifications (world_of (snd (erase_user_data a b c u es t))) = nw_notifications (world_of t)" for a b c u es t
    using erase_user_data_cases [of a b c u es t] by (cases "erase_user_data a b c u es t") (auto simp: erased_columns)
  have "nw_notifications (world_of (bl_tables (delete_org_if_empty env data (erase_if_account_gone env data ?st)))) =
      nw_notifications (world_of (bl_tables ?st))"
    by (simp add: delete_org_if_empty_def erase_if_account_gone_def tables_step_def e Let_def split: option.split)
  moreover have "world_of (bl_tables ?st) = snd (create_notification ne org ?n (world_of (bl_tables st)))"
    by (simp add: announce_def tables_step_def ne_def)
  ultimately show ?thesis
    using create_notification_row [of ne "world_of (bl_tables st)" org ?n] assms(3,4) n by (simp add: d)
qed

text \<open>The addresses looked up before a member left are still the ones mail goes to: the cache is not touched.\<close>

lemma membership_keeps_recipients:
  assumes "\<not> ne_email_switch (be_note env)" "event_type \<in> set MEMBERSHIP_EVENTS"
  shows "nw_cache (world_of (bl_tables (membership_notification env event_type data st))) = nw_cache (world_of (bl_tables st))"
  using assms
  by (simp add: membership_notification_def announce_def tables_step_def create_notification_def email_channel_def
      email_enabled_def dispatch_agent_def Let_def split: option.split)

text \<open>A count that cannot be read is no members: the organisation is deleted at Clerk.\<close>

lemma unreadable_count_deletes_the_organisation:
  assumes "non_empty_str (Option.bind (map_of data ''organization'') (json_get ''id'')) = Some org"
    and "\<And>path. ck_build (be_clerk env) path = Some (concat path)" "\<And>url query. ck_get (be_clerk env) url query = Answer 200 None"
    and "org \<notin> {''.'', ''..''}"
  shows "[''organizations'', org] \<in> set (bl_deletions (delete_org_if_empty env data st))"
  using assms
  by (auto simp: delete_org_if_empty_def organization_member_count_def clerk_get_def clerk_url_def clerk_answer_def
      clerk_delete_def member_of_def as_i64.simps non_empty_str_def split: option.splits if_splits)

section \<open>Samples\<close>

definition sample_payer :: "(string \<times> json) list" where
  "sample_payer = [(''payer'', Object [(''organization_id'', String ''o'')])]"

definition sample_billing_env :: "unit billing_env" where
  "sample_billing_env =
     \<lparr>be_note = sample_note_env\<lparr>ne_sha := \<lambda>_. []\<rparr>, be_hook_fails = (\<lambda>_. False), be_erase_fails = (\<lambda>_. False),
      be_secret = Some ''whsec_'',
      be_from_slice = (\<lambda>_. Some (Object [(''type'', String ''subscription.pastDue''), (''data'', Object sample_payer)])),
      be_lower = to_lowercase, be_sql_lower = to_lowercase,
      be_doubles = \<lparr>fd_of_int = of_int, fd_div_1000 = (\<lambda>r. r / 1000), fd_times_million = (\<lambda>r. r * 1000000), fd_parse = (\<lambda>_. None)\<rparr>,
      be_utc = 0, be_rfc3339 = (\<lambda>_. Some 0), be_naive = (\<lambda>_. None), be_subscription = (\<lambda>_. None), be_cameras_fail = False,
      be_cap_ok = (\<lambda>_. True), be_clerk = dl_clerk (sample_account None)\<rparr>"

definition sample_billing :: billing where
  "sample_billing = \<lparr>bl_tables = sample_erasure, bl_caches = caches_default, bl_seats = [], bl_deletions = [], bl_processed = []\<rparr>"

definition sample_snapshot :: "unit clerk_event" where
  "sample_snapshot = (sample_billing_env, ''subscription.updated'', Some (sample_payer @
     [(''items'', Array [Object [(''status'', String ''active''), (''plan'', Object [(''slug'', String ''pro'')])]])]))"

lemma grace_clock_holds_witness:
  "grace_plan (\<lambda>_. Some 0) (\<lambda>_. None) False (plan_db sample_billing_env ''o''
      (run_events [sample_snapshot] (snd (dispatch sample_billing_env ''subscription.pastDue'' (Some sample_payer) sample_billing))))
    (days 8) ''pro'' = ''free_org''"
proof -
  let ?env = sample_billing_env and ?v = "iso_aware_utc gregorian 1000"
  have s: "settings_of sample_billing = [\<lparr>st_id = 1, st_org = ''o'', st_key = ''welcome_notifications'', st_value = Some ''false'', st_updated = 0\<rparr>]"
    by (simp add: sample_billing_def sample_erasure_def sample_tables_def sample_fleet_def sample_note_world_def)
  have 1: "settings_ok (settings_of sample_billing)" by (simp add: s settings_ok_def)
  have 2: "payer_org sample_payer = Some ''o''" by (simp add: payer_org_def sample_payer_def non_empty_str_def)
  have n: "ne_fails (be_note ?env) x = False" "ne_cal (be_note ?env) = gregorian" "ne_now (be_note ?env) = 1000"
    "ne_is_local_auth (be_note ?env) = False" "be_rfc3339 ?env = (\<lambda>_. Some 0)" "be_naive ?env = (\<lambda>_. None)" for x
    by (simp_all add: sample_billing_env_def sample_note_env_def)
  have 3: "\<not> setting_true ?env ''o'' ''payment_past_due'' sample_billing"
    by (simp add: setting_true_iff n stored_def s find_setting_def)
  have 4: "past_due_stamp (ne_cal (be_note ?env)) (be_doubles ?env) (ne_fl (be_note ?env)) (ne_now (be_note ?env)) sample_payer = Inr ?v"
    by (simp add: past_due_stamp_def sample_payer_def n)
  have 5: "\<forall>(env1, event1, data1) \<in> set [sample_snapshot]. \<not> releases ''o'' event1 data1 \<and>
      \<not> ne_fails (be_note env1) (GetSetting ''payment_past_due'')"
    by (simp add: sample_snapshot_def releases_def n)
  have 6: "?v \<noteq> []" by (simp add: iso_aware_utc_def)
  have 7: "parse_past_due_at (be_rfc3339 ?env) (be_naive ?env) ?v = Some 0" by (simp add: parse_past_due_at_def n)
  have 8: "''subscription.pastDue'' \<in> set PAST_DUE_EVENTS" by (simp add: PAST_DUE_EVENTS_def)
  have "(if days 8 - 0 > days PAYMENT_GRACE_DAYS then ''free_org'' else ''pro'') = ''free_org''"
    by (simp add: days_def PAYMENT_GRACE_DAYS_def)
  then show ?thesis
    using grace_clock_holds [OF 1 8 2 3 4 _ 5 _ _ 6 7, of "days 8" "''pro''"] by (simp add: n)
qed

lemma billing_delivery_once_witness:
  "\<exists>j st'. clerk_webhook sample_billing_env (Inr ()) 5 sample_headers ''b'' sample_billing = (Inr j, st') \<and>
    snd (clerk_webhook sample_billing_env (Inr ()) 6 sample_headers ''c'' st') = st'"
proof -
  let ?env = sample_billing_env
  obtain r st' where run: "clerk_webhook ?env (Inr ()) 5 sample_headers ''b'' sample_billing = (r, st')" by force
  have v: "verify_svix (ne_sha (be_note ?env)) ''whsec_'' sample_headers ''b'' 5"
    using sample_verified by (simp add: sample_billing_env_def)
  have m: "header_either sample_headers ''svix-id'' ''webhook-id'' = ''m''" by code_simp
  have d: "fst (dispatch ?env ''subscription.pastDue'' (Some sample_payer) sample_billing) = Inr ()"
    by (simp add: dispatch_def HANDLED_EVENTS_def PAST_DUE_EVENTS_def branch_def SUBSCRIPTION_EVENTS_def for_payer_def
        payer_org_def sample_payer_def non_empty_str_def past_due_def past_due_stamp_def Let_def)
  then have "\<exists>j. r = Inr j"
    using run v m
    by (auto simp: clerk_webhook_def act_on_def record_processed_def sample_billing_env_def sample_billing_def Let_def
        split: prod.splits sum.splits)
  then show ?thesis using billing_delivery_once [OF run] run by fastforce
qed

end
