(* ===== verification/Spec2Isabelle.thy ===== *)
theory Spec2Isabelle
  imports
    Hls_Cache PyInt RateLimit Ws Mcp_Scope Plans Sse Versions Csv_Export
    PyRepr Settings License Json_Written Query Sentinel_Runs Sentinel_Config Sentinel_Dispatch
    Registration Billing
begin

text \<open>
  Verification of the Sentinel Command Center backend, \<^verbatim>\<open>backend-rs/src\<close> (file names below are
  relative to it).

  \<^bold>\<open>The program.\<close> The backend serves organisations that run cameras behind on-premises nodes.
  Nodes push HLS segments and keep a command channel open (\<^verbatim>\<open>hls.rs\<close>, \<^verbatim>\<open>ws.rs\<close>); browsers watch
  streams and events (\<^verbatim>\<open>hls.rs\<close>, \<^verbatim>\<open>sse.rs\<close>); plans cap what an organisation may use (\<^verbatim>\<open>plans.rs\<close>)
  and a licence gates self-hosted installs (\<^verbatim>\<open>license.rs\<close>); motion and incidents wake the Sentinel
  agent, whose runs are queued, claimed, completed and reaped (\<^verbatim>\<open>sentinel_dispatch.rs\<close>,
  \<^verbatim>\<open>api/sentinel_config.rs\<close>, \<^verbatim>\<open>api/sentinel.rs\<close>, \<^verbatim>\<open>loops.rs\<close>); tools of language models are scoped and
  limited (\<^verbatim>\<open>mcp/scope.rs\<close>). Requests pass the rate limiter (\<^verbatim>\<open>ratelimit.rs\<close>) and are validated the
  way the service's former Python implementation did it (\<^verbatim>\<open>query.rs\<close>, \<^verbatim>\<open>pyint.rs\<close>, \<^verbatim>\<open>pyjson.rs\<close>,
  \<^verbatim>\<open>pyrepr.rs\<close>); what admins change is audited (\<^verbatim>\<open>audit.rs\<close>).

  \<^bold>\<open>Conventions.\<close> A struct is a record, an enum a datatype, a method one definition of the same name
  (a prefix or suffix is added where HOL has the name). Strings are byte lists in UTF-8; \<open>Utf8\<close> has
  \<open>str::chars\<close>. A hash map is an association list with distinct keys, a B-tree map a sorted one. A
  database table is the list of its rows; a handler that reads and later writes takes the table as
  it \<open>saw\<close> it beside the table it changes, so overlapping requests are steps in any order. A
  clock reading is an argument, in nano- or microseconds as the text of each theory says. A failing
  query or request is an argument where the code reacts to it. What third-party crates
  compute (\<open>serde_json\<close>, \<open>chrono\<close>, \<open>jiff\<close>, the SHA-256 digest, formatting and parsing of doubles) is a
  parameter; where a property needs something of it, it is a named hypothesis and the witness
  has an instance. No definition uses fuel: loops are structural recursion or come with a measure;
  the JSON scanner's four mutually recursive routines terminate because each returns a position
  past the one it was given (\<open>PyJson\<close>). Machine integers are \<open>word\<close>s or integers with the bound
  written out.

  \<^bold>\<open>The theories.\<close>

  \<^item> \<open>Sentinel_Prelude\<close>, \<open>Utf8\<close>, \<open>Windows\<close>, \<open>Json\<close>: the shared library. Lists, maps, decimal numbers,
    trimming; the locale \<open>keyed_map\<close>, interpreted on the association lists of the hash and B-tree
    maps; the locales \<open>sliding_window\<close> and \<open>swept_table\<close> for limiters: a table of counters that are
    swept now and then is observed as one independent counter per key.
  \<^item> \<open>Hls_Segments\<close>, \<open>Hls_Auth\<close>, \<open>Hls_Cache\<close> (\<^verbatim>\<open>hls.rs\<close>): the segment store with its two eviction
    passes, the auth answers tagged with a generation, playlists, logs and viewer seconds.
    C13: the byte total is exact and both caps hold after every push; the live edge,
    the order of the names, the stale sweep and snapshots are lemmas. C12: under
    any interleaving a served answer is the database's (locale \<open>auth_slot\<close>, interpreted on the three
    caches). C16: seconds are counted once.
  \<^item> \<open>PyInt\<close> (\<^verbatim>\<open>pyint.rs\<close>): integers as Python reads them, C40. \<open>PyDatetime\<close>
    (\<^verbatim>\<open>pydatetime.rs\<close>): dates as Python reads them, over a calendar whose Gregorian instance is proved
    sound, C38 and C39.
  \<^item> \<open>Crypto\<close> (\<^verbatim>\<open>crypto.rs\<close>): HMAC, hex and base64 (locale \<open>alphabet64\<close>, both alphabets).
  \<^item> \<open>RateLimit\<close>, \<open>Mcp_Scope\<close>, \<open>Plans\<close> (\<^verbatim>\<open>ratelimit.rs\<close>, \<^verbatim>\<open>mcp/scope.rs\<close>, \<^verbatim>\<open>plans.rs\<close>): the limiters
    refine one window per key (C21, C22, and \<open>mcp_limiter_exact\<close>), scopes
    never widen (C28), plans and camera caps (C23,
    C24).
  \<^item> \<open>Ws\<close>, \<open>Sse\<close> (\<^verbatim>\<open>ws.rs\<close>, \<^verbatim>\<open>sse.rs\<close>): the node command channel, C33,
    C18 and C32, and event streams, C19.
  \<^item> \<open>Versions\<close>, \<open>Csv_Export\<close>: the version gate; exports read back, C37.
  \<^item> \<open>PyRepr\<close>, \<open>PyJson\<close>, \<open>Audit_Trail\<close>, \<open>Json_Written\<close> (\<^verbatim>\<open>pyrepr.rs\<close>, \<^verbatim>\<open>pyjson.rs\<close>, \<^verbatim>\<open>audit.rs\<close>): the text of
    values as Python writes it, the JSON scanner and the JSON writer. C36: what the
    writer prints the scanner accepts; \<open>repr_str_roundtrip\<close>, \<open>decode_error_located\<close>: a \<open>repr\<close> reads
    back, and an error points into the text.
  \<^item> \<open>Settings\<close>, \<open>License\<close> (\<^verbatim>\<open>settings.rs\<close>, \<^verbatim>\<open>license.rs\<close>): the settings table refines a map (locale
    \<open>key_value\<close>, interpreted on it), C34; the gate after any history of
    check-ins, C25.
  \<^item> \<open>Query\<close> (\<^verbatim>\<open>error.rs\<close>, \<^verbatim>\<open>query.rs\<close>): error values, query strings, bodies and their fields.
    C29: a decoded body can be stored. Bounded integers pass
    exactly when in range (\<open>bounded_integers_validated\<close>). \<open>collects\<close> is the shape every field check has: a value and the errors
    it adds.
  \<^item> \<open>Sentinel_Runs\<close>, \<open>Sentinel_Config\<close>, \<open>Sentinel_Dispatch\<close>: the agent's queue. The relation \<open>run_step\<close>
    is the life of a run; C6: runs only move forward, are claimed at most once and never
    stay stale; C20: a scoped agent stays in its organisation. C35: a
    schedule means what it says. C15: a notification queues a run exactly when every gate
    is open. C7: the relation \<open>sentinel_step\<close>, in which notifications, "Run now", the agent
    and the reaper act on each other's stale reads, keeps the monthly cap and refines \<open>run_step\<close>.
  \<^item> \<open>Mail\<close>, \<open>Webhooks\<close>, \<open>Unsubscribe\<close> (\<^verbatim>\<open>email.rs\<close>, \<^verbatim>\<open>email_worker.rs\<close>, \<^verbatim>\<open>api/webhooks.rs\<close>,
    \<^verbatim>\<open>email_unsubscribe.rs\<close>): the outbox and its worker, the provider's events, the links. The state
    keeps the requests that were posted. C8: one request for each row of a batch and none
    to a suppressed address. C9: repeated ticks settle every row. C27, \<open>replay_window\<close>:
    signed events count once and only for a while.
  \<^item> \<open>Recipients\<close>, \<open>Notifications\<close> (\<^verbatim>\<open>recipients.rs\<close>, \<^verbatim>\<open>notifications.rs\<close>): who is told and how. The world
    of a notification is one record: settings, inbox, event streams, mail, recipient cache, agent
    runs and debounce map. C31: the cache under any interleaving. C11:
    inbox and mail pass their own gates. C17: one motion mail per window.
  \<^item> \<open>Fleet\<close>, \<open>Node_Register\<close>, \<open>Node_Heartbeat\<close> (\<^verbatim>\<open>models.rs\<close>, \<^verbatim>\<open>api/node_register.rs\<close>, parts of
    \<^verbatim>\<open>api/node_writes.rs\<close> and \<^verbatim>\<open>loops.rs\<close>): the tables of nodes and cameras, the offline sweep
    (C30), registration and heartbeat with every statement they make. \<open>Fleet_Keys\<close> has the
    invariant \<open>fleet_ok\<close> of the two tables and \<open>own_change\<close>, what a step for one node leaves alone;
    \<open>Node_Requests\<close> and \<open>Registration\<close> follow the handlers with it: C4 and
    C14 for whatever a request answers, C5 for one that
    succeeds.
  \<^item> \<open>Erasure\<close>, \<open>Account\<close>, \<open>Billing\<close> (\<^verbatim>\<open>api/gdpr.rs\<close>, \<^verbatim>\<open>api/settings.rs\<close>, \<^verbatim>\<open>api/account.rs\<close>,
    \<^verbatim>\<open>api/clerk_webhook.rs\<close>): the tables of the other theories and the untyped rest as one state, with the
    foreign keys. C1: deleting an organisation leaves nothing of it and all of the
    others. C10, C3: forgetting a person, and deleting the account with
    the organisations it is alone in; what is sent to Clerk is kept in order. C2: what
    billing events do to the plan for caps of \<open>Plans\<close>; C26: they act once.

  \<^bold>\<open>What the modelling showed.\<close> Lemmas named in the theories prove each: a licence answered "invalid"
  is forgotten at the next unreachable check-in (\<open>revoked_licence_reopens\<close>), a run that waits across
  the end of a month overshoots the cap (\<open>month_boundary_overshoot\<close>), a camera-cap update that fails
  half way skips the cache invalidation (\<open>partial_failure_skips_invalidation\<close>), a camera that replaces
  another at the cap is skipped (\<open>replacement_skipped_at_cap\<close>), an answer of Clerk that cannot be read
  deletes an organisation (\<open>unreadable_members_delete_the_organisation\<close>), and the corner cases of \<open>PyInt\<close>.

  \<^bold>\<open>Not modelled.\<close> Start-up and wiring, the environment, sqlx, mail templates, static pages and the web
  frontend: input and output with no logic of their own to state. Not yet modelled, in the order
  planned: agent keys and the run list (the rest of \<^verbatim>\<open>api/sentinel.rs\<close> and \<^verbatim>\<open>api/sentinel_config.rs\<close>),
  the other loops of \<^verbatim>\<open>loops.rs\<close>, incidents, the MCP tools, authentication, the agent process.
\<close>

end
